(* ===== verification/Prelude.thy ===== *)
theory Prelude
  imports Main "HOL-Library.Word"
begin

unbundle bit_operations_syntax

text \<open>
  Shared vocabulary of the development: the machine types of the C code, the limits of
  \<^verbatim>\<open>stdint.h\<close> and \<^verbatim>\<open>limits.h\<close> on the 64-bit targets the program is built for, the
  copying primitives of \<^verbatim>\<open>string.h\<close> on byte buffers, and the generic list and word facts
  that the component theories rest on.
\<close>

section \<open>Machine types and limits\<close>

type_synonym u8 = "8 word"
type_synonym u16 = "16 word"
type_synonym u32 = "32 word"
type_synonym u64 = "64 word"
type_synonym bytes = "8 word list"

definition SIZE_MAX :: nat where
  "SIZE_MAX = 18446744073709551615"

definition UINT32_MAX :: nat where
  "UINT32_MAX = 4294967295"

definition UINT_MAX :: nat where
  "UINT_MAX = 4294967295"

definition INT32_MIN :: int where
  "INT32_MIN = -2147483648"

definition INT32_MAX :: int where
  "INT32_MAX = 2147483647"

named_theorems limit_defs \<open>the integer limits unfolded to numerals\<close>

lemmas limits [limit_defs] =
  SIZE_MAX_def UINT32_MAX_def UINT_MAX_def INT32_MIN_def INT32_MAX_def

text \<open>Unsigned \<^verbatim>\<open>size_t\<close> addition wraps at \<^verbatim>\<open>SIZE_MAX + 1\<close>.\<close>

definition size_add :: "nat \<Rightarrow> nat \<Rightarrow> nat" where
  "size_add a b = (a + b) mod (SIZE_MAX + 1)"

lemma size_add_exact [simp]: "a + b \<le> SIZE_MAX \<Longrightarrow> size_add a b = a + b"
  by (simp add: size_add_def)

section \<open>Byte buffers\<close>

text \<open>\<^verbatim>\<open>memcpy(buf + off, xs, len)\<close> into a buffer that has room for it.\<close>

definition mem_write :: "'a list \<Rightarrow> nat \<Rightarrow> 'a list \<Rightarrow> 'a list" where
  "mem_write buf off xs = take off buf @ xs @ drop (off + length xs) buf"

text \<open>The bytes \<^verbatim>\<open>buf[off .. off + len)\<close>.\<close>

definition mem_read :: "'a list \<Rightarrow> nat \<Rightarrow> nat \<Rightarrow> 'a list" where
  "mem_read buf off len = take len (drop off buf)"

lemma length_mem_write [simp]:
  "off + length xs \<le> length buf \<Longrightarrow> length (mem_write buf off xs) = length buf"
  by (simp add: mem_write_def)

lemma length_mem_read [simp]: "off + len \<le> length buf \<Longrightarrow> length (mem_read buf off len) = len"
  by (simp add: mem_read_def)

lemma mem_read_write_same:
  "off + length xs \<le> length buf \<Longrightarrow> mem_read (mem_write buf off xs) off (length xs) = xs"
  by (simp add: mem_read_def mem_write_def)

lemma mem_read_write_before:
  "off + len \<le> k \<Longrightarrow> k \<le> length buf \<Longrightarrow> mem_read (mem_write buf k xs) off len = mem_read buf off len"
  by (simp add: mem_read_def mem_write_def min_def take_drop)

lemma mem_read_append:
  "mem_read buf off (m + n) = mem_read buf off m @ mem_read buf (off + m) n"
  by (simp add: mem_read_def take_add add.commute)

lemma mem_read_split:
  assumes "off \<le> mid" and "mid \<le> end'"
  shows "mem_read buf off (end' - off) = mem_read buf off (mid - off) @ mem_read buf mid (end' - mid)"
  using mem_read_append [of buf off "mid - off" "end' - mid"] assms by simp

lemma mem_write_append_read:
  assumes "off \<le> k" and "k + length xs \<le> length buf"
  shows "mem_read (mem_write buf k xs) off (k + length xs - off) = mem_read buf off (k - off) @ xs"
proof -
  have "mem_read (mem_write buf k xs) off (k + length xs - off)
      = mem_read (mem_write buf k xs) off (k - off)
        @ mem_read (mem_write buf k xs) k (k + length xs - k)"
    using assms by (intro mem_read_split) auto
  then show ?thesis
    using assms by (simp add: mem_read_write_same mem_read_write_before)
qed

lemma mem_read_mem_read:
  "off + len \<le> n \<Longrightarrow> mem_read (mem_read buf base n) off len = mem_read buf (base + off) len"
  by (simp add: mem_read_def take_drop drop_drop min_def add.commute add.left_commute)

lemma nth_mem_read: "i < len \<Longrightarrow> off + len \<le> length buf \<Longrightarrow> mem_read buf off len ! i = buf ! (off + i)"
  by (simp add: mem_read_def)

section \<open>Lists read through a ring\<close>

text \<open>
  The \<open>n\<close> cells of a buffer that start at \<open>h\<close> and wrap at its end: what the queue's
  \<^verbatim>\<open>(head + i) % capacity\<close> indexing reads.
\<close>

definition ring_read :: "'a list \<Rightarrow> nat \<Rightarrow> nat \<Rightarrow> 'a list" where
  "ring_read xs h n = map (\<lambda>i. xs ! ((h + i) mod length xs)) [0..<n]"

lemma length_ring_read [simp]: "length (ring_read xs h n) = n"
  by (simp add: ring_read_def)

lemma ring_read_0 [simp]: "ring_read xs h 0 = []"
  by (simp add: ring_read_def)

lemma ring_read_Suc: "ring_read xs h (Suc n) = ring_read xs h n @ [xs ! ((h + n) mod length xs)]"
  by (simp add: ring_read_def)

lemma ring_read_Cons: "ring_read xs h (Suc n) = xs ! (h mod length xs) # ring_read xs (Suc h) n"
  by (simp add: ring_read_def upt_conv_Cons map_Suc_upt [symmetric] del: upt_Suc)

lemma ring_read_mod: "ring_read xs (h mod length xs) n = ring_read xs h n"
  by (simp add: ring_read_def mod_add_left_eq)

lemma mod_add_inj:
  fixes h i j c :: nat
  assumes "(h + i) mod c = (h + j) mod c" and "i < c" and "j < c"
  shows "i = j"
proof (rule ccontr)
  assume "i \<noteq> j"
  then consider "i < j" | "j < i" by linarith
  then show False
  proof cases
    case 1
    then have "(j - i) mod c = 0"
      using assms(1) mod_eq_dvd_iff_nat [of "h + i" "h + j" c] by simp
    with 1 assms(3) show False by simp
  next
    case 2
    then have "(i - j) mod c = 0"
      using assms(1) mod_eq_dvd_iff_nat [of "h + j" "h + i" c] by simp
    with 2 assms(2) show False by simp
  qed
qed

lemma ring_read_update:
  assumes "n < length xs"
  shows "ring_read (xs[(h + n) mod length xs := x]) h (Suc n) = ring_read xs h n @ [x]"
proof -
  have "xs[(h + n) mod length xs := x] ! ((h + i) mod length xs) = xs ! ((h + i) mod length xs)"
    if "i < n" for i
    using that assms mod_add_inj [of h i "length xs" n] by (intro nth_list_update_neq) auto
  then have "ring_read (xs[(h + n) mod length xs := x]) h n = ring_read xs h n"
    by (simp add: ring_read_def)
  moreover have "(h + n) mod length xs < length xs"
    using assms by (intro mod_less_divisor) auto
  ultimately show ?thesis by (simp add: ring_read_Suc)
qed

section \<open>Machine words\<close>

lemma unat_inc32: "unat (w :: u32) < UINT32_MAX \<Longrightarrow> unat (w + 1) = unat w + 1"
  by (simp add: unat_word_ariths UINT32_MAX_def)

lemma unat_dec32: "unat (w :: u32) \<noteq> 0 \<Longrightarrow> unat (w - 1) = unat w - 1"
  using unat_sub [of 1 w] by (simp add: word_le_nat_alt)

end
