(* ===== verification/Core_Base.thy ===== *)
theory Core_Base
  imports Prelude
begin

text \<open>
  The small primitives of \<^verbatim>\<open>src/core\<close>: the status codes (\<^verbatim>\<open>error.h\<close>, \<^verbatim>\<open>error.c\<close>), the
  monotonic clock and its deadlines (\<^verbatim>\<open>clock.c\<close>) and the start/stop owner
  (\<^verbatim>\<open>lifecycle.c\<close>). Readings of \<^verbatim>\<open>CLOCK_MONOTONIC\<close> are arguments (\<open>now\<close>), the success of
  \<^verbatim>\<open>pthread_mutex_init\<close> is a Boolean argument, and an operation that the C code runs under
  its mutex is one function on the protected fields.
\<close>

section \<open>Status codes\<close>

datatype savvy_status =
    SAVVY_OK
  | SAVVY_ERR_INVALID_ARGUMENT
  | SAVVY_ERR_OUT_OF_MEMORY
  | SAVVY_ERR_IO
  | SAVVY_ERR_PROTOCOL
  | SAVVY_ERR_TIMEOUT
  | SAVVY_ERR_NOT_CONNECTED
  | SAVVY_ERR_ALREADY_STARTED
  | SAVVY_ERR_NOT_STARTED
  | SAVVY_ERR_CLOSED
  | SAVVY_ERR_OVERFLOW
  | SAVVY_ERR_CANCELLED
  | SAVVY_ERR_UNKNOWN

fun savvy_status_str :: "savvy_status \<Rightarrow> string" where
  "savvy_status_str SAVVY_OK = ''OK''"
| "savvy_status_str SAVVY_ERR_INVALID_ARGUMENT = ''INVALID_ARGUMENT''"
| "savvy_status_str SAVVY_ERR_OUT_OF_MEMORY = ''OUT_OF_MEMORY''"
| "savvy_status_str SAVVY_ERR_IO = ''IO''"
| "savvy_status_str SAVVY_ERR_PROTOCOL = ''PROTOCOL''"
| "savvy_status_str SAVVY_ERR_TIMEOUT = ''TIMEOUT''"
| "savvy_status_str SAVVY_ERR_NOT_CONNECTED = ''NOT_CONNECTED''"
| "savvy_status_str SAVVY_ERR_ALREADY_STARTED = ''ALREADY_STARTED''"
| "savvy_status_str SAVVY_ERR_NOT_STARTED = ''NOT_STARTED''"
| "savvy_status_str SAVVY_ERR_CLOSED = ''CLOSED''"
| "savvy_status_str SAVVY_ERR_OVERFLOW = ''OVERFLOW''"
| "savvy_status_str SAVVY_ERR_CANCELLED = ''CANCELLED''"
| "savvy_status_str SAVVY_ERR_UNKNOWN = ''UNKNOWN''"

text \<open>The names logged for two statuses are never confused.\<close>

lemma savvy_status_str_inj: "savvy_status_str a = savvy_status_str b \<Longrightarrow> a = b"
  by (cases a; cases b) simp_all

section \<open>Monotonic clock and deadlines\<close>

record savvy_time =
  monotonic_ns :: u64

record savvy_deadline =
  started_at :: savvy_time
  timeout_ms :: u32

text \<open>
  \<open>ts\<close> is what \<^verbatim>\<open>clock_gettime\<close> stored, \<open>None\<close> when the call failed and the
  zero-initialised \<^verbatim>\<open>timespec\<close> stayed. The casts to \<^verbatim>\<open>uint64_t\<close> wrap.
\<close>

definition savvy_clock_now :: "(int \<times> int) option \<Rightarrow> savvy_time" where
  "savvy_clock_now ts =
     (let (tv_sec, tv_nsec) = (case ts of None \<Rightarrow> (0, 0) | Some p \<Rightarrow> p)
      in \<lparr>monotonic_ns = of_int tv_sec * 1000000000 + of_int tv_nsec\<rparr>)"

definition savvy_clock_diff_ms :: "savvy_time \<Rightarrow> savvy_time \<Rightarrow> u64" where
  "savvy_clock_diff_ms later earlier =
     (if monotonic_ns later \<le> monotonic_ns earlier then 0
      else (monotonic_ns later - monotonic_ns earlier) div 1000000)"

definition savvy_deadline_arm :: "savvy_time \<Rightarrow> u32 \<Rightarrow> savvy_deadline" where
  "savvy_deadline_arm now timeout = \<lparr>started_at = now, timeout_ms = timeout\<rparr>"

definition savvy_deadline_expired :: "savvy_time \<Rightarrow> savvy_deadline \<Rightarrow> bool" where
  "savvy_deadline_expired now d \<longleftrightarrow> ucast (timeout_ms d) \<le> savvy_clock_diff_ms now (started_at d)"

definition savvy_deadline_remaining_ms :: "savvy_time \<Rightarrow> savvy_deadline \<Rightarrow> u32" where
  "savvy_deadline_remaining_ms now d =
     (let elapsed = savvy_clock_diff_ms now (started_at d)
      in if ucast (timeout_ms d) \<le> elapsed then 0
         else timeout_ms d - ucast elapsed)"

lemma unat_clock_diff_ms:
  "unat (savvy_clock_diff_ms later earlier)
     = (unat (monotonic_ns later) - unat (monotonic_ns earlier)) div 1000000"
  by (auto simp: savvy_clock_diff_ms_def unat_div unat_sub word_le_nat_alt)

lemma unat_ucast_32_64 [simp]: "unat (ucast (t :: u32) :: u64) = unat t"
  by (simp add: unsigned_ucast_eq take_bit_nat_eq_self less_trans [OF unsigned_less])

lemma ucast_le_iff: "ucast (t :: u32) \<le> (e :: u64) \<longleftrightarrow> unat t \<le> unat e"
  by (simp add: word_le_nat_alt)

lemma unat_ucast_down:
  assumes "unat (e :: u64) < unat (t :: u32)"
  shows "unat (ucast e :: u32) = unat e"
proof -
  have "unat t < 2 ^ 32" using unsigned_less [of t] by simp
  with assms have "unat e < 2 ^ 32" by linarith
  then show ?thesis by (simp add: unsigned_ucast_eq take_bit_nat_eq_self)
qed

text \<open>The remaining time is what is left of the armed timeout, without wrap-around.\<close>

lemma unat_deadline_remaining:
  "unat (savvy_deadline_remaining_ms now d)
     = unat (timeout_ms d) - unat (savvy_clock_diff_ms now (started_at d))"
proof (cases "unat (timeout_ms d) \<le> unat (savvy_clock_diff_ms now (started_at d))")
  case True
  then show ?thesis by (simp add: savvy_deadline_remaining_ms_def ucast_le_iff)
next
  case False
  then have eq: "unat (ucast (savvy_clock_diff_ms now (started_at d)) :: u32)
      = unat (savvy_clock_diff_ms now (started_at d))"
    by (intro unat_ucast_down [of _ "timeout_ms d"]) simp
  with False have "ucast (savvy_clock_diff_ms now (started_at d)) \<le> timeout_ms d"
    by (simp add: word_le_nat_alt)
  with False eq show ?thesis
    by (simp add: savvy_deadline_remaining_ms_def ucast_le_iff unat_sub)
qed

lemma deadline_expired_iff_remaining_0:
  "savvy_deadline_expired now d \<longleftrightarrow> savvy_deadline_remaining_ms now d = 0"
  by (simp add: unat_eq_0 [symmetric] unat_deadline_remaining savvy_deadline_expired_def ucast_le_iff
      del: unat_eq_0)

section \<open>Start/stop owner\<close>

datatype savvy_lifecycle_state = SAVVY_LIFECYCLE_STOPPED | SAVVY_LIFECYCLE_RUNNING

record savvy_lifecycle =
  lc_state :: savvy_lifecycle_state

text \<open>\<open>None\<close> stands for storage whose mutex was not created, which callers must not use.\<close>

definition savvy_lifecycle_init :: "bool \<Rightarrow> savvy_status \<times> savvy_lifecycle option" where
  "savvy_lifecycle_init mutex_ok =
     (if \<not> mutex_ok then (SAVVY_ERR_UNKNOWN, None)
      else (SAVVY_OK, Some \<lparr>lc_state = SAVVY_LIFECYCLE_STOPPED\<rparr>))"

definition savvy_lifecycle_start ::
  "savvy_lifecycle \<Rightarrow> savvy_status \<times> bool \<times> savvy_lifecycle" where
  "savvy_lifecycle_start lc =
     (let transitioned = (lc_state lc = SAVVY_LIFECYCLE_STOPPED)
      in (SAVVY_OK, transitioned, lc\<lparr>lc_state := SAVVY_LIFECYCLE_RUNNING\<rparr>))"

definition savvy_lifecycle_stop ::
  "savvy_lifecycle \<Rightarrow> savvy_status \<times> bool \<times> savvy_lifecycle" where
  "savvy_lifecycle_stop lc =
     (let transitioned = (lc_state lc = SAVVY_LIFECYCLE_RUNNING)
      in (SAVVY_OK, transitioned, lc\<lparr>lc_state := SAVVY_LIFECYCLE_STOPPED\<rparr>))"

definition savvy_lifecycle_get :: "savvy_lifecycle \<Rightarrow> savvy_lifecycle_state" where
  "savvy_lifecycle_get lc = lc_state lc"

lemmas lifecycle_defs =
  savvy_lifecycle_start_def savvy_lifecycle_stop_def savvy_lifecycle_get_def

datatype lc_op = LcStart | LcStop

fun lc_run :: "savvy_lifecycle \<Rightarrow> lc_op list \<Rightarrow> savvy_lifecycle \<times> (lc_op \<times> bool) list" where
  "lc_run lc [] = (lc, [])"
| "lc_run lc (LcStart # ops) =
     (case savvy_lifecycle_start lc of (_, t, lc') \<Rightarrow>
        (case lc_run lc' ops of (lc'', log) \<Rightarrow> (lc'', (LcStart, t) # log)))"
| "lc_run lc (LcStop # ops) =
     (case savvy_lifecycle_stop lc of (_, t, lc') \<Rightarrow>
        (case lc_run lc' ops of (lc'', log) \<Rightarrow> (lc'', (LcStop, t) # log)))"

text \<open>The real transitions of a run, in order.\<close>

definition lc_transitions :: "(lc_op \<times> bool) list \<Rightarrow> lc_op list" where
  "lc_transitions log = map fst (filter snd log)"

fun alternating :: "lc_op \<Rightarrow> lc_op list \<Rightarrow> bool" where
  "alternating next [] \<longleftrightarrow> True"
| "alternating next (x # xs) \<longleftrightarrow> x = next \<and> alternating (if next = LcStart then LcStop else LcStart) xs"

lemma lc_run_alternating:
  "alternating (if lc_state lc = SAVVY_LIFECYCLE_STOPPED then LcStart else LcStop)
     (lc_transitions (snd (lc_run lc ops)))"
proof (induction ops arbitrary: lc)
  case Nil
  show ?case by (simp add: lc_transitions_def)
next
  case (Cons x ops)
  show ?case
  proof (cases x)
    case LcStart
    then show ?thesis using Cons.IH [of "lc\<lparr>lc_state := SAVVY_LIFECYCLE_RUNNING\<rparr>"]
      by (cases "lc_state lc")
        (auto simp: lc_transitions_def lifecycle_defs Let_def split: prod.splits)
  next
    case LcStop
    then show ?thesis using Cons.IH [of "lc\<lparr>lc_state := SAVVY_LIFECYCLE_STOPPED\<rparr>"]
      by (cases "lc_state lc")
        (auto simp: lc_transitions_def lifecycle_defs Let_def split: prod.splits)
  qed
qed

section \<open>Properties\<close>

text \<open>
  A deadline's remaining time never increases as the clock advances, never exceeds the
  armed timeout, and is zero exactly when the deadline is reported expired, so a loop that
  waits in slices of the remaining time cannot wait longer than it was asked to.
\<close>

theorem deadline_remaining_bounds:
  assumes "monotonic_ns now \<le> monotonic_ns later"
  shows "savvy_deadline_remaining_ms later d \<le> savvy_deadline_remaining_ms now d
     \<and> savvy_deadline_remaining_ms now d \<le> timeout_ms d
     \<and> (savvy_deadline_expired now d \<longleftrightarrow> savvy_deadline_remaining_ms now d = 0)
     \<and> (savvy_deadline_expired now d \<longrightarrow> savvy_deadline_expired later d)"
proof -
  have "unat (monotonic_ns now) \<le> unat (monotonic_ns later)"
    using assms by (simp add: word_le_nat_alt)
  then have le: "unat (savvy_clock_diff_ms now (started_at d))
      \<le> unat (savvy_clock_diff_ms later (started_at d))"
    by (simp add: unat_clock_diff_ms div_le_mono)
  then have "unat (savvy_deadline_remaining_ms later d) \<le> unat (savvy_deadline_remaining_ms now d)"
    by (simp add: unat_deadline_remaining)
  moreover have "unat (savvy_deadline_remaining_ms now d) \<le> unat (timeout_ms d)"
    by (simp add: unat_deadline_remaining)
  moreover have "savvy_deadline_expired later d" if "savvy_deadline_expired now d"
    using that le by (simp add: savvy_deadline_expired_def ucast_le_iff)
  ultimately show ?thesis
    by (simp add: word_le_nat_alt deadline_expired_iff_remaining_0)
qed

theorem deadline_remaining_bounds_witness:
  "savvy_deadline_remaining_ms \<lparr>monotonic_ns = 5000000\<rparr> (savvy_deadline_arm \<lparr>monotonic_ns = 0\<rparr> 7) = 2
   \<and> savvy_deadline_remaining_ms \<lparr>monotonic_ns = 9000000\<rparr> (savvy_deadline_arm \<lparr>monotonic_ns = 0\<rparr> 7)
       \<le> savvy_deadline_remaining_ms \<lparr>monotonic_ns = 5000000\<rparr> (savvy_deadline_arm \<lparr>monotonic_ns = 0\<rparr> 7)"
proof -
  have "(5000000 :: u64) \<le> 9000000" by simp
  then show ?thesis
    using deadline_remaining_bounds
      [of "\<lparr>monotonic_ns = 5000000\<rparr>" "\<lparr>monotonic_ns = 9000000\<rparr>" "savvy_deadline_arm \<lparr>monotonic_ns = 0\<rparr> 7"]
    by (simp add: savvy_deadline_remaining_ms_def savvy_deadline_arm_def savvy_clock_diff_ms_def)
qed

text \<open>
  Whatever sequence of start and stop calls arrives, the calls that report a transition
  alternate start, stop, start, ... beginning with a start from the initial state, so the
  hooks and worker threads tied to a transition are never started or torn down twice.
\<close>

theorem lifecycle_transitions_alternate:
  "savvy_lifecycle_init True = (SAVVY_OK, Some lc) \<Longrightarrow>
     alternating LcStart (lc_transitions (snd (lc_run lc ops)))"
  using lc_run_alternating [of lc ops] by (auto simp: savvy_lifecycle_init_def)

theorem lifecycle_transitions_alternate_witness:
  "alternating LcStart (lc_transitions (snd (lc_run \<lparr>lc_state = SAVVY_LIFECYCLE_STOPPED\<rparr>
     [LcStop, LcStart, LcStart, LcStop, LcStart])))
   \<and> lc_transitions (snd (lc_run \<lparr>lc_state = SAVVY_LIFECYCLE_STOPPED\<rparr>
     [LcStop, LcStart, LcStart, LcStop, LcStart])) = [LcStart, LcStop, LcStart]"
  using lifecycle_transitions_alternate
    [of "\<lparr>lc_state = SAVVY_LIFECYCLE_STOPPED\<rparr>" "[LcStop, LcStart, LcStart, LcStop, LcStart]"]
  by (simp add: savvy_lifecycle_init_def lc_transitions_def lifecycle_defs)

end
