(* ===== verification/Bounded_Queue.thy ===== *)
theory Bounded_Queue
  imports Core_Base
begin

text \<open>
  The blocking bounded queue of \<^verbatim>\<open>src/core/queue.c\<close>. One cell of \<open>storage\<close> is the
  \<^verbatim>\<open>item_size\<close> bytes that one \<^verbatim>\<open>memcpy\<close> moves, so \<^verbatim>\<open>storage + i * item_size\<close> is the
  \<open>i\<close>-th cell. Each function is the critical section of the C function of the same name;
  \<open>None\<close> as a result of a blocking operation means that the caller waits on the condition
  variable and the state is unchanged. The success of \<^verbatim>\<open>malloc\<close> (the memory it returned)
  and of the \<^verbatim>\<open>pthread\<close> initialisers are arguments.

  The interface \<open>fifo\<close> states what a client may rely on; the ring buffer is shown to
  implement it, and the sleeping and waking of callers is a step relation of its own.
\<close>

section \<open>The ring buffer\<close>

record 'a savvy_queue =
  storage :: "'a list"
  item_size :: nat
  capacity :: nat
  q_count :: nat
  head :: nat
  closed :: bool
  has_destroy_fn :: bool

definition savvy_queue_init ::
  "bool \<Rightarrow> nat \<Rightarrow> nat \<Rightarrow> bool \<Rightarrow> 'a list option \<Rightarrow> bool \<Rightarrow> bool \<Rightarrow> bool
     \<Rightarrow> savvy_status \<times> 'a savvy_queue option" where
  "savvy_queue_init q_null cap isz destroy_fn mem mutex_ok not_empty_ok not_full_ok =
     (if q_null \<or> cap = 0 \<or> isz = 0 then (SAVVY_ERR_INVALID_ARGUMENT, None)
      else if cap > SIZE_MAX div isz then (SAVVY_ERR_INVALID_ARGUMENT, None)
      else case mem of
        None \<Rightarrow> (SAVVY_ERR_OUT_OF_MEMORY, None)
      | Some cells \<Rightarrow>
         (if \<not> mutex_ok then (SAVVY_ERR_UNKNOWN, None)
          else if \<not> not_empty_ok then (SAVVY_ERR_UNKNOWN, None)
          else if \<not> not_full_ok then (SAVVY_ERR_UNKNOWN, None)
          else (SAVVY_OK,
            Some \<lparr>storage = cells, item_size = isz, capacity = cap, q_count = 0, head = 0,
                  closed = False, has_destroy_fn = destroy_fn\<rparr>)))"

text \<open>The copy at the tail that both push operations share.\<close>

definition queue_store :: "'a savvy_queue \<Rightarrow> 'a \<Rightarrow> 'a savvy_queue" where
  "queue_store q item =
     (let tail = size_add (head q) (q_count q) mod capacity q
      in q\<lparr>storage := (storage q)[tail := item], q_count := q_count q + 1\<rparr>)"

definition savvy_queue_push :: "'a savvy_queue \<Rightarrow> 'a \<Rightarrow> (savvy_status \<times> 'a savvy_queue) option" where
  "savvy_queue_push q item =
     (if q_count q = capacity q \<and> \<not> closed q then None
      else if closed q then Some (SAVVY_ERR_CLOSED, q)
      else Some (SAVVY_OK, queue_store q item))"

definition savvy_queue_try_push :: "'a savvy_queue \<Rightarrow> 'a \<Rightarrow> savvy_status \<times> 'a savvy_queue" where
  "savvy_queue_try_push q item =
     (if closed q then (SAVVY_ERR_CLOSED, q)
      else if q_count q = capacity q then (SAVVY_ERR_OVERFLOW, q)
      else (SAVVY_OK, queue_store q item))"

definition savvy_queue_pop ::
  "'a savvy_queue \<Rightarrow> (savvy_status \<times> 'a option \<times> 'a savvy_queue) option" where
  "savvy_queue_pop q =
     (if q_count q = 0 \<and> \<not> closed q then None
      else if q_count q = 0 \<and> closed q then Some (SAVVY_ERR_CLOSED, None, q)
      else Some (SAVVY_OK, Some (storage q ! head q),
             q\<lparr>head := size_add (head q) 1 mod capacity q, q_count := q_count q - 1\<rparr>))"

definition savvy_queue_close :: "'a savvy_queue \<Rightarrow> 'a savvy_queue" where
  "savvy_queue_close q = q\<lparr>closed := True\<rparr>"

text \<open>The items handed to \<^verbatim>\<open>item_destroy_fn\<close>, in the order of the loop.\<close>

definition queue_destroyed :: "'a savvy_queue \<Rightarrow> 'a list" where
  "queue_destroyed q =
     (if has_destroy_fn q
      then map (\<lambda>i. storage q ! (size_add (head q) i mod capacity q)) [0..<q_count q]
      else [])"

definition savvy_queue_cancel :: "'a savvy_queue \<Rightarrow> 'a list \<times> 'a savvy_queue" where
  "savvy_queue_cancel q = (queue_destroyed q, q\<lparr>closed := True, q_count := 0, head := 0\<rparr>)"

definition savvy_queue_destroy :: "'a savvy_queue \<Rightarrow> 'a list" where
  "savvy_queue_destroy q = queue_destroyed q"

section \<open>Invariant and abstraction\<close>

definition queue_inv :: "'a savvy_queue \<Rightarrow> bool" where
  "queue_inv q \<longleftrightarrow> length (storage q) = capacity q \<and> head q < capacity q
     \<and> q_count q \<le> capacity q \<and> 2 * capacity q \<le> SIZE_MAX + 1"

definition queue_items :: "'a savvy_queue \<Rightarrow> 'a list" where
  "queue_items q = ring_read (storage q) (head q) (q_count q)"

lemma length_queue_items [simp]: "length (queue_items q) = q_count q"
  by (simp add: queue_items_def)

text \<open>
  The overflow check of \<^verbatim>\<open>savvy_queue_init\<close> keeps \<^verbatim>\<open>head + count\<close> below \<^verbatim>\<open>SIZE_MAX\<close> as
  soon as an item has at least two bytes.
\<close>

lemma queue_init_inv:
  assumes "savvy_queue_init False cap isz d mem m e f = (st, Some q)" and "2 \<le> isz"
    and "mem = Some cells" and "length cells = cap"
  shows "queue_inv q \<and> queue_items q = [] \<and> \<not> closed q \<and> st = SAVVY_OK"
proof -
  have c: "0 < cap" "cap \<le> SIZE_MAX div isz" and q: "q = \<lparr>storage = cells, item_size = isz,
      capacity = cap, q_count = 0, head = 0, closed = False, has_destroy_fn = d\<rparr>" "st = SAVVY_OK"
    using assms by (auto simp: savvy_queue_init_def split: if_splits)
  from c(2) have "cap \<le> SIZE_MAX div 2"
    using div_le_mono2 [of 2 isz SIZE_MAX] assms(2) by linarith
  with c(1) q assms(4) show ?thesis
    by (simp add: queue_inv_def queue_items_def SIZE_MAX_def)
qed

lemma queue_index:
  assumes "queue_inv q" and "i \<le> q_count q"
  shows "size_add (head q) i = head q + i"
  using assms by (intro size_add_exact) (auto simp: queue_inv_def)

lemma queue_store_props:
  assumes "queue_inv q" and "q_count q < capacity q"
  shows "queue_inv (queue_store q x)" and "queue_items (queue_store q x) = queue_items q @ [x]"
proof -
  have idx: "size_add (head q) (q_count q) = head q + q_count q"
    by (rule queue_index) (use assms in auto)
  then show "queue_inv (queue_store q x)"
    using assms by (simp add: queue_inv_def queue_store_def)
  show "queue_items (queue_store q x) = queue_items q @ [x]"
    using assms idx ring_read_update [of "q_count q" "storage q" "head q" x]
    by (simp add: queue_items_def queue_store_def queue_inv_def)
qed

lemma queue_pop_props:
  assumes inv: "queue_inv q" and pop: "savvy_queue_pop q = Some (SAVVY_OK, y, q')"
  shows "queue_inv q'" and "\<exists>x. y = Some x \<and> queue_items q = x # queue_items q'"
proof -
  from pop obtain n where n: "q_count q = Suc n"
    by (cases "q_count q") (auto simp: savvy_queue_pop_def split: if_splits)
  have idx: "size_add (head q) 1 = Suc (head q)"
    using queue_index [OF inv, of 1] n by simp
  have q': "q' = q\<lparr>head := Suc (head q) mod capacity q, q_count := n\<rparr>"
    and y: "y = Some (storage q ! head q)"
    using pop n idx by (auto simp: savvy_queue_pop_def)
  show "queue_inv q'"
    using inv n by (auto simp: q' queue_inv_def)
  have "queue_items q = storage q ! head q # ring_read (storage q) (Suc (head q)) n"
    using inv n by (simp add: queue_items_def ring_read_Cons queue_inv_def)
  also have "\<dots> = storage q ! head q # queue_items q'"
    using inv ring_read_mod [of "storage q" "Suc (head q)" n]
    by (simp add: q' queue_items_def queue_inv_def)
  finally show "\<exists>x. y = Some x \<and> queue_items q = x # queue_items q'"
    using y by simp
qed

lemma queue_destroyed_items:
  assumes "queue_inv q" and "has_destroy_fn q"
  shows "queue_destroyed q = queue_items q"
proof -
  have "size_add (head q) i = head q + i" if "i < q_count q" for i
    using queue_index [OF assms(1), of i] that by simp
  then show ?thesis
    using assms by (simp add: queue_destroyed_def queue_items_def ring_read_def queue_inv_def)
qed

section \<open>The first-in first-out interface\<close>

text \<open>What one operation did, as its caller observes it.\<close>

datatype 'a queue_event = Pushed 'a | Popped 'a | Dropped "'a list" | Quiet

primrec run_events :: "('q \<Rightarrow> 'o \<Rightarrow> 'q \<times> 'e) \<Rightarrow> 'q \<Rightarrow> 'o list \<Rightarrow> 'q \<times> 'e list" where
  "run_events step q [] = (q, [])"
| "run_events step q (x # xs) =
     (case step q x of (q', e) \<Rightarrow> case run_events step q' xs of (q'', es) \<Rightarrow> (q'', e # es))"

fun entered :: "'a queue_event \<Rightarrow> 'a list" where
  "entered (Pushed x) = [x]"
| "entered _ = []"

fun left :: "'a queue_event \<Rightarrow> 'a list" where
  "left (Popped x) = [x]"
| "left (Dropped xs) = xs"
| "left _ = []"

locale fifo =
  fixes step :: "'q \<Rightarrow> 'o \<Rightarrow> 'q \<times> 'a queue_event"
    and items :: "'q \<Rightarrow> 'a list"
    and bound :: "'q \<Rightarrow> nat"
    and invar :: "'q \<Rightarrow> bool"
  assumes step_invar: "invar q \<Longrightarrow> step q x = (q', e) \<Longrightarrow> invar q'"
    and step_items: "invar q \<Longrightarrow> step q x = (q', e) \<Longrightarrow> items q @ entered e = left e @ items q'"
    and step_bound: "invar q \<Longrightarrow> step q x = (q', e) \<Longrightarrow> bound q' = bound q"
    and items_bound: "invar q \<Longrightarrow> length (items q) \<le> bound q"
begin

lemma run_invar:
  "invar q \<Longrightarrow> run_events step q xs = (q', es) \<Longrightarrow> invar q' \<and> bound q' = bound q"
proof (induction xs arbitrary: q es)
  case (Cons x xs)
  then obtain p e fs where "step q x = (p, e)" "run_events step p xs = (q', fs)"
    by (auto split: prod.splits)
  with Cons show ?case by (metis step_invar step_bound)
qed simp

text \<open>Conservation: what entered comes out in the same order, nothing is lost or duplicated.\<close>

lemma run_conserves:
  "invar q \<Longrightarrow> run_events step q xs = (q', es) \<Longrightarrow>
     items q @ concat (map entered es) = concat (map left es) @ items q'"
proof (induction xs arbitrary: q es)
  case Nil
  then show ?case by simp
next
  case (Cons x xs)
  then obtain p e fs where s: "step q x = (p, e)" and r: "run_events step p xs = (q', fs)"
    and es: "es = e # fs"
    by (auto split: prod.splits)
  have "items q @ concat (map entered es) = (items q @ entered e) @ concat (map entered fs)"
    by (simp add: es)
  also have "\<dots> = left e @ items p @ concat (map entered fs)"
    using step_items [OF Cons.prems(1) s] by simp
  also have "\<dots> = left e @ concat (map left fs) @ items q'"
    using Cons.IH [OF step_invar [OF Cons.prems(1) s] r] by simp
  finally show ?case by (simp add: es)
qed

lemma run_bounded:
  "invar q \<Longrightarrow> run_events step q xs = (q', es) \<Longrightarrow> length (items q') \<le> bound q"
  using run_invar items_bound by metis

end

datatype 'a queue_op = QPush 'a | QTryPush 'a | QPop | QClose | QCancel

text \<open>
  One call on the queue. A blocked caller leaves the queue as it is. \<^verbatim>\<open>cancel\<close> reports what
  it discards whether or not a destroy function is installed.
\<close>

fun queue_step :: "'a savvy_queue \<Rightarrow> 'a queue_op \<Rightarrow> 'a savvy_queue \<times> 'a queue_event" where
  "queue_step q (QPush x) =
     (case savvy_queue_push q x of
        Some (SAVVY_OK, q') \<Rightarrow> (q', Pushed x)
      | Some (_, q') \<Rightarrow> (q', Quiet)
      | None \<Rightarrow> (q, Quiet))"
| "queue_step q (QTryPush x) =
     (case savvy_queue_try_push q x of
        (SAVVY_OK, q') \<Rightarrow> (q', Pushed x)
      | (_, q') \<Rightarrow> (q', Quiet))"
| "queue_step q QPop =
     (case savvy_queue_pop q of
        Some (_, Some x, q') \<Rightarrow> (q', Popped x)
      | Some (_, None, q') \<Rightarrow> (q', Quiet)
      | None \<Rightarrow> (q, Quiet))"
| "queue_step q QClose = (savvy_queue_close q, Quiet)"
| "queue_step q QCancel = (snd (savvy_queue_cancel q), Dropped (queue_items q))"

lemma queue_push_cases [consumes 1, case_names full closed stored]:
  assumes "queue_inv q"
  obtains (full) "savvy_queue_push q x = None" "q_count q = capacity q" "\<not> closed q"
  | (closed) "savvy_queue_push q x = Some (SAVVY_ERR_CLOSED, q)" "closed q"
  | (stored) "savvy_queue_push q x = Some (SAVVY_OK, queue_store q x)" "q_count q < capacity q" "\<not> closed q"
proof -
  have "q_count q \<le> capacity q" using assms by (simp add: queue_inv_def)
  then show ?thesis
    using full closed stored by (force simp: savvy_queue_push_def split: if_splits)
qed

lemma queue_pop_cases [consumes 1, case_names waits drained popped]:
  assumes "queue_inv q"
  obtains (waits) "savvy_queue_pop q = None" "queue_items q = []" "\<not> closed q"
  | (drained) "savvy_queue_pop q = Some (SAVVY_ERR_CLOSED, None, q)" "queue_items q = []" "closed q"
  | (popped) x q' where "savvy_queue_pop q = Some (SAVVY_OK, Some x, q')"
      "queue_items q = x # queue_items q'" "queue_inv q'" "capacity q' = capacity q" "closed q' = closed q"
proof (cases "q_count q = 0")
  case True
  then have "queue_items q = []" by (simp add: queue_items_def)
  with True waits drained show ?thesis by (cases "closed q") (auto simp: savvy_queue_pop_def)
next
  case False
  then obtain y q' where p: "savvy_queue_pop q = Some (SAVVY_OK, y, q')"
      and f: "capacity q' = capacity q" "closed q' = closed q"
    by (auto simp: savvy_queue_pop_def)
  with queue_pop_props [OF assms p] popped show ?thesis by blast
qed

lemma queue_step_store:
  assumes "queue_step q x = (q', e)" and "queue_inv q"
  shows "queue_inv q'" and "capacity q' = capacity q"
    and "queue_items q @ entered e = left e @ queue_items q'"
    and "closed q \<Longrightarrow> closed q' \<and> entered e = []"
proof -
  have cap: "capacity (queue_store q y) = capacity q" for y
    by (simp add: queue_store_def Let_def)
  have "queue_inv q' \<and> capacity q' = capacity q \<and> queue_items q @ entered e = left e @ queue_items q'
      \<and> (closed q \<longrightarrow> closed q' \<and> entered e = [])"
  proof (cases x)
    case (QPush y)
    with assms show ?thesis
      by (cases rule: queue_push_cases [OF assms(2), of y]) (auto simp: queue_store_props cap)
  next
    case (QTryPush y)
    have "q_count q \<le> capacity q" using assms(2) by (simp add: queue_inv_def)
    with QTryPush assms show ?thesis
      by (auto simp: savvy_queue_try_push_def queue_store_props cap split: if_splits)
  next
    case QPop
    with assms show ?thesis
      by (cases rule: queue_pop_cases [OF assms(2)]) auto
  next
    case QClose
    with assms show ?thesis
      by (auto simp: savvy_queue_close_def queue_inv_def queue_items_def)
  next
    case QCancel
    with assms show ?thesis
      by (auto simp: savvy_queue_cancel_def queue_inv_def queue_items_def)
  qed
  then show "queue_inv q'" and "capacity q' = capacity q"
    and "queue_items q @ entered e = left e @ queue_items q'"
    and "closed q \<Longrightarrow> closed q' \<and> entered e = []"
    by auto
qed

interpretation ringq: fifo queue_step queue_items capacity queue_inv
proof unfold_locales
  show "queue_inv q'" if "queue_inv q" "queue_step q x = (q', e)" for q q' :: "'a savvy_queue" and x e
    by (rule queue_step_store(1)) (use that in auto)
  show "queue_items q @ entered e = left e @ queue_items q'"
    if "queue_inv q" "queue_step q x = (q', e)" for q q' :: "'a savvy_queue" and x e
    by (rule queue_step_store(3)) (use that in auto)
  show "capacity q' = capacity q" if "queue_inv q" "queue_step q x = (q', e)"
    for q q' :: "'a savvy_queue" and x e
    by (rule queue_step_store(2)) (use that in auto)
  show "length (queue_items q) \<le> capacity q" if "queue_inv q" for q :: "'a savvy_queue"
    using that by (simp add: queue_inv_def)
qed

text \<open>Closing is final: whatever is called afterwards, nothing enters the queue again.\<close>

lemma queue_closed_forever:
  "queue_inv q \<Longrightarrow> closed q \<Longrightarrow> run_events queue_step q xs = (q', es) \<Longrightarrow>
     closed q' \<and> concat (map entered es) = []"
proof (induction xs arbitrary: q es)
  case (Cons x xs)
  then obtain p e fs where s: "queue_step q x = (p, e)" and r: "run_events queue_step p xs = (q', fs)"
    and es: "es = e # fs"
    by (auto split: prod.splits)
  from queue_step_store [OF s Cons.prems(1)] Cons.prems(2)
  have "queue_inv p" "closed p" "entered e = []" by auto
  with Cons.IH [OF _ _ r] es show ?case by simp
qed simp

section \<open>Sleeping and waking callers\<close>

text \<open>
  The threads around one queue: how many sleep on each condition variable and how many have
  been signalled and are about to re-check their loop condition. \<^verbatim>\<open>pthread_cond_signal\<close>
  moves one sleeper, \<^verbatim>\<open>pthread_cond_broadcast\<close> all of them; a sleeper may also wake
  without a signal.
\<close>

record 'a queue_sys =
  sq :: "'a savvy_queue"
  pop_sleep :: nat
  pop_ready :: nat
  push_sleep :: nat
  push_ready :: nat

definition signal_pop :: "'a queue_sys \<Rightarrow> 'a queue_sys" where
  "signal_pop s = (if pop_sleep s = 0 then s
     else s\<lparr>pop_sleep := pop_sleep s - 1, pop_ready := pop_ready s + 1\<rparr>)"

definition signal_push :: "'a queue_sys \<Rightarrow> 'a queue_sys" where
  "signal_push s = (if push_sleep s = 0 then s
     else s\<lparr>push_sleep := push_sleep s - 1, push_ready := push_ready s + 1\<rparr>)"

definition broadcast_all :: "'a queue_sys \<Rightarrow> 'a queue_sys" where
  "broadcast_all s = s\<lparr>pop_sleep := 0, pop_ready := pop_ready s + pop_sleep s,
     push_sleep := 0, push_ready := push_ready s + push_sleep s\<rparr>"

definition sys_push :: "'a queue_sys \<Rightarrow> 'a \<Rightarrow> 'a queue_sys" where
  "sys_push s x = (case savvy_queue_push (sq s) x of
     None \<Rightarrow> s\<lparr>push_sleep := push_sleep s + 1\<rparr>
   | Some (st, q') \<Rightarrow> if st = SAVVY_OK then signal_pop (s\<lparr>sq := q'\<rparr>) else s)"

definition sys_pop :: "'a queue_sys \<Rightarrow> 'a queue_sys" where
  "sys_pop s = (case savvy_queue_pop (sq s) of
     None \<Rightarrow> s\<lparr>pop_sleep := pop_sleep s + 1\<rparr>
   | Some (st, y, q') \<Rightarrow> if st = SAVVY_OK then signal_push (s\<lparr>sq := q'\<rparr>) else s)"

inductive queue_sys_step :: "'a queue_sys \<Rightarrow> 'a queue_sys \<Rightarrow> bool" where
  push_call: "queue_sys_step s (sys_push s x)"
| push_retry: "0 < push_ready s \<Longrightarrow> queue_sys_step s (sys_push (s\<lparr>push_ready := push_ready s - 1\<rparr>) x)"
| try_push_call: "savvy_queue_try_push (sq s) x = (st, q') \<Longrightarrow>
    queue_sys_step s (if st = SAVVY_OK then signal_pop (s\<lparr>sq := q'\<rparr>) else s)"
| pop_call: "queue_sys_step s (sys_pop s)"
| pop_retry: "0 < pop_ready s \<Longrightarrow> queue_sys_step s (sys_pop (s\<lparr>pop_ready := pop_ready s - 1\<rparr>))"
| close_call: "queue_sys_step s (broadcast_all (s\<lparr>sq := savvy_queue_close (sq s)\<rparr>))"
| cancel_call: "queue_sys_step s (broadcast_all (s\<lparr>sq := snd (savvy_queue_cancel (sq s))\<rparr>))"
| spurious_pop: "0 < pop_sleep s \<Longrightarrow>
    queue_sys_step s (s\<lparr>pop_sleep := pop_sleep s - 1, pop_ready := pop_ready s + 1\<rparr>)"
| spurious_push: "0 < push_sleep s \<Longrightarrow>
    queue_sys_step s (s\<lparr>push_sleep := push_sleep s - 1, push_ready := push_ready s + 1\<rparr>)"

inductive queue_sys_reach :: "'a queue_sys \<Rightarrow> 'a queue_sys \<Rightarrow> bool" where
  reach_refl: "queue_sys_reach s s"
| reach_step: "queue_sys_reach s t \<Longrightarrow> queue_sys_step t u \<Longrightarrow> queue_sys_reach s u"

text \<open>
  While consumers sleep, every buffered item has a consumer on its way to it; while producers
  sleep, so has every free cell; nobody sleeps on a closed queue.
\<close>

definition queue_sys_inv :: "'a queue_sys \<Rightarrow> bool" where
  "queue_sys_inv s \<longleftrightarrow> queue_inv (sq s)
     \<and> (0 < pop_sleep s \<longrightarrow> q_count (sq s) \<le> pop_ready s)
     \<and> (0 < push_sleep s \<longrightarrow> capacity (sq s) - q_count (sq s) \<le> push_ready s)
     \<and> (closed (sq s) \<longrightarrow> pop_sleep s = 0 \<and> push_sleep s = 0)"

lemmas queue_sys_defs = signal_pop_def signal_push_def broadcast_all_def

lemma queue_sys_store:
  assumes "queue_sys_inv s" and "q_count (sq s) < capacity (sq s)" and "\<not> closed (sq s)"
  shows "queue_sys_inv (signal_pop (s\<lparr>sq := queue_store (sq s) x\<rparr>))"
proof -
  have "queue_inv (queue_store (sq s) x)"
    using assms by (intro queue_store_props) (auto simp: queue_sys_inv_def)
  with assms show ?thesis
    by (auto simp: queue_sys_inv_def signal_pop_def queue_store_def Let_def)
qed

lemma sys_push_inv:
  assumes "queue_sys_inv (s\<lparr>push_ready := n\<rparr>) \<or> (queue_sys_inv (s\<lparr>push_ready := Suc n\<rparr>))"
  shows "queue_sys_inv (sys_push (s\<lparr>push_ready := n\<rparr>) x)"
proof -
  have qi: "queue_inv (sq s)" using assms by (auto simp: queue_sys_inv_def)
  then show ?thesis
  proof (cases rule: queue_push_cases [where x = x])
    case full
    with assms show ?thesis by (auto simp: sys_push_def queue_sys_inv_def)
  next
    case closed
    with assms show ?thesis by (auto simp: sys_push_def queue_sys_inv_def)
  next
    case stored
    have "queue_inv (queue_store (sq s) x)"
      using stored qi by (intro queue_store_props)
    with stored assms show ?thesis
      by (auto simp: sys_push_def queue_sys_inv_def signal_pop_def queue_store_def Let_def)
  qed
qed

lemma sys_pop_inv:
  assumes "queue_sys_inv (s\<lparr>pop_ready := n\<rparr>) \<or> (queue_sys_inv (s\<lparr>pop_ready := Suc n\<rparr>))"
  shows "queue_sys_inv (sys_pop (s\<lparr>pop_ready := n\<rparr>))"
proof -
  have qi: "queue_inv (sq s)" using assms by (auto simp: queue_sys_inv_def)
  then show ?thesis
  proof (cases rule: queue_pop_cases)
    case waits
    then have "q_count (sq s) = 0" using length_queue_items [of "sq s"] by simp
    with waits assms show ?thesis by (auto simp: sys_pop_def queue_sys_inv_def)
  next
    case drained
    with assms show ?thesis by (auto simp: sys_pop_def queue_sys_inv_def)
  next
    case (popped x q')
    then have "q_count (sq s) = Suc (q_count q')"
      using length_queue_items [of "sq s"] length_queue_items [of q'] by simp
    with popped assms show ?thesis
      by (auto simp: sys_pop_def queue_sys_inv_def signal_push_def)
  qed
qed

lemma queue_sys_step_inv:
  assumes "queue_sys_step s t" and "queue_sys_inv s"
  shows "queue_sys_inv t"
  using assms
proof (induction rule: queue_sys_step.induct)
  case (push_call s x)
  then show ?case using sys_push_inv [where s = s and n = "push_ready s" and x = x] by simp
next
  case (push_retry s x)
  then show ?case using sys_push_inv [where s = s and n = "push_ready s - 1" and x = x] by simp
next
  case (try_push_call s x st q')
  have "q_count (sq s) \<le> capacity (sq s)" using try_push_call(2) by (simp add: queue_sys_inv_def queue_inv_def)
  with try_push_call queue_sys_store [of s x] show ?case
    by (auto simp: savvy_queue_try_push_def split: if_splits)
next
  case (pop_call s)
  then show ?case using sys_pop_inv [where s = s and n = "pop_ready s"] by simp
next
  case (pop_retry s)
  then show ?case using sys_pop_inv [where s = s and n = "pop_ready s - 1"] by simp
next
  case (close_call s)
  then show ?case
    by (auto simp: queue_sys_inv_def broadcast_all_def savvy_queue_close_def queue_inv_def)
next
  case (cancel_call s)
  then show ?case
    by (auto simp: queue_sys_inv_def broadcast_all_def savvy_queue_cancel_def queue_inv_def)
qed (auto simp: queue_sys_inv_def)

lemma queue_sys_reach_inv: "queue_sys_reach s t \<Longrightarrow> queue_sys_inv s \<Longrightarrow> queue_sys_inv t"
  by (induction rule: queue_sys_reach.induct) (auto intro: queue_sys_step_inv)

section \<open>Properties\<close>

text \<open>
  C1: the ring buffer is a bounded first-in first-out queue. From a successful
  \<^verbatim>\<open>savvy_queue_init\<close> on, for every sequence of push, try_push, pop, close and cancel calls,
  the items that entered are, in order, those that left (popped or discarded by cancel)
  followed by those still buffered, and the buffer never holds more than its capacity. The
  index arithmetic never wraps, because the size check of init leaves room for it.
\<close>

theorem queue_is_bounded_fifo:
  assumes "savvy_queue_init False cap isz d (Some cells) m e f = (st, Some q)"
    and "2 \<le> isz" and "length cells = cap"
    and "run_events queue_step q xs = (q', es)"
  shows "concat (map entered es) = concat (map left es) @ queue_items q'
     \<and> length (queue_items q') \<le> cap \<and> queue_inv q'"
proof -
  have q: "queue_inv q" "queue_items q = []"
    using queue_init_inv [OF assms(1,2) refl assms(3)] by auto
  have "capacity q = cap"
    using assms(1) by (auto simp: savvy_queue_init_def split: if_splits)
  with q ringq.run_conserves [OF q(1) assms(4)] ringq.run_bounded [OF q(1) assms(4)]
    ringq.run_invar [OF q(1) assms(4)] show ?thesis by simp
qed

lemma queue_demo_run:
  "run_events queue_step
     \<lparr>storage = [0, 0], item_size = 48, capacity = 2, q_count = 0, head = 0, closed = False,
      has_destroy_fn = True\<rparr>
     [QPush 7, QTryPush 8, QTryPush 9, QPop, QPush (10 :: nat), QClose, QPop]
   = (\<lparr>storage = [10, 8], item_size = 48, capacity = 2, q_count = 1, head = 0, closed = True,
       has_destroy_fn = True\<rparr>,
      [Pushed 7, Pushed 8, Quiet, Popped 7, Pushed 10, Quiet, Popped 8])"
  by (simp add: savvy_queue_push_def savvy_queue_try_push_def savvy_queue_pop_def queue_store_def
      savvy_queue_close_def size_add_def SIZE_MAX_def)

theorem queue_is_bounded_fifo_witness:
  "[7, 8, 10] = [7, 8] @ [10 :: nat]
   \<and> (\<exists>q' es. run_events queue_step
        \<lparr>storage = [0, 0], item_size = 48, capacity = 2, q_count = 0, head = 0, closed = False,
         has_destroy_fn = True\<rparr>
        [QPush 7, QTryPush 8, QTryPush 9, QPop, QPush (10 :: nat), QClose, QPop] = (q', es)
      \<and> concat (map entered es) = [7, 8, 10] \<and> concat (map left es) = [7, 8]
      \<and> concat (map entered es) = concat (map left es) @ queue_items q')"
proof -
  have init: "savvy_queue_init False 2 48 True (Some [0, 0 :: nat]) True True True
      = (SAVVY_OK, Some \<lparr>storage = [0, 0], item_size = 48, capacity = 2, q_count = 0, head = 0,
          closed = False, has_destroy_fn = True\<rparr>)"
    by (simp add: savvy_queue_init_def SIZE_MAX_def)
  show ?thesis
    using queue_is_bounded_fifo [OF init _ _ queue_demo_run] queue_demo_run by simp
qed

text \<open>
  Cancelling a queue that was given a destroy function hands every buffered item to it
  exactly once, in queue order, and leaves an empty closed queue in which every later push
  is refused with \<^verbatim>\<open>SAVVY_ERR_CLOSED\<close> and every pop returns \<^verbatim>\<open>SAVVY_ERR_CLOSED\<close> at
  once; no later sequence of calls makes an item enter.
\<close>

theorem queue_cancel_discards_once:
  assumes "queue_inv q" and "has_destroy_fn q"
  shows "fst (savvy_queue_cancel q) = queue_items q
     \<and> savvy_queue_destroy (snd (savvy_queue_cancel q)) = []
     \<and> savvy_queue_try_push (snd (savvy_queue_cancel q)) x = (SAVVY_ERR_CLOSED, snd (savvy_queue_cancel q))
     \<and> savvy_queue_push (snd (savvy_queue_cancel q)) x = Some (SAVVY_ERR_CLOSED, snd (savvy_queue_cancel q))
     \<and> savvy_queue_pop (snd (savvy_queue_cancel q)) = Some (SAVVY_ERR_CLOSED, None, snd (savvy_queue_cancel q))
     \<and> (\<forall>xs q' es. run_events queue_step (snd (savvy_queue_cancel q)) xs = (q', es)
          \<longrightarrow> concat (map entered es) = [])"
proof -
  let ?c = "snd (savvy_queue_cancel q)"
  have c: "queue_inv ?c" "closed ?c"
    using assms(1) by (auto simp: savvy_queue_cancel_def queue_inv_def)
  have "\<forall>xs q' es. run_events queue_step ?c xs = (q', es) \<longrightarrow> concat (map entered es) = []"
    using queue_closed_forever [OF c] by blast
  then show ?thesis
    using queue_destroyed_items [OF assms]
    by (simp add: savvy_queue_cancel_def savvy_queue_destroy_def savvy_queue_try_push_def
        savvy_queue_push_def savvy_queue_pop_def)
      (simp add: queue_destroyed_def)
qed

theorem queue_cancel_discards_once_witness:
  "fst (savvy_queue_cancel \<lparr>storage = [10, 8, 9], item_size = 48, capacity = 3, q_count = 2,
      head = 2, closed = False, has_destroy_fn = True\<rparr>) = [9, 10 :: nat]"
proof -
  let ?q = "\<lparr>storage = [10, 8, 9 :: nat], item_size = 48, capacity = 3, q_count = 2,
      head = 2, closed = False, has_destroy_fn = True\<rparr>"
  have "queue_inv ?q" by (simp add: queue_inv_def SIZE_MAX_def)
  moreover have "has_destroy_fn ?q" by simp
  ultimately have "fst (savvy_queue_cancel ?q) = queue_items ?q"
    by (rule conjunct1 [OF queue_cancel_discards_once [where x = 0]])
  then show ?thesis by (simp add: queue_items_def ring_read_def upt_conv_Cons)
qed

text \<open>
  C18: no wake-up is lost. Starting from a queue without sleepers, whatever calls, retries and
  spurious wake-ups happen: if a consumer sleeps although an item is buffered, another
  consumer has been woken and is about to take it; if a producer sleeps although a cell is
  free, a producer has been woken; and nobody sleeps once the queue is closed or cancelled.
\<close>

theorem queue_no_lost_wakeup:
  assumes "queue_inv q"
    and "queue_sys_reach \<lparr>sq = q, pop_sleep = 0, pop_ready = 0, push_sleep = 0, push_ready = 0\<rparr> s"
  shows "(0 < pop_sleep s \<and> 0 < q_count (sq s) \<longrightarrow> 0 < pop_ready s)
     \<and> (0 < push_sleep s \<and> q_count (sq s) < capacity (sq s) \<longrightarrow> 0 < push_ready s)
     \<and> (closed (sq s) \<longrightarrow> pop_sleep s = 0 \<and> push_sleep s = 0)"
proof -
  have "queue_sys_inv \<lparr>sq = q, pop_sleep = 0, pop_ready = 0, push_sleep = 0, push_ready = 0\<rparr>"
    using assms(1) by (simp add: queue_sys_inv_def)
  with assms(2) have "queue_sys_inv s" by (rule queue_sys_reach_inv)
  then show ?thesis by (auto simp: queue_sys_inv_def)
qed

theorem queue_no_lost_wakeup_witness:
  "\<exists>s. queue_sys_reach
      \<lparr>sq = \<lparr>storage = [0 :: nat], item_size = 48, capacity = 1, q_count = 0, head = 0,
             closed = False, has_destroy_fn = False\<rparr>,
       pop_sleep = 0, pop_ready = 0, push_sleep = 0, push_ready = 0\<rparr> s
     \<and> pop_sleep s = 1 \<and> q_count (sq s) = 1 \<and> 0 < pop_ready s"
proof -
  let ?q = "\<lparr>storage = [0 :: nat], item_size = 48, capacity = 1, q_count = 0, head = 0,
             closed = False, has_destroy_fn = False\<rparr>"
  let ?start = "\<lparr>sq = ?q, pop_sleep = 0, pop_ready = 0, push_sleep = 0, push_ready = 0\<rparr>"
  let ?final = "sys_push (sys_pop (sys_pop ?start)) 5"
  have r: "queue_sys_reach ?start ?final"
    by (rule reach_step [OF reach_step [OF reach_step [OF reach_refl pop_call] pop_call] push_call])
  have v: "pop_sleep ?final = 1" "q_count (sq ?final) = 1"
    by (simp_all add: sys_push_def sys_pop_def savvy_queue_push_def savvy_queue_pop_def
        signal_pop_def queue_store_def)
  have "queue_inv ?q" by (simp add: queue_inv_def SIZE_MAX_def)
  with queue_no_lost_wakeup [OF _ r] v show ?thesis using r by (intro exI [of _ ?final]) simp
qed

end
