(* ===== verification/Snapshot.thy ===== *)
theory Snapshot
  imports Core_Base "HOL-Library.Multiset"
begin

text \<open>
  The reference-counted immutable snapshots of \<^verbatim>\<open>src/core/snapshot.c\<close>. Handles live in an
  explicit memory from addresses to handle structs; \<open>None\<close> as a result means that the code
  would dereference a handle that has been freed. \<^verbatim>\<open>malloc\<close>'s result is an argument
  (\<open>None\<close> when it fails, otherwise an address), and every run of the user's \<^verbatim>\<open>free_fn\<close> is
  recorded in \<open>free_log\<close>. A publisher and any number of readers form a step relation in which
  the critical sections and the finalisation that follows them outside the lock are separate
  steps.
\<close>

section \<open>Owner and handles\<close>

record 'p snap_handle =
  payload :: 'p
  refcount :: u32
  h_free_fn :: bool

record snapshot_owner =
  sn_current :: "nat option"
  sn_free_fn :: bool
  sn_version :: u64

record 'p snap_mem =
  handles :: "nat \<Rightarrow> 'p snap_handle option"
  free_log :: "'p list"

definition savvy_snapshot_owner_init :: "bool \<Rightarrow> bool \<Rightarrow> savvy_status \<times> snapshot_owner option" where
  "savvy_snapshot_owner_init mutex_ok free_fn =
     (if \<not> mutex_ok then (SAVVY_ERR_UNKNOWN, None)
      else (SAVVY_OK, Some \<lparr>sn_current = None, sn_free_fn = free_fn, sn_version = 0\<rparr>))"

definition unref_locked :: "'p snap_mem \<Rightarrow> nat \<Rightarrow> ('p snap_mem \<times> nat option) option" where
  "unref_locked m h =
     (case handles m h of
        None \<Rightarrow> None
      | Some r \<Rightarrow>
          (let r' = r\<lparr>refcount := refcount r - 1\<rparr>
           in Some (m\<lparr>handles := (handles m)(h \<mapsto> r')\<rparr>,
                    if refcount r' = 0 then Some h else None)))"

definition finalize_unlocked :: "'p snap_mem \<Rightarrow> nat option \<Rightarrow> 'p snap_mem option" where
  "finalize_unlocked m hopt =
     (case hopt of
        None \<Rightarrow> Some m
      | Some h \<Rightarrow>
         (case handles m h of
            None \<Rightarrow> None
          | Some r \<Rightarrow> Some (m\<lparr>handles := (handles m)(h := None),
              free_log := (if h_free_fn r then free_log m @ [payload r] else free_log m)\<rparr>)))"

text \<open>The critical section of \<^verbatim>\<open>savvy_snapshot_publish\<close>, once the new handle is allocated.\<close>

definition publish_locked ::
  "snapshot_owner \<Rightarrow> 'p snap_mem \<Rightarrow> nat \<Rightarrow> 'p \<Rightarrow> (snapshot_owner \<times> 'p snap_mem \<times> nat option) option" where
  "publish_locked ow m a p =
     (let m1 = m\<lparr>handles := (handles m)(a \<mapsto> \<lparr>payload = p, refcount = 1, h_free_fn = sn_free_fn ow\<rparr>)\<rparr>;
          ow' = ow\<lparr>sn_current := Some a, sn_version := sn_version ow + 1\<rparr>
      in case sn_current ow of
           None \<Rightarrow> Some (ow', m1, None)
         | Some prev \<Rightarrow> map_option (\<lambda>(m2, fin). (ow', m2, fin)) (unref_locked m1 prev))"

definition savvy_snapshot_publish ::
  "snapshot_owner \<Rightarrow> 'p snap_mem \<Rightarrow> nat option \<Rightarrow> 'p
     \<Rightarrow> (savvy_status \<times> snapshot_owner \<times> 'p snap_mem) option" where
  "savvy_snapshot_publish ow m alloc p =
     (case alloc of
        None \<Rightarrow> Some (SAVVY_ERR_OUT_OF_MEMORY, ow, m)
      | Some a \<Rightarrow>
         (case publish_locked ow m a p of
            None \<Rightarrow> None
          | Some (ow', m', fin) \<Rightarrow>
              map_option (\<lambda>m''. (SAVVY_OK, ow', m'')) (finalize_unlocked m' fin)))"

definition savvy_snapshot_acquire ::
  "snapshot_owner \<Rightarrow> 'p snap_mem \<Rightarrow> (nat option \<times> u64 \<times> 'p snap_mem) option" where
  "savvy_snapshot_acquire ow m =
     (case sn_current ow of
        None \<Rightarrow> Some (None, sn_version ow, m)
      | Some h \<Rightarrow>
         (case handles m h of
            None \<Rightarrow> None
          | Some r \<Rightarrow> Some (Some h, sn_version ow,
              m\<lparr>handles := (handles m)(h \<mapsto> r\<lparr>refcount := refcount r + 1\<rparr>)\<rparr>)))"

definition savvy_snapshot_payload :: "'p snap_mem \<Rightarrow> nat option \<Rightarrow> 'p option" where
  "savvy_snapshot_payload m hopt =
     (case hopt of None \<Rightarrow> None | Some h \<Rightarrow> map_option payload (handles m h))"

definition savvy_snapshot_release :: "'p snap_mem \<Rightarrow> nat option \<Rightarrow> 'p snap_mem option" where
  "savvy_snapshot_release m hopt =
     (case hopt of
        None \<Rightarrow> Some m
      | Some h \<Rightarrow>
         (case unref_locked m h of
            None \<Rightarrow> None
          | Some (m', fin) \<Rightarrow> finalize_unlocked m' fin))"

definition savvy_snapshot_owner_destroy ::
  "snapshot_owner \<Rightarrow> 'p snap_mem \<Rightarrow> (snapshot_owner \<times> 'p snap_mem) option" where
  "savvy_snapshot_owner_destroy ow m =
     (case sn_current ow of
        None \<Rightarrow> Some (ow, m)
      | Some h \<Rightarrow>
         (case unref_locked m h of
            None \<Rightarrow> None
          | Some (m', fin) \<Rightarrow>
              map_option (\<lambda>m''. (ow\<lparr>sn_current := None\<rparr>, m'')) (finalize_unlocked m' fin)))"

lemmas snapshot_defs =
  unref_locked_def finalize_unlocked_def publish_locked_def savvy_snapshot_publish_def
  savvy_snapshot_acquire_def savvy_snapshot_release_def savvy_snapshot_owner_destroy_def
  savvy_snapshot_payload_def

section \<open>A publisher and its readers\<close>

text \<open>
  \<open>held h\<close> counts the readers that acquired \<open>h\<close> and have not released it, \<open>pending\<close> holds the
  handles whose last reference is gone and whose finalisation has not run yet, \<open>published\<close>
  is every payload handed to the owner.
\<close>

record 'p snap_sys =
  sy_owner :: snapshot_owner
  sy_mem :: "'p snap_mem"
  held :: "nat \<Rightarrow> nat"
  pending :: "nat set"
  published :: "'p list"

definition add_pending :: "nat option \<Rightarrow> nat set \<Rightarrow> nat set" where
  "add_pending fin P = (case fin of None \<Rightarrow> P | Some h \<Rightarrow> insert h P)"

text \<open>
  Acquiring is limited to \<^verbatim>\<open>UINT32_MAX - 1\<close> simultaneous readers of one snapshot, the range
  of the counter.
\<close>

inductive snap_step :: "'p snap_sys \<Rightarrow> 'p snap_sys \<Rightarrow> bool" where
  publish: "handles (sy_mem s) a = None \<Longrightarrow>
    publish_locked (sy_owner s) (sy_mem s) a p = Some (ow', m', fin) \<Longrightarrow>
    snap_step s (s\<lparr>sy_owner := ow', sy_mem := m', pending := add_pending fin (pending s),
      published := published s @ [p]\<rparr>)"
| acquire: "savvy_snapshot_acquire (sy_owner s) (sy_mem s) = Some (Some h, v, m') \<Longrightarrow>
    held s h < UINT32_MAX - 1 \<Longrightarrow>
    snap_step s (s\<lparr>sy_mem := m', held := (held s)(h := held s h + 1)\<rparr>)"
| release: "0 < held s h \<Longrightarrow> unref_locked (sy_mem s) h = Some (m', fin) \<Longrightarrow>
    snap_step s (s\<lparr>sy_mem := m', held := (held s)(h := held s h - 1),
      pending := add_pending fin (pending s)\<rparr>)"
| finalize: "h \<in> pending s \<Longrightarrow> finalize_unlocked (sy_mem s) (Some h) = Some m' \<Longrightarrow>
    snap_step s (s\<lparr>sy_mem := m', pending := pending s - {h}\<rparr>)"

inductive snap_reach :: "'p snap_sys \<Rightarrow> 'p snap_sys \<Rightarrow> bool" where
  snap_refl: "snap_reach s s"
| snap_next: "snap_reach s t \<Longrightarrow> snap_step t u \<Longrightarrow> snap_reach s u"

definition snap_start :: "snapshot_owner \<Rightarrow> 'p snap_sys" where
  "snap_start ow = \<lparr>sy_owner = ow, sy_mem = \<lparr>handles = (\<lambda>_. None), free_log = []\<rparr>,
     held = (\<lambda>_. 0), pending = {}, published = []\<rparr>"

text \<open>References to a handle: the owner's own one and one per reader.\<close>

definition refs :: "'p snap_sys \<Rightarrow> nat \<Rightarrow> nat" where
  "refs s h = held s h + (if sn_current (sy_owner s) = Some h then 1 else 0)"

definition live_payloads :: "'p snap_mem \<Rightarrow> 'p multiset" where
  "live_payloads m = image_mset (\<lambda>h. payload (the (handles m h))) (mset_set (dom (handles m)))"

text \<open>
  The counter of an allocated handle is its number of references, which is zero exactly while
  its finalisation is pending; an address without a handle is referenced by nobody.
\<close>

definition handle_ok :: "'p snap_sys \<Rightarrow> nat \<Rightarrow> bool" where
  "handle_ok s h \<longleftrightarrow>
     (case handles (sy_mem s) h of
        None \<Rightarrow> refs s h = 0 \<and> h \<notin> pending s
      | Some r \<Rightarrow> unat (refcount r) = refs s h \<and> (refs s h = 0 \<longleftrightarrow> h \<in> pending s)
          \<and> h_free_fn r = sn_free_fn (sy_owner s))"

definition snap_inv :: "'p snap_sys \<Rightarrow> bool" where
  "snap_inv s \<longleftrightarrow>
     finite (dom (handles (sy_mem s)))
   \<and> (\<forall>h. handle_ok s h) \<and> (\<forall>h. held s h < UINT32_MAX)
   \<and> (sn_free_fn (sy_owner s) \<longrightarrow>
        mset (free_log (sy_mem s)) + live_payloads (sy_mem s) = mset (published s))
   \<and> sn_version (sy_owner s) = of_nat (length (published s))"

section \<open>Every step keeps the invariant\<close>

lemma live_payloads_new:
  assumes "finite (dom (handles m))" and "handles m a = None"
  shows "live_payloads (m\<lparr>handles := (handles m)(a \<mapsto> r)\<rparr>) = add_mset (payload r) (live_payloads m)"
proof -
  have "a \<notin> dom (handles m)" using assms(2) by auto
  moreover have "image_mset (\<lambda>h. payload (the (((handles m)(a \<mapsto> r)) h))) (mset_set (dom (handles m)))
      = live_payloads m"
    unfolding live_payloads_def using assms calculation
    by (intro image_mset_cong) (auto simp: fun_upd_def)
  ultimately show ?thesis
    using assms(1) by (simp add: live_payloads_def)
qed

lemma live_payloads_same:
  assumes "handles m h = Some q" and "payload r = payload q"
  shows "live_payloads (m\<lparr>handles := (handles m)(h \<mapsto> r)\<rparr>) = live_payloads m"
proof -
  have h: "handles (m\<lparr>handles := (handles m)(h \<mapsto> r)\<rparr>) = (handles m)(h \<mapsto> r)" by simp
  have d: "dom ((handles m)(h \<mapsto> r)) = dom (handles m)" using assms(1) by auto
  have f: "(\<lambda>k. payload (the (((handles m)(h \<mapsto> r)) k))) = (\<lambda>k. payload (the (handles m k)))"
    using assms by (intro ext) simp
  show ?thesis unfolding live_payloads_def h d f ..
qed

lemma live_payloads_delete:
  assumes "finite (dom (handles m))" and "handles m h = Some r"
  shows "live_payloads m = add_mset (payload r) (live_payloads (m\<lparr>handles := (handles m)(h := None), free_log := l\<rparr>))"
proof -
  have "mset_set (dom (handles m)) = add_mset h (mset_set (dom (handles m) - {h}))"
    using assms by (intro mset_set.remove) auto
  moreover have "image_mset (\<lambda>k. payload (the (handles m k))) (mset_set (dom (handles m) - {h}))
      = live_payloads (m\<lparr>handles := (handles m)(h := None), free_log := l\<rparr>)"
    unfolding live_payloads_def using assms(1) by (auto intro!: image_mset_cong)
  ultimately show ?thesis
    using assms(2) by (simp add: live_payloads_def)
qed

lemma snap_inv_ok: "snap_inv s \<Longrightarrow> handle_ok s h"
  by (simp add: snap_inv_def)

text \<open>Dropping one reference, by a reader or by the owner moving on.\<close>

lemma unref_locked_refs:
  assumes "handles m h = Some r" and "unat (refcount r) \<noteq> 0"
  shows "unref_locked m h = Some (m\<lparr>handles := (handles m)(h \<mapsto> r\<lparr>refcount := refcount r - 1\<rparr>)\<rparr>,
      if unat (refcount r) = 1 then Some h else None)"
proof -
  have "refcount r - 1 = 0 \<longleftrightarrow> unat (refcount r) = 1"
    using unat_dec32 [OF assms(2)] assms(2) by (simp add: unat_eq_0 [symmetric] del: unat_eq_0) linarith
  then show ?thesis using assms by (simp add: unref_locked_def)
qed

lemma snap_inv_start:
  assumes "savvy_snapshot_owner_init True f = (SAVVY_OK, Some ow)"
  shows "snap_inv (snap_start ow)"
  using assms
  by (auto simp: savvy_snapshot_owner_init_def snap_start_def snap_inv_def handle_ok_def refs_def
      live_payloads_def UINT32_MAX_def)

lemma snap_inv_acquire:
  assumes inv: "snap_inv s"
    and acq: "savvy_snapshot_acquire (sy_owner s) (sy_mem s) = Some (Some h, v, m')"
    and room: "held s h < UINT32_MAX - 1"
  shows "snap_inv (s\<lparr>sy_mem := m', held := (held s)(h := held s h + 1)\<rparr>)" (is "snap_inv ?t")
proof -
  from acq obtain r where cur: "sn_current (sy_owner s) = Some h" and r: "handles (sy_mem s) h = Some r"
    and m': "m' = (sy_mem s)\<lparr>handles := (handles (sy_mem s))(h \<mapsto> r\<lparr>refcount := refcount r + 1\<rparr>)\<rparr>"
    by (auto simp: savvy_snapshot_acquire_def split: option.splits)
  have rc: "unat (refcount r) = held s h + 1" and np: "h \<notin> pending s"
    and ff: "h_free_fn r = sn_free_fn (sy_owner s)"
    using snap_inv_ok [OF inv, of h] r cur by (auto simp: handle_ok_def refs_def)
  have up: "unat (refcount r + 1) = held s h + 2"
    using unat_inc32 [of "refcount r"] rc room by simp
  have "handle_ok ?t k" for k
    using snap_inv_ok [OF inv, of k] up np ff cur
    by (cases "k = h") (auto simp: handle_ok_def refs_def m' split: option.splits)
  moreover have "live_payloads m' = live_payloads (sy_mem s)"
    unfolding m' by (rule live_payloads_same [OF r]) simp
  ultimately show ?thesis
    using inv room by (auto simp: snap_inv_def m')
qed

text \<open>
  The common part of releasing and of publishing over a previous snapshot: \<open>t\<close> differs from
  \<open>s\<close> in one reference to \<open>h\<close> less.
\<close>

lemma handle_ok_unref:
  assumes ok: "handle_ok s h" and r: "handles (sy_mem s) h = Some r" and pos: "0 < refs s h"
    and un: "unref_locked (sy_mem s) h = Some (m', fin)"
    and t: "handles (sy_mem t) h = handles m' h" "refs t h = refs s h - 1"
      "pending t = add_pending fin (pending s)" "sn_free_fn (sy_owner t) = sn_free_fn (sy_owner s)"
  shows "handle_ok t h"
proof -
  have rc: "unat (refcount r) = refs s h" and np: "h \<notin> pending s"
    and ff: "h_free_fn r = sn_free_fn (sy_owner s)"
    using ok r pos by (auto simp: handle_ok_def)
  have m': "m' = (sy_mem s)\<lparr>handles := (handles (sy_mem s))(h \<mapsto> r\<lparr>refcount := refcount r - 1\<rparr>)\<rparr>"
    and fin: "fin = (if refs s h = 1 then Some h else None)"
    using un unref_locked_refs [OF r] rc pos by auto
  have "unat (refcount r - 1) = refs s h - 1"
    using unat_dec32 [of "refcount r"] rc pos by simp
  then show ?thesis
    using t np ff pos by (auto simp: handle_ok_def m' fin add_pending_def)
qed

lemma snap_inv_release:
  assumes inv: "snap_inv s" and pos: "0 < held s h"
    and un: "unref_locked (sy_mem s) h = Some (m', fin)"
  shows "snap_inv (s\<lparr>sy_mem := m', held := (held s)(h := held s h - 1),
      pending := add_pending fin (pending s)\<rparr>)" (is "snap_inv ?t")
proof -
  from un obtain r where r: "handles (sy_mem s) h = Some r"
    by (auto simp: unref_locked_def split: option.splits)
  have rc: "unat (refcount r) = refs s h" "0 < refs s h"
    using snap_inv_ok [OF inv, of h] r pos by (auto simp: handle_ok_def refs_def)
  have m': "m' = (sy_mem s)\<lparr>handles := (handles (sy_mem s))(h \<mapsto> r\<lparr>refcount := refcount r - 1\<rparr>)\<rparr>"
    and fin: "fin = (if refs s h = 1 then Some h else None)"
    using un unref_locked_refs [OF r] rc by auto
  have "handle_ok ?t h"
    by (rule handle_ok_unref [OF snap_inv_ok [OF inv] r rc(2) un]) (use pos in \<open>simp_all add: refs_def\<close>)
  moreover have "handle_ok ?t k" if "k \<noteq> h" for k
    using snap_inv_ok [OF inv, of k] that
    by (auto simp: handle_ok_def refs_def m' fin add_pending_def split: option.splits)
  ultimately have "handle_ok ?t k" for k by (cases "k = h") auto
  moreover have "live_payloads m' = live_payloads (sy_mem s)"
    unfolding m' by (rule live_payloads_same [OF r]) simp
  moreover have "held s h - 1 < UINT32_MAX"
    using inv by (simp add: snap_inv_def less_imp_diff_less)
  ultimately show ?thesis
    using inv by (auto simp: snap_inv_def m')
qed

lemma snap_inv_finalize:
  assumes inv: "snap_inv s" and pend: "h \<in> pending s"
    and fin: "finalize_unlocked (sy_mem s) (Some h) = Some m'"
  shows "snap_inv (s\<lparr>sy_mem := m', pending := pending s - {h}\<rparr>)" (is "snap_inv ?t")
proof -
  from fin obtain r where r: "handles (sy_mem s) h = Some r"
    and m': "m' = (sy_mem s)\<lparr>handles := (handles (sy_mem s))(h := None),
      free_log := (if h_free_fn r then free_log (sy_mem s) @ [payload r] else free_log (sy_mem s))\<rparr>"
    by (auto simp: finalize_unlocked_def split: option.splits)
  have "handle_ok ?t k" for k
    using snap_inv_ok [OF inv, of k] pend r
    by (cases "k = h") (auto simp: handle_ok_def refs_def m' split: option.splits)
  moreover have "h_free_fn r = sn_free_fn (sy_owner s)"
    using snap_inv_ok [OF inv, of h] r by (simp add: handle_ok_def)
  ultimately show ?thesis
    using inv live_payloads_delete [OF _ r, of "free_log m'"]
    by (auto simp: snap_inv_def m')
qed

lemma snap_inv_publish:
  assumes inv: "snap_inv s" and fresh: "handles (sy_mem s) a = None"
    and pub: "publish_locked (sy_owner s) (sy_mem s) a p = Some (ow', m', fin)"
  shows "snap_inv (s\<lparr>sy_owner := ow', sy_mem := m', pending := add_pending fin (pending s),
      published := published s @ [p]\<rparr>)" (is "snap_inv ?t")
proof -
  let ?n = "\<lparr>payload = p, refcount = 1, h_free_fn = sn_free_fn (sy_owner s)\<rparr>"
  define m1 where "m1 = (sy_mem s)\<lparr>handles := (handles (sy_mem s))(a \<mapsto> ?n)\<rparr>"
  have ow': "ow' = (sy_owner s)\<lparr>sn_current := Some a, sn_version := sn_version (sy_owner s) + 1\<rparr>"
    using pub by (auto simp: publish_locked_def Let_def split: option.splits)
  have fa: "refs s a = 0" "a \<notin> pending s"
    using snap_inv_ok [OF inv, of a] fresh by (auto simp: handle_ok_def)
  have live1: "live_payloads m1 = add_mset p (live_payloads (sy_mem s))"
    unfolding m1_def using inv fresh by (subst live_payloads_new) (auto simp: snap_inv_def)
  show ?thesis
  proof (cases "sn_current (sy_owner s)")
    case None
    then have m': "m' = m1" "fin = None"
      using pub by (auto simp: publish_locked_def Let_def m1_def)
    have "handle_ok ?t k" for k
      using snap_inv_ok [OF inv, of k] fa None
      by (cases "k = a") (auto simp: handle_ok_def refs_def m' m1_def ow' add_pending_def split: option.splits)
    then show ?thesis
      using inv live1 by (auto simp: snap_inv_def m' ow') (simp_all add: m1_def)
  next
    case (Some prev)
    from Some pub have un: "unref_locked m1 prev = Some (m', fin)"
      by (auto simp: publish_locked_def Let_def m1_def split: option.splits)
    have "prev \<noteq> a" using Some fa by (auto simp: refs_def)
    obtain r where r: "handles (sy_mem s) prev = Some r" "unat (refcount r) = refs s prev"
      using snap_inv_ok [OF inv, of prev] Some by (auto simp: handle_ok_def refs_def split: option.splits)
    have r1: "handles m1 prev = Some r" using r \<open>prev \<noteq> a\<close> by (simp add: m1_def)
    have rc: "0 < refs s prev" using Some by (simp add: refs_def)
    have m': "m' = m1\<lparr>handles := (handles m1)(prev \<mapsto> r\<lparr>refcount := refcount r - 1\<rparr>)\<rparr>"
      and fin: "fin = (if refs s prev = 1 then Some prev else None)"
      using un unref_locked_refs [OF r1] r(2) rc by auto
    have un0: "unref_locked (sy_mem s) prev
        = Some ((sy_mem s)\<lparr>handles := (handles (sy_mem s))(prev \<mapsto> r\<lparr>refcount := refcount r - 1\<rparr>)\<rparr>, fin)"
      using unref_locked_refs [OF r(1)] r(2) rc fin by auto
    have "handle_ok ?t prev"
      by (rule handle_ok_unref [OF snap_inv_ok [OF inv] r(1) rc un0])
        (use \<open>prev \<noteq> a\<close> Some in \<open>simp_all add: refs_def m' ow'\<close>)
    moreover have "handle_ok ?t k" if "k \<noteq> prev" for k
      using snap_inv_ok [OF inv, of k] that fa \<open>prev \<noteq> a\<close> Some
      by (cases "k = a")
        (auto simp: handle_ok_def refs_def m' m1_def ow' fin add_pending_def split: option.splits)
    ultimately have "handle_ok ?t k" for k by (cases "k = prev") auto
    moreover have "live_payloads m' = live_payloads m1"
      unfolding m' by (rule live_payloads_same [OF r1]) simp
    ultimately show ?thesis
      using inv live1 by (auto simp: snap_inv_def m' ow') (simp_all add: m1_def)
  qed
qed

lemma snap_step_inv:
  assumes "snap_step s t" and "snap_inv s"
  shows "snap_inv t"
  using assms
proof (induction rule: snap_step.induct)
  case (publish s a p ow' m' fin)
  then show ?case by (intro snap_inv_publish)
next
  case (acquire s h v m')
  show ?case by (rule snap_inv_acquire) (use acquire in auto)
next
  case (release s h m' fin)
  show ?case by (rule snap_inv_release) (use release in auto)
next
  case (finalize h s m')
  then show ?case by (intro snap_inv_finalize)
qed

lemma snap_reach_inv: "snap_reach s t \<Longrightarrow> snap_inv s \<Longrightarrow> snap_inv t"
  by (induction rule: snap_reach.induct) (auto intro: snap_step_inv)

section \<open>Consequences for readers and for the owner\<close>

lemma snap_inv_referenced:
  assumes "snap_inv s" and "0 < refs s h"
  obtains r where "handles (sy_mem s) h = Some r" "unat (refcount r) = refs s h"
  using snap_inv_ok [OF assms(1), of h] assms(2) by (auto simp: handle_ok_def split: option.splits)




lemma snap_step_free_fn: "snap_step s t \<Longrightarrow> sn_free_fn (sy_owner t) = sn_free_fn (sy_owner s)"
  by (induction rule: snap_step.induct) (auto simp: publish_locked_def Let_def split: option.splits)

lemma snap_reach_free_fn: "snap_reach s t \<Longrightarrow> sn_free_fn (sy_owner t) = sn_free_fn (sy_owner s)"
  by (induction rule: snap_reach.induct) (auto dest: snap_step_free_fn)

lemma destroy_frees_all:
  assumes inv: "snap_inv s" and idle: "\<forall>h. held s h = 0" "pending s = {}"
  shows "\<exists>ow' m'. savvy_snapshot_owner_destroy (sy_owner s) (sy_mem s) = Some (ow', m')
     \<and> dom (handles m') = {}
     \<and> (sn_free_fn (sy_owner s) \<longrightarrow> mset (free_log m') = mset (published s))"
proof (cases "sn_current (sy_owner s)")
  case None
  have "handles (sy_mem s) h = None" for h
    using snap_inv_ok [OF inv, of h] idle None by (auto simp: handle_ok_def refs_def split: option.splits)
  then have "dom (handles (sy_mem s)) = {}" by auto
  then show ?thesis
    using None inv by (auto simp: savvy_snapshot_owner_destroy_def snap_inv_def live_payloads_def)
next
  case (Some c)
  have rc: "refs s c = 1" using Some idle by (simp add: refs_def)
  then obtain r where r: "handles (sy_mem s) c = Some r" "unat (refcount r) = 1"
    using snap_inv_referenced [OF inv, of c] by auto
  have others: "handles (sy_mem s) h = None" if "h \<noteq> c" for h
    using snap_inv_ok [OF inv, of h] idle Some that
    by (auto simp: handle_ok_def refs_def split: option.splits)
  have ff: "h_free_fn r = sn_free_fn (sy_owner s)"
    using snap_inv_ok [OF inv, of c] r by (simp add: handle_ok_def)
  have dom: "dom (handles (sy_mem s)) = {c}" using others r by (auto simp: dom_def) (metis option.distinct(1))
  have "live_payloads (sy_mem s) = {#payload r#}"
    by (simp add: live_payloads_def dom r)
  then show ?thesis
    using Some r unref_locked_refs [OF r(1)] inv ff others
    by (auto simp: savvy_snapshot_owner_destroy_def finalize_unlocked_def snap_inv_def dom_def)
qed

text \<open>A publication is what the next acquisition returns.\<close>

lemma publish_then_acquire:
  assumes inv: "snap_inv s" and fresh: "handles (sy_mem s) a = None"
  shows "\<exists>ow' m'. savvy_snapshot_publish (sy_owner s) (sy_mem s) (Some a) p = Some (SAVVY_OK, ow', m')
     \<and> sn_current ow' = Some a \<and> sn_version ow' = sn_version (sy_owner s) + 1
     \<and> map_option payload (handles m' a) = Some p"
proof (cases "sn_current (sy_owner s)")
  case None
  then show ?thesis
    by (simp add: savvy_snapshot_publish_def publish_locked_def finalize_unlocked_def)
next
  case (Some prev)
  then have rc: "0 < refs s prev" by (simp add: refs_def)
  then obtain r where r: "handles (sy_mem s) prev = Some r" "unat (refcount r) = refs s prev"
    by (rule snap_inv_referenced [OF inv])
  have "prev \<noteq> a" using fresh r by auto
  let ?m1 = "(sy_mem s)\<lparr>handles := (handles (sy_mem s))
    (a \<mapsto> \<lparr>payload = p, refcount = 1, h_free_fn = sn_free_fn (sy_owner s)\<rparr>)\<rparr>"
  have "handles ?m1 prev = Some r" using r \<open>prev \<noteq> a\<close> by simp
  from unref_locked_refs [OF this] r(2) rc Some \<open>prev \<noteq> a\<close> show ?thesis
    by (auto simp: savvy_snapshot_publish_def publish_locked_def finalize_unlocked_def Let_def)
qed

section \<open>Properties\<close>

text \<open>
  C3: readers never touch freed memory. In every state reachable by interleaving
  publications, acquisitions, releases and the deferred finalisations, a handle that a reader
  holds is still allocated, so reading its payload and releasing it succeed; acquiring
  succeeds as well, and a handle is finalised only when nobody refers to it.
\<close>

theorem snapshot_no_use_after_free:
  assumes "savvy_snapshot_owner_init True f = (SAVVY_OK, Some ow)"
    and "snap_reach (snap_start ow) s"
  shows "(\<forall>h. 0 < held s h \<longrightarrow> savvy_snapshot_payload (sy_mem s) (Some h) \<noteq> None
            \<and> savvy_snapshot_release (sy_mem s) (Some h) \<noteq> None \<and> h \<notin> pending s)
     \<and> savvy_snapshot_acquire (sy_owner s) (sy_mem s) \<noteq> None
     \<and> (\<forall>h \<in> pending s. held s h = 0 \<and> sn_current (sy_owner s) \<noteq> Some h
            \<and> finalize_unlocked (sy_mem s) (Some h) \<noteq> None)"
proof -
  have inv: "snap_inv s" by (rule snap_reach_inv [OF assms(2) snap_inv_start [OF assms(1)]])
  have "savvy_snapshot_payload (sy_mem s) (Some h) \<noteq> None
      \<and> savvy_snapshot_release (sy_mem s) (Some h) \<noteq> None \<and> h \<notin> pending s" if "0 < held s h" for h
  proof -
    have "0 < refs s h" using that by (simp add: refs_def)
    then obtain r where r: "handles (sy_mem s) h = Some r" "unat (refcount r) = refs s h"
      by (rule snap_inv_referenced [OF inv])
    with \<open>0 < refs s h\<close> unref_locked_refs [OF r(1)] snap_inv_ok [OF inv, of h] show ?thesis
      by (auto simp: savvy_snapshot_payload_def savvy_snapshot_release_def finalize_unlocked_def handle_ok_def)
  qed
  moreover have "savvy_snapshot_acquire (sy_owner s) (sy_mem s) \<noteq> None"
  proof (cases "sn_current (sy_owner s)")
    case (Some h)
    then have "0 < refs s h" by (simp add: refs_def)
    then show ?thesis
      using Some by (elim snap_inv_referenced [OF inv]) (simp add: savvy_snapshot_acquire_def)
  qed (simp add: savvy_snapshot_acquire_def)
  moreover have "held s h = 0 \<and> sn_current (sy_owner s) \<noteq> Some h
      \<and> finalize_unlocked (sy_mem s) (Some h) \<noteq> None" if "h \<in> pending s" for h
    using snap_inv_ok [OF inv, of h] that
    by (auto simp: handle_ok_def refs_def finalize_unlocked_def split: option.splits if_splits)
  ultimately show ?thesis by blast
qed

definition snap_demo :: "nat snap_sys" where
  "snap_demo = \<lparr>sy_owner = \<lparr>sn_current = Some 1, sn_free_fn = True, sn_version = 1\<rparr>,
     sy_mem = \<lparr>handles = (\<lambda>_. None)(1 \<mapsto> \<lparr>payload = 42, refcount = 2, h_free_fn = True\<rparr>), free_log = []\<rparr>,
     held = (\<lambda>_. 0)(1 := 1), pending = {}, published = [42]\<rparr>"

lemma snap_demo_reach:
  "snap_reach (snap_start \<lparr>sn_current = None, sn_free_fn = True, sn_version = 0\<rparr>) snap_demo"
proof -
  let ?b = "snap_start \<lparr>sn_current = None, sn_free_fn = True, sn_version = 0\<rparr> :: nat snap_sys"
  let ?p = "?b\<lparr>sy_owner := \<lparr>sn_current = Some 1, sn_free_fn = True, sn_version = 1\<rparr>,
     sy_mem := \<lparr>handles = (\<lambda>_. None)(1 \<mapsto> \<lparr>payload = 42, refcount = 1, h_free_fn = True\<rparr>), free_log = []\<rparr>,
     pending := {}, published := [42]\<rparr>"
  have "snap_step ?b ?p"
    using snap_step.publish [of ?b 1 42 "sy_owner ?p" "sy_mem ?p" None]
    by (simp add: snap_start_def publish_locked_def add_pending_def)
  moreover have "snap_step ?p snap_demo"
    using snap_step.acquire [of ?p 1 1 "sy_mem snap_demo"]
    by (simp add: snap_start_def snap_demo_def savvy_snapshot_acquire_def UINT32_MAX_def)
  ultimately show ?thesis by (meson snap_reach.intros)
qed

theorem snapshot_no_use_after_free_witness:
  "0 < held snap_demo 1 \<and> savvy_snapshot_payload (sy_mem snap_demo) (Some 1) \<noteq> None"
  using snapshot_no_use_after_free [OF _ snap_demo_reach, of True]
  by (simp add: savvy_snapshot_owner_init_def snap_demo_def)




text \<open>
  C17: every published payload is freed exactly once. With a free function installed, the
  payloads freed so far and those of the handles still allocated are together the published
  ones, counted with multiplicity; and when the last reader has released its handle,
  destroying the owner leaves no handle and has freed every payload exactly once.
\<close>

theorem snapshot_frees_exactly_once:
  assumes "savvy_snapshot_owner_init True True = (SAVVY_OK, Some ow)"
    and "snap_reach (snap_start ow) s"
  shows "mset (free_log (sy_mem s)) + live_payloads (sy_mem s) = mset (published s)
     \<and> ((\<forall>h. held s h = 0) \<and> pending s = {} \<longrightarrow>
         (\<exists>ow' m'. savvy_snapshot_owner_destroy (sy_owner s) (sy_mem s) = Some (ow', m')
            \<and> dom (handles m') = {} \<and> mset (free_log m') = mset (published s)))"
proof -
  have inv: "snap_inv s" by (rule snap_reach_inv [OF assms(2) snap_inv_start [OF assms(1)]])
  have "sn_free_fn (sy_owner s)"
    using snap_reach_free_fn [OF assms(2)] assms(1)
    by (auto simp: savvy_snapshot_owner_init_def snap_start_def)
  then show ?thesis
    using inv destroy_frees_all [OF inv] by (auto simp: snap_inv_def)
qed

theorem snapshot_frees_exactly_once_witness:
  "mset (free_log (sy_mem snap_demo)) + live_payloads (sy_mem snap_demo) = {#42#}"
  using snapshot_frees_exactly_once [OF _ snap_demo_reach]
  by (simp add: savvy_snapshot_owner_init_def snap_demo_def)

end
