(* ===== verification/Packet_Codec.thy ===== *)
theory Packet_Codec
  imports Core_Base
begin

text \<open>
  The wire packet of \<^verbatim>\<open>src/protocol/packet/packet_codec.c\<close>: CRC-32 with its lookup table, and
  the encoder and decoder of the 26-byte header. A pointer argument that the code compares
  with \<^verbatim>\<open>NULL\<close> is an option; an input buffer comes with its length argument, an output buffer
  with its old contents. The table-driven checksum is shown equal to the bitwise one, which
  carries the algebra (every step is a bijection, linear in XOR).
\<close>

unbundle bit_operations_syntax

section \<open>CRC-32\<close>

definition crc32_bit :: "u32 \<Rightarrow> u32" where
  "crc32_bit c = (if c AND 1 \<noteq> 0 then 0xEDB88320 XOR drop_bit 1 c else drop_bit 1 c)"

text \<open>\<^verbatim>\<open>crc32_build_table\<close>: eight rounds for each of the 256 byte values.\<close>

definition crc32_table :: "u32 list" where
  "crc32_table = map (\<lambda>i. (crc32_bit ^^ 8) (of_nat i)) [0..<256]"

definition crc32_byte :: "u32 \<Rightarrow> u8 \<Rightarrow> u32" where
  "crc32_byte crc b = crc32_table ! unat ((crc XOR ucast b) AND 0xFF) XOR drop_bit 8 crc"

definition savvy_crc32 :: "bytes \<Rightarrow> u32" where
  "savvy_crc32 data = foldl crc32_byte 0xFFFFFFFF data XOR 0xFFFFFFFF"

subsection \<open>The bitwise reference\<close>

definition crc32_byte_ref :: "u32 \<Rightarrow> u8 \<Rightarrow> u32" where
  "crc32_byte_ref crc b = (crc32_bit ^^ 8) (crc XOR ucast b)"

lemma and_1_iff_bit_0: "(x AND 1 \<noteq> 0) = bit (x :: u32) 0"
  by (simp add: bit_0 even_iff_mod_2_eq_zero and_one_eq)

lemma not_bit_32 [simp]: "\<not> bit (x :: u32) 32"
  using bit_imp_le_length [of x 32] by auto

lemma crc32_bit_xor: "crc32_bit (a XOR b) = crc32_bit a XOR crc32_bit b"
  by (auto simp: crc32_bit_def and_1_iff_bit_0 bit_simps drop_bit_xor intro!: bit_word_eqI)

lemma crc32_bits_xor: "(crc32_bit ^^ n) (a XOR b) = (crc32_bit ^^ n) a XOR (crc32_bit ^^ n) b"
  by (induction n) (simp_all add: crc32_bit_xor)

text \<open>Eight rounds on a state whose low byte is zero are a plain shift.\<close>

lemma crc32_bits_shift:
  assumes "\<And>i. i < n \<Longrightarrow> \<not> bit x i"
  shows "(crc32_bit ^^ n) x = drop_bit n x"
  using assms
proof (induction n)
  case (Suc n)
  then have "(crc32_bit ^^ n) x = drop_bit n x" by simp
  moreover have "\<not> bit (drop_bit n x) 0" using Suc.prems by (simp add: bit_simps)
  then have "crc32_bit (drop_bit n x) = drop_bit (Suc n) x"
    by (simp add: crc32_bit_def and_1_iff_bit_0 drop_bit_drop_bit)
  ultimately show ?case by simp
qed simp

lemma crc32_split: "x = (x AND 0xFF) XOR (x AND NOT 0xFF)" for x :: u32
  by (auto intro!: bit_word_eqI simp: bit_simps)

lemma mask_255: "(0xFF :: u32) = mask 8"
  by (simp add: mask_eq_exp_minus_1)

text \<open>The algebraic core of the lookup table.\<close>

lemma crc32_bits_8: "(crc32_bit ^^ 8) x = (crc32_bit ^^ 8) (x AND 0xFF) XOR drop_bit 8 x"
proof -
  have "(crc32_bit ^^ 8) (x AND NOT 0xFF) = drop_bit 8 (x AND NOT 0xFF)"
    by (rule crc32_bits_shift) (simp add: mask_255 bit_simps)
  also have "\<dots> = drop_bit 8 x"
  proof (rule bit_word_eqI)
    fix n :: nat
    show "bit (drop_bit 8 (x AND NOT 0xFF)) n = bit (drop_bit 8 x) n"
      using bit_imp_le_length [of x "8 + n"] by (auto simp: mask_255 bit_simps)
  qed
  finally show ?thesis
    by (subst crc32_split [of x], subst crc32_bits_xor) simp
qed

lemma length_crc32_table [simp]: "length crc32_table = 256"
  by (simp add: crc32_table_def)

lemma crc32_table_nth:
  assumes "x AND 0xFF = x"
  shows "crc32_table ! unat x = (crc32_bit ^^ 8) x"
proof -
  have "x \<le> 0xFF" using assms word_and_le1 [of x 255] by simp
  then have "unat x < 256" by (simp add: word_le_nat_alt)
  then show ?thesis by (simp add: crc32_table_def)
qed

lemma crc32_byte_eq_ref: "crc32_byte crc b = crc32_byte_ref crc b"
proof -
  let ?x = "crc XOR ucast b"
  have "(?x AND 0xFF) AND 0xFF = ?x AND 0xFF" by (simp add: and.assoc)
  then have "crc32_table ! unat (?x AND 0xFF) = (crc32_bit ^^ 8) (?x AND 0xFF)"
    by (rule crc32_table_nth)
  moreover have "\<not> bit b (8 + n)" for n
    using bit_imp_le_length [of b "8 + n"] by auto
  then have "drop_bit 8 ?x = drop_bit 8 crc"
    by (auto intro!: bit_word_eqI simp: bit_simps)
  ultimately show ?thesis
    using crc32_bits_8 [of ?x] by (simp add: crc32_byte_def crc32_byte_ref_def)
qed

subsection \<open>No collisions within one byte\<close>

text \<open>The top bit of the polynomial tells which branch was taken, so no two states collide.\<close>

lemma crc32_bit_top: "bit (crc32_bit c) 31 \<longleftrightarrow> bit c 0"
  by (auto simp: crc32_bit_def and_1_iff_bit_0 bit_simps)

lemma word_xor_cancel: "(a XOR x = a XOR y) = (x = y)" for a x y :: "'a::len word"
proof
  assume "a XOR x = a XOR y"
  then have "a XOR (a XOR x) = a XOR (a XOR y)" by (rule arg_cong)
  then show "x = y" by (simp only: xor.assoc [symmetric] xor_self_eq xor.left_neutral)
qed simp

lemma crc32_bit_inj: "crc32_bit a = crc32_bit b \<Longrightarrow> a = b"
proof -
  assume eq: "crc32_bit a = crc32_bit b"
  then have low: "bit a 0 = bit b 0" using crc32_bit_top by metis
  have "drop_bit 1 a = drop_bit 1 b"
  proof (cases "bit a 0")
    case True
    with low eq have "0xEDB88320 XOR drop_bit 1 a = 0xEDB88320 XOR drop_bit 1 b"
      by (simp add: crc32_bit_def and_1_iff_bit_0)
    then show ?thesis by (simp only: word_xor_cancel)
  next
    case False
    with low eq show ?thesis by (simp add: crc32_bit_def and_1_iff_bit_0)
  qed
  then have "bit a (Suc i) = bit b (Suc i)" for i
    by (metis add.commute bit_drop_bit_eq comp_apply plus_1_eq_Suc)
  with low show "a = b" by (intro bit_word_eqI) (metis not0_implies_Suc)
qed

lemma crc32_bits_inj: "(crc32_bit ^^ n) a = (crc32_bit ^^ n) b \<Longrightarrow> a = b"
  by (induction n) (auto dest: crc32_bit_inj)

lemma crc32_byte_inj_state: "crc32_byte c b = crc32_byte d b \<Longrightarrow> c = d"
  unfolding crc32_byte_eq_ref crc32_byte_ref_def
  by (drule crc32_bits_inj) (simp only: xor.commute [of _ "ucast b"] word_xor_cancel)

lemma crc32_byte_inj_byte: "crc32_byte c a = crc32_byte c b \<Longrightarrow> a = b"
proof -
  assume "crc32_byte c a = crc32_byte c b"
  then have "c XOR ucast a = c XOR ucast b"
    unfolding crc32_byte_eq_ref crc32_byte_ref_def by (rule crc32_bits_inj)
  then have "(ucast a :: u32) = ucast b" by (simp only: word_xor_cancel)
  then have "unat (ucast a :: u32) = unat (ucast b :: u32)" by simp
  then have "unat a = unat b"
    by (simp add: unsigned_ucast_eq take_bit_nat_eq_self less_trans [OF unsigned_less])
  then show "a = b" by (rule unsigned_word_eqI)
qed

lemma crc32_fold_inj: "foldl crc32_byte c ys = foldl crc32_byte d ys \<Longrightarrow> c = d"
  by (induction ys arbitrary: c d) (auto dest: crc32_byte_inj_state)

lemma savvy_crc32_ref: "savvy_crc32 data = foldl crc32_byte_ref 0xFFFFFFFF data XOR 0xFFFFFFFF"
proof -
  have "crc32_byte = crc32_byte_ref" by (intro ext crc32_byte_eq_ref)
  then show ?thesis by (simp add: savvy_crc32_def)
qed

text \<open>
  C19: the table-driven checksum of \<^verbatim>\<open>savvy_crc32\<close> is the bitwise CRC-32 (reflected polynomial
  0xEDB88320, initial value and final XOR 0xFFFFFFFF), for every input.
\<close>

theorem crc32_table_driven_is_bitwise:
  "savvy_crc32 data = foldl (\<lambda>crc b. (crc32_bit ^^ 8) (crc XOR ucast b)) 0xFFFFFFFF data XOR 0xFFFFFFFF"
  by (simp add: savvy_crc32_ref crc32_byte_ref_def [abs_def])

text \<open>
  C20: the checksum detects every corruption confined to one byte: two messages of equal
  length that differ in exactly one byte never have the same CRC-32.
\<close>

theorem crc32_detects_byte_corruption:
  assumes "a \<noteq> b"
  shows "savvy_crc32 (xs @ a # ys) \<noteq> savvy_crc32 (xs @ b # ys)"
proof
  let ?c = "foldl crc32_byte 0xFFFFFFFF xs"
  assume "savvy_crc32 (xs @ a # ys) = savvy_crc32 (xs @ b # ys)"
  then have "0xFFFFFFFF XOR foldl crc32_byte (crc32_byte ?c a) ys
      = 0xFFFFFFFF XOR foldl crc32_byte (crc32_byte ?c b) ys"
    by (simp add: savvy_crc32_def xor.commute)
  then have "foldl crc32_byte (crc32_byte ?c a) ys = foldl crc32_byte (crc32_byte ?c b) ys"
    by (simp only: word_xor_cancel)
  then have "crc32_byte ?c a = crc32_byte ?c b" by (rule crc32_fold_inj)
  then have "a = b" by (rule crc32_byte_inj_byte)
  with assms show False by simp
qed

theorem crc32_detects_byte_corruption_witness:
  "savvy_crc32 ([1] @ 2 # [3]) \<noteq> savvy_crc32 ([1] @ 4 # [3])"
  by (rule crc32_detects_byte_corruption) simp

section \<open>The header\<close>

definition SAVVY_PACKET_HEADER_LEN :: nat where
  "SAVVY_PACKET_HEADER_LEN = 26"

definition SAVVY_PACKET_SERIAL_LEN :: nat where
  "SAVVY_PACKET_SERIAL_LEN = 14"

lemmas packet_lens = SAVVY_PACKET_HEADER_LEN_def SAVVY_PACKET_SERIAL_LEN_def

record savvy_packet_header =
  hdr_start :: u8
  hdr_command :: u8
  hdr_device :: u8
  hdr_config :: u8
  hdr_length :: u32
  hdr_serial :: bytes
  hdr_crc32 :: u32

text \<open>The four shift-and-mask stores of a big-endian field, and the load that reads them back.\<close>

definition be32_store :: "u32 \<Rightarrow> bytes" where
  "be32_store w =
     [ucast (drop_bit 24 w AND 0xFF), ucast (drop_bit 16 w AND 0xFF),
      ucast (drop_bit 8 w AND 0xFF), ucast (w AND 0xFF)]"

definition be32_load :: "bytes \<Rightarrow> nat \<Rightarrow> u32" where
  "be32_load buf off =
     push_bit 24 (ucast (buf ! off)) OR push_bit 16 (ucast (buf ! (off + 1)))
     OR push_bit 8 (ucast (buf ! (off + 2))) OR ucast (buf ! (off + 3))"

lemma length_be32_store [simp]: "length (be32_store w) = 4"
  by (simp add: be32_store_def)

lemma be32_load_append [simp]: "be32_load (xs @ ys) (length xs + k) = be32_load ys k"
  by (simp add: be32_load_def nth_append)

lemma be32_load_store: "be32_load (be32_store w @ ys) 0 = w"
proof (rule bit_word_eqI)
  fix n :: nat assume "n < LENGTH(32)"
  then have "n < 32" by simp
  then consider "n < 8" | "8 \<le> n" "n < 16" | "16 \<le> n" "n < 24" | "24 \<le> n" "n < 32"
    by linarith
  then show "bit (be32_load (be32_store w @ ys) 0) n = bit w n"
    by cases (auto simp: be32_load_def be32_store_def mask_255 bit_simps)
qed

lemma not_bit_u8: "8 \<le> n \<Longrightarrow> \<not> bit (b :: u8) n"
  using bit_imp_le_length [of b n] by auto

lemma be32_store_bytes:
  "be32_store (push_bit 24 (ucast a) OR push_bit 16 (ucast b) OR push_bit 8 (ucast c) OR ucast d)
     = [a, b, c, d]"
  unfolding be32_store_def list.inject mask_255
  by (intro conjI bit_word_eqI) (auto simp: bit_simps not_bit_u8)

lemma mem_read_4:
  assumes "off + 4 \<le> length buf"
  shows "mem_read buf off 4 = [buf ! off, buf ! (off + 1), buf ! (off + 2), buf ! (off + 3)]"
proof -
  have "mem_read buf off 4 = map (\<lambda>i. buf ! (off + i)) [0..<4]"
    using assms by (intro nth_equalityI) (simp_all add: nth_mem_read)
  then show ?thesis by (simp add: upt_rec numeral_eq_Suc)
qed

lemma be32_store_load: "off + 4 \<le> length buf \<Longrightarrow> be32_store (be32_load buf off) = mem_read buf off 4"
  by (simp only: mem_read_4 be32_load_def be32_store_bytes)

section \<open>Encoding\<close>

text \<open>
  \<^verbatim>\<open>savvy_packet_encode\<close>: the status, the output buffer and the value stored in
  \<^verbatim>\<open>*out_written\<close>. The flag says that the \<^verbatim>\<open>out_written\<close> pointer is \<^verbatim>\<open>NULL\<close>.
\<close>

definition savvy_packet_encode ::
  "u8 \<Rightarrow> u8 \<Rightarrow> u8 \<Rightarrow> u8 \<Rightarrow> bytes option \<Rightarrow> nat \<Rightarrow> bytes option \<Rightarrow> nat
   \<Rightarrow> bytes option \<Rightarrow> nat \<Rightarrow> bool \<Rightarrow> savvy_status \<times> bytes option \<times> nat option" where
  "savvy_packet_encode start command device config ser serial_len data data_len out out_cap written_null =
     (if ser = None \<or> serial_len \<noteq> SAVVY_PACKET_SERIAL_LEN then (SAVVY_ERR_INVALID_ARGUMENT, out, None)
      else if data = None \<and> data_len \<noteq> 0 then (SAVVY_ERR_INVALID_ARGUMENT, out, None)
      else if out = None \<or> written_null then (SAVVY_ERR_INVALID_ARGUMENT, out, None)
      else if data_len > UINT32_MAX then (SAVVY_ERR_OVERFLOW, out, None)
      else if data_len > SIZE_MAX - SAVVY_PACKET_HEADER_LEN then (SAVVY_ERR_OVERFLOW, out, None)
      else
        let total = SAVVY_PACKET_HEADER_LEN + data_len
        in if out_cap < total then (SAVVY_ERR_OVERFLOW, out, None)
           else
             let payload = (case data of None \<Rightarrow> [] | Some d \<Rightarrow> mem_read d 0 data_len);
                 b0 = mem_write (the out) 0 [start, command, device, config];
                 b1 = mem_write b0 4 (be32_store (of_nat data_len));
                 b2 = mem_write b1 8 (mem_read (the ser) 0 SAVVY_PACKET_SERIAL_LEN);
                 b3 = mem_write b2 22 (be32_store (savvy_crc32 payload));
                 b4 = (if data_len > 0 then mem_write b3 SAVVY_PACKET_HEADER_LEN payload else b3)
             in (SAVVY_OK, Some b4, Some total))"

text \<open>The documented wire image, independent of any buffer.\<close>

definition packet_image :: "u8 \<Rightarrow> u8 \<Rightarrow> u8 \<Rightarrow> u8 \<Rightarrow> bytes \<Rightarrow> bytes \<Rightarrow> bytes" where
  "packet_image s c dv cf ser data =
     [s, c, dv, cf] @ be32_store (of_nat (length data)) @ ser @ be32_store (savvy_crc32 data) @ data"

lemma mem_write_next:
  assumes "length xs + length ys \<le> length buf" and "n = length xs"
  shows "mem_write (xs @ drop n buf) n ys = (xs @ ys) @ drop (n + length ys) buf"
  using assms by (simp add: mem_write_def add.commute)

lemma mem_read_all [simp]: "mem_read xs 0 (length xs) = xs"
  by (simp add: mem_read_def)

lemma savvy_packet_encode_ok:
  assumes "length ser = SAVVY_PACKET_SERIAL_LEN" and "length data \<le> UINT32_MAX"
    and "SAVVY_PACKET_HEADER_LEN + length data \<le> length out"
  shows "savvy_packet_encode s c dv cf (Some ser) (length ser) (Some data) (length data)
           (Some out) (length out) False
         = (SAVVY_OK,
            Some (packet_image s c dv cf ser data @ drop (SAVVY_PACKET_HEADER_LEN + length data) out),
            Some (SAVVY_PACKET_HEADER_LEN + length data))"
proof -
  let ?h0 = "[s, c, dv, cf]" and ?l = "be32_store (of_nat (length data))"
    and ?k = "be32_store (savvy_crc32 data)"
  have len: "length ser = 14" "length data + 26 \<le> length out" using assms by (simp_all add: packet_lens)
  have b0: "mem_write out 0 ?h0 = ?h0 @ drop 4 out" by (simp add: mem_write_def numeral_eq_Suc)
  have b1: "mem_write (?h0 @ drop 4 out) 4 ?l = (?h0 @ ?l) @ drop 8 out"
    using len by (subst mem_write_next) simp_all
  have b2: "mem_write ((?h0 @ ?l) @ drop 8 out) 8 ser = (?h0 @ ?l @ ser) @ drop 22 out"
    using len by (subst mem_write_next) simp_all
  have b3: "mem_write ((?h0 @ ?l @ ser) @ drop 22 out) 22 ?k = (?h0 @ ?l @ ser @ ?k) @ drop 26 out"
    using len by (subst mem_write_next) simp_all
  have b4: "(if length data > 0 then mem_write ((?h0 @ ?l @ ser @ ?k) @ drop 26 out) 26 data
             else (?h0 @ ?l @ ser @ ?k) @ drop 26 out)
      = (?h0 @ ?l @ ser @ ?k @ data) @ drop (26 + length data) out"
    using len by (subst mem_write_next) simp_all
  have ser: "mem_read ser 0 14 = ser" using len by (simp add: mem_read_def)
  have lim: "\<not> length data > UINT32_MAX" "\<not> length data > SIZE_MAX - 26" "\<not> length out < 26 + length data"
    using assms(2) len by (simp_all add: limits)
  show ?thesis
    unfolding savvy_packet_encode_def packet_lens packet_image_def Let_def option.case option.sel
      mem_read_all ser b0 b1 b2 b3 b4
    using lim len by simp
qed

section \<open>Decoding\<close>

text \<open>
  \<^verbatim>\<open>savvy_packet_decode\<close>: the status, the header (its fields are stored before the length
  guard, so a failing call may have written it) and what was stored through \<^verbatim>\<open>out_data\<close> and
  \<^verbatim>\<open>out_data_len\<close>, as the offset into \<^verbatim>\<open>in\<close> and the length. The flag says that one of these
  two pointers is \<^verbatim>\<open>NULL\<close>.
\<close>

definition decode_header :: "bytes \<Rightarrow> savvy_packet_header" where
  "decode_header buf =
     \<lparr>hdr_start = buf ! 0, hdr_command = buf ! 1, hdr_device = buf ! 2, hdr_config = buf ! 3,
      hdr_length = be32_load buf 4, hdr_serial = mem_read buf 8 SAVVY_PACKET_SERIAL_LEN,
      hdr_crc32 = be32_load buf 22\<rparr>"

definition savvy_packet_decode ::
  "bytes option \<Rightarrow> nat \<Rightarrow> savvy_packet_header option \<Rightarrow> bool
   \<Rightarrow> savvy_status \<times> savvy_packet_header option \<times> (nat \<times> nat) option" where
  "savvy_packet_decode buf in_len out_header outs_null =
     (if buf = None \<or> out_header = None \<or> outs_null
      then (SAVVY_ERR_INVALID_ARGUMENT, out_header, None)
      else if in_len < SAVVY_PACKET_HEADER_LEN then (SAVVY_ERR_PROTOCOL, out_header, None)
      else
        let h = decode_header (the buf)
        in if unat (hdr_length h) > in_len - SAVVY_PACKET_HEADER_LEN
           then (SAVVY_ERR_PROTOCOL, Some h, None)
           else (SAVVY_OK, Some h, Some (SAVVY_PACKET_HEADER_LEN, unat (hdr_length h))))"

lemma nth_header [simp]:
  "([s, c, dv, cf] @ xs) ! 0 = s" "([s, c, dv, cf] @ xs) ! 1 = c"
  "([s, c, dv, cf] @ xs) ! 2 = dv" "([s, c, dv, cf] @ xs) ! 3 = cf"
  by (simp_all add: numeral_eq_Suc)

lemma length_packet_image:
  "length ser = SAVVY_PACKET_SERIAL_LEN
     \<Longrightarrow> length (packet_image s c dv cf ser data) = SAVVY_PACKET_HEADER_LEN + length data"
  by (simp add: packet_image_def packet_lens)

lemma be32_load_at: "length xs = k \<Longrightarrow> be32_load (xs @ be32_store w @ ys) k = w"
  using be32_load_append [of xs "be32_store w @ ys" 0] by (simp add: be32_load_store)

lemma decode_header_image:
  assumes "length ser = SAVVY_PACKET_SERIAL_LEN"
  shows "decode_header (packet_image s c dv cf ser data @ rest) =
           \<lparr>hdr_start = s, hdr_command = c, hdr_device = dv, hdr_config = cf,
            hdr_length = of_nat (length data), hdr_serial = ser, hdr_crc32 = savvy_crc32 data\<rparr>"
proof -
  let ?h0 = "[s, c, dv, cf]" and ?l = "be32_store (of_nat (length data))"
    and ?k = "be32_store (savvy_crc32 data)"
  have img: "packet_image s c dv cf ser data @ rest = ?h0 @ ?l @ ser @ ?k @ data @ rest"
    by (simp add: packet_image_def)
  have "be32_load (?h0 @ ?l @ ser @ ?k @ data @ rest) 4 = of_nat (length data)"
    by (rule be32_load_at) simp
  moreover have "be32_load ((?h0 @ ?l @ ser) @ ?k @ data @ rest) 22 = savvy_crc32 data"
    using assms by (intro be32_load_at) (simp add: packet_lens)
  moreover have "mem_read ((?h0 @ ?l) @ ser @ ?k @ data @ rest) 8 14 = ser"
    using assms by (simp add: mem_read_def packet_lens)
  ultimately show ?thesis
    unfolding img decode_header_def packet_lens by (simp del: append_Cons One_nat_def add: nth_header)
qed

lemma unat_of_nat_u32: "n \<le> UINT32_MAX \<Longrightarrow> unat (of_nat n :: u32) = n"
  by (simp add: unat_of_nat limits)

text \<open>
  C5: what the encoder writes the decoder reads back. Encoding any body of at most
  \<^verbatim>\<open>UINT32_MAX\<close> bytes into a large enough buffer succeeds, leaves the rest of the buffer alone,
  and decoding the buffer (with whatever bytes follow) returns every header field, the
  body's CRC-32 and a view of exactly the body.
\<close>

theorem packet_encode_decode_roundtrip:
  assumes "length ser = SAVVY_PACKET_SERIAL_LEN" and "length data \<le> UINT32_MAX"
    and "SAVVY_PACKET_HEADER_LEN + length data \<le> length out"
  shows "\<exists>out'.
     savvy_packet_encode s c dv cf (Some ser) (length ser) (Some data) (length data)
       (Some out) (length out) False = (SAVVY_OK, Some out', Some (SAVVY_PACKET_HEADER_LEN + length data))
   \<and> length out' = length out
   \<and> drop (SAVVY_PACKET_HEADER_LEN + length data) out' = drop (SAVVY_PACKET_HEADER_LEN + length data) out
   \<and> savvy_packet_decode (Some out') (length out') (Some h) False =
       (SAVVY_OK,
        Some \<lparr>hdr_start = s, hdr_command = c, hdr_device = dv, hdr_config = cf,
              hdr_length = of_nat (length data), hdr_serial = ser, hdr_crc32 = savvy_crc32 data\<rparr>,
        Some (SAVVY_PACKET_HEADER_LEN, length data))
   \<and> mem_read out' SAVVY_PACKET_HEADER_LEN (length data) = data"
proof -
  let ?n = "SAVVY_PACKET_HEADER_LEN + length data"
  let ?img = "packet_image s c dv cf ser data"
  let ?out' = "?img @ drop ?n out"
  have li: "length ?img = ?n" using assms(1) by (rule length_packet_image)
  have body: "mem_read ?out' SAVVY_PACKET_HEADER_LEN (length data) = data"
    using assms(1) by (simp add: packet_image_def mem_read_def packet_lens)
  have "savvy_packet_decode (Some ?out') (length ?out') (Some h) False =
       (SAVVY_OK,
        Some \<lparr>hdr_start = s, hdr_command = c, hdr_device = dv, hdr_config = cf,
              hdr_length = of_nat (length data), hdr_serial = ser, hdr_crc32 = savvy_crc32 data\<rparr>,
        Some (SAVVY_PACKET_HEADER_LEN, length data))"
    using li unat_of_nat_u32 [OF assms(2)]
    by (simp add: savvy_packet_decode_def decode_header_image [OF assms(1)] Let_def)
  with body li assms(3) show ?thesis
    by (intro exI [of _ ?out'] conjI savvy_packet_encode_ok [OF assms]) simp_all
qed

theorem packet_encode_decode_roundtrip_witness:
  "\<exists>out'.
     savvy_packet_encode 1 2 3 4 (Some (replicate 14 7)) (length (replicate 14 (7 :: u8)))
       (Some [9, 8]) (length [9 :: u8, 8]) (Some (replicate 30 0)) (length (replicate 30 (0 :: u8))) False
       = (SAVVY_OK, Some out', Some (SAVVY_PACKET_HEADER_LEN + length [9 :: u8, 8]))
   \<and> mem_read out' SAVVY_PACKET_HEADER_LEN (length [9 :: u8, 8]) = [9, 8]"
  using packet_encode_decode_roundtrip [where ser = "replicate 14 7" and data = "[9, 8]"
      and out = "replicate 30 0" and s = 1 and c = 2 and dv = 3 and cf = 4]
  by (simp add: packet_lens limits) blast

text \<open>
  Decoding is memory safe and total on untrusted bytes. With all pointers present it
  returns \<^verbatim>\<open>SAVVY_ERR_PROTOCOL\<close> exactly when the header is incomplete or the declared length
  exceeds the bytes present; otherwise the view handed out lies inside the input and is
  exactly \<open>length\<close> bytes, where the length is the big-endian value of bytes 4 to 7.
\<close>

lemma packet_decode_total:
  "savvy_packet_decode (Some buf) (length buf) (Some h) False =
     (if length buf < SAVVY_PACKET_HEADER_LEN then (SAVVY_ERR_PROTOCOL, Some h, None)
      else if SAVVY_PACKET_HEADER_LEN + unat (be32_load buf 4) > length buf
      then (SAVVY_ERR_PROTOCOL, Some (decode_header buf), None)
      else (SAVVY_OK, Some (decode_header buf), Some (SAVVY_PACKET_HEADER_LEN, unat (be32_load buf 4))))"
  by (auto simp: savvy_packet_decode_def decode_header_def Let_def)

lemma take_26_split:
  assumes "SAVVY_PACKET_HEADER_LEN \<le> length buf"
  shows "take SAVVY_PACKET_HEADER_LEN buf =
           [buf ! 0, buf ! 1, buf ! 2, buf ! 3] @ mem_read buf 4 4
           @ mem_read buf 8 SAVVY_PACKET_SERIAL_LEN @ mem_read buf 22 4"
proof -
  have "take 26 buf = mem_read buf 0 (4 + (4 + (14 + 4)))" by (simp add: mem_read_def)
  also have "\<dots> = mem_read buf 0 4 @ mem_read buf 4 4 @ mem_read buf 8 14 @ mem_read buf 22 4"
    by (simp only: mem_read_append) simp
  finally show ?thesis using assms mem_read_4 [of 0 buf] by (simp add: packet_lens numeral_2_eq_2)
qed

lemma packet_image_of_decoded:
  assumes ok: "savvy_packet_decode (Some buf) (length buf) (Some h) False = (SAVVY_OK, Some hdr, Some (off, n))"
    and crc: "savvy_crc32 (mem_read buf off n) = hdr_crc32 hdr"
  shows "packet_image (hdr_start hdr) (hdr_command hdr) (hdr_device hdr) (hdr_config hdr) (hdr_serial hdr)
           (mem_read buf off n) = take (off + n) buf"
proof -
  have len: "SAVVY_PACKET_HEADER_LEN + n \<le> length buf" and hdr: "hdr = decode_header buf"
    and off: "off = SAVVY_PACKET_HEADER_LEN" and n: "n = unat (be32_load buf 4)"
    using ok by (auto simp: packet_decode_total split: if_splits)
  have "take (off + n) buf = take SAVVY_PACKET_HEADER_LEN buf @ mem_read buf off n"
    by (simp add: off take_add mem_read_def)
  moreover have "of_nat (length (mem_read buf off n)) = be32_load buf 4"
    using len by (simp add: off n)
  ultimately show ?thesis
    using len crc take_26_split [of buf]
    by (simp add: packet_image_def hdr decode_header_def be32_store_load packet_lens)
qed

text \<open>
  Decoding loses nothing and never leaves the input. Whenever a decode of untrusted bytes
  succeeds, the view handed out ends inside the input; and if the checksum field matches the
  body, encoding the decoded fields and body again yields exactly the bytes decoded.
\<close>

theorem packet_decode_reencode:
  assumes "savvy_packet_decode (Some buf) (length buf) (Some h) False = (SAVVY_OK, Some hdr, Some (off, n))"
    and "savvy_crc32 (mem_read buf off n) = hdr_crc32 hdr" and "length out = length buf"
  shows "off + n \<le> length buf \<and>
         savvy_packet_encode (hdr_start hdr) (hdr_command hdr) (hdr_device hdr) (hdr_config hdr)
           (Some (hdr_serial hdr)) (length (hdr_serial hdr)) (Some (mem_read buf off n)) n
           (Some out) (length out) False
         = (SAVVY_OK, Some (take (off + n) buf @ drop (off + n) out), Some (off + n))"
proof -
  have len: "SAVVY_PACKET_HEADER_LEN + n \<le> length buf" and hdr: "hdr = decode_header buf"
    and off: "off = SAVVY_PACKET_HEADER_LEN" and n: "n = unat (be32_load buf 4)"
    using assms(1) by (auto simp: packet_decode_total split: if_splits)
  have "length (hdr_serial hdr) = SAVVY_PACKET_SERIAL_LEN" "length (mem_read buf off n) = n"
    using len by (simp_all add: hdr decode_header_def off packet_lens)
  moreover have "n \<le> UINT32_MAX"
    using unsigned_less [of "be32_load buf 4", where 'a = nat] by (simp add: n limits)
  ultimately show ?thesis
    using savvy_packet_encode_ok [of "hdr_serial hdr" "mem_read buf off n" out] len assms(3) off
      packet_image_of_decoded [OF assms(1,2)] by simp
qed

theorem packet_decode_reencode_witness:
  "savvy_packet_encode 0 0 0 0 (Some (replicate 14 0)) 14 (Some []) 0 (Some (replicate 27 1)) 27 False
     = (SAVVY_OK, Some (replicate 26 0 @ [1]), Some 26)"
proof -
  have "savvy_crc32 [] = 0" by (simp add: savvy_crc32_def)
  moreover have "be32_load (replicate 27 0) k = 0" if "k < 24" for k
    using that by (simp add: be32_load_def)
  ultimately show ?thesis
    using packet_decode_reencode [of "replicate 27 0" "decode_header []" "decode_header (replicate 27 0)" 26 0
        "replicate 27 1"] packet_decode_total [of "replicate 27 0" "decode_header []"]
    by (simp add: packet_lens decode_header_def mem_read_def)
qed

end
