(* ===== verification/Stream_Parser.thy ===== *)
theory Stream_Parser
  imports Packet_Codec
begin

text \<open>
  The incremental packet parser of \<^verbatim>\<open>src/protocol/packet/stream_parser.c\<close>. The caller-owned
  storage is part of the state; pointers into it are offsets. Under the invariant
  \<^verbatim>\<open>head <= tail <= buf_cap\<close> the parser is a bounded byte stream from which whole packets are
  taken; the locale \<open>byte_stream\<close> states that contract and derives, once, that the packets
  delivered do not depend on how the transport cut the stream into chunks.
\<close>

unbundle bit_operations_syntax

section \<open>State and operations\<close>

record savvy_stream_parser =
  sp_buf :: bytes
  buf_cap :: nat
  sp_head :: nat
  sp_tail :: nat

datatype savvy_stream_result =
    SAVVY_STREAM_NEED_MORE_DATA
  | SAVVY_STREAM_PACKET_READY
  | SAVVY_STREAM_ERROR

definition savvy_stream_parser_init :: "bytes \<Rightarrow> nat \<Rightarrow> savvy_stream_parser" where
  "savvy_stream_parser_init buf cap = \<lparr>sp_buf = buf, buf_cap = cap, sp_head = 0, sp_tail = 0\<rparr>"

text \<open>The \<^verbatim>\<open>memmove\<close> of the unread bytes to the front of the storage.\<close>

definition sp_compact :: "savvy_stream_parser \<Rightarrow> savvy_stream_parser" where
  "sp_compact p =
     (let used = sp_tail p - sp_head p
      in if sp_head p > 0
         then p\<lparr>sp_buf := mem_write (sp_buf p) 0 (mem_read (sp_buf p) (sp_head p) used),
                sp_head := 0, sp_tail := used\<rparr>
         else p)"

definition savvy_stream_parser_push ::
  "savvy_stream_parser \<Rightarrow> bytes option \<Rightarrow> nat \<Rightarrow> savvy_status \<times> savvy_stream_parser" where
  "savvy_stream_parser_push p src len =
     (if len = 0 then (SAVVY_OK, p)
      else case src of
        None \<Rightarrow> (SAVVY_ERR_INVALID_ARGUMENT, p)
      | Some xs \<Rightarrow>
          let p' = (if buf_cap p - sp_tail p < len then sp_compact p else p)
          in if buf_cap p' - sp_tail p' < len then (SAVVY_ERR_OVERFLOW, p')
             else (SAVVY_OK, p'\<lparr>sp_buf := mem_write (sp_buf p') (sp_tail p') (mem_read xs 0 len),
                                sp_tail := sp_tail p' + len\<rparr>))"

text \<open>
  \<^verbatim>\<open>savvy_stream_parser_try_extract\<close>: the verdict, the parser, the caller's header and what is
  stored through \<^verbatim>\<open>out_data\<close> and \<^verbatim>\<open>out_data_len\<close>, as an offset into the storage and a length.
\<close>

definition savvy_stream_parser_try_extract ::
  "savvy_stream_parser \<Rightarrow> savvy_packet_header option
   \<Rightarrow> savvy_stream_result \<times> savvy_stream_parser \<times> savvy_packet_header option \<times> (nat \<times> nat) option" where
  "savvy_stream_parser_try_extract p out_header =
     (let available = sp_tail p - sp_head p
      in if available < SAVVY_PACKET_HEADER_LEN then (SAVVY_STREAM_NEED_MORE_DATA, p, out_header, None)
      else
        let base = drop (sp_head p) (sp_buf p);
            total_needed = SAVVY_PACKET_HEADER_LEN + unat (be32_load base 4)
        in if total_needed > buf_cap p then (SAVVY_STREAM_ERROR, p, out_header, None)
        else if available < total_needed then (SAVVY_STREAM_NEED_MORE_DATA, p, out_header, None)
        else case savvy_packet_decode (Some base) total_needed out_header False of
          (SAVVY_OK, h, Some (off, n)) \<Rightarrow>
            (SAVVY_STREAM_PACKET_READY, p\<lparr>sp_head := sp_head p + total_needed\<rparr>, h, Some (sp_head p + off, n))
        | (_, h, _) \<Rightarrow> (SAVVY_STREAM_ERROR, p, h, None))"

section \<open>Invariant and abstraction\<close>

definition sp_inv :: "savvy_stream_parser \<Rightarrow> bool" where
  "sp_inv p \<longleftrightarrow> length (sp_buf p) = buf_cap p \<and> sp_head p \<le> sp_tail p \<and> sp_tail p \<le> buf_cap p"

text \<open>The unread bytes \<^verbatim>\<open>buf[head, tail)\<close>.\<close>

definition sp_content :: "savvy_stream_parser \<Rightarrow> bytes" where
  "sp_content p = mem_read (sp_buf p) (sp_head p) (sp_tail p - sp_head p)"

lemma sp_init_inv: "length buf = cap \<Longrightarrow> sp_inv (savvy_stream_parser_init buf cap)"
  by (simp add: savvy_stream_parser_init_def sp_inv_def)

lemma sp_init_content: "sp_content (savvy_stream_parser_init buf cap) = []"
  by (simp add: savvy_stream_parser_init_def sp_content_def mem_read_def)

lemma length_sp_content: "sp_inv p \<Longrightarrow> length (sp_content p) = sp_tail p - sp_head p"
  by (simp add: sp_content_def sp_inv_def)

lemma sp_compact_props:
  assumes "sp_inv p"
  shows "sp_inv (sp_compact p)" and "sp_content (sp_compact p) = sp_content p"
    and "buf_cap (sp_compact p) = buf_cap p" and "sp_head (sp_compact p) = 0"
    and "sp_tail (sp_compact p) = length (sp_content p)"
proof -
  let ?u = "mem_read (sp_buf p) (sp_head p) (sp_tail p - sp_head p)"
  have room: "sp_tail p - sp_head p \<le> buf_cap p" using assms by (auto simp: sp_inv_def)
  have "length ?u = sp_tail p - sp_head p" using assms by (simp add: sp_inv_def)
  moreover from this have "mem_read (mem_write (sp_buf p) 0 ?u) 0 (sp_tail p - sp_head p) = ?u"
    using assms room mem_read_write_same [of 0 ?u "sp_buf p"] by (simp add: sp_inv_def)
  ultimately show "sp_inv (sp_compact p)" and "sp_content (sp_compact p) = sp_content p"
    and "buf_cap (sp_compact p) = buf_cap p" and "sp_head (sp_compact p) = 0"
    and "sp_tail (sp_compact p) = length (sp_content p)"
    using assms room length_sp_content [OF assms]
    by (auto simp: sp_compact_def sp_inv_def sp_content_def Let_def)
qed

lemma sp_push_at_tail:
  assumes "sp_inv p" and "sp_tail p + length xs \<le> buf_cap p"
  shows "sp_inv (p\<lparr>sp_buf := mem_write (sp_buf p) (sp_tail p) xs, sp_tail := sp_tail p + length xs\<rparr>)"
    and "sp_content (p\<lparr>sp_buf := mem_write (sp_buf p) (sp_tail p) xs, sp_tail := sp_tail p + length xs\<rparr>)
           = sp_content p @ xs"
  using assms by (auto simp: sp_inv_def sp_content_def mem_write_append_read)

lemma sp_push_room:
  assumes "sp_inv p" and "length (sp_content p) + length xs \<le> buf_cap p"
  shows "\<exists>p'. savvy_stream_parser_push p (Some xs) (length xs) = (SAVVY_OK, p') \<and> sp_inv p'
           \<and> sp_content p' = sp_content p @ xs \<and> buf_cap p' = buf_cap p"
proof (cases "xs = []")
  case True
  with assms show ?thesis by (simp add: savvy_stream_parser_push_def)
next
  case False
  define q where "q = (if buf_cap p - sp_tail p < length xs then sp_compact p else p)"
  have q: "sp_inv q" "sp_content q = sp_content p" "buf_cap q = buf_cap p"
    using sp_compact_props [OF assms(1)] assms(1) by (simp_all add: q_def)
  have room: "sp_tail q + length xs \<le> buf_cap q"
    using assms sp_compact_props [OF assms(1)] by (auto simp: q_def sp_inv_def)
  then have "\<not> buf_cap q - sp_tail q < length xs" by simp
  then have "savvy_stream_parser_push p (Some xs) (length xs) =
      (SAVVY_OK, q\<lparr>sp_buf := mem_write (sp_buf q) (sp_tail q) xs, sp_tail := sp_tail q + length xs\<rparr>)"
    using False by (simp add: savvy_stream_parser_push_def Let_def q_def [symmetric])
  then show ?thesis using sp_push_at_tail [OF q(1) room] q by auto
qed

lemma sp_push_no_room:
  assumes "sp_inv p" and "\<not> length (sp_content p) + length xs \<le> buf_cap p"
  shows "\<exists>p'. savvy_stream_parser_push p (Some xs) (length xs) = (SAVVY_ERR_OVERFLOW, p') \<and> sp_inv p'
           \<and> sp_content p' = sp_content p \<and> buf_cap p' = buf_cap p"
proof -
  have "xs \<noteq> []" using assms length_sp_content [OF assms(1)] by (auto simp: sp_inv_def)
  moreover have "buf_cap p - sp_tail p < length xs" "buf_cap p - length (sp_content p) < length xs"
    using assms length_sp_content [OF assms(1)] by (auto simp: sp_inv_def)
  ultimately show ?thesis
    using sp_compact_props [OF assms(1)] by (auto simp: savvy_stream_parser_push_def Let_def)
qed

section \<open>What extraction returns\<close>

lemma be32_load_prefix:
  "off + 4 \<le> k \<Longrightarrow> k \<le> length buf \<Longrightarrow> be32_load (take k buf) off = be32_load buf off"
  by (simp add: be32_load_def)

lemma decode_header_prefix:
  assumes "SAVVY_PACKET_HEADER_LEN \<le> k" and "k \<le> length buf"
  shows "decode_header (take k buf) = decode_header buf"
  using assms by (simp add: decode_header_def packet_lens be32_load_prefix mem_read_def drop_take min_def)

lemma decode_header_append:
  "SAVVY_PACKET_HEADER_LEN \<le> length bs \<Longrightarrow> decode_header (bs @ cs) = decode_header bs"
  using decode_header_prefix [of "length bs" "bs @ cs"] by simp

lemma be32_load_append_left: "off + 4 \<le> length bs \<Longrightarrow> be32_load (bs @ cs) off = be32_load bs off"
  using be32_load_prefix [of off "length bs" "bs @ cs"] by simp

definition packet_size :: "bytes \<Rightarrow> nat" where
  "packet_size bs = SAVVY_PACKET_HEADER_LEN + unat (be32_load bs 4)"

lemma packet_size_pos [simp]: "0 < packet_size bs"
  by (simp add: packet_size_def packet_lens)

lemma packet_size_append:
  "SAVVY_PACKET_HEADER_LEN \<le> length bs \<Longrightarrow> packet_size (bs @ cs) = packet_size bs"
  by (simp add: packet_size_def be32_load_append_left packet_lens)

text \<open>The specification of one extraction step, on the unread bytes alone.\<close>

datatype packet_view = Need_More | Too_Big | Packet savvy_packet_header bytes bytes

definition next_packet :: "nat \<Rightarrow> bytes \<Rightarrow> packet_view" where
  "next_packet cap bs =
     (if length bs < SAVVY_PACKET_HEADER_LEN then Need_More
      else if packet_size bs > cap then Too_Big
      else if length bs < packet_size bs then Need_More
      else Packet (decode_header bs) (mem_read bs SAVVY_PACKET_HEADER_LEN (unat (be32_load bs 4)))
             (drop (packet_size bs) bs))"

text \<open>One call, with the body copied out of the storage while the pointer is valid.\<close>

type_synonym packet = "savvy_packet_header \<times> bytes"

definition sp_take ::
  "savvy_stream_parser \<Rightarrow> savvy_stream_result \<times> savvy_stream_parser \<times> packet option" where
  "sp_take p =
     (case savvy_stream_parser_try_extract p (Some (decode_header [])) of
        (r, p', Some h, Some (off, n)) \<Rightarrow> (r, p', Some (h, mem_read (sp_buf p') off n))
      | (r, p', _, _) \<Rightarrow> (r, p', None))"

lemma sp_content_base:
  assumes "sp_inv p" and "SAVVY_PACKET_HEADER_LEN \<le> length (sp_content p)"
  shows "be32_load (drop (sp_head p) (sp_buf p)) 4 = be32_load (sp_content p) 4"
    and "decode_header (drop (sp_head p) (sp_buf p)) = decode_header (sp_content p)"
  using assms be32_load_prefix [of 4 "sp_tail p - sp_head p" "drop (sp_head p) (sp_buf p)"]
    decode_header_prefix [of "sp_tail p - sp_head p" "drop (sp_head p) (sp_buf p)"]
    length_sp_content [OF assms(1)]
  by (auto simp: sp_inv_def sp_content_def mem_read_def packet_lens)

lemma try_extract_cases:
  assumes "sp_inv p"
  shows "savvy_stream_parser_try_extract p (Some h0) =
     (case next_packet (buf_cap p) (sp_content p) of
        Need_More \<Rightarrow> (SAVVY_STREAM_NEED_MORE_DATA, p, Some h0, None)
      | Too_Big \<Rightarrow> (SAVVY_STREAM_ERROR, p, Some h0, None)
      | Packet h d r \<Rightarrow>
          (SAVVY_STREAM_PACKET_READY, p\<lparr>sp_head := sp_head p + packet_size (sp_content p)\<rparr>, Some h,
           Some (sp_head p + SAVVY_PACKET_HEADER_LEN, length d)))"
proof (cases "length (sp_content p) < SAVVY_PACKET_HEADER_LEN")
  case True
  then show ?thesis
    using length_sp_content [OF assms]
    by (simp add: savvy_stream_parser_try_extract_def next_packet_def)
next
  case False
  then have "SAVVY_PACKET_HEADER_LEN \<le> length (sp_content p)" by simp
  note base = sp_content_base [OF assms this] length_sp_content [OF assms]
  have "hdr_length (decode_header bs) = be32_load bs 4" for bs by (simp add: decode_header_def)
  then have dec: "savvy_packet_decode (Some b) (SAVVY_PACKET_HEADER_LEN + unat (be32_load b 4)) (Some h0) False
      = (SAVVY_OK, Some (decode_header b), Some (SAVVY_PACKET_HEADER_LEN, unat (be32_load b 4)))" for b
    by (simp add: savvy_packet_decode_def Let_def)
  show ?thesis
    using False base dec [of "drop (sp_head p) (sp_buf p)", unfolded base(1,2)]
    by (simp add: savvy_stream_parser_try_extract_def next_packet_def packet_size_def Let_def)
qed

lemma sp_take_content:
  assumes inv: "sp_inv p"
  shows "(case next_packet (buf_cap p) (sp_content p) of
            Need_More \<Rightarrow> sp_take p = (SAVVY_STREAM_NEED_MORE_DATA, p, None)
          | Too_Big \<Rightarrow> sp_take p = (SAVVY_STREAM_ERROR, p, None)
          | Packet h d r \<Rightarrow> \<exists>p'. sp_take p = (SAVVY_STREAM_PACKET_READY, p', Some (h, d))
              \<and> sp_inv p' \<and> sp_content p' = r \<and> buf_cap p' = buf_cap p)"
proof (cases "next_packet (buf_cap p) (sp_content p)")
  case (Packet h d r)
  let ?bs = "sp_content p" and ?p' = "p\<lparr>sp_head := sp_head p + packet_size (sp_content p)\<rparr>"
  have fits: "packet_size ?bs \<le> length ?bs"
    and d: "d = mem_read ?bs SAVVY_PACKET_HEADER_LEN (unat (be32_load ?bs 4))"
    and r: "r = drop (packet_size ?bs) ?bs"
    using Packet by (auto simp: next_packet_def split: if_splits)
  have dl: "length d = unat (be32_load ?bs 4)" using fits by (simp add: d packet_size_def)
  have "sp_inv ?p'" using inv fits length_sp_content [OF inv] by (auto simp: sp_inv_def)
  moreover have "sp_content ?p' = r"
    using fits by (simp add: r sp_content_def mem_read_def drop_take add.commute)
  moreover have "mem_read (sp_buf p) (sp_head p + SAVVY_PACKET_HEADER_LEN) (length d) = d"
    using fits length_sp_content [OF inv] unfolding dl
    by (simp add: d sp_content_def mem_read_mem_read packet_size_def)
  ultimately show ?thesis
    using try_extract_cases [OF inv] Packet by (simp add: sp_take_def)
qed (use try_extract_cases [OF inv] in \<open>simp_all add: sp_take_def\<close>)

section \<open>The contract of a packet stream\<close>

text \<open>
  The documented use of the parser: after each push, extract until the verdict is no longer
  \<^verbatim>\<open>SAVVY_STREAM_PACKET_READY\<close>. The first argument bounds the number of extractions.
\<close>

fun drain ::
  "('s \<Rightarrow> savvy_stream_result \<times> 's \<times> packet option) \<Rightarrow> nat \<Rightarrow> 's \<Rightarrow> packet list \<times> savvy_stream_result \<times> 's" where
  "drain ext 0 s = ([], SAVVY_STREAM_PACKET_READY, s)"
| "drain ext (Suc k) s =
     (case ext s of
        (SAVVY_STREAM_PACKET_READY, s', Some pk) \<Rightarrow>
          (let (pks, r, t) = drain ext k s' in (pk # pks, r, t))
      | (r, s', _) \<Rightarrow> ([], r, s'))"

fun feed ::
  "('s \<Rightarrow> bytes \<Rightarrow> savvy_status \<times> 's) \<Rightarrow> ('s \<Rightarrow> savvy_stream_result \<times> 's \<times> packet option) \<Rightarrow> nat
   \<Rightarrow> 's \<Rightarrow> bytes list \<Rightarrow> packet list \<times> bool \<times> 's" where
  "feed psh ext k s [] = ([], True, s)"
| "feed psh ext k s (c # cs) =
     (case psh s c of
        (SAVVY_OK, s') \<Rightarrow>
          (case drain ext k s' of
             (pks, SAVVY_STREAM_NEED_MORE_DATA, t) \<Rightarrow>
               (let (qs, ok, u) = feed psh ext k t cs in (pks @ qs, ok, u))
           | (pks, _, t) \<Rightarrow> (pks, False, t))
      | (_, s') \<Rightarrow> ([], False, s'))"

text \<open>A byte string that is exactly one packet, and what the parser hands out for it.\<close>

definition frame :: "bytes \<Rightarrow> bool" where
  "frame w \<longleftrightarrow> SAVVY_PACKET_HEADER_LEN \<le> length w \<and> length w = packet_size w"

definition unframe :: "bytes \<Rightarrow> packet" where
  "unframe w = (decode_header w, drop SAVVY_PACKET_HEADER_LEN w)"

lemma next_packet_whole:
  assumes "frame w" and "length w \<le> cap"
  shows "next_packet cap (w @ c) = Packet (fst (unframe w)) (snd (unframe w)) c"
  using assms
  by (simp add: next_packet_def frame_def unframe_def packet_size_append decode_header_append
      be32_load_append_left packet_lens mem_read_def packet_size_def)

lemma next_packet_partial:
  assumes "frame (b @ z)" and "z \<noteq> []" and "length (b @ z) \<le> cap"
  shows "next_packet cap b = Need_More"
proof (cases "length b < SAVVY_PACKET_HEADER_LEN")
  case False
  then have "packet_size b = length (b @ z)"
    using assms(1) packet_size_append [of b z] by (simp add: frame_def)
  then show ?thesis using assms(2,3) by (simp add: next_packet_def)
qed (simp add: next_packet_def)

locale byte_stream =
  fixes inv :: "'s \<Rightarrow> bool"
    and content :: "'s \<Rightarrow> bytes"
    and capacity :: "'s \<Rightarrow> nat"
    and psh :: "'s \<Rightarrow> bytes \<Rightarrow> savvy_status \<times> 's"
    and ext :: "'s \<Rightarrow> savvy_stream_result \<times> 's \<times> packet option"
  assumes push_room: "inv s \<Longrightarrow> length (content s) + length xs \<le> capacity s \<Longrightarrow>
      \<exists>s'. psh s xs = (SAVVY_OK, s') \<and> inv s' \<and> content s' = content s @ xs \<and> capacity s' = capacity s"
    and push_no_room: "inv s \<Longrightarrow> \<not> length (content s) + length xs \<le> capacity s \<Longrightarrow>
      \<exists>s'. psh s xs = (SAVVY_ERR_OVERFLOW, s') \<and> inv s' \<and> content s' = content s \<and> capacity s' = capacity s"
    and ext_need: "inv s \<Longrightarrow> next_packet (capacity s) (content s) = Need_More \<Longrightarrow>
      ext s = (SAVVY_STREAM_NEED_MORE_DATA, s, None)"
    and ext_big: "inv s \<Longrightarrow> next_packet (capacity s) (content s) = Too_Big \<Longrightarrow>
      ext s = (SAVVY_STREAM_ERROR, s, None)"
    and ext_packet: "inv s \<Longrightarrow> next_packet (capacity s) (content s) = Packet h d r \<Longrightarrow>
      \<exists>s'. ext s = (SAVVY_STREAM_PACKET_READY, s', Some (h, d)) \<and> inv s' \<and> content s' = r
           \<and> capacity s' = capacity s"
begin

lemma drain_frames:
  assumes "inv s" and "content s @ rest = concat ws" and "length (content s) < k"
    and "\<forall>w\<in>set ws. frame w \<and> length w \<le> M" and "M \<le> capacity s"
  shows "\<exists>ws1 ws2 s'. ws = ws1 @ ws2 \<and> drain ext k s = (map unframe ws1, SAVVY_STREAM_NEED_MORE_DATA, s')
           \<and> inv s' \<and> content s' @ rest = concat ws2 \<and> length (content s') \<le> M \<and> capacity s' = capacity s
           \<and> (rest = [] \<longrightarrow> ws2 = [])"
  using assms
proof (induction ws arbitrary: s k)
  case Nil
  then obtain j where "k = Suc j" by (cases k) auto
  moreover have "ext s = (SAVVY_STREAM_NEED_MORE_DATA, s, None)"
    using Nil.prems by (intro ext_need) (auto simp: next_packet_def packet_lens)
  ultimately show ?case using Nil.prems by auto
next
  case (Cons w ws)
  obtain j where k: "k = Suc j" using Cons.prems by (cases k) auto
  have w: "frame w" "length w \<le> capacity s" using Cons.prems by auto
  consider c where "content s = w @ c" "c @ rest = concat ws"
    | z where "z \<noteq> []" "w = content s @ z" "rest = z @ concat ws"
    using Cons.prems(2) by (fastforce simp: append_eq_append_conv2)
  then show ?case
  proof cases
    case 1
    then obtain s' where s': "ext s = (SAVVY_STREAM_PACKET_READY, s', Some (unframe w))" "inv s'"
        "content s' = c" "capacity s' = capacity s"
      using ext_packet [OF Cons.prems(1)] next_packet_whole [OF w] by (metis prod.collapse)
    have "length (content s') < j" using Cons.prems(3) 1 s' k w by (auto simp: frame_def packet_lens)
    then obtain ws1 ws2 t where t: "ws = ws1 @ ws2"
        "drain ext j s' = (map unframe ws1, SAVVY_STREAM_NEED_MORE_DATA, t)" "inv t"
        "content t @ rest = concat ws2" "length (content t) \<le> M" "capacity t = capacity s'"
        "rest = [] \<longrightarrow> ws2 = []"
      using Cons.IH [of s' j] Cons.prems s' 1 by auto
    then have "w # ws = (w # ws1) @ ws2"
      "drain ext k s = (map unframe (w # ws1), SAVVY_STREAM_NEED_MORE_DATA, t)"
      using s' by (simp_all add: k)
    then show ?thesis using t s' by metis
  next
    case 2
    then have "ext s = (SAVVY_STREAM_NEED_MORE_DATA, s, None)"
      using w by (intro ext_need Cons.prems next_packet_partial [of _ z]) auto
    then have "drain ext k s = (map unframe [], SAVVY_STREAM_NEED_MORE_DATA, s)" by (simp add: k)
    moreover have "length (content s) \<le> M" using 2 Cons.prems(4) by auto
    ultimately show ?thesis using Cons.prems 2 by (intro exI [of _ "[]"] exI [of _ "w # ws"]) auto
  qed
qed

lemma feed_frames:
  assumes "inv s" and "content s @ concat cs = concat ws" and "length (content s) \<le> M"
    and "\<forall>w\<in>set ws. frame w \<and> length w \<le> M" and "\<forall>c\<in>set cs. length c \<le> K"
    and "M + K \<le> capacity s" and "capacity s < k" and "content s = [] \<or> cs \<noteq> []"
  shows "\<exists>s'. feed psh ext k s cs = (map unframe ws, True, s') \<and> inv s' \<and> content s' = []
           \<and> capacity s' = capacity s"
  using assms
proof (induction cs arbitrary: s ws)
  case Nil
  then have "\<forall>w\<in>set ws. w = []" by simp
  moreover have "\<forall>w\<in>set ws. 0 < length w" using Nil.prems by (simp add: frame_def)
  ultimately have "ws = []" by (cases ws) auto
  then show ?case using Nil.prems by simp
next
  case (Cons c cs)
  have "length (content s) + length c \<le> capacity s" using Cons.prems by fastforce
  then obtain s1 where s1: "psh s c = (SAVVY_OK, s1)" "inv s1" "content s1 = content s @ c"
      "capacity s1 = capacity s"
    using push_room Cons.prems(1) by blast
  have "content s1 @ concat cs = concat ws" "length (content s1) < k" "M \<le> capacity s1"
    using Cons.prems s1 by fastforce+
  then obtain ws1 ws2 t where t: "ws = ws1 @ ws2"
      "drain ext k s1 = (map unframe ws1, SAVVY_STREAM_NEED_MORE_DATA, t)" "inv t"
      "content t @ concat cs = concat ws2" "length (content t) \<le> M" "capacity t = capacity s1"
      "concat cs = [] \<longrightarrow> ws2 = []"
    using drain_frames [OF s1(2) _ _ Cons.prems(4)] by blast
  have "content t = [] \<or> cs \<noteq> []" using t(4,7) by auto
  then obtain u where u: "feed psh ext k t cs = (map unframe ws2, True, u)" "inv u" "content u = []"
      "capacity u = capacity t"
    using Cons.IH [OF t(3,4,5)] Cons.prems t s1 by auto
  then show ?case using s1 t by simp
qed

end

section \<open>The parser implements the contract\<close>

definition sp_push :: "savvy_stream_parser \<Rightarrow> bytes \<Rightarrow> savvy_status \<times> savvy_stream_parser" where
  "sp_push p xs = savvy_stream_parser_push p (Some xs) (length xs)"

interpretation sps: byte_stream sp_inv sp_content buf_cap sp_push sp_take
  using sp_push_room sp_push_no_room sp_take_content
  by unfold_locales (fastforce simp: sp_push_def split: packet_view.splits)+

text \<open>
  C2: chunking is invisible to a parser with room for a packet and a piece. Whatever packets a peer
  sends, each at most \<open>M\<close> bytes, and however the transport cuts the byte stream into pieces of at
  most \<open>K\<close> bytes, a parser over at least \<open>M + K\<close> bytes of storage accepts every piece and delivers exactly
  the packets sent, in order, with nothing left over. Storage for one maximum packet, which is
  what the header file asks for, is not enough: see \<open>stream_parser_tight_storage\<close>.
\<close>

theorem stream_parser_chunking_invisible:
  assumes "concat chunks = concat packets" and "\<forall>w\<in>set packets. frame w \<and> length w \<le> M"
    and "\<forall>c\<in>set chunks. length c \<le> K" and "M + K \<le> length buf"
  shows "\<exists>p. feed sp_push sp_take (Suc (length buf)) (savvy_stream_parser_init buf (length buf)) chunks
           = (map unframe packets, True, p) \<and> sp_inv p \<and> sp_content p = []"
proof -
  let ?p0 = "savvy_stream_parser_init buf (length buf)"
  have "buf_cap ?p0 = length buf" by (simp add: savvy_stream_parser_init_def)
  then show ?thesis
    using sps.feed_frames [of ?p0 chunks packets M K "Suc (length buf)"] assms
    by (auto simp: sp_init_inv sp_init_content)
qed

theorem stream_parser_chunking_invisible_witness:
  "\<exists>p. feed sp_push sp_take (Suc (length (replicate 60 (0 :: u8))))
         (savvy_stream_parser_init (replicate 60 0) (length (replicate 60 (0 :: u8))))
         [replicate 10 0, replicate 30 0, replicate 12 0]
       = (map unframe [replicate 26 0, replicate 26 0], True, p) \<and> sp_inv p \<and> sp_content p = []"
proof -
  have "be32_load (replicate 26 0) 4 = 0" by (simp add: be32_load_def)
  then have "frame (replicate 26 0)" by (simp add: frame_def packet_size_def packet_lens)
  then show ?thesis
    by (intro stream_parser_chunking_invisible [where M = 26 and K = 30])
      (simp_all add: replicate_add [symmetric])
qed

text \<open>
  A parser whose storage is exactly one packet refuses a piece that completes a packet and
  brings the beginning of the next one.
\<close>

theorem stream_parser_tight_storage:
  assumes "sp_inv p" and "frame w" and "buf_cap p = length w" and "sp_content p = take j w" and "j < length w"
    and "rest \<noteq> []"
  shows "fst (savvy_stream_parser_push p (Some (drop j w @ rest)) (length (drop j w @ rest))) = SAVVY_ERR_OVERFLOW"
proof -
  have "\<not> length (sp_content p) + length (drop j w @ rest) \<le> buf_cap p" using assms by simp
  then show ?thesis using sp_push_no_room [OF assms(1)] by fastforce
qed

text \<open>
  A push is refused with \<^verbatim>\<open>SAVVY_ERR_OVERFLOW\<close> only when the unread bytes and the new ones
  together exceed the storage (space already consumed is always reclaimed first); it then
  keeps every unread byte, and an accepted push appends exactly the new bytes.
\<close>

theorem stream_parser_push_exact:
  assumes "sp_inv p"
  shows "\<exists>p'. savvy_stream_parser_push p (Some xs) (length xs)
           = (if length (sp_content p) + length xs \<le> buf_cap p then SAVVY_OK else SAVVY_ERR_OVERFLOW, p')
         \<and> sp_inv p' \<and> buf_cap p' = buf_cap p
         \<and> sp_content p' = sp_content p @ (if length (sp_content p) + length xs \<le> buf_cap p then xs else [])"
  using sp_push_room [OF assms, of xs] sp_push_no_room [OF assms, of xs] by auto

theorem stream_parser_push_exact_witness:
  "\<exists>p'. savvy_stream_parser_push \<lparr>sp_buf = [1, 2, 3, 4], buf_cap = 4, sp_head = 3, sp_tail = 4\<rparr> (Some [5, 6, 7]) 3
      = (SAVVY_OK, p') \<and> sp_content p' = [4, 5, 6, 7]"
  using stream_parser_push_exact
    [of "\<lparr>sp_buf = [1, 2, 3, 4], buf_cap = 4, sp_head = 3, sp_tail = 4\<rparr>" "[5, 6, 7]"]
  by (auto simp: sp_inv_def sp_content_def mem_read_def numeral_eq_Suc)

end
