(* ===== verification/CJSON_Number.thy ===== *)
theory CJSON_Number
  imports Complex_Main Prelude "HOL-Library.Log_Nat"
begin

text \<open>
  Numbers of \<^verbatim>\<open>third_party/cJSON/cJSON.c\<close>: IEEE 754 doubles as exact rationals with an explicit
  rounding function, \<^verbatim>\<open>strtod\<close> on the characters that \<^verbatim>\<open>parse_number\<close> collects, and the \<^verbatim>\<open>%d\<close> and
  \<^verbatim>\<open>%1.15g\<close>/\<^verbatim>\<open>%1.17g\<close> renderings of \<^verbatim>\<open>print_number\<close> in the C locale. The sign of a zero is not
  represented: no operation of the program observes it. The main result is that every integer
  of 32 bits survives printing and parsing.
\<close>

section \<open>Doubles\<close>

text \<open>A finite double, or an infinity with its sign (true is negative).\<close>

datatype ieee_double = Fin rat | Inf bool

definition round_half_even :: "rat \<Rightarrow> int" where
  "round_half_even r =
     (let f = \<lfloor>r\<rfloor>; d = r - of_int f
      in if d < 1 / 2 then f else if d > 1 / 2 then f + 1 else if even f then f else f + 1)"

text \<open>The binary exponent of a positive rational: the floor of its logarithm.\<close>

definition rat_exponent :: "rat \<Rightarrow> int" where
  "rat_exponent q =
     (let (a, b) = quotient_of q;
          k = int (floorlog 2 (nat a)) - int (floorlog 2 (nat b))
      in if 2 powi k \<le> q then k else k - 1)"

text \<open>Round to nearest, ties to even, with 53 bits, gradual underflow and overflow to infinity.\<close>

definition round_double :: "rat \<Rightarrow> ieee_double" where
  "round_double q =
     (if q = 0 then Fin 0
      else
        let u = max (- 1074) (rat_exponent \<bar>q\<bar> - 52);
            v = of_int (round_half_even (\<bar>q\<bar> / 2 powi u)) * 2 powi u
        in if v \<ge> 2 ^ 1024 then Inf (q < 0) else Fin (if q < 0 then - v else v))"

lemma round_half_even_int [simp]: "round_half_even (of_int n) = n"
  by (simp add: round_half_even_def)

lemma rat_exponent_of_int:
  assumes "0 < n" and "n < 2 ^ 53"
  shows "rat_exponent (of_int n) \<le> 52"
proof -
  have "nat n < 2 ^ 53" using assms by (simp add: nat_less_iff)
  then have "floorlog 2 (nat n) \<le> 53" by (intro floorlog_leI) simp_all
  moreover have "floorlog 2 (Suc 0) = 1" by (simp add: floorlog_def)
  ultimately show ?thesis
    using assms by (simp add: rat_exponent_def quotient_of_int Let_def)
qed

lemma round_double_of_nat_bits:
  assumes "u \<le> 0"
  shows "of_int (round_half_even (of_int n / 2 powi u)) * 2 powi u = (of_int n :: rat)"
proof -
  obtain k where u: "u = - int k" using \<open>u \<le> 0\<close> by (metis minus_minus nonpos_int_cases)
  have "(of_int n :: rat) / 2 powi u = of_int (n * 2 ^ k)"
    by (simp add: u power_int_minus divide_inverse)
  then have "round_half_even (of_int n / 2 powi u) = n * 2 ^ k" by (simp only: round_half_even_int)
  then show ?thesis by (simp add: u power_int_minus)
qed

lemma round_double_of_int:
  assumes "\<bar>n\<bar> < 2 ^ 53"
  shows "round_double (of_int n) = Fin (of_int n)"
proof (cases "n = 0")
  case False
  define q :: rat where "q = of_int \<bar>n\<bar>"
  define u where "u = max (- 1074) (rat_exponent q - 52)"
  have q: "\<bar>of_int n :: rat\<bar> = q" by (simp add: q_def)
  have "u \<le> 0" using rat_exponent_of_int [of "\<bar>n\<bar>"] assms False by (simp add: u_def q_def)
  then have v: "of_int (round_half_even (q / 2 powi u)) * 2 powi u = q"
    unfolding q_def by (rule round_double_of_nat_bits)
  have "q < of_int (2 ^ 53)" using assms by (simp only: q_def of_int_less_iff)
  also have "(of_int (2 ^ 53) :: rat) \<le> 2 ^ 1024" by simp
  finally have "\<not> 2 ^ 1024 \<le> q" by simp
  then show ?thesis
    unfolding round_double_def Let_def q u_def [symmetric] v using False by (simp add: q_def)
qed (simp add: round_double_def)

section \<open>Decimal digits\<close>

definition is_digit :: "char \<Rightarrow> bool" where
  "is_digit c \<longleftrightarrow> 48 \<le> (of_char c :: nat) \<and> (of_char c :: nat) \<le> 57"

definition digit_val :: "char \<Rightarrow> nat" where
  "digit_val c = of_char c - 48"

definition digit_char :: "nat \<Rightarrow> char" where
  "digit_char d = char_of (48 + d)"

lemma of_char_digit [simp]: "d < 10 \<Longrightarrow> (of_char (digit_char d) :: nat) = 48 + d"
  by (simp add: digit_char_def of_char_of)

lemma is_digit_digit_char [simp]: "d < 10 \<Longrightarrow> is_digit (digit_char d)"
  by (simp add: is_digit_def)

lemma digit_val_digit_char [simp]: "d < 10 \<Longrightarrow> digit_val (digit_char d) = d"
  by (simp add: digit_val_def)

fun nat_digits :: "nat \<Rightarrow> string" where
  "nat_digits n = (if n < 10 then [digit_char n] else nat_digits (n div 10) @ [digit_char (n mod 10)])"

declare nat_digits.simps [simp del]

definition digits_val :: "string \<Rightarrow> nat" where
  "digits_val = foldl (\<lambda>a c. 10 * a + digit_val c) 0"

lemma digits_val_snoc: "digits_val (ds @ [c]) = 10 * digits_val ds + digit_val c"
  by (simp add: digits_val_def)

lemma digits_val_nat_digits: "digits_val (nat_digits n) = n"
proof (induction n rule: nat_digits.induct)
  case (1 n)
  then show ?case
    by (subst nat_digits.simps) (auto simp: digits_val_snoc digits_val_def)
qed

lemma nat_digits_are_digits: "c \<in> set (nat_digits n) \<Longrightarrow> is_digit c"
proof (induction n rule: nat_digits.induct)
  case (1 n)
  then show ?case by (subst (asm) nat_digits.simps) (auto split: if_splits)
qed

lemma nat_digits_not_Nil [simp]: "nat_digits n \<noteq> []"
  by (subst nat_digits.simps) simp

text \<open>\<^verbatim>\<open>%d\<close>.\<close>

definition string_of_int :: "int \<Rightarrow> string" where
  "string_of_int n = (if n < 0 then ''-'' else []) @ nat_digits (nat \<bar>n\<bar>)"

section \<open>Reading\<close>

text \<open>\<^verbatim>\<open>strtod\<close> on the characters \<^verbatim>\<open>0-9 + - e E .\<close>: the value and how many characters were used.\<close>

definition strtod_sign :: "string \<Rightarrow> bool \<times> string" where
  "strtod_sign s =
     (case s of [] \<Rightarrow> (False, [])
      | c # t \<Rightarrow> if c = CHR ''-'' then (True, t) else if c = CHR ''+'' then (False, t) else (False, s))"

definition strtod_fraction :: "string \<Rightarrow> string \<times> string" where
  "strtod_fraction s =
     (case s of [] \<Rightarrow> ([], s)
      | c # t \<Rightarrow> if c = CHR ''.'' then (takeWhile is_digit t, dropWhile is_digit t) else ([], s))"

definition strtod_exponent :: "string \<Rightarrow> int \<times> string" where
  "strtod_exponent s =
     (case s of [] \<Rightarrow> (0, [])
      | c # t \<Rightarrow>
          if c = CHR ''e'' \<or> c = CHR ''E''
          then let (neg, u) = strtod_sign t; ds = takeWhile is_digit u
               in if ds = [] then (0, s)
                  else (if neg then - int (digits_val ds) else int (digits_val ds), dropWhile is_digit u)
          else (0, s))"

definition strtod :: "string \<Rightarrow> (ieee_double \<times> nat) option" where
  "strtod s =
     (let (neg, s1) = strtod_sign s;
          ip = takeWhile is_digit s1;
          (fp, s3) = strtod_fraction (dropWhile is_digit s1)
      in if ip = [] \<and> fp = [] then None
         else
           let (ex, s4) = strtod_exponent s3;
               m = of_nat (digits_val (ip @ fp)) * 10 powi (ex - int (length fp))
           in Some (round_double (if neg then - m else m), length s - length s4))"

definition is_number_char :: "char \<Rightarrow> bool" where
  "is_number_char c \<longleftrightarrow> is_digit c \<or> c \<in> {CHR ''+'', CHR ''-'', CHR ''e'', CHR ''E'', CHR ''.''}"

text \<open>\<^verbatim>\<open>parse_number\<close>: the double and the unread input.\<close>

definition parse_number :: "string \<Rightarrow> (ieee_double \<times> string) option" where
  "parse_number xs =
     (case strtod (takeWhile is_number_char xs) of
        None \<Rightarrow> None
      | Some (d, n) \<Rightarrow> Some (d, drop n xs))"

text \<open>The \<^verbatim>\<open>valueint\<close> member: the double saturated to \<^verbatim>\<open>int\<close>, truncated towards zero.\<close>

definition trunc_rat :: "rat \<Rightarrow> int" where
  "trunc_rat q = (if q < 0 then - \<lfloor>- q\<rfloor> else \<lfloor>q\<rfloor>)"

fun valueint :: "ieee_double \<Rightarrow> int" where
  "valueint (Fin q) =
     (if q \<ge> of_int INT32_MAX then INT32_MAX
      else if q \<le> of_int INT32_MIN then INT32_MIN else trunc_rat q)"
| "valueint (Inf neg) = (if neg then INT32_MIN else INT32_MAX)"

section \<open>Printing\<close>

text \<open>The decimal exponent of a positive rational: the floor of its base-10 logarithm.\<close>

definition dec_exponent :: "rat \<Rightarrow> int" where
  "dec_exponent q =
     (if q \<ge> 1 then int (floorlog 10 (nat \<lfloor>q\<rfloor>)) - 1
      else - int (floorlog 10 (nat (\<lceil>1 / q\<rceil> - 1))))"

definition strip_zeros :: "string \<Rightarrow> string" where
  "strip_zeros ds = rev (dropWhile (\<lambda>c. c = CHR ''0'') (rev ds))"

definition with_fraction :: "string \<Rightarrow> string" where
  "with_fraction ds = (if strip_zeros ds = [] then [] else CHR ''.'' # strip_zeros ds)"

text \<open>\<^verbatim>\<open>%1.Pg\<close> of a finite double other than zero.\<close>

definition fmt_g :: "nat \<Rightarrow> rat \<Rightarrow> string" where
  "fmt_g P q =
     (let x0 = dec_exponent \<bar>q\<bar>;
          d0 = round_half_even (\<bar>q\<bar> / 10 powi (x0 - int P + 1));
          (x, d) = (if d0 \<ge> 10 ^ P then (x0 + 1, 10 ^ (P - 1)) else (x0, d0));
          ds = nat_digits (nat d);
          body =
            (if x < int P \<and> x \<ge> - 4
             then if x \<ge> 0 then take (nat x + 1) ds @ with_fraction (drop (nat x + 1) ds)
                  else ''0'' @ with_fraction (replicate (nat (- x) - 1) (CHR ''0'') @ ds)
             else take 1 ds @ with_fraction (drop 1 ds) @ ''e'' @ (if x < 0 then ''-'' else ''+'')
                  @ (if \<bar>x\<bar> < 10 then ''0'' else []) @ nat_digits (nat \<bar>x\<bar>))
      in (if q < 0 then ''-'' else []) @ body)"

text \<open>
  \<^verbatim>\<open>compare_double\<close>; a difference of an infinity and a finite number is within the (infinite)
  tolerance, that of two infinities is not a number or is compared with itself.
\<close>

fun compare_double :: "ieee_double \<Rightarrow> ieee_double \<Rightarrow> bool" where
  "compare_double (Fin a) (Fin b) =
     (case round_double (a - b) of
        Inf _ \<Rightarrow> False
      | Fin d \<Rightarrow> (case round_double ((if \<bar>a\<bar> > \<bar>b\<bar> then \<bar>a\<bar> else \<bar>b\<bar>) / 2 ^ 52) of
                    Inf _ \<Rightarrow> True
                  | Fin t \<Rightarrow> \<bar>d\<bar> \<le> t))"
| "compare_double (Inf _) (Fin _) = True"
| "compare_double (Fin _) (Inf _) = True"
| "compare_double (Inf s) (Inf t) = (s \<noteq> t)"

fun print_number :: "ieee_double \<Rightarrow> string option" where
  "print_number (Inf _) = Some ''null''"
| "print_number (Fin q) =
     (let text =
        (if q = of_int (valueint (Fin q)) then string_of_int (valueint (Fin q))
         else if (case strtod (fmt_g 15 q) of None \<Rightarrow> False | Some (t, _) \<Rightarrow> compare_double t (Fin q))
         then fmt_g 15 q else fmt_g 17 q)
      in if length text > 25 then None else Some text)"

declare valueint.simps(1) [simp del] print_number.simps(2) [simp del]

section \<open>Integers survive printing and parsing\<close>

definition int32_range :: "int \<Rightarrow> bool" where
  "int32_range n \<longleftrightarrow> INT32_MIN \<le> n \<and> n \<le> INT32_MAX"

lemma valueint_of_int: "int32_range n \<Longrightarrow> valueint (Fin (of_int n)) = n"
  by (auto simp: int32_range_def limits trunc_rat_def valueint.simps simp flip: of_int_minus)

lemma length_nat_digits_le: "n < 10 ^ Suc k \<Longrightarrow> length (nat_digits n) \<le> Suc k"
proof (induction k arbitrary: n)
  case (Suc k)
  then have "n div 10 < 10 ^ Suc k" by (simp add: less_mult_imp_div_less)
  then show ?case using Suc.IH [of "n div 10"] by (subst nat_digits.simps) simp
qed (simp add: nat_digits.simps)

lemma length_string_of_int: "int32_range n \<Longrightarrow> length (string_of_int n) \<le> 11"
  using length_nat_digits_le [of "nat \<bar>n\<bar>" 9]
  by (auto simp: string_of_int_def int32_range_def limits nat_less_iff)

lemma print_number_of_int:
  assumes "int32_range n"
  shows "print_number (Fin (of_int n)) = Some (string_of_int n)"
  using length_string_of_int [OF assms] valueint_of_int [OF assms]
  by (simp add: Let_def print_number.simps)

lemma digit_not_sign: "is_digit c \<Longrightarrow> c \<noteq> CHR ''-'' \<and> c \<noteq> CHR ''+''"
  by (auto simp: is_digit_def)

lemma takeWhile_digits: "takeWhile is_digit (nat_digits n) = nat_digits n"
  "dropWhile is_digit (nat_digits n) = []"
  by (simp_all add: nat_digits_are_digits)

lemma strtod_sign_int:
  "strtod_sign (string_of_int n) = (n < 0, nat_digits (nat \<bar>n\<bar>))"
proof (cases "n < 0")
  case False
  obtain c t where ct: "nat_digits (nat n) = c # t" by (cases "nat_digits (nat n)") auto
  then have "is_digit c" using nat_digits_are_digits [of c "nat n"] by simp
  with False ct digit_not_sign show ?thesis by (simp add: strtod_sign_def string_of_int_def)
qed (simp add: strtod_sign_def string_of_int_def)

lemma strtod_int:
  assumes "int32_range n"
  shows "strtod (string_of_int n) = Some (Fin (of_int n), length (string_of_int n))"
proof -
  have "round_double (of_int n) = Fin (of_int n)"
    using assms by (intro round_double_of_int) (auto simp: int32_range_def limits)
  moreover have "(if n < 0 then - of_nat (nat \<bar>n\<bar>) else of_nat (nat \<bar>n\<bar>) :: rat) = of_int n"
    by (simp add: of_nat_nat)
  ultimately show ?thesis
    by (simp add: strtod_def strtod_sign_int takeWhile_digits digits_val_nat_digits strtod_fraction_def
        strtod_exponent_def Let_def)
qed

lemma number_chars_of_int: "c \<in> set (string_of_int n) \<Longrightarrow> is_number_char c"
  by (auto simp: string_of_int_def is_number_char_def nat_digits_are_digits split: if_splits)

lemma takeWhile_append_stop:
  "(\<And>x. x \<in> set xs \<Longrightarrow> P x) \<Longrightarrow> (ys = [] \<or> \<not> P (hd ys)) \<Longrightarrow> takeWhile P (xs @ ys) = xs"
  by (cases ys) (auto simp: takeWhile_append)

lemma parse_number_of_int:
  assumes "int32_range n" and "rest = [] \<or> \<not> is_number_char (hd rest)"
  shows "parse_number (string_of_int n @ rest) = Some (Fin (of_int n), rest)"
proof -
  have "takeWhile is_number_char (string_of_int n @ rest) = string_of_int n"
    using assms(2) by (intro takeWhile_append_stop number_chars_of_int)
  then show ?thesis using assms by (simp add: parse_number_def strtod_int)
qed

section \<open>A number consumes input\<close>

lemma length_digits_split: "length (takeWhile P xs) + length (dropWhile P xs) = length xs"
  by (metis length_append takeWhile_dropWhile_id)

lemma strtod_sign_length: "strtod_sign s = (neg, t) \<Longrightarrow> length t \<le> length s"
  by (auto simp: strtod_sign_def split: list.splits if_splits)

lemma strtod_exponent_length: "strtod_exponent s = (ex, t) \<Longrightarrow> length t \<le> length s"
  by (auto simp: strtod_exponent_def Let_def split: list.splits if_splits prod.splits
      dest!: strtod_sign_length intro: order_trans [OF length_dropWhile_le])

lemma strtod_fraction_length: "strtod_fraction s = (fp, t) \<Longrightarrow> length fp + length t \<le> length s"
  using length_digits_split [of is_digit "tl s"]
  by (cases s) (auto simp: strtod_fraction_def split: if_splits)

lemma strtod_consumes:
  assumes "strtod s = Some (d, n)"
  shows "0 < n"
proof -
  obtain neg s1 where s1: "strtod_sign s = (neg, s1)" by (cases "strtod_sign s")
  obtain fp s3 where fs: "strtod_fraction (dropWhile is_digit s1) = (fp, s3)"
    by (cases "strtod_fraction (dropWhile is_digit s1)")
  obtain ex s4 where s4: "strtod_exponent s3 = (ex, s4)" by (cases "strtod_exponent s3")
  have "0 < length (takeWhile is_digit s1) + length fp" and n: "n = length s - length s4"
    using assms s1 fs s4 by (auto simp: strtod_def Let_def split: if_splits)
  moreover have "length fp + length s3 \<le> length (dropWhile is_digit s1)"
    using fs by (rule strtod_fraction_length)
  ultimately show ?thesis
    using strtod_sign_length [OF s1] strtod_exponent_length [OF s4] length_digits_split [of is_digit s1]
    by linarith
qed

lemma parse_number_consumes:
  assumes "parse_number xs = Some (d, r)"
  shows "length r < length xs"
proof -
  obtain n where n: "strtod (takeWhile is_number_char xs) = Some (d, n)" "r = drop n xs"
    using assms by (auto simp: parse_number_def split: option.splits)
  moreover have "xs \<noteq> []" using n(1) by (auto simp: strtod_def strtod_sign_def strtod_fraction_def)
  ultimately show ?thesis using strtod_consumes [OF n(1)] by (cases xs) auto
qed

end
