(* ===== verification/CJSON_String.thy ===== *)
theory CJSON_String
  imports CJSON_Number
begin

text \<open>
  Strings of \<^verbatim>\<open>third_party/cJSON/cJSON.c\<close>: scanning and unescaping of a string literal with its
  UTF-16 escapes (\<^verbatim>\<open>parse_string\<close>, \<^verbatim>\<open>utf16_literal_to_utf8\<close>, \<^verbatim>\<open>parse_hex4\<close>) and the escaping printer
  \<^verbatim>\<open>print_string_ptr\<close>. A C string is the list of its characters before the terminator; the
  input buffer is the list of the characters still unread. Printing followed by parsing is the
  identity on every C string.
\<close>

unbundle bit_operations_syntax

section \<open>UTF-16 literals\<close>

definition hex_digit :: "char \<Rightarrow> nat option" where
  "hex_digit c =
     (let n = of_char c
      in if 48 \<le> n \<and> n \<le> 57 then Some (n - 48)
         else if 65 \<le> n \<and> n \<le> 70 then Some (10 + n - 65)
         else if 97 \<le> n \<and> n \<le> 102 then Some (10 + n - 97)
         else None)"

text \<open>\<^verbatim>\<open>parse_hex4\<close>: the loop over the four digits; an invalid digit makes the whole value zero.\<close>

fun parse_hex4_loop :: "nat \<Rightarrow> nat \<Rightarrow> string \<Rightarrow> nat" where
  "parse_hex4_loop i h [] = h"
| "parse_hex4_loop i h (c # cs) =
     (if i \<ge> 4 then h
      else case hex_digit c of
        None \<Rightarrow> 0
      | Some d \<Rightarrow> parse_hex4_loop (i + 1) (if i < 3 then (h + d) * 16 else h + d) cs)"

definition parse_hex4 :: "string \<Rightarrow> nat" where
  "parse_hex4 cs = parse_hex4_loop 0 0 cs"

text \<open>The continuation bytes are stored from the last position down to the second.\<close>

fun utf8_tail :: "nat \<Rightarrow> nat \<Rightarrow> string \<Rightarrow> nat \<times> string" where
  "utf8_tail 0 cp acc = (cp, acc)"
| "utf8_tail (Suc p) cp acc = utf8_tail p (cp div 64) (char_of ((cp OR 0x80) AND 0xBF) # acc)"

definition utf8_encode :: "nat \<Rightarrow> string option" where
  "utf8_encode codepoint =
     (let enc = (\<lambda>len mark. let (cp, tail) = utf8_tail (len - 1) codepoint []
                            in Some (char_of (if len > 1 then (cp OR mark) AND 0xFF else cp AND 0x7F) # tail))
      in if codepoint < 0x80 then enc 1 0
         else if codepoint < 0x800 then enc 2 0xC0
         else if codepoint < 0x10000 then enc 3 0xE0
         else if codepoint \<le> 0x10FFFF then enc 4 0xF0
         else None)"

text \<open>
  \<^verbatim>\<open>utf16_literal_to_utf8\<close> on the characters from the backslash up to the closing quote: the
  bytes produced and the length of the sequence consumed, or nothing on failure.
\<close>

definition utf16_literal_to_utf8 :: "string \<Rightarrow> (string \<times> nat) option" where
  "utf16_literal_to_utf8 s =
     (if length s < 6 then None
      else
        let first_code = parse_hex4 (drop 2 s)
        in if 0xDC00 \<le> first_code \<and> first_code \<le> 0xDFFF then None
           else if 0xD800 \<le> first_code \<and> first_code \<le> 0xDBFF
           then
             let t = drop 6 s
             in if length t < 6 then None
                else if t ! 0 \<noteq> CHR 0x5C \<or> t ! 1 \<noteq> CHR ''u'' then None
                else
                  let second_code = parse_hex4 (drop 2 t)
                  in if second_code < 0xDC00 \<or> second_code > 0xDFFF then None
                     else map_option (\<lambda>bs. (bs, 12))
                            (utf8_encode (0x10000 + (((first_code AND 0x3FF) * 1024) OR (second_code AND 0x3FF))))
           else map_option (\<lambda>bs. (bs, 6)) (utf8_encode first_code))"

lemma utf16_literal_length:
  assumes "utf16_literal_to_utf8 s = Some (bs, n)"
  shows "0 < n" and "n \<le> length s"
  using assms by (auto simp: utf16_literal_to_utf8_def Let_def split: if_splits)

section \<open>Parsing a literal\<close>

text \<open>
  The first pass of \<^verbatim>\<open>parse_string\<close>: from after the opening quote to the closing one, stepping
  over escaped characters. It returns the raw body and what follows the closing quote.
\<close>

fun scan_string :: "string \<Rightarrow> (string \<times> string) option" where
  "scan_string [] = None"
| "scan_string (c # cs) =
     (if c = CHR 0x22 then Some ([], cs)
      else if c = CHR 0x5C
      then (case cs of [] \<Rightarrow> None
            | e # ds \<Rightarrow> map_option (\<lambda>(body, rest). (c # e # body, rest)) (scan_string ds))
      else map_option (\<lambda>(body, rest). (c # body, rest)) (scan_string cs))"

text \<open>
  The second pass. A lone backslash at the very end (which an escape of the wrong length can
  leave) reads the closing quote as the escaped character, and so yields a quote.
\<close>

function unescape :: "string \<Rightarrow> string option" where
  "unescape [] = Some []"
| "unescape (c # cs) =
     (if c \<noteq> CHR 0x5C then map_option (Cons c) (unescape cs)
      else
        let e = (case cs of [] \<Rightarrow> CHR 0x22 | d # _ \<Rightarrow> d)
        in if e = CHR ''b'' then map_option (Cons (CHR 0x08)) (unescape (drop 1 cs))
           else if e = CHR ''f'' then map_option (Cons (CHR 0x0C)) (unescape (drop 1 cs))
           else if e = CHR ''n'' then map_option (Cons (CHR 0x0A)) (unescape (drop 1 cs))
           else if e = CHR ''r'' then map_option (Cons (CHR 0x0D)) (unescape (drop 1 cs))
           else if e = CHR ''t'' then map_option (Cons (CHR 0x09)) (unescape (drop 1 cs))
           else if e = CHR 0x22 \<or> e = CHR 0x5C \<or> e = CHR ''/'' then map_option (Cons e) (unescape (drop 1 cs))
           else if e = CHR ''u''
           then (case utf16_literal_to_utf8 (c # cs) of
                   None \<Rightarrow> None
                 | Some (bs, n) \<Rightarrow> map_option (append bs) (unescape (drop n (c # cs))))
           else None)"
  by pat_completeness auto
termination
  by (relation "measure length") (auto dest: utf16_literal_length)

text \<open>\<^verbatim>\<open>parse_string\<close>: the C string stored (cut at a NUL character, if an escape produced one).\<close>

definition c_str :: "string \<Rightarrow> string" where
  "c_str s = takeWhile (\<lambda>c. c \<noteq> CHR 0x00) s"

definition parse_string :: "string \<Rightarrow> (string \<times> string) option" where
  "parse_string xs =
     (case xs of [] \<Rightarrow> None
      | q # cs \<Rightarrow>
          if q \<noteq> CHR 0x22 then None
          else case scan_string cs of
                 None \<Rightarrow> None
               | Some (body, rest) \<Rightarrow> map_option (\<lambda>s. (c_str s, rest)) (unescape body))"

section \<open>Printing\<close>

definition hex_char :: "nat \<Rightarrow> char" where
  "hex_char d = (if d < 10 then char_of (48 + d) else char_of (87 + d))"

text \<open>\<^verbatim>\<open>print_string_ptr\<close>: what one character becomes (\<^verbatim>\<open>u%04x\<close> for the other control characters).\<close>

definition escape_char :: "char \<Rightarrow> string" where
  "escape_char c =
     (if (of_char c :: nat) > 31 \<and> c \<noteq> CHR 0x22 \<and> c \<noteq> CHR 0x5C then [c]
      else CHR 0x5C #
        (if c = CHR 0x5C then [CHR 0x5C]
         else if c = CHR 0x22 then [CHR 0x22]
         else if c = CHR 0x08 then ''b''
         else if c = CHR 0x0C then ''f''
         else if c = CHR 0x0A then ''n''
         else if c = CHR 0x0D then ''r''
         else if c = CHR 0x09 then ''t''
         else ''u00'' @ [hex_char (of_char c div 16), hex_char (of_char c mod 16)]))"

definition print_string_ptr :: "string \<Rightarrow> string" where
  "print_string_ptr s = CHR 0x22 # concat (map escape_char s) @ [CHR 0x22]"

section \<open>Printing and parsing are inverse\<close>

declare unescape.simps(2) [simp del]

lemma nat_of_char_eq_iff: "(of_char c :: nat) = of_char d \<longleftrightarrow> c = d"
  by (simp add: of_char_eq_iff)

lemma hex_digit_hex_char [simp]: "d < 16 \<Longrightarrow> hex_digit (hex_char d) = Some d"
  by (simp add: hex_digit_def hex_char_def of_char_of Let_def)

lemma hex_char_plain [simp]: "d < 16 \<Longrightarrow> hex_char d \<noteq> CHR 0x22 \<and> hex_char d \<noteq> CHR 0x5C"
  using hex_digit_hex_char [of d] by (auto simp: hex_digit_def)

lemma hex_digit_0: "hex_digit (CHR ''0'') = Some 0"
  by (simp add: hex_digit_def)

lemma utf8_encode_ascii: "n < 0x80 \<Longrightarrow> utf8_encode n = Some [char_of n]"
proof -
  assume "n < 0x80"
  then have "n AND 0x7F = n"
    using take_bit_nat_eq_self [of n 7] by (simp add: take_bit_eq_mask mask_eq_exp_minus_1)
  with \<open>n < 0x80\<close> show ?thesis by (simp add: utf8_encode_def Let_def)
qed

lemma utf16_literal_control:
  assumes "n < 32"
  shows "utf16_literal_to_utf8 (CHR 0x5C # ''u00'' @ hex_char (n div 16) # hex_char (n mod 16) # xs)
           = Some ([char_of n], 6)"
proof -
  have "n div 16 < 16" "n mod 16 < 16" using assms by simp_all
  then have "parse_hex4 (''00'' @ hex_char (n div 16) # hex_char (n mod 16) # xs) = n"
    by (cases xs) (simp_all add: parse_hex4_def hex_digit_0)
  with assms show ?thesis by (simp add: utf16_literal_to_utf8_def utf8_encode_ascii)
qed

lemma unescape_plain: "c \<noteq> CHR 0x5C \<Longrightarrow> unescape (c # xs) = map_option (Cons c) (unescape xs)"
  by (simp add: unescape.simps(2))

lemma unescape_short:
  "unescape (CHR 0x5C # CHR 0x5C # xs) = map_option (Cons (CHR 0x5C)) (unescape xs)"
  "unescape (CHR 0x5C # CHR 0x22 # xs) = map_option (Cons (CHR 0x22)) (unescape xs)"
  "unescape (CHR 0x5C # CHR ''b'' # xs) = map_option (Cons (CHR 0x08)) (unescape xs)"
  "unescape (CHR 0x5C # CHR ''f'' # xs) = map_option (Cons (CHR 0x0C)) (unescape xs)"
  "unescape (CHR 0x5C # CHR ''n'' # xs) = map_option (Cons (CHR 0x0A)) (unescape xs)"
  "unescape (CHR 0x5C # CHR ''r'' # xs) = map_option (Cons (CHR 0x0D)) (unescape xs)"
  "unescape (CHR 0x5C # CHR ''t'' # xs) = map_option (Cons (CHR 0x09)) (unescape xs)"
  by (simp_all add: unescape.simps(2))

lemma unescape_unicode:
  assumes "utf16_literal_to_utf8 (CHR 0x5C # CHR ''u'' # xs) = Some (bs, n)"
  shows "unescape (CHR 0x5C # CHR ''u'' # xs) = map_option (append bs) (unescape (drop n (CHR 0x5C # CHR ''u'' # xs)))"
  using assms by (simp add: unescape.simps(2))

lemma unescape_control:
  assumes "n < 32"
  shows "unescape (CHR 0x5C # ''u00'' @ [hex_char (n div 16), hex_char (n mod 16)] @ xs)
           = map_option (Cons (char_of n)) (unescape xs)"
  using unescape_unicode [of "''00'' @ hex_char (n div 16) # hex_char (n mod 16) # xs"]
    utf16_literal_control [OF assms, of xs]
  by (simp add: append_Cons [abs_def])

lemma unescape_escape_char: "unescape (escape_char c @ xs) = map_option (Cons c) (unescape xs)"
proof (cases "(of_char c :: nat) > 31 \<and> c \<noteq> CHR 0x22 \<and> c \<noteq> CHR 0x5C")
  case True
  then show ?thesis by (simp add: escape_char_def unescape_plain)
next
  case False
  show ?thesis
  proof (cases "c \<in> {CHR 0x5C, CHR 0x22, CHR 0x08, CHR 0x0C, CHR 0x0A, CHR 0x0D, CHR 0x09}")
    case True
    then show ?thesis by (auto simp: escape_char_def unescape_short)
  next
    case ctl: False
    then have "(of_char c :: nat) < 32" using False by auto
    then show ?thesis
      using unescape_control [of "of_char c" xs] ctl False by (simp add: escape_char_def)
  qed
qed

lemma scan_escape_char:
  "scan_string (escape_char c @ xs) = map_option (\<lambda>(b, r). (escape_char c @ b, r)) (scan_string xs)"
  by (auto simp: escape_char_def option.map_comp comp_def case_prod_beta intro!: option.map_cong0)

lemma unescape_escaped:
  "unescape (concat (map escape_char s)) = Some s"
  by (induction s) (auto simp: unescape_escape_char)

lemma scan_escaped:
  "scan_string (concat (map escape_char s) @ CHR 0x22 # rest) = Some (concat (map escape_char s), rest)"
  by (induction s) (simp_all add: scan_escape_char)

lemma c_str_id [simp]: "CHR 0x00 \<notin> set s \<Longrightarrow> c_str s = s"
  by (auto simp: c_str_def takeWhile_eq_all_conv)

lemma c_str_nul_free [simp]: "CHR 0x00 \<notin> set (c_str s)"
  by (auto simp: c_str_def dest: set_takeWhileD)

lemma parse_print_string:
  "CHR 0x00 \<notin> set s \<Longrightarrow> parse_string (print_string_ptr s @ rest) = Some (s, rest)"
  by (simp add: parse_string_def print_string_ptr_def scan_escaped unescape_escaped)

section \<open>The output buffer is large enough\<close>

text \<open>The counter \<^verbatim>\<open>skipped_bytes\<close> of the first pass: one for each escaped pair.\<close>

fun skipped_bytes :: "string \<Rightarrow> nat" where
  "skipped_bytes [] = 0"
| "skipped_bytes [c] = 0"
| "skipped_bytes (c # e # cs) = (if c = CHR 0x5C then Suc (skipped_bytes cs) else skipped_bytes (e # cs))"

lemma skipped_bytes_Cons: "skipped_bytes cs \<le> skipped_bytes (c # cs) \<and> skipped_bytes (c # cs) \<le> Suc (skipped_bytes cs)"
proof (induction cs arbitrary: c rule: length_induct)
  case (1 cs)
  show ?case
  proof (cases cs)
    case (Cons d ds)
    then show ?thesis using 1 [rule_format, of ds d] by auto
  qed simp
qed

lemma skipped_bytes_plain: "c \<noteq> CHR 0x5C \<Longrightarrow> skipped_bytes (c # cs) = skipped_bytes cs"
  by (cases cs) auto

lemma skipped_bytes_two: "skipped_bytes (a # b # cs) \<le> Suc (skipped_bytes cs)"
  using skipped_bytes_Cons [of cs b] by simp

lemma skipped_bytes_drop2: "skipped_bytes xs \<le> Suc (skipped_bytes (drop 2 xs))"
proof (cases xs)
  case (Cons a ys)
  then show ?thesis using skipped_bytes_two [of a] by (cases ys) (auto simp: numeral_2_eq_2)
qed simp

lemma skipped_bytes_drop6: "skipped_bytes xs \<le> 3 + skipped_bytes (drop 6 xs)"
  using skipped_bytes_drop2 [of xs] skipped_bytes_drop2 [of "drop 2 xs"]
    skipped_bytes_drop2 [of "drop 4 xs"] by simp

lemma length_utf8_tail: "utf8_tail p cp acc = (cp', bs) \<Longrightarrow> length bs = p + length acc"
  by (induction p arbitrary: cp acc) force+

lemma length_utf8_encode:
  assumes "utf8_encode cp = Some bs"
  shows "length bs \<le> 4" and "cp < 0x10000 \<Longrightarrow> length bs \<le> 3"
  using assms by (auto simp: utf8_encode_def Let_def split: if_splits prod.splits dest!: length_utf8_tail)

lemma hex_digit_bound: "hex_digit c = Some d \<Longrightarrow> d < 16"
  by (auto simp: hex_digit_def Let_def split: if_splits)

lemma parse_hex4_bound:
  assumes "4 \<le> length cs"
  shows "parse_hex4 cs < 0x10000"
proof -
  obtain a b c d r where cs: "cs = a # b # c # d # r"
    using assms by (auto simp: numeral_eq_Suc Suc_le_length_iff)
  have "parse_hex4_loop (Suc (Suc (Suc (Suc 0)))) h r = h" for h by (cases r) auto
  then show ?thesis
    by (auto simp: cs parse_hex4_def split: option.splits dest!: hex_digit_bound)
qed

lemma utf16_literal_shrinks:
  assumes "utf16_literal_to_utf8 s = Some (bs, n)"
  shows "(n = 6 \<and> length bs \<le> 3) \<or> (n = 12 \<and> length bs \<le> 4)"
proof -
  have "6 \<le> length s" using assms by (auto simp: utf16_literal_to_utf8_def split: if_splits)
  then have "parse_hex4 (drop 2 s) < 0x10000" by (intro parse_hex4_bound) simp
  then show ?thesis
    using assms by (auto simp: utf16_literal_to_utf8_def Let_def split: if_splits dest: length_utf8_encode)
qed

lemma unescape_Cons_cases [consumes 1, case_names plain escape literal]:
  assumes "unescape (c # cs) = Some s"
  obtains t where "c \<noteq> CHR 0x5C" "s = c # t" "unescape cs = Some t"
  | d t where "c = CHR 0x5C" "s = d # t" "unescape (drop 1 cs) = Some t"
  | bs n t where "utf16_literal_to_utf8 (c # cs) = Some (bs, n)" "s = bs @ t"
      "unescape (drop n (c # cs)) = Some t"
  using assms unfolding unescape.simps(2) Let_def
  by (auto split: if_splits option.splits prod.splits)

lemma unescape_length: "unescape xs = Some s \<Longrightarrow> length s + skipped_bytes xs \<le> length xs"
proof (induction xs arbitrary: s rule: length_induct)
  case (1 xs)
  show ?case
  proof (cases xs)
    case Nil
    then show ?thesis using 1 by simp
  next
    case (Cons c cs)
    from 1(2) have "unescape (c # cs) = Some s" by (simp add: Cons)
    then show ?thesis
    proof (cases rule: unescape_Cons_cases)
      case (plain t)
      then show ?thesis using 1(1) Cons by (auto simp: skipped_bytes_plain)
    next
      case (escape d t)
      have "length t + skipped_bytes (drop 1 cs) \<le> length (drop 1 cs)"
        using 1(1) [rule_format, of "drop 1 cs" t] escape Cons by simp
      then show ?thesis using escape Cons by (cases cs) auto
    next
      case (literal bs n t)
      note n = utf16_literal_length [OF literal(1)] and k = utf16_literal_shrinks [OF literal(1)]
      have "length t + skipped_bytes (drop n xs) \<le> length (drop n xs)"
        using 1(1) [rule_format, of "drop n xs" t] literal n Cons by simp
      then show ?thesis
        using k n literal(2) skipped_bytes_drop6 [of xs] skipped_bytes_drop6 [of "drop 6 xs"] Cons
        by auto
    qed
  qed
qed

text \<open>
  Unescaping never writes past the buffer \<^verbatim>\<open>parse_string\<close> allocates. The bytes stored for a
  literal, with the terminator, are at most \<^verbatim>\<open>allocation_length + 1\<close>, where the allocation is
  computed by the first pass as the raw length less one byte per escape, even for escapes
  that the two passes delimit differently.
\<close>

theorem parse_string_stays_in_allocation:
  assumes "scan_string cs = Some (body, rest)" and "unescape body = Some s"
  shows "length s + 1 \<le> (length (CHR 0x22 # body) - skipped_bytes body) + 1"
  using unescape_length [OF assms(2)] by simp

theorem parse_string_stays_in_allocation_witness:
  "length [CHR 0x00, CHR 0x22] + 1
     \<le> (length (CHR 0x22 # [CHR 0x5C, CHR ''u'', CHR ''1'', CHR ''2'', CHR ''3'', CHR 0x5C, CHR 0x5C])
        - skipped_bytes [CHR 0x5C, CHR ''u'', CHR ''1'', CHR ''2'', CHR ''3'', CHR 0x5C, CHR 0x5C]) + 1"
proof (rule parse_string_stays_in_allocation)
  let ?b = "[CHR 0x5C, CHR ''u'', CHR ''1'', CHR ''2'', CHR ''3'', CHR 0x5C, CHR 0x5C]"
  show "scan_string (?b @ [CHR 0x22]) = Some (?b, [])" by simp
  have "parse_hex4 (drop 2 ?b) = 0" by (simp add: parse_hex4_def hex_digit_def)
  then have "utf16_literal_to_utf8 ?b = Some ([CHR 0x00], 6)"
    by (simp add: utf16_literal_to_utf8_def utf8_encode_ascii char_of_def)
  then show "unescape ?b = Some [CHR 0x00, CHR 0x22]" by (simp add: unescape.simps(2))
qed

end
