(* ===== verification/CJSON.thy ===== *)
theory CJSON
  imports CJSON_String
begin

text \<open>
  The JSON library the protocol codecs are built on, \<^verbatim>\<open>third_party/cJSON/cJSON.c\<close>: the item tree,
  the recursive-descent parser with its nesting limit and whitespace rules, the printer, and
  the tree operations the codecs call. The input buffer is the list of unread characters,
  terminator included; a failed parse is \<open>None\<close>. Allocations are assumed to succeed; the limit
  \<^verbatim>\<open>ensure\<close> puts on the printed text is modelled. The central result is that parsing a printed tree
  gives the tree back.
\<close>

section \<open>Items\<close>

datatype cJSON =
    cJSON_NULL
  | cJSON_False
  | cJSON_True
  | cJSON_Number ieee_double
  | cJSON_String string
  | cJSON_Array "cJSON list"
  | cJSON_Object "(string \<times> cJSON) list"

fun cJSON_IsNull :: "cJSON \<Rightarrow> bool" where
  "cJSON_IsNull cJSON_NULL = True"
| "cJSON_IsNull _ = False"

fun cJSON_IsNumber :: "cJSON \<Rightarrow> bool" where
  "cJSON_IsNumber (cJSON_Number _) = True"
| "cJSON_IsNumber _ = False"

fun cJSON_IsString :: "cJSON \<Rightarrow> bool" where
  "cJSON_IsString (cJSON_String _) = True"
| "cJSON_IsString _ = False"

fun cJSON_IsArray :: "cJSON \<Rightarrow> bool" where
  "cJSON_IsArray (cJSON_Array _) = True"
| "cJSON_IsArray _ = False"

fun cJSON_IsObject :: "cJSON \<Rightarrow> bool" where
  "cJSON_IsObject (cJSON_Object _) = True"
| "cJSON_IsObject _ = False"

definition cJSON_CreateObject :: cJSON where
  "cJSON_CreateObject = cJSON_Object []"

definition cJSON_CreateNumber :: "rat \<Rightarrow> cJSON" where
  "cJSON_CreateNumber q = cJSON_Number (Fin q)"

definition cJSON_CreateString :: "string \<Rightarrow> cJSON" where
  "cJSON_CreateString s = cJSON_String s"

text \<open>\<^verbatim>\<open>get_object_item\<close>, case sensitive: the first child whose name is equal.\<close>

fun cJSON_GetObjectItemCaseSensitive :: "cJSON \<Rightarrow> string \<Rightarrow> cJSON option" where
  "cJSON_GetObjectItemCaseSensitive (cJSON_Object ms) name = map_of ms name"
| "cJSON_GetObjectItemCaseSensitive _ name = None"

text \<open>\<^verbatim>\<open>add_item_to_object\<close>: appended at the end of the child list, without looking for duplicates.\<close>

fun cJSON_AddItemToObject :: "cJSON \<Rightarrow> string \<Rightarrow> cJSON \<Rightarrow> cJSON option" where
  "cJSON_AddItemToObject (cJSON_Object ms) name item = Some (cJSON_Object (ms @ [(name, item)]))"
| "cJSON_AddItemToObject _ name item = None"

section \<open>Parsing\<close>

definition CJSON_NESTING_LIMIT :: nat where
  "CJSON_NESTING_LIMIT = 1000"

text \<open>
  \<^verbatim>\<open>buffer_skip_whitespace\<close>: everything up to a space counts; at the end of the buffer the
  offset is stepped back to the last character.
\<close>

definition is_blank :: "char \<Rightarrow> bool" where
  "is_blank c \<longleftrightarrow> (of_char c :: nat) \<le> 32"

definition buffer_skip_whitespace :: "string \<Rightarrow> string" where
  "buffer_skip_whitespace xs =
     (if xs = [] then [] else let r = dropWhile is_blank xs in if r = [] then [last xs] else r)"

definition skip_utf8_bom :: "string \<Rightarrow> string" where
  "skip_utf8_bom xs =
     (if 4 < length xs \<and> take 3 xs = [CHR 0xEF, CHR 0xBB, CHR 0xBF] then drop 3 xs else xs)"

text \<open>
  The loops of \<^verbatim>\<open>parse_array\<close> and \<^verbatim>\<open>parse_object\<close> over the comma separated members, given the
  parser of one value. The number bounds the iterations; each one reads at least a character,
  so the length of the input is enough.
\<close>

fun parse_elements ::
  "(string \<Rightarrow> (cJSON \<times> string) option) \<Rightarrow> nat \<Rightarrow> string \<Rightarrow> (cJSON list \<times> string) option" where
  "parse_elements pv 0 r = None"
| "parse_elements pv (Suc k) r =
     (case pv (buffer_skip_whitespace r) of
        None \<Rightarrow> None
      | Some (v, r1) \<Rightarrow>
          (case buffer_skip_whitespace r1 of
             [] \<Rightarrow> None
           | c # cs \<Rightarrow>
               if c = CHR '','' then map_option (\<lambda>(vs, r2). (v # vs, r2)) (parse_elements pv k cs)
               else if c = CHR '']'' then Some ([v], cs) else None))"

definition parse_array ::
  "(string \<Rightarrow> (cJSON \<times> string) option) \<Rightarrow> string \<Rightarrow> (cJSON \<times> string) option" where
  "parse_array pv xs =
     (case buffer_skip_whitespace xs of
        [] \<Rightarrow> None
      | c # cs \<Rightarrow>
          if c = CHR '']'' then Some (cJSON_Array [], cs)
          else map_option (\<lambda>(vs, r). (cJSON_Array vs, r)) (parse_elements pv (length (c # cs)) (c # cs)))"

fun parse_members ::
  "(string \<Rightarrow> (cJSON \<times> string) option) \<Rightarrow> nat \<Rightarrow> string \<Rightarrow> ((string \<times> cJSON) list \<times> string) option" where
  "parse_members pv 0 r = None"
| "parse_members pv (Suc k) r =
     (if r = [] then None
      else case parse_string (buffer_skip_whitespace r) of
        None \<Rightarrow> None
      | Some (name, r1) \<Rightarrow>
          (case buffer_skip_whitespace r1 of
             [] \<Rightarrow> None
           | c # r2 \<Rightarrow>
               if c \<noteq> CHR '':'' then None
               else case pv (buffer_skip_whitespace r2) of
                      None \<Rightarrow> None
                    | Some (v, r3) \<Rightarrow>
                        (case buffer_skip_whitespace r3 of
                           [] \<Rightarrow> None
                         | d # ds \<Rightarrow>
                             if d = CHR '','' then
                               map_option (\<lambda>(ms, r4). ((name, v) # ms, r4)) (parse_members pv k ds)
                             else if d = CHR ''}'' then Some ([(name, v)], ds) else None)))"

definition parse_object ::
  "(string \<Rightarrow> (cJSON \<times> string) option) \<Rightarrow> string \<Rightarrow> (cJSON \<times> string) option" where
  "parse_object pv xs =
     (case buffer_skip_whitespace xs of
        [] \<Rightarrow> None
      | c # cs \<Rightarrow>
          if c = CHR ''}'' then Some (cJSON_Object [], cs)
          else map_option (\<lambda>(ms, r). (cJSON_Object ms, r)) (parse_members pv (length (c # cs)) (c # cs)))"

text \<open>\<^verbatim>\<open>parse_value\<close>; the first argument is \<^verbatim>\<open>CJSON_NESTING_LIMIT - depth\<close>.\<close>

fun parse_value :: "nat \<Rightarrow> string \<Rightarrow> (cJSON \<times> string) option" where
  "parse_value left xs =
     (if take 4 xs = ''null'' then Some (cJSON_NULL, drop 4 xs)
      else if take 5 xs = ''false'' then Some (cJSON_False, drop 5 xs)
      else if take 4 xs = ''true'' then Some (cJSON_True, drop 4 xs)
      else case xs of
        [] \<Rightarrow> None
      | c # cs \<Rightarrow>
          if c = CHR 0x22 then map_option (\<lambda>(s, r). (cJSON_String s, r)) (parse_string xs)
          else if c = CHR ''-'' \<or> is_digit c then map_option (\<lambda>(d, r). (cJSON_Number d, r)) (parse_number xs)
          else if c = CHR ''['' then
            (case left of 0 \<Rightarrow> None | Suc n \<Rightarrow> parse_array (parse_value n) cs)
          else if c = CHR ''{'' then
            (case left of 0 \<Rightarrow> None | Suc n \<Rightarrow> parse_object (parse_value n) cs)
          else None)"

declare parse_value.simps [simp del]

definition cJSON_ParseWithOpts :: "string \<Rightarrow> bool \<Rightarrow> cJSON option" where
  "cJSON_ParseWithOpts text require_null_terminated =
     (let buffer = c_str text @ [CHR 0x00]
      in case parse_value CJSON_NESTING_LIMIT (buffer_skip_whitespace (skip_utf8_bom buffer)) of
           None \<Rightarrow> None
         | Some (item, r) \<Rightarrow>
             if require_null_terminated
             then (case buffer_skip_whitespace r of
                     [] \<Rightarrow> None
                   | c # _ \<Rightarrow> if c \<noteq> CHR 0x00 then None else Some item)
             else Some item)"

section \<open>Printing\<close>

text \<open>
  \<^verbatim>\<open>ensure\<close>, given the offset at which the text goes on and the bytes wanted. The buffer starts at
  256 bytes and is doubled, or taken to \<^verbatim>\<open>INT_MAX\<close> once doubling would pass it, so with working
  allocations a request fails exactly when the bytes and a terminator do not fit below \<^verbatim>\<open>INT_MAX\<close>.
\<close>

definition ensure :: "nat \<Rightarrow> nat \<Rightarrow> bool" where
  "ensure offset needed \<longleftrightarrow> needed \<le> nat INT32_MAX \<and> needed + offset + 1 \<le> nat INT32_MAX"

text \<open>
  \<^verbatim>\<open>print_value\<close>, \<^verbatim>\<open>print_array\<close> and \<^verbatim>\<open>print_object\<close>, with the formatting flag, the current depth and
  the offset in the output buffer; the result is the text put there, \<open>None\<close> when the buffer
  cannot be made large enough.
\<close>

fun print_value :: "bool \<Rightarrow> nat \<Rightarrow> nat \<Rightarrow> cJSON \<Rightarrow> string option"
  and print_elements :: "bool \<Rightarrow> nat \<Rightarrow> nat \<Rightarrow> cJSON list \<Rightarrow> string option"
  and print_members :: "bool \<Rightarrow> nat \<Rightarrow> nat \<Rightarrow> (string \<times> cJSON) list \<Rightarrow> string option" where
  "print_value fmt d off cJSON_NULL = (if ensure off 5 then Some ''null'' else None)"
| "print_value fmt d off cJSON_False = (if ensure off 6 then Some ''false'' else None)"
| "print_value fmt d off cJSON_True = (if ensure off 5 then Some ''true'' else None)"
| "print_value fmt d off (cJSON_Number n) =
     (case print_number n of
        None \<Rightarrow> None
      | Some t \<Rightarrow> if ensure off (length t + 1) then Some t else None)"
| "print_value fmt d off (cJSON_String s) =
     (if ensure off (length (print_string_ptr s) + 1) then Some (print_string_ptr s) else None)"
| "print_value fmt d off (cJSON_Array vs) =
     (if \<not> ensure off 1 then None
      else case print_elements fmt (d + 1) (off + 1) vs of
             None \<Rightarrow> None
           | Some t \<Rightarrow> if ensure (off + 1 + length t) 2 then Some (''['' @ t @ '']'') else None)"
| "print_value fmt d off (cJSON_Object ms) =
     (let n = (if fmt then 2 else 1)
      in if \<not> ensure off (n + 1) then None
         else case print_members fmt (d + 1) (off + n) ms of
                None \<Rightarrow> None
              | Some t \<Rightarrow>
                  if ensure (off + n + length t) (if fmt then d + 2 else 2)
                  then Some (''{'' @ (if fmt then [CHR 0x0A] else []) @ t
                             @ (if fmt then replicate d (CHR 0x09) else []) @ ''}'')
                  else None)"
| "print_elements fmt d off [] = Some []"
| "print_elements fmt d off (v # vs) =
     (case print_value fmt d off v of
        None \<Rightarrow> None
      | Some t \<Rightarrow>
          let sep = (if vs = [] then [] else if fmt then '', '' else '','')
          in if vs \<noteq> [] \<and> \<not> ensure (off + length t) (length sep + 1) then None
             else map_option (\<lambda>u. t @ sep @ u) (print_elements fmt d (off + length t + length sep) vs))"
| "print_members fmt d off [] = Some []"
| "print_members fmt d off ((name, v) # ms) =
     (let tabs = (if fmt then replicate d (CHR 0x09) else []);
          key = print_string_ptr name;
          colon = (if fmt then '':'' @ [CHR 0x09] else '':'');
          off1 = off + length tabs;
          off2 = off1 + length key
      in if fmt \<and> \<not> ensure off d then None
         else if \<not> ensure off1 (length key + 1) then None
         else if \<not> ensure off2 (length colon) then None
         else case print_value fmt d (off2 + length colon) v of
                None \<Rightarrow> None
              | Some t \<Rightarrow>
                  let off3 = off2 + length colon + length t;
                      sep = (if ms = [] then [] else '','') @ (if fmt then [CHR 0x0A] else [])
                  in if \<not> ensure off3 (length sep + 1) then None
                     else map_option (\<lambda>u. tabs @ key @ colon @ t @ sep @ u)
                            (print_members fmt d (off3 + length sep) ms))"

definition cJSON_PrintUnformatted :: "cJSON \<Rightarrow> string option" where
  "cJSON_PrintUnformatted item = print_value False 0 0 item"

section \<open>The text of a tree\<close>

text \<open>
  The text itself, without the buffer: the reference the printer is compared with. The
  printer gives this text whenever it and two bytes fit below \<^verbatim>\<open>INT_MAX\<close>, and nothing otherwise.
\<close>

fun json_text :: "bool \<Rightarrow> nat \<Rightarrow> cJSON \<Rightarrow> string option"
  and elements_json :: "bool \<Rightarrow> nat \<Rightarrow> cJSON list \<Rightarrow> string option"
  and members_json :: "bool \<Rightarrow> nat \<Rightarrow> (string \<times> cJSON) list \<Rightarrow> string option" where
  "json_text fmt d cJSON_NULL = Some ''null''"
| "json_text fmt d cJSON_False = Some ''false''"
| "json_text fmt d cJSON_True = Some ''true''"
| "json_text fmt d (cJSON_Number n) = print_number n"
| "json_text fmt d (cJSON_String s) = Some (print_string_ptr s)"
| "json_text fmt d (cJSON_Array vs) =
     map_option (\<lambda>t. ''['' @ t @ '']'') (elements_json fmt (d + 1) vs)"
| "json_text fmt d (cJSON_Object ms) =
     map_option (\<lambda>t. ''{'' @ (if fmt then [CHR 0x0A] else []) @ t
                     @ (if fmt then replicate d (CHR 0x09) else []) @ ''}'') (members_json fmt (d + 1) ms)"
| "elements_json fmt d [] = Some []"
| "elements_json fmt d (v # vs) =
     (case json_text fmt d v of
        None \<Rightarrow> None
      | Some t \<Rightarrow>
          map_option (\<lambda>u. t @ (if vs = [] then [] else if fmt then '', '' else '','') @ u) (elements_json fmt d vs))"
| "members_json fmt d [] = Some []"
| "members_json fmt d ((name, v) # ms) =
     (case json_text fmt d v of
        None \<Rightarrow> None
      | Some t \<Rightarrow>
          map_option (\<lambda>u. (if fmt then replicate d (CHR 0x09) else []) @ print_string_ptr name @ '':''
                          @ (if fmt then [CHR 0x09] else []) @ t @ (if ms = [] then [] else '','')
                          @ (if fmt then [CHR 0x0A] else []) @ u) (members_json fmt d ms))"

lemma INT32_MAX_room: "nat INT32_MAX = 2147483647"
  by (simp add: limits)

lemma ensure_iff: "ensure off n \<longleftrightarrow> off + n + 1 \<le> nat INT32_MAX"
  by (auto simp: ensure_def)

definition fits_text :: "nat \<Rightarrow> string option \<Rightarrow> string option" where
  "fits_text off t = (case t of None \<Rightarrow> None
     | Some u \<Rightarrow> if off + length u + 2 \<le> nat INT32_MAX then Some u else None)"

lemma fits_text_simps [simp]:
  "fits_text off None = None"
  "fits_text off (Some u) = (if off + length u + 2 \<le> nat INT32_MAX then Some u else None)"
  by (simp_all add: fits_text_def)

lemma print_is_text:
  "print_value fmt d off v = fits_text off (json_text fmt d v)"
  "print_elements fmt d off vs = (if vs = [] then Some [] else fits_text off (elements_json fmt d vs))"
  "print_members fmt d off ms = (if ms = [] then Some [] else fits_text off (members_json fmt d ms))"
proof (induction fmt d off v and fmt d off vs and fmt d off ms
    rule: print_value_print_elements_print_members.induct)
  case (4 fmt d off n)
  then show ?case by (cases "print_number n") (auto simp: ensure_iff)
next
  case (6 fmt d off vs)
  then show ?case by (cases "elements_json fmt (d + 1) vs") (auto simp: ensure_iff)
next
  case (7 fmt d off ms)
  then show ?case by (cases "members_json fmt (d + 1) ms") (auto simp: ensure_iff Let_def)
next
  case (9 fmt d off v vs)
  show ?case
  proof (cases "json_text fmt d v")
    case None
    then show ?thesis using 9(1) by simp
  next
    case (Some t)
    then show ?thesis
      using 9 by (cases "elements_json fmt d vs") (auto simp: ensure_iff Let_def)
  qed
next
  case (11 fmt d off name v ms)
  show ?case
  proof (cases "json_text fmt d v")
    case None
    then show ?thesis using 11 by (auto simp: Let_def)
  next
    case (Some t)
    then show ?thesis
      using 11 by (cases "members_json fmt d ms") (auto simp: ensure_iff Let_def)
  qed
qed (auto simp: ensure_iff)

section \<open>Parsing what was printed\<close>

text \<open>
  The trees the program builds: at most \<open>n\<close> levels of arrays and objects, numbers that are
  32-bit integers, strings and names without NUL.
\<close>

fun json_ok :: "nat \<Rightarrow> cJSON \<Rightarrow> bool" where
  "json_ok n cJSON_NULL = True"
| "json_ok n cJSON_False = True"
| "json_ok n cJSON_True = True"
| "json_ok n (cJSON_Number d) = (case d of Fin q \<Rightarrow> q = of_int (valueint d) | Inf _ \<Rightarrow> False)"
| "json_ok n (cJSON_String s) = (CHR 0x00 \<notin> set s)"
| "json_ok 0 (cJSON_Array vs) = False"
| "json_ok (Suc n) (cJSON_Array vs) = (\<forall>v\<in>set vs. json_ok n v)"
| "json_ok 0 (cJSON_Object ms) = False"
| "json_ok (Suc n) (cJSON_Object ms) =
     (\<forall>m\<in>set ms. CHR 0x00 \<notin> set (fst m) \<and> json_ok n (snd m))"

lemma json_ok_mono: "json_ok n v \<Longrightarrow> n \<le> m \<Longrightarrow> json_ok m v"
proof (induction n v arbitrary: m rule: json_ok.induct)
  case (7 n vs)
  then show ?case by (cases m) auto
next
  case (9 n ms)
  then show ?case by (cases m) auto
qed auto

lemma trunc_rat_bounds:
  assumes "of_int a < q" and "q < of_int b"
  shows "a \<le> trunc_rat q" and "trunc_rat q \<le> b"
proof -
  have "a \<le> \<lfloor>q\<rfloor>" "\<lfloor>q\<rfloor> \<le> b" "\<lfloor>- q\<rfloor> \<le> - a" "- b \<le> \<lfloor>- q\<rfloor>"
    using assms by (simp_all add: le_floor_iff floor_le_iff)
  then show "a \<le> trunc_rat q" and "trunc_rat q \<le> b" by (simp_all add: trunc_rat_def)
qed

lemma valueint_int32: "int32_range (valueint d)"
proof (cases d)
  case (Fin q)
  show ?thesis
    using trunc_rat_bounds [of INT32_MIN q INT32_MAX]
    by (auto simp: Fin valueint.simps int32_range_def not_le) (simp_all add: limits)
qed (simp add: int32_range_def limits)

lemma json_ok_number:
  assumes "json_ok n (cJSON_Number d)"
  shows "d = Fin (of_int (valueint d))"
proof (cases d)
  case (Fin q)
  with assms have "q = of_int (valueint (Fin q))" by simp
  then show ?thesis unfolding Fin by (rule arg_cong)
qed (use assms in simp)

lemma skip_nonblank [simp]: "\<not> is_blank c \<Longrightarrow> buffer_skip_whitespace (c # xs) = c # xs"
  by (simp add: buffer_skip_whitespace_def)

lemma nonblank_punctuation [simp]:
  "\<not> is_blank (CHR 0x22)" "\<not> is_blank (CHR ''['')" "\<not> is_blank (CHR '']'')" "\<not> is_blank (CHR ''{'')"
  "\<not> is_blank (CHR ''}'')" "\<not> is_blank (CHR '','')" "\<not> is_blank (CHR '':'')" "\<not> is_blank (CHR ''-'')"
  "is_digit c \<Longrightarrow> \<not> is_blank c"
  by (auto simp: is_blank_def is_digit_def)

lemma string_of_int_first:
  obtains c u where "string_of_int k = c # u" and "c = CHR ''-'' \<or> is_digit c"
proof (cases "string_of_int k")
  case (Cons c u)
  then have "c = CHR ''-'' \<or> is_digit c"
    using nat_digits_are_digits [of c "nat \<bar>k\<bar>"] by (auto simp: string_of_int_def split: if_splits)
  with Cons that show ?thesis by blast
qed (simp add: string_of_int_def)

text \<open>The first character of a printed value.\<close>

lemma print_number_ok:
  assumes "json_ok n (cJSON_Number d)"
  shows "print_number d = Some (string_of_int (valueint d))"
proof -
  have "print_number (Fin (of_int (valueint d))) = Some (string_of_int (valueint d))"
    by (rule print_number_of_int [OF valueint_int32])
  then show ?thesis by (simp only: json_ok_number [OF assms, symmetric])
qed

definition value_start :: "char \<Rightarrow> bool" where
  "value_start c \<longleftrightarrow> \<not> is_blank c \<and> c \<noteq> CHR '']'' \<and> c \<noteq> CHR ''}'' \<and> c \<noteq> CHR 0xEF"

lemma value_start_simps [simp]:
  "value_start (CHR ''n'')" "value_start (CHR ''f'')" "value_start (CHR ''t'')" "value_start (CHR 0x22)"
  "value_start (CHR ''['')" "value_start (CHR ''{'')" "value_start (CHR ''-'')"
  "is_digit c \<Longrightarrow> value_start c"
  by (auto simp: value_start_def is_blank_def is_digit_def)

lemma json_text_first:
  assumes "json_ok n v" and "json_text fmt d v = Some t"
  shows "\<exists>c u. t = c # u \<and> value_start c"
proof (cases v)
  case (cJSON_Number x)
  then have "t = string_of_int (valueint x)" using assms print_number_ok by simp
  moreover obtain c u where "string_of_int (valueint x) = c # u" "c = CHR ''-'' \<or> is_digit c"
    by (rule string_of_int_first)
  ultimately show ?thesis by auto
next
  case (cJSON_Array vs)
  with assms(2) obtain u where "t = CHR ''['' # u" unfolding cJSON_Array json_text.simps by force
  then show ?thesis by simp
next
  case (cJSON_Object ms)
  with assms(2) obtain u where "t = CHR ''{'' # u" unfolding cJSON_Object json_text.simps by force
  then show ?thesis by simp
qed (use assms(2) in \<open>simp_all add: print_string_ptr_def eq_commute [of _ t]\<close>)

lemma parse_value_scalars [simp]:
  "parse_value n (''null'' @ rest) = Some (cJSON_NULL, rest)"
  "parse_value n (''false'' @ rest) = Some (cJSON_False, rest)"
  "parse_value n (''true'' @ rest) = Some (cJSON_True, rest)"
  by (simp_all add: parse_value.simps)

lemma parse_value_string_text:
  "CHR 0x00 \<notin> set s \<Longrightarrow> parse_value n (print_string_ptr s @ rest) = Some (cJSON_String s, rest)"
  using parse_print_string [of s rest] by (simp add: parse_value.simps print_string_ptr_def)

lemma parse_value_brackets:
  "parse_value 0 (CHR ''['' # xs) = None"
  "parse_value (Suc n) (CHR ''['' # xs) = parse_array (parse_value n) xs"
  "parse_value 0 (CHR ''{'' # xs) = None"
  "parse_value (Suc n) (CHR ''{'' # xs) = parse_object (parse_value n) xs"
  by (simp_all add: parse_value.simps is_digit_def)

lemma parse_value_number:
  assumes "c = CHR ''-'' \<or> is_digit c"
  shows "parse_value n (c # xs) = map_option (\<lambda>(d, r). (cJSON_Number d, r)) (parse_number (c # xs))"
proof -
  have "c \<noteq> CHR ''n''" "c \<noteq> CHR ''f''" "c \<noteq> CHR ''t''" "c \<noteq> CHR 0x22"
    using assms by (auto simp: is_digit_def)
  with assms show ?thesis by (simp add: parse_value.simps)
qed

lemma parse_value_int:
  assumes "int32_range k" and "rest = [] \<or> \<not> is_number_char (hd rest)"
  shows "parse_value n (string_of_int k @ rest) = Some (cJSON_Number (Fin (of_int k)), rest)"
proof -
  obtain c u where cu: "string_of_int k = c # u" "c = CHR ''-'' \<or> is_digit c"
    by (rule string_of_int_first)
  then show ?thesis
    using parse_value_number [of c n "u @ rest"] parse_number_of_int [OF assms] by simp
qed

lemma not_number_char [simp]:
  "\<not> is_number_char (CHR '','')" "\<not> is_number_char (CHR '']'')" "\<not> is_number_char (CHR ''}'')"
  "\<not> is_number_char (CHR 0x00)"
  by (simp_all add: is_number_char_def is_digit_def)

lemma skip_value_text [simp]: "value_start c \<Longrightarrow> buffer_skip_whitespace (c # xs) = c # xs"
  by (simp add: value_start_def)

text \<open>One turn of each loop on printed text.\<close>

lemma parse_elements_step:
  assumes "pv (t @ sep # r) = Some (v, sep # r)" and "t = c # u" and "value_start c"
  shows "sep = CHR '','' \<Longrightarrow> parse_elements pv (Suc k) (t @ sep # r)
           = map_option (\<lambda>(vs, r2). (v # vs, r2)) (parse_elements pv k r)"
    and "sep = CHR '']'' \<Longrightarrow> parse_elements pv (Suc k) (t @ sep # r) = Some ([v], r)"
  using assms by simp_all

lemma parse_members_step:
  assumes "CHR 0x00 \<notin> set name" and "pv (t @ sep # r) = Some (v, sep # r)" and "t = c # u" and "value_start c"
  shows "sep = CHR '','' \<Longrightarrow> parse_members pv (Suc k) (print_string_ptr name @ CHR '':'' # t @ sep # r)
           = map_option (\<lambda>(ms, r2). ((name, v) # ms, r2)) (parse_members pv k r)"
    and "sep = CHR ''}'' \<Longrightarrow> parse_members pv (Suc k) (print_string_ptr name @ CHR '':'' # t @ sep # r)
           = Some ([(name, v)], r)"
proof -
  have "buffer_skip_whitespace (print_string_ptr name @ CHR '':'' # t @ sep # r)
      = print_string_ptr name @ CHR '':'' # t @ sep # r"
    by (simp add: print_string_ptr_def)
  moreover have "print_string_ptr name @ CHR '':'' # t @ sep # r \<noteq> []" by simp
  ultimately show "sep = CHR '','' \<Longrightarrow> parse_members pv (Suc k) (print_string_ptr name @ CHR '':'' # t @ sep # r)
           = map_option (\<lambda>(ms, r2). ((name, v) # ms, r2)) (parse_members pv k r)"
    and "sep = CHR ''}'' \<Longrightarrow> parse_members pv (Suc k) (print_string_ptr name @ CHR '':'' # t @ sep # r)
           = Some ([(name, v)], r)"
    using assms parse_print_string [OF assms(1)] by simp_all
qed

text \<open>The text of a value stands before something that is not part of a number.\<close>

definition reads_back :: "nat \<Rightarrow> cJSON \<Rightarrow> string \<Rightarrow> bool" where
  "reads_back n v t \<longleftrightarrow>
     (\<forall>rest. (rest = [] \<or> \<not> is_number_char (hd rest)) \<longrightarrow> parse_value n (t @ rest) = Some (v, rest))"

lemma elements_json_Cons [consumes 1, case_names last more]:
  assumes "elements_json False d (v # vs) = Some t"
  obtains "vs = []" and "json_text False d v = Some t"
  | tv tr where "vs \<noteq> []" and "json_text False d v = Some tv" and "elements_json False d vs = Some tr"
      and "t = tv @ CHR '','' # tr"
  using assms by (auto split: option.splits if_splits)

lemma members_json_Cons [consumes 1, case_names last more]:
  assumes "members_json False d ((name, v) # ms) = Some t"
  obtains tv where "ms = []" and "json_text False d v = Some tv" and "t = print_string_ptr name @ CHR '':'' # tv"
  | tv tr where "ms \<noteq> []" and "json_text False d v = Some tv" and "members_json False d ms = Some tr"
      and "t = print_string_ptr name @ CHR '':'' # tv @ CHR '','' # tr"
  using assms by (auto split: option.splits if_splits)

lemma elements_text:
  assumes "vs \<noteq> []" and "\<forall>v\<in>set vs. json_ok n v" and "elements_json False d vs = Some t"
  shows "length vs \<le> length t \<and> (\<exists>c u. t = c # u \<and> value_start c)"
  using assms
proof (induction vs arbitrary: t)
  case (Cons v vs)
  have first: "\<exists>c u. tv = c # u \<and> value_start c" if "json_text False d v = Some tv" for tv
    using that Cons.prems(2) json_text_first [of n v False d tv] by simp
  from Cons.prems(3) show ?case
  proof (cases rule: elements_json_Cons)
    case last
    then show ?thesis using first by fastforce
  next
    case (more tv tr)
    then have "length vs \<le> length tr" using Cons.IH [of tr] Cons.prems by simp
    then show ?thesis using first [OF more(2)] more(4) by auto
  qed
qed simp

lemma members_text:
  assumes "ms \<noteq> []" and "members_json False d ms = Some t"
  shows "length ms \<le> length t \<and> (\<exists>u. t = CHR 0x22 # u)"
  using assms
proof (induction ms arbitrary: t)
  case (Cons m ms)
  obtain name v where m: "m = (name, v)" by (cases m)
  have "members_json False d ((name, v) # ms) = Some t" using Cons.prems m by simp
  then show ?case
  proof (cases rule: members_json_Cons)
    case (last tv)
    then show ?thesis by (simp add: print_string_ptr_def)
  next
    case (more tv tr)
    then have "length ms \<le> length tr" using Cons.IH [of tr] by simp
    then show ?thesis by (simp add: more(4) print_string_ptr_def)
  qed
qed simp

lemma elements_read_back:
  assumes "vs \<noteq> []" and "\<forall>v\<in>set vs. json_ok n v"
    and "\<forall>v\<in>set vs. \<forall>t. json_text False d v = Some t \<longrightarrow> reads_back n v t"
    and "elements_json False d vs = Some t" and "length vs \<le> k"
  shows "parse_elements (parse_value n) k (t @ CHR '']'' # rest) = Some (vs, rest)"
  using assms
proof (induction vs arbitrary: t k)
  case (Cons v vs)
  obtain j where k: "k = Suc j" using Cons.prems by (cases k) auto
  have tv: "parse_value n (tv @ sep # r) = Some (v, sep # r)" "\<exists>c u. tv = c # u \<and> value_start c"
    if "json_text False d v = Some tv" "\<not> is_number_char sep" for tv sep r
    using that Cons.prems(2,3) json_text_first [of n v False d tv] by (simp_all add: reads_back_def)
  from Cons.prems(4) show ?case
  proof (cases rule: elements_json_Cons)
    case last
    then show ?thesis
      using tv [OF last(2), of "CHR '']''"] parse_elements_step(2) [where pv = "parse_value n"]
      by (auto simp: k simp del: parse_elements.simps)
  next
    case (more tv' tr)
    have "parse_elements (parse_value n) j (tr @ CHR '']'' # rest) = Some (vs, rest)"
      using Cons.IH [OF more(1) _ _ more(3)] Cons.prems k by simp
    then show ?thesis
      using tv [OF more(2), of "CHR '',''"] parse_elements_step(1) [where pv = "parse_value n"] more(4)
      by (auto simp: k simp del: parse_elements.simps)
  qed
qed simp

lemma members_read_back:
  assumes "ms \<noteq> []" and "\<forall>m\<in>set ms. CHR 0x00 \<notin> set (fst m) \<and> json_ok n (snd m)"
    and "\<forall>m\<in>set ms. \<forall>t. json_text False d (snd m) = Some t \<longrightarrow> reads_back n (snd m) t"
    and "members_json False d ms = Some t" and "length ms \<le> k"
  shows "parse_members (parse_value n) k (t @ CHR ''}'' # rest) = Some (ms, rest)"
  using assms
proof (induction ms arbitrary: t k)
  case (Cons m ms)
  obtain name v where m: "m = (name, v)" by (cases m)
  obtain j where k: "k = Suc j" using Cons.prems by (cases k) auto
  have name: "CHR 0x00 \<notin> set name" using Cons.prems(2) m by simp
  have tv: "parse_value n (tv @ sep # r) = Some (v, sep # r)" "\<exists>c u. tv = c # u \<and> value_start c"
    if "json_text False d v = Some tv" "\<not> is_number_char sep" for tv sep r
    using that Cons.prems(2,3) m json_text_first [of n v False d tv] by (simp_all add: reads_back_def)
  have "members_json False d ((name, v) # ms) = Some t" using Cons.prems m by simp
  then show ?case
  proof (cases rule: members_json_Cons)
    case (last tv')
    then show ?thesis
      using tv [OF last(2), of "CHR ''}''"] parse_members_step(2) [OF name, where pv = "parse_value n"] m
      by (auto simp: k simp del: parse_members.simps)
  next
    case (more tv' tr)
    have "parse_members (parse_value n) j (tr @ CHR ''}'' # rest) = Some (ms, rest)"
      using Cons.IH [OF more(1) _ _ more(3)] Cons.prems k by simp
    then show ?thesis
      using tv [OF more(2), of "CHR '',''"] parse_members_step(1) [OF name, where pv = "parse_value n"] m more(4)
      by (auto simp: k simp del: parse_members.simps)
  qed
qed simp

lemma array_reads_back:
  assumes ok: "\<forall>v\<in>set vs. json_ok n v"
    and rb: "\<forall>v\<in>set vs. \<forall>t. json_text False (Suc d) v = Some t \<longrightarrow> reads_back n v t"
    and t: "json_text False d (cJSON_Array vs) = Some t"
  shows "reads_back (Suc n) (cJSON_Array vs) t"
proof -
  obtain u where u: "elements_json False (Suc d) vs = Some u" "t = CHR ''['' # u @ '']''"
    using t by auto
  have "parse_array (parse_value n) (u @ CHR '']'' # rest) = Some (cJSON_Array vs, rest)" for rest
  proof (cases "vs = []")
    case True
    then show ?thesis using u by (simp add: parse_array_def)
  next
    case False
    then obtain c w where cw: "u = c # w" "value_start c" and len: "length vs \<le> length u"
      using elements_text [OF False ok u(1)] by auto
    have "parse_elements (parse_value n) (length (u @ CHR '']'' # rest)) (u @ CHR '']'' # rest) = Some (vs, rest)"
      using len by (intro elements_read_back [OF False ok rb u(1)]) simp
    then show ?thesis using cw by (simp add: parse_array_def value_start_def del: parse_elements.simps)
  qed
  then show ?thesis by (simp add: reads_back_def u(2) parse_value_brackets)
qed

lemma object_reads_back:
  assumes ok: "\<forall>m\<in>set ms. CHR 0x00 \<notin> set (fst m) \<and> json_ok n (snd m)"
    and rb: "\<forall>m\<in>set ms. \<forall>t. json_text False (Suc d) (snd m) = Some t \<longrightarrow> reads_back n (snd m) t"
    and t: "json_text False d (cJSON_Object ms) = Some t"
  shows "reads_back (Suc n) (cJSON_Object ms) t"
proof -
  obtain u where u: "members_json False (Suc d) ms = Some u" "t = CHR ''{'' # u @ ''}''"
    using t by auto
  have "parse_object (parse_value n) (u @ CHR ''}'' # rest) = Some (cJSON_Object ms, rest)" for rest
  proof (cases "ms = []")
    case True
    then show ?thesis using u by (simp add: parse_object_def)
  next
    case False
    then obtain w where w: "u = CHR 0x22 # w" and len: "length ms \<le> length u"
      using members_text [OF False u(1)] by auto
    have "parse_members (parse_value n) (length (u @ CHR ''}'' # rest)) (u @ CHR ''}'' # rest) = Some (ms, rest)"
      using len by (intro members_read_back [OF False ok rb u(1)]) simp
    then show ?thesis using w by (simp add: parse_object_def del: parse_members.simps)
  qed
  then show ?thesis by (simp add: reads_back_def u(2) parse_value_brackets)
qed

lemma value_reads_back: "json_ok n v \<Longrightarrow> json_text False d v = Some t \<Longrightarrow> reads_back n v t"
proof (induction n v arbitrary: d t rule: json_ok.induct)
  case (4 n x)
  then have "t = string_of_int (valueint x)" using print_number_ok by simp
  moreover have "parse_value n (string_of_int (valueint x) @ rest) = Some (cJSON_Number x, rest)"
    if "rest = [] \<or> \<not> is_number_char (hd rest)" for rest
    using parse_value_int [OF valueint_int32 that, of n x] json_ok_number [OF 4(1)] by simp
  ultimately show ?case by (simp add: reads_back_def)
next
  case (5 n s)
  then have "t = print_string_ptr s" "CHR 0x00 \<notin> set s" by simp_all
  then show ?case unfolding reads_back_def using parse_value_string_text by blast
next
  case (7 n vs)
  then show ?case by (intro array_reads_back) auto
next
  case (9 n ms)
  then show ?case by (intro object_reads_back) auto
qed (auto simp: reads_back_def parse_value.simps)

lemma elements_json_total:
  "\<forall>v\<in>set vs. \<exists>t. json_text fmt d v = Some t \<Longrightarrow> \<exists>t. elements_json fmt d vs = Some t"
  by (induction vs) auto

lemma members_json_total:
  "\<forall>m\<in>set ms. \<exists>t. json_text fmt d (snd m) = Some t \<Longrightarrow> \<exists>t. members_json fmt d ms = Some t"
proof (induction ms)
  case (Cons m ms)
  then show ?case by (cases m) auto
qed simp

lemma json_text_total: "json_ok n v \<Longrightarrow> \<exists>t. json_text fmt d v = Some t"
proof (induction n v arbitrary: d rule: json_ok.induct)
  case (4 n x)
  then show ?case using print_number_ok by simp
next
  case (7 n vs)
  then show ?case using elements_json_total [of vs fmt "d + 1"] by auto
next
  case (9 n ms)
  then show ?case using members_json_total [of ms fmt "d + 1"] by auto
qed auto

text \<open>Printed text is a C string.\<close>

lemma print_string_no_nul: "CHR 0x00 \<notin> set (print_string_ptr s)"
proof -
  have "hex_char d \<noteq> CHR 0x00" if "d < 16" for d
    using that hex_digit_hex_char [of d] by (auto simp: hex_digit_def)
  then have "CHR 0x00 \<noteq> hex_char (n div 16)" "CHR 0x00 \<noteq> hex_char (n mod 16)" if "\<not> 31 < n" for n
    using that by (simp_all add: less_mult_imp_div_less neq_commute)
  then have "CHR 0x00 \<notin> set (escape_char c)" for c
    by (auto simp: escape_char_def)
  then show ?thesis by (auto simp: print_string_ptr_def)
qed

lemma elements_json_no_nul:
  assumes "\<forall>v\<in>set vs. \<forall>t. json_text False d v = Some t \<longrightarrow> CHR 0x00 \<notin> set t"
    and "elements_json False d vs = Some t"
  shows "CHR 0x00 \<notin> set t"
  using assms by (induction vs arbitrary: t) (auto split: option.splits if_splits)

lemma members_json_no_nul:
  assumes "\<forall>m\<in>set ms. \<forall>t. json_text False d (snd m) = Some t \<longrightarrow> CHR 0x00 \<notin> set t"
    and "members_json False d ms = Some t"
  shows "CHR 0x00 \<notin> set t"
  using assms by (induction ms arbitrary: t) (auto simp: print_string_no_nul split: option.splits if_splits)

lemma json_text_no_nul:
  "json_ok n v \<Longrightarrow> json_text False d v = Some t \<Longrightarrow> CHR 0x00 \<notin> set t"
proof (induction n v arbitrary: d t rule: json_ok.induct)
  case (4 n x)
  then have "t = string_of_int (valueint x)" using print_number_ok by simp
  then show ?case using number_chars_of_int not_number_char(4) by blast
next
  case (7 n vs)
  then show ?case using elements_json_no_nul [of vs "d + 1"] by fastforce
next
  case (9 n ms)
  then show ?case using members_json_no_nul [of ms "d + 1"] by fastforce
qed (auto simp: print_string_no_nul)

lemma json_text_parses:
  assumes "json_ok CJSON_NESTING_LIMIT v" and t: "json_text False 0 v = Some t"
  shows "cJSON_ParseWithOpts t req = Some v"
proof -
  obtain c u where cu: "t = c # u" "value_start c" using json_text_first [OF assms(1) t] by blast
  have nul: "CHR 0x00 \<notin> set t" by (rule json_text_no_nul [OF assms(1) t])
  have "skip_utf8_bom (t @ [CHR 0x00]) = t @ [CHR 0x00]"
    using cu by (simp add: skip_utf8_bom_def value_start_def numeral_3_eq_3)
  then have "parse_value CJSON_NESTING_LIMIT (buffer_skip_whitespace (skip_utf8_bom (t @ [CHR 0x00])))
      = Some (v, [CHR 0x00])"
    using value_reads_back [OF assms(1) t] cu by (simp add: reads_back_def)
  then show ?thesis
    using nul by (simp add: cJSON_ParseWithOpts_def buffer_skip_whitespace_def is_blank_def)
qed

lemma printed_text:
  "cJSON_PrintUnformatted v = Some t \<longleftrightarrow> json_text False 0 v = Some t \<and> length t + 2 \<le> nat INT32_MAX"
  by (cases "json_text False 0 v") (auto simp: cJSON_PrintUnformatted_def print_is_text)

lemma print_empty_object: "cJSON_PrintUnformatted (cJSON_Object []) = Some ''{}''"
  by (simp add: printed_text INT32_MAX_room)

lemma json_parse_text:
  assumes "json_ok CJSON_NESTING_LIMIT v" and "cJSON_PrintUnformatted v = Some t"
  shows "cJSON_ParseWithOpts t req = Some v"
  using json_text_parses [OF assms(1)] assms(2) by (simp add: printed_text)

text \<open>
  C22: JSON trees survive the wire. For every tree of at most \<^verbatim>\<open>CJSON_NESTING_LIMIT\<close> levels whose
  numbers are 32-bit integers and whose strings are C strings, \<^verbatim>\<open>cJSON_PrintUnformatted\<close> returns the
  tree's text when the text and two bytes fit below \<^verbatim>\<open>INT_MAX\<close>, the limit of the output buffer,
  and NULL when they do not; the text is a C string, and \<^verbatim>\<open>cJSON_ParseWithOpts\<close> reads the same tree
  back from it, with or without the demand that nothing follows it.
\<close>

theorem json_print_parse_roundtrip:
  assumes "json_ok CJSON_NESTING_LIMIT v"
  shows "\<exists>t. json_text False 0 v = Some t
           \<and> cJSON_PrintUnformatted v = (if length t + 2 \<le> 2147483647 then Some t else None)
           \<and> CHR 0x00 \<notin> set t
           \<and> cJSON_ParseWithOpts t req = Some v"
proof -
  obtain t where t: "json_text False 0 v = Some t" using json_text_total [OF assms] by blast
  then show ?thesis
    using json_text_parses [OF assms t, of req] json_text_no_nul [OF assms t]
    by (simp add: cJSON_PrintUnformatted_def print_is_text INT32_MAX_room)
qed

theorem json_print_parse_roundtrip_witness:
  "cJSON_PrintUnformatted
     (cJSON_Object [(''a'', cJSON_Array [cJSON_NULL, cJSON_String ''x'']), (''b'', cJSON_Number (Fin 7))])
   = Some (''{'' @ [CHR 0x22] @ ''a'' @ [CHR 0x22] @ '':[null,'' @ [CHR 0x22] @ ''x'' @ [CHR 0x22] @ ''],''
           @ [CHR 0x22] @ ''b'' @ [CHR 0x22] @ '':7}'')
   \<and> cJSON_ParseWithOpts (''{'' @ [CHR 0x22] @ ''a'' @ [CHR 0x22] @ '':[null,'' @ [CHR 0x22] @ ''x'' @ [CHR 0x22] @ ''],''
           @ [CHR 0x22] @ ''b'' @ [CHR 0x22] @ '':7}'') True
     = Some (cJSON_Object [(''a'', cJSON_Array [cJSON_NULL, cJSON_String ''x'']), (''b'', cJSON_Number (Fin 7))])"
  (is "cJSON_PrintUnformatted ?v = Some ?t \<and> _")
proof -
  have seven: "valueint (Fin 7) = 7" "print_number (Fin 7) = Some ''7''"
    using valueint_of_int [of 7] print_number_of_int [of 7]
    by (simp_all add: int32_range_def limits string_of_int_def nat_digits.simps digit_char_def char_of_def bit_iff_odd)
  then have "json_ok (Suc (Suc 0)) ?v" by simp
  then have "json_ok CJSON_NESTING_LIMIT ?v"
    by (rule json_ok_mono) (simp add: CJSON_NESTING_LIMIT_def)
  then obtain t where t: "json_text False 0 ?v = Some t"
      and print: "cJSON_PrintUnformatted ?v = (if length t + 2 \<le> 2147483647 then Some t else None)"
      and parse: "cJSON_ParseWithOpts t True = Some ?v"
    using json_print_parse_roundtrip by blast
  have "json_text False 0 ?v = Some ?t"
    using seven by (simp add: print_string_ptr_def escape_char_def)
  then have e: "t = ?t" unfolding t option.inject .
  show ?thesis using print parse unfolding e by simp
qed

text \<open>How long a text can get, for flat objects such as the field tables build.\<close>

lemma length_print_number: "print_number d = Some t \<Longrightarrow> length t \<le> 25"
  by (cases d) (auto simp: print_number.simps Let_def split: if_splits)

lemma length_print_string: "length (print_string_ptr s) \<le> 6 * length s + 2"
proof -
  have "length (escape_char c) \<le> 6" for c by (simp add: escape_char_def)
  then have "length (concat (map escape_char s)) \<le> 6 * length s"
    by (induction s) (auto intro: add_mono)
  then show ?thesis by (simp add: print_string_ptr_def)
qed

lemma length_members_json:
  assumes "\<forall>m\<in>set ms. length (print_string_ptr (fst m)) \<le> B \<and> (\<forall>t. json_text False d (snd m) = Some t \<longrightarrow> length t \<le> B)"
    and "members_json False d ms = Some t"
  shows "length t \<le> length ms * (2 * B + 2)"
  using assms by (induction ms arbitrary: t) (fastforce split: option.splits)+

lemma object_printed:
  assumes "json_ok n (cJSON_Object ms)"
    and "\<forall>m\<in>set ms. length (print_string_ptr (fst m)) \<le> B \<and> (\<forall>t. json_text False 1 (snd m) = Some t \<longrightarrow> length t \<le> B)"
    and "length ms * (2 * B + 2) + 4 \<le> nat INT32_MAX"
  shows "\<exists>t. cJSON_PrintUnformatted (cJSON_Object ms) = Some t"
proof -
  obtain t where t: "json_text False 0 (cJSON_Object ms) = Some t" using json_text_total [OF assms(1)] by blast
  then obtain u where u: "members_json False 1 ms = Some u" "t = ''{'' @ u @ ''}''" by auto
  have "length t + 2 \<le> nat INT32_MAX" using length_members_json [OF assms(2) u(1)] assms(3) by (simp add: u(2))
  with t show ?thesis unfolding printed_text by blast
qed

section \<open>The loop bound is never reached\<close>

text \<open>Every parser of a value consumes input, so the member loops end within their bound.\<close>

definition consumes :: "(string \<Rightarrow> ('a \<times> string) option) \<Rightarrow> bool" where
  "consumes f \<longleftrightarrow> (\<forall>xs v r. f xs = Some (v, r) \<longrightarrow> length r < length xs)"

lemma length_skip_le: "length (buffer_skip_whitespace xs) \<le> length xs"
  using length_dropWhile_le [of is_blank xs]
  by (auto simp: buffer_skip_whitespace_def Let_def Suc_le_eq)

lemma skip_shrinks:
  assumes "buffer_skip_whitespace xs = c # cs"
  shows "length cs < length xs"
  using length_skip_le [of xs] assms by simp

lemma scan_string_shrinks: "scan_string xs = Some (b, r) \<Longrightarrow> length r < length xs"
  by (induction xs arbitrary: b r rule: scan_string.induct) (fastforce split: if_splits list.splits)+

lemma parse_string_consumes: "consumes parse_string"
  unfolding consumes_def parse_string_def
  by (fastforce split: list.splits if_splits option.splits dest: scan_string_shrinks)

lemma consumesD: "consumes f \<Longrightarrow> f xs = Some (v, r) \<Longrightarrow> length r < length xs"
  by (simp add: consumes_def)

lemma consumes_Nil: "consumes f \<Longrightarrow> f [] = None"
  using consumesD [of f "[]"] by (cases "f []") auto

lemma parse_elements_bound:
  assumes "consumes pv" and "length r \<le> k" and "length r \<le> j"
  shows "parse_elements pv k r = parse_elements pv j r"
  using assms(2,3)
proof (induction k arbitrary: r j)
  case 0
  then show ?case
    using consumes_Nil [OF assms(1)] by (cases j) (simp_all add: buffer_skip_whitespace_def)
next
  case (Suc k)
  show ?case
  proof (cases j)
    case 0
    then show ?thesis
      using Suc.prems consumes_Nil [OF assms(1)] by (simp add: buffer_skip_whitespace_def)
  next
    case j: (Suc i)
    have "parse_elements pv k cs = parse_elements pv i cs"
      if "pv (buffer_skip_whitespace r) = Some (v, r1)" "buffer_skip_whitespace r1 = c # cs" for v r1 c cs
    proof -
      have "length r1 < length r"
        using that(1) assms(1) length_skip_le [of r] unfolding consumes_def by fastforce
      then have "length cs < length r" using skip_shrinks [OF that(2)] by simp
      then show ?thesis using Suc.IH [of cs i] Suc.prems j by simp
    qed
    then show ?thesis by (simp add: j split: option.split prod.split list.split)
  qed
qed

lemma parse_members_bound:
  assumes "consumes pv" and "length r \<le> k" and "length r \<le> j"
  shows "parse_members pv k r = parse_members pv j r"
  using assms(2,3)
proof (induction k arbitrary: r j)
  case 0
  then show ?case by (cases j) simp_all
next
  case (Suc k)
  show ?case
  proof (cases j)
    case j: (Suc i)
    have "parse_members pv k ds = parse_members pv i ds"
      if "parse_string (buffer_skip_whitespace r) = Some (name, r1)" "buffer_skip_whitespace r1 = c # r2"
        "pv (buffer_skip_whitespace r2) = Some (v, r3)" "buffer_skip_whitespace r3 = d # ds"
      for name r1 c r2 v r3 d ds
    proof -
      have "length r1 < length r"
        using that(1) parse_string_consumes length_skip_le [of r] unfolding consumes_def by fastforce
      moreover have "length r3 < length r2"
        using that(3) assms(1) length_skip_le [of r2] unfolding consumes_def by fastforce
      ultimately have "length ds < length r"
        using skip_shrinks [OF that(2)] skip_shrinks [OF that(4)] by simp
      then show ?thesis using Suc.IH [of ds i] Suc.prems j by simp
    qed
    then show ?thesis by (simp add: j split: option.split prod.split list.split)
  qed (use Suc.prems in simp)
qed

lemma parse_elements_shrinks:
  assumes "consumes pv"
  shows "parse_elements pv k r = Some (vs, r') \<Longrightarrow> length r' < length r"
proof (induction k arbitrary: r vs r')
  case (Suc k)
  then obtain v r1 c cs where r1: "pv (buffer_skip_whitespace r) = Some (v, r1)"
      and cs: "buffer_skip_whitespace r1 = c # cs"
      and r': "r' = cs \<or> (\<exists>us. parse_elements pv k cs = Some (us, r'))"
    by (auto split: option.splits list.splits if_splits)
  have "length cs < length r"
    using consumesD [OF assms r1] length_skip_le [of r] skip_shrinks [OF cs] by simp
  with r' Suc.IH [of cs] show ?case by fastforce
qed simp

lemma parse_members_shrinks:
  assumes "consumes pv"
  shows "parse_members pv k r = Some (ms, r') \<Longrightarrow> length r' < length r"
proof (induction k arbitrary: r ms r')
  case (Suc k)
  then obtain name r1 c r2 v r3 d ds where r1: "parse_string (buffer_skip_whitespace r) = Some (name, r1)"
      and r2: "buffer_skip_whitespace r1 = c # r2" and r3: "pv (buffer_skip_whitespace r2) = Some (v, r3)"
      and ds: "buffer_skip_whitespace r3 = d # ds"
      and r': "r' = ds \<or> (\<exists>us. parse_members pv k ds = Some (us, r'))"
    by (auto split: option.splits list.splits if_splits)
  have "length ds < length r"
    using consumesD [OF parse_string_consumes r1] length_skip_le [of r] skip_shrinks [OF r2]
      consumesD [OF assms r3] length_skip_le [of r2] skip_shrinks [OF ds] by simp
  with r' Suc.IH [of ds] show ?case by fastforce
qed simp

lemma parse_array_shrinks:
  assumes "consumes pv" and "parse_array pv xs = Some (v, r)"
  shows "length r < length xs"
proof -
  obtain c cs where cs: "buffer_skip_whitespace xs = c # cs"
      and "r = cs \<or> (\<exists>vs. parse_elements pv (length (c # cs)) (c # cs) = Some (vs, r))"
    using assms(2) by (auto simp: parse_array_def simp del: parse_elements.simps split: list.splits if_splits)
  then show ?thesis
    using length_skip_le [of xs] parse_elements_shrinks [OF assms(1), of "length (c # cs)" "c # cs"] by fastforce
qed

lemma parse_object_shrinks:
  assumes "consumes pv" and "parse_object pv xs = Some (v, r)"
  shows "length r < length xs"
proof -
  obtain c cs where cs: "buffer_skip_whitespace xs = c # cs"
      and "r = cs \<or> (\<exists>ms. parse_members pv (length (c # cs)) (c # cs) = Some (ms, r))"
    using assms(2) by (auto simp: parse_object_def simp del: parse_members.simps split: list.splits if_splits)
  then show ?thesis
    using length_skip_le [of xs] parse_members_shrinks [OF assms(1), of "length (c # cs)" "c # cs"] by fastforce
qed

lemma parse_value_consumes: "consumes (parse_value n)"
proof (induction n rule: less_induct)
  case (less n)
  have "length r < length xs" if v: "parse_value n xs = Some (v, r)" for xs v r
  proof -
    have xs: "xs \<noteq> []" using v by (auto simp: parse_value.simps)
    consider "r = drop 4 xs" | "r = drop 5 xs" | s where "parse_string xs = Some (s, r)"
      | d where "parse_number xs = Some (d, r)" | m where "n = Suc m" "parse_array (parse_value m) (tl xs) = Some (v, r)"
      | m where "n = Suc m" "parse_object (parse_value m) (tl xs) = Some (v, r)"
      using v unfolding parse_value.simps [of n]
      by (auto split: if_splits list.splits nat.splits)
    then show ?thesis
    proof cases
      case 3
      then show ?thesis using parse_string_consumes by (auto dest: consumesD)
    next
      case 5
      then show ?thesis using parse_array_shrinks [OF less.IH] xs by fastforce
    next
      case 6
      then show ?thesis using parse_object_shrinks [OF less.IH] xs by fastforce
    qed (use xs parse_number_consumes in auto)
  qed
  then show ?case by (simp add: consumes_def)
qed

section \<open>Parsed strings are C strings\<close>

text \<open>Neither a value nor a name of a parsed tree contains NUL, whatever escapes the text had.\<close>

fun json_nul_free :: "cJSON \<Rightarrow> bool" where
  "json_nul_free (cJSON_String s) = (CHR 0x00 \<notin> set s)"
| "json_nul_free (cJSON_Array vs) = (\<forall>v\<in>set vs. json_nul_free v)"
| "json_nul_free (cJSON_Object ms) = (\<forall>m\<in>set ms. CHR 0x00 \<notin> set (fst m) \<and> json_nul_free (snd m))"
| "json_nul_free _ = True"

lemma parse_string_nul_free: "parse_string xs = Some (s, r) \<Longrightarrow> CHR 0x00 \<notin> set s"
  by (auto simp: parse_string_def split: list.splits if_splits option.splits)

lemma parse_elements_nul_free:
  assumes "\<And>xs v r. pv xs = Some (v, r) \<Longrightarrow> json_nul_free v"
  shows "parse_elements pv k r = Some (vs, r') \<Longrightarrow> \<forall>v\<in>set vs. json_nul_free v"
proof (induction k arbitrary: r vs r')
  case (Suc k)
  obtain v r1 where v: "pv (buffer_skip_whitespace r) = Some (v, r1)"
    using Suc.prems by (auto split: option.splits)
  then have "json_nul_free v" by (rule assms)
  with v Suc.prems show ?case by (auto split: list.splits if_splits dest!: Suc.IH)
qed simp

lemma parse_members_nul_free:
  assumes "\<And>xs v r. pv xs = Some (v, r) \<Longrightarrow> json_nul_free v"
  shows "parse_members pv k r = Some (ms, r')
     \<Longrightarrow> \<forall>m\<in>set ms. CHR 0x00 \<notin> set (fst m) \<and> json_nul_free (snd m)"
proof (induction k arbitrary: r ms r')
  case (Suc k)
  obtain name r1 c r2 v r3 where p: "r \<noteq> []" "parse_string (buffer_skip_whitespace r) = Some (name, r1)"
      "buffer_skip_whitespace r1 = c # r2" "pv (buffer_skip_whitespace r2) = Some (v, r3)"
    using Suc.prems by (auto split: option.splits list.splits if_splits)
  then have "CHR 0x00 \<notin> set name" "json_nul_free v"
    using parse_string_nul_free [OF p(2)] assms [OF p(4)] by simp_all
  with p Suc.prems show ?case
    by (simp split: list.splits if_splits option.splits) (use Suc.IH in force)+
qed simp

lemma parse_value_nul_free: "parse_value n xs = Some (v, r) \<Longrightarrow> json_nul_free v"
proof (induction n arbitrary: xs v r rule: less_induct)
  case (less n)
  consider "v \<in> {cJSON_NULL, cJSON_False, cJSON_True}" | s where "v = cJSON_String s" "parse_string xs = Some (s, r)"
    | d where "v = cJSON_Number d" | m where "n = Suc m" "parse_array (parse_value m) (tl xs) = Some (v, r)"
    | m where "n = Suc m" "parse_object (parse_value m) (tl xs) = Some (v, r)"
    using less.prems unfolding parse_value.simps [of n] by (auto split: if_splits list.splits nat.splits)
  then show ?case
  proof cases
    case (2 s)
    then show ?thesis by (simp add: parse_string_nul_free)
  next
    case (4 m)
    then show ?thesis
      using parse_elements_nul_free [OF less.IH [of m]]
      by (auto simp: parse_array_def simp del: parse_elements.simps split: list.splits if_splits)
  next
    case (5 m)
    then show ?thesis
      using parse_members_nul_free [OF less.IH [of m]]
      by (auto simp: parse_object_def simp del: parse_members.simps split: list.splits if_splits)
  qed auto
qed

lemma parse_opts_nul_free: "cJSON_ParseWithOpts t req = Some v \<Longrightarrow> json_nul_free v"
  by (auto simp: cJSON_ParseWithOpts_def split: option.splits if_splits list.splits dest: parse_value_nul_free)

end
