(* ===== verification/Utf8.thy ===== *)
theory Utf8
  imports Core_Base CJSON_String
begin

text \<open>
  \<^verbatim>\<open>savvy_utf8_validate\<close> of \<^verbatim>\<open>src/protocol/json/json_codec.c\<close>, and the proof that it accepts exactly
  the well-formed UTF-8 of the Unicode standard: the concatenations of the encodings of
  Unicode scalar values.
\<close>

unbundle bit_operations_syntax

section \<open>The validator\<close>

text \<open>The continuation loop; reading past the last character meets the terminator, which is rejected.\<close>

fun utf8_continue :: "nat \<Rightarrow> nat \<Rightarrow> string \<Rightarrow> (nat \<times> string) option" where
  "utf8_continue 0 cp cs = Some (cp, cs)"
| "utf8_continue (Suc k) cp [] = None"
| "utf8_continue (Suc k) cp (c # cs) =
     (let b = of_char c
      in if (b AND 0xC0) \<noteq> 0x80 then None else utf8_continue k ((cp * 64) OR (b AND 0x3F)) cs)"

lemma utf8_continue_length: "utf8_continue k cp cs = Some (cp', r) \<Longrightarrow> length r + k = length cs"
  by (induction k cp cs rule: utf8_continue.induct) (auto simp: Let_def split: if_splits)

text \<open>The lead byte: how many bytes follow, the bits it carries and the least code point it may start.\<close>

definition utf8_lead :: "nat \<Rightarrow> (nat \<times> nat \<times> nat) option" where
  "utf8_lead b0 =
     (if (b0 AND 0xE0) = 0xC0 then Some (1, b0 AND 0x1F, 0x80)
      else if (b0 AND 0xF0) = 0xE0 then Some (2, b0 AND 0x0F, 0x800)
      else if (b0 AND 0xF8) = 0xF0 then Some (3, b0 AND 0x07, 0x10000)
      else None)"

function utf8_loop :: "string \<Rightarrow> bool" where
  "utf8_loop [] = True"
| "utf8_loop (c # cs) =
     (if (of_char c :: nat) < 0x80 then utf8_loop cs
      else case utf8_lead (of_char c) of
        None \<Rightarrow> False
      | Some (extra, cp0, min_cp) \<Rightarrow>
          (case utf8_continue extra cp0 cs of
             None \<Rightarrow> False
           | Some (cp, rest) \<Rightarrow>
               if cp < min_cp then False
               else if cp \<ge> 0xD800 \<and> cp \<le> 0xDFFF then False
               else if cp > 0x10FFFF then False
               else utf8_loop rest))"
  by pat_completeness auto
termination
  by (relation "measure length") (auto dest: utf8_continue_length)

definition savvy_utf8_validate :: "string option \<Rightarrow> savvy_status" where
  "savvy_utf8_validate s =
     (case s of
        None \<Rightarrow> SAVVY_ERR_INVALID_ARGUMENT
      | Some cs \<Rightarrow> if utf8_loop cs then SAVVY_OK else SAVVY_ERR_PROTOCOL)"

section \<open>The specification\<close>

definition scalar_value :: "nat \<Rightarrow> bool" where
  "scalar_value cp \<longleftrightarrow> cp < 0xD800 \<or> (0xDFFF < cp \<and> cp \<le> 0x10FFFF)"

definition utf8_of :: "nat \<Rightarrow> string" where
  "utf8_of cp = map char_of
     (if cp < 0x80 then [cp]
      else if cp < 0x800 then [0xC0 + cp div 64, 0x80 + cp mod 64]
      else if cp < 0x10000 then [0xE0 + cp div 4096, 0x80 + cp div 64 mod 64, 0x80 + cp mod 64]
      else [0xF0 + cp div 262144, 0x80 + cp div 4096 mod 64, 0x80 + cp div 64 mod 64, 0x80 + cp mod 64])"

section \<open>Masks as arithmetic\<close>

lemma and_shifted_mask: "b AND push_bit k (mask m) = push_bit k (take_bit m (drop_bit k b))" for b :: nat
  by (rule bit_eqI) (auto simp: bit_simps)

lemma lead_masks:
  fixes b :: nat
  assumes "b < 256"
  shows "(b AND 0xE0) = (b div 32) * 32" and "(b AND 0xF0) = (b div 16) * 16"
    and "(b AND 0xF8) = (b div 8) * 8" and "(b AND 0xC0) = (b div 64) * 64"
    and "b AND 0x1F = b mod 32" and "b AND 0x0F = b mod 16" and "b AND 0x07 = b mod 8"
    and "b AND 0x3F = b mod 64"
proof -
  have m: "mask 3 = (7 :: nat)" "mask 4 = (15 :: nat)" "mask 5 = (31 :: nat)" "mask 2 = (3 :: nat)" "mask 6 = (63 :: nat)"
    by (simp_all add: mask_eq_exp_minus_1)
  show "(b AND 0xE0) = (b div 32) * 32"
    using and_shifted_mask [of b 5 3] assms by (simp add: m push_bit_eq_mult drop_bit_eq_div take_bit_eq_mod)
  show "(b AND 0xF0) = (b div 16) * 16"
    using and_shifted_mask [of b 4 4] assms by (simp add: m push_bit_eq_mult drop_bit_eq_div take_bit_eq_mod)
  show "(b AND 0xF8) = (b div 8) * 8"
    using and_shifted_mask [of b 3 5] assms by (simp add: m push_bit_eq_mult drop_bit_eq_div take_bit_eq_mod)
  show "(b AND 0xC0) = (b div 64) * 64"
    using and_shifted_mask [of b 6 2] assms by (simp add: m push_bit_eq_mult drop_bit_eq_div take_bit_eq_mod)
  show "b AND 0x1F = b mod 32" "b AND 0x0F = b mod 16" "b AND 0x07 = b mod 8" "b AND 0x3F = b mod 64"
    using take_bit_eq_mask [of 5 b] take_bit_eq_mask [of 4 b] take_bit_eq_mask [of 3 b] take_bit_eq_mask [of 6 b]
    by (simp_all add: m take_bit_eq_mod)
qed

lemma or_low_six: "(cp * 64) OR (b mod 64) = cp * 64 + b mod 64" for b :: nat
proof -
  have "push_bit 6 cp AND take_bit 6 b = 0" by (rule bit_eqI) (auto simp: bit_simps)
  then have "push_bit 6 cp OR take_bit 6 b = push_bit 6 cp + take_bit 6 b"
    by (simp add: disjunctive_add_eq_or)
  then show ?thesis by (simp add: push_bit_eq_mult take_bit_eq_mod)
qed

lemma of_char_less: "(of_char c :: nat) < 256"
  by (rule nat_of_char_less_256)

lemma base64_div: "(a * 64 + x mod 64) div 64 = a" for a x :: nat
  by simp

lemma base64_mod: "(a * 64 + x mod 64) mod 64 = x mod 64" for a x :: nat
  by simp

declare utf8_continue.simps(3) [simp del] utf8_loop.simps(2) [simp del]

lemma utf8_continue_Cons:
  "utf8_continue (Suc k) cp (c # cs) =
     (if (of_char c :: nat) div 64 = 2 then utf8_continue k (cp * 64 + of_char c mod 64) cs else None)"
  using lead_masks(4,8) [OF of_char_less [of c]]
  by (auto simp: utf8_continue.simps(3) Let_def or_low_six)

lemma utf8_lead_arith:
  "b < 256 \<Longrightarrow> utf8_lead b =
     (if b div 32 = 6 then Some (1, b mod 32, 0x80)
      else if b div 16 = 14 then Some (2, b mod 16, 0x800)
      else if b div 8 = 30 then Some (3, b mod 8, 0x10000) else None)"
  by (simp add: utf8_lead_def lead_masks)

section \<open>Soundness and completeness\<close>

lemma char_of_bytes:
  "(of_char c :: nat) div m = q \<Longrightarrow> char_of (m * q + of_char c mod m) = c"
  by (metis char_of_char mult_div_mod_eq)

lemma utf8_of_two:
  assumes "(of_char c :: nat) div 32 = 6" and "(of_char d :: nat) div 64 = 2"
    and cp: "cp = of_char c mod 32 * 64 + of_char d mod 64" and "0x80 \<le> cp"
  shows "utf8_of cp = [c, d]"
proof -
  have "cp div 64 = of_char c mod 32" "cp mod 64 = of_char d mod 64"
    unfolding cp by (rule base64_div base64_mod)+
  moreover have "cp < 0x800" using calculation(1) div_less_iff_less_mult [of 64 cp 32] by simp
  ultimately show ?thesis
    using assms(4) char_of_bytes [OF assms(1)] char_of_bytes [OF assms(2)] by (simp add: utf8_of_def)
qed

lemma utf8_of_three:
  assumes "(of_char c :: nat) div 16 = 14" and "(of_char d :: nat) div 64 = 2" and "(of_char e :: nat) div 64 = 2"
    and cp: "cp = (of_char c mod 16 * 64 + of_char d mod 64) * 64 + of_char e mod 64" and "0x800 \<le> cp"
  shows "utf8_of cp = [c, d, e]"
proof -
  have d1: "cp div 64 = of_char c mod 16 * 64 + of_char d mod 64" "cp mod 64 = of_char e mod 64"
    unfolding cp by (rule base64_div base64_mod)+
  have d2: "cp div 64 div 64 = of_char c mod 16" "cp div 64 mod 64 = of_char d mod 64"
    unfolding d1(1) by (rule base64_div base64_mod)+
  then have d3: "cp div 4096 = of_char c mod 16" using div_mult2_eq [of cp 64 64] by simp
  then have "cp < 0x10000" using div_less_iff_less_mult [of 4096 cp 16] by simp
  with d1(2) d2(2) d3 show ?thesis
    using assms(5) char_of_bytes [OF assms(1)] char_of_bytes [OF assms(2)] char_of_bytes [OF assms(3)]
    by (simp add: utf8_of_def)
qed

lemma utf8_of_four:
  assumes "(of_char c :: nat) div 8 = 30" and "(of_char d :: nat) div 64 = 2" and "(of_char e :: nat) div 64 = 2"
    and "(of_char f :: nat) div 64 = 2"
    and cp: "cp = ((of_char c mod 8 * 64 + of_char d mod 64) * 64 + of_char e mod 64) * 64 + of_char f mod 64"
    and "0x10000 \<le> cp"
  shows "utf8_of cp = [c, d, e, f]"
proof -
  have d1: "cp div 64 = (of_char c mod 8 * 64 + of_char d mod 64) * 64 + of_char e mod 64"
      "cp mod 64 = of_char f mod 64"
    unfolding cp by (rule base64_div base64_mod)+
  have d2: "cp div 64 div 64 = of_char c mod 8 * 64 + of_char d mod 64" "cp div 64 mod 64 = of_char e mod 64"
    unfolding d1(1) by (rule base64_div base64_mod)+
  have d3: "cp div 64 div 64 div 64 = of_char c mod 8" "cp div 64 div 64 mod 64 = of_char d mod 64"
    unfolding d2(1) by (rule base64_div base64_mod)+
  have "cp div 4096 = cp div 64 div 64" "cp div 262144 = cp div 64 div 64 div 64"
    using div_mult2_eq [of cp 64 64] div_mult2_eq [of cp 4096 64] by simp_all
  with d1(2) d2(2) d3 show ?thesis
    using assms(6) char_of_bytes [OF assms(1)] char_of_bytes [OF assms(2)] char_of_bytes [OF assms(3)]
      char_of_bytes [OF assms(4)] by (simp add: utf8_of_def)
qed

text \<open>One turn of the loop either fails or removes the encoding of one scalar value.\<close>

lemma utf8_loop_step:
  assumes "utf8_loop (c # cs)"
  shows "\<exists>cp r. scalar_value cp \<and> c # cs = utf8_of cp @ r \<and> utf8_loop r \<and> length r < length (c # cs)"
proof (cases "(of_char c :: nat) < 0x80")
  case True
  then have "utf8_of (of_char c) = [c]" by (simp add: utf8_of_def)
  then show ?thesis
    using True assms by (intro exI [of _ "of_char c"] exI [of _ cs]) (simp add: utf8_loop.simps scalar_value_def)
next
  case False
  then obtain k cp0 lo where lead: "utf8_lead (of_char c) = Some (k, cp0, lo)"
    using assms by (cases "utf8_lead (of_char c)") (auto simp: utf8_loop.simps)
  then obtain cp r where cont: "utf8_continue k cp0 cs = Some (cp, r)"
    using assms False by (cases "utf8_continue k cp0 cs") (auto simp: utf8_loop.simps)
  have cp: "lo \<le> cp" "scalar_value cp" and r: "utf8_loop r"
    using assms False lead cont by (auto simp: utf8_loop.simps scalar_value_def split: if_splits)
  have "c # cs = utf8_of cp @ r"
  proof -
    consider "k = 1" "(of_char c :: nat) div 32 = 6" "cp0 = of_char c mod 32" "lo = 0x80"
      | "k = 2" "(of_char c :: nat) div 16 = 14" "cp0 = of_char c mod 16" "lo = 0x800"
      | "k = 3" "(of_char c :: nat) div 8 = 30" "cp0 = of_char c mod 8" "lo = 0x10000"
      using lead by (auto simp: utf8_lead_arith [OF of_char_less] split: if_splits)
    then show ?thesis
    proof cases
      case 1
      with cont obtain d where "cs = d # r" "(of_char d :: nat) div 64 = 2" "cp = cp0 * 64 + of_char d mod 64"
        by (cases cs) (auto simp: utf8_continue_Cons split: if_splits)
      with 1 cp utf8_of_two [of c d cp] show ?thesis by simp
    next
      case 2
      with cont obtain d e where "cs = d # e # r" "(of_char d :: nat) div 64 = 2" "(of_char e :: nat) div 64 = 2"
          "cp = (cp0 * 64 + of_char d mod 64) * 64 + of_char e mod 64"
        by (cases cs; cases "tl cs") (auto simp: numeral_2_eq_2 utf8_continue_Cons split: if_splits)
      with 2 cp utf8_of_three [of c d e cp] show ?thesis by simp
    next
      case 3
      with cont obtain d e f where "cs = d # e # f # r" "(of_char d :: nat) div 64 = 2" "(of_char e :: nat) div 64 = 2"
          "(of_char f :: nat) div 64 = 2"
          "cp = ((cp0 * 64 + of_char d mod 64) * 64 + of_char e mod 64) * 64 + of_char f mod 64"
        by (cases cs; cases "tl cs"; cases "tl (tl cs)") (auto simp: numeral_3_eq_3 utf8_continue_Cons split: if_splits)
      with 3 cp utf8_of_four [of c d e f cp] show ?thesis by simp
    qed
  qed
  moreover have "length r < length (c # cs)" using utf8_continue_length [OF cont] by simp
  ultimately show ?thesis using cp r by blast
qed

lemma div_mod_range:
  fixes n :: nat
  assumes "m * q \<le> n" and "n < m * Suc q"
  shows "n div m = q" and "n mod m = n - m * q"
proof -
  show q: "n div m = q" using assms by (rule div_nat_eqI)
  show "n mod m = n - m * q" using minus_mult_div_eq_mod [of n m] by (simp add: q)
qed

lemma utf8_lead_bytes:
  "x < 32 \<Longrightarrow> utf8_lead (0xC0 + x) = Some (1, x, 0x80)"
  "x < 16 \<Longrightarrow> utf8_lead (0xE0 + x) = Some (2, x, 0x800)"
  "x < 8 \<Longrightarrow> utf8_lead (0xF0 + x) = Some (3, x, 0x10000)"
  using div_mod_range [of 32 6 "192 + x"] div_mod_range [of 32 7 "224 + x"] div_mod_range [of 16 14 "224 + x"]
    div_mod_range [of 32 7 "240 + x"] div_mod_range [of 16 15 "240 + x"] div_mod_range [of 8 30 "240 + x"]
  by (simp_all add: utf8_lead_arith)

lemma base64_parts:
  fixes cp :: nat
  shows "cp div 64 * 64 + cp mod 64 = cp"
    and "(cp div 4096 * 64 + cp div 64 mod 64) * 64 + cp mod 64 = cp"
    and "((cp div 262144 * 64 + cp div 4096 mod 64) * 64 + cp div 64 mod 64) * 64 + cp mod 64 = cp"
proof -
  have "cp div 4096 = cp div 64 div 64" "cp div 262144 = cp div 64 div 64 div 64"
    using div_mult2_eq [of cp 64 64] div_mult2_eq [of cp 4096 64] by simp_all
  then show "cp div 64 * 64 + cp mod 64 = cp"
    and "(cp div 4096 * 64 + cp div 64 mod 64) * 64 + cp mod 64 = cp"
    and "((cp div 262144 * 64 + cp div 4096 mod 64) * 64 + cp div 64 mod 64) * 64 + cp mod 64 = cp"
    by (simp_all only: div_mult_mod_eq)
qed

lemma utf8_continue_byte [simp]:
  "utf8_continue (Suc k) cp (char_of (0x80 + x mod 64) # cs) = utf8_continue k (cp * 64 + x mod 64) cs"
proof -
  have "(of_char (char_of (0x80 + x mod 64) :: char) :: nat) = 0x80 + x mod 64"
    using mod_less_divisor [of 64 x] by (simp add: of_char_of)
  moreover have "(0x80 + x mod 64) div 64 = 2" "(0x80 + x mod 64) mod 64 = x mod 64"
    using div_mod_range [of 64 2 "0x80 + x mod 64"] by simp_all
  ultimately show ?thesis by (simp add: utf8_continue_Cons)
qed

lemma utf8_loop_multibyte:
  assumes "b < 256" and "0x80 \<le> b" and "utf8_lead b = Some (k, cp0, lo)"
    and "utf8_continue k cp0 (tail @ r) = Some (cp, r)" and "lo \<le> cp" and "scalar_value cp"
  shows "utf8_loop (char_of b # tail @ r) = utf8_loop r"
  using assms by (auto simp: utf8_loop.simps scalar_value_def)

lemma utf8_loop_encoded:
  assumes "scalar_value cp"
  shows "utf8_loop (utf8_of cp @ r) = utf8_loop r"
proof -
  consider "cp < 0x80" | "0x80 \<le> cp" "cp < 0x800" | "0x800 \<le> cp" "cp < 0x10000" | "0x10000 \<le> cp" "cp \<le> 0x10FFFF"
    using assms unfolding scalar_value_def by linarith
  then show ?thesis
  proof cases
    case 1
    then show ?thesis by (simp add: utf8_of_def utf8_loop.simps)
  next
    case 2
    then have "cp div 64 < 32" by (simp add: less_mult_imp_div_less)
    moreover have "utf8_continue 1 (cp div 64) ([char_of (0x80 + cp mod 64)] @ r) = Some (cp, r)"
      by (simp add: base64_parts)
    ultimately show ?thesis
      using 2 utf8_loop_multibyte [OF _ _ utf8_lead_bytes(1) _ _ assms, of "cp div 64"
        "[char_of (0x80 + cp mod 64)]" r] by (simp add: utf8_of_def)
  next
    case 3
    then have "cp div 4096 < 16" by (simp add: less_mult_imp_div_less)
    moreover have "utf8_continue 2 (cp div 4096) ([char_of (0x80 + cp div 64 mod 64), char_of (0x80 + cp mod 64)] @ r)
        = Some (cp, r)"
      using base64_parts(2) [of cp] by (simp add: numeral_2_eq_2)
    ultimately show ?thesis
      using 3 utf8_loop_multibyte [OF _ _ utf8_lead_bytes(2) _ _ assms, of "cp div 4096"
        "[char_of (0x80 + cp div 64 mod 64), char_of (0x80 + cp mod 64)]" r] by (simp add: utf8_of_def)
  next
    case 4
    then have "cp div 262144 < 8" by (simp add: less_mult_imp_div_less)
    moreover have "utf8_continue 3 (cp div 262144)
        ([char_of (0x80 + cp div 4096 mod 64), char_of (0x80 + cp div 64 mod 64), char_of (0x80 + cp mod 64)] @ r)
        = Some (cp, r)"
      using base64_parts(3) [of cp] by (simp add: numeral_3_eq_3)
    ultimately show ?thesis
      using 4 utf8_loop_multibyte [OF _ _ utf8_lead_bytes(3) _ _ assms, of "cp div 262144"
        "[char_of (0x80 + cp div 4096 mod 64), char_of (0x80 + cp div 64 mod 64), char_of (0x80 + cp mod 64)]" r] by (simp add: utf8_of_def)
  qed
qed

text \<open>
  C24: the validator decides UTF-8. It returns \<^verbatim>\<open>SAVVY_OK\<close> exactly for the strings that are
  concatenations of encodings of Unicode scalar values (so overlong forms, surrogates, code
  points above U+10FFFF, stray and missing continuation bytes are all refused), and
  \<^verbatim>\<open>SAVVY_ERR_PROTOCOL\<close> for every other one.
\<close>

theorem utf8_validate_decides_utf8:
  "savvy_utf8_validate (Some s) =
     (if \<exists>cps. list_all scalar_value cps \<and> s = concat (map utf8_of cps) then SAVVY_OK else SAVVY_ERR_PROTOCOL)"
proof -
  have "\<exists>cps. list_all scalar_value cps \<and> s = concat (map utf8_of cps)" if "utf8_loop s"
    using that
  proof (induction s rule: length_induct)
    case (1 s)
    show ?case
    proof (cases s)
      case Nil
      then show ?thesis by (intro exI [of _ "[]"]) simp
    next
      case (Cons c cs)
      then obtain cp r where cp: "scalar_value cp" "s = utf8_of cp @ r" "utf8_loop r" "length r < length s"
        using utf8_loop_step [of c cs] 1(2) unfolding Cons by blast
      then obtain cps where "list_all scalar_value cps" "r = concat (map utf8_of cps)" using 1(1) by blast
      then show ?thesis using cp by (intro exI [of _ "cp # cps"]) simp
    qed
  qed
  moreover have "utf8_loop (concat (map utf8_of cps))" if "list_all scalar_value cps" for cps
    using that by (induction cps) (simp_all add: utf8_loop_encoded)
  ultimately show ?thesis by (auto simp: savvy_utf8_validate_def)
qed

end
