(* ===== verification/Json_Codec.thy ===== *)
theory Json_Codec
  imports CJSON Utf8
begin

text \<open>
  \<^verbatim>\<open>src/protocol/json/json_codec.c\<close>: the strict JSON front end every codec goes through. A text
  argument is the memory it points to; the code reads \<^verbatim>\<open>text[len]\<close>, so the memory must hold more
  than \<^verbatim>\<open>len\<close> characters. A status with an out parameter is a sum: an error, or the value stored.
\<close>

type_synonym 'a result = "savvy_status + 'a"

section \<open>Checks on a parsed tree\<close>

text \<open>The two nested loops over the children of an object.\<close>

fun has_duplicate_key :: "(string \<times> cJSON) list \<Rightarrow> bool" where
  "has_duplicate_key [] = False"
| "has_duplicate_key (a # ms) = (list_ex (\<lambda>b. fst a = fst b) ms \<or> has_duplicate_key ms)"

lemma has_duplicate_key_iff: "has_duplicate_key ms \<longleftrightarrow> \<not> distinct (map fst ms)"
  by (induction ms) (auto simp: list_ex_iff)

fun savvy_json_check_no_duplicate_keys :: "cJSON \<Rightarrow> savvy_status"
  and check_children_keys :: "cJSON list \<Rightarrow> savvy_status"
  and check_member_keys :: "(string \<times> cJSON) list \<Rightarrow> savvy_status" where
  "savvy_json_check_no_duplicate_keys (cJSON_Object ms) =
     (if has_duplicate_key ms then SAVVY_ERR_PROTOCOL else check_member_keys ms)"
| "savvy_json_check_no_duplicate_keys (cJSON_Array vs) = check_children_keys vs"
| "savvy_json_check_no_duplicate_keys _ = SAVVY_OK"
| "check_children_keys [] = SAVVY_OK"
| "check_children_keys (v # vs) =
     (let st = savvy_json_check_no_duplicate_keys v
      in if st \<noteq> SAVVY_OK then st else check_children_keys vs)"
| "check_member_keys [] = SAVVY_OK"
| "check_member_keys ((_, v) # ms) =
     (let st = savvy_json_check_no_duplicate_keys v
      in if st \<noteq> SAVVY_OK then st else check_member_keys ms)"

text \<open>The name of a node is part of the node in C; here it comes as an argument.\<close>

fun savvy_json_check_utf8 :: "string option \<Rightarrow> cJSON \<Rightarrow> savvy_status"
  and check_children_utf8 :: "cJSON list \<Rightarrow> savvy_status"
  and check_member_utf8 :: "(string \<times> cJSON) list \<Rightarrow> savvy_status" where
  "savvy_json_check_utf8 name node =
     (if name \<noteq> None \<and> savvy_utf8_validate name \<noteq> SAVVY_OK then SAVVY_ERR_PROTOCOL
      else case node of
        cJSON_String s \<Rightarrow> (if savvy_utf8_validate (Some s) \<noteq> SAVVY_OK then SAVVY_ERR_PROTOCOL else SAVVY_OK)
      | cJSON_Array vs \<Rightarrow> check_children_utf8 vs
      | cJSON_Object ms \<Rightarrow> check_member_utf8 ms
      | _ \<Rightarrow> SAVVY_OK)"
| "check_children_utf8 [] = SAVVY_OK"
| "check_children_utf8 (v # vs) =
     (let st = savvy_json_check_utf8 None v
      in if st \<noteq> SAVVY_OK then st else check_children_utf8 vs)"
| "check_member_utf8 [] = SAVVY_OK"
| "check_member_utf8 ((name, v) # ms) =
     (let st = savvy_json_check_utf8 (Some name) v
      in if st \<noteq> SAVVY_OK then st else check_member_utf8 ms)"

section \<open>Numbers\<close>

definition savvy_json_number_to_int32 :: "cJSON option \<Rightarrow> int result" where
  "savvy_json_number_to_int32 item =
     (case item of
        Some (cJSON_Number d) \<Rightarrow>
          (case d of
             Inf _ \<Rightarrow> Inl SAVVY_ERR_PROTOCOL
           | Fin v \<Rightarrow>
               if v \<noteq> of_int \<lfloor>v\<rfloor> then Inl SAVVY_ERR_PROTOCOL
               else if v < of_int INT32_MIN \<or> v > of_int INT32_MAX then Inl SAVVY_ERR_PROTOCOL
               else Inr (trunc_rat v))
      | _ \<Rightarrow> Inl SAVVY_ERR_PROTOCOL)"

lemma number_to_int32_of_int:
  "int32_range n \<Longrightarrow> savvy_json_number_to_int32 (Some (cJSON_Number (Fin (of_int n)))) = Inr n"
  by (auto simp: savvy_json_number_to_int32_def int32_range_def trunc_rat_def simp flip: of_int_minus)

lemma number_to_int32_value:
  assumes "savvy_json_number_to_int32 item = Inr n"
  shows "int32_range n" and "item = Some (cJSON_Number (Fin (of_int n)))"
proof -
  obtain v where item: "item = Some (cJSON_Number (Fin v))" and v: "v = of_int \<lfloor>v\<rfloor>"
      and r: "\<not> v < of_int INT32_MIN" "\<not> v > of_int INT32_MAX" and n: "n = trunc_rat v"
    using assms unfolding savvy_json_number_to_int32_def
    by (simp split: option.splits cJSON.splits ieee_double.splits if_splits)
  obtain k where k: "v = of_int k" using v by blast
  then have "n = k" using n by (simp add: trunc_rat_def flip: of_int_minus)
  with k item r show "int32_range n" and "item = Some (cJSON_Number (Fin (of_int n)))"
    by (simp_all add: int32_range_def)
qed

section \<open>Parsing\<close>

definition savvy_json_parse_allow_duplicate_keys :: "string option \<Rightarrow> nat \<Rightarrow> bool \<Rightarrow> cJSON result" where
  "savvy_json_parse_allow_duplicate_keys text len out_null =
     (case text of
        None \<Rightarrow> Inl SAVVY_ERR_INVALID_ARGUMENT
      | Some m \<Rightarrow>
          if out_null then Inl SAVVY_ERR_INVALID_ARGUMENT
          else if m ! len \<noteq> CHR 0x00 then Inl SAVVY_ERR_INVALID_ARGUMENT
          else if CHR 0x00 \<in> set (take len m) then Inl SAVVY_ERR_PROTOCOL
          else case cJSON_ParseWithOpts m True of
                 None \<Rightarrow> Inl SAVVY_ERR_PROTOCOL
               | Some tree \<Rightarrow>
                   if savvy_json_check_utf8 None tree \<noteq> SAVVY_OK then Inl SAVVY_ERR_PROTOCOL
                   else Inr tree)"

definition savvy_json_parse :: "string option \<Rightarrow> nat \<Rightarrow> bool \<Rightarrow> cJSON result" where
  "savvy_json_parse text len out_null =
     (case text of
        None \<Rightarrow> Inl SAVVY_ERR_INVALID_ARGUMENT
      | Some m \<Rightarrow>
          if out_null then Inl SAVVY_ERR_INVALID_ARGUMENT
          else if m ! len \<noteq> CHR 0x00 then Inl SAVVY_ERR_INVALID_ARGUMENT
          else if CHR 0x00 \<in> set (take len m) then Inl SAVVY_ERR_PROTOCOL
          else case cJSON_ParseWithOpts m True of
                 None \<Rightarrow> Inl SAVVY_ERR_PROTOCOL
               | Some tree \<Rightarrow>
                   if savvy_json_check_no_duplicate_keys tree \<noteq> SAVVY_OK then Inl SAVVY_ERR_PROTOCOL
                   else if savvy_json_check_utf8 None tree \<noteq> SAVVY_OK then Inl SAVVY_ERR_PROTOCOL
                   else Inr tree)"

section \<open>What a strict parse promises\<close>

text \<open>All nodes of a tree, and the condition on each that the strict front end enforces.\<close>

fun json_nodes :: "cJSON \<Rightarrow> cJSON list" where
  "json_nodes (cJSON_Array vs) = cJSON_Array vs # concat (map json_nodes vs)"
| "json_nodes (cJSON_Object ms) = cJSON_Object ms # concat (map (\<lambda>m. json_nodes (snd m)) ms)"
| "json_nodes v = [v]"

definition valid_utf8 :: "string \<Rightarrow> bool" where
  "valid_utf8 s \<longleftrightarrow> savvy_utf8_validate (Some s) = SAVVY_OK"

fun node_keys_ok :: "cJSON \<Rightarrow> bool" where
  "node_keys_ok (cJSON_Object ms) = distinct (map fst ms)"
| "node_keys_ok _ = True"

fun node_utf8_ok :: "cJSON \<Rightarrow> bool" where
  "node_utf8_ok (cJSON_Object ms) = (\<forall>m\<in>set ms. valid_utf8 (fst m))"
| "node_utf8_ok (cJSON_String s) = valid_utf8 s"
| "node_utf8_ok _ = True"

lemma check_keys_iff:
  "savvy_json_check_no_duplicate_keys v = SAVVY_OK \<longleftrightarrow> (\<forall>x\<in>set (json_nodes v). node_keys_ok x)"
  "check_children_keys vs = SAVVY_OK \<longleftrightarrow> (\<forall>v\<in>set vs. \<forall>x\<in>set (json_nodes v). node_keys_ok x)"
  "check_member_keys ms = SAVVY_OK \<longleftrightarrow> (\<forall>m\<in>set ms. \<forall>x\<in>set (json_nodes (snd m)). node_keys_ok x)"
  by (induction v and vs and ms
      rule: savvy_json_check_no_duplicate_keys_check_children_keys_check_member_keys.induct)
    (auto simp: has_duplicate_key_iff Let_def)

lemma check_utf8_iff:
  "savvy_json_check_utf8 name v = SAVVY_OK \<longleftrightarrow>
     (\<forall>k. name = Some k \<longrightarrow> valid_utf8 k) \<and> (\<forall>x\<in>set (json_nodes v). node_utf8_ok x)"
  "check_children_utf8 vs = SAVVY_OK \<longleftrightarrow> (\<forall>v\<in>set vs. \<forall>x\<in>set (json_nodes v). node_utf8_ok x)"
  "check_member_utf8 ms = SAVVY_OK \<longleftrightarrow>
     (\<forall>m\<in>set ms. valid_utf8 (fst m) \<and> (\<forall>x\<in>set (json_nodes (snd m)). node_utf8_ok x))"
  by (induction name v and vs and ms
      rule: savvy_json_check_utf8_check_children_utf8_check_member_utf8.induct)
    (auto simp: valid_utf8_def Let_def split: cJSON.splits)

declare savvy_json_check_utf8.simps [simp del]

definition strict_tree :: "cJSON \<Rightarrow> bool" where
  "strict_tree v \<longleftrightarrow> (\<forall>x\<in>set (json_nodes v). node_keys_ok x \<and> node_utf8_ok x)"

text \<open>A counted text followed by its terminator in memory, as the callers pass it.\<close>

definition terminated :: "string \<Rightarrow> nat \<Rightarrow> bool" where
  "terminated m len \<longleftrightarrow> len < length m \<and> m ! len = CHR 0x00"

lemma terminated_text: "terminated (t @ CHR 0x00 # junk) (length t)"
  by (simp add: terminated_def)

lemma c_str_terminated:
  assumes "terminated m len" and "CHR 0x00 \<notin> set (take len m)"
  shows "c_str m = take len m"
proof -
  have m: "take len m @ CHR 0x00 # drop (Suc len) m = m"
    using assms(1) id_take_nth_drop [of len m] by (simp add: terminated_def)
  have "takeWhile (\<lambda>c. c \<noteq> CHR 0x00) (take len m @ CHR 0x00 # drop (Suc len) m) = take len m"
    using assms(2) by (intro takeWhile_append_stop) auto
  then show ?thesis by (simp only: m c_str_def)
qed

lemma parse_opts_c_str: "cJSON_ParseWithOpts (c_str t) req = cJSON_ParseWithOpts t req"
  by (simp add: cJSON_ParseWithOpts_def)

lemma json_parse_terminated:
  assumes "terminated m len" and "CHR 0x00 \<notin> set (take len m)"
  shows "savvy_json_parse (Some m) len False =
     (case cJSON_ParseWithOpts (take len m) True of
        None \<Rightarrow> Inl SAVVY_ERR_PROTOCOL
      | Some v \<Rightarrow> if strict_tree v then Inr v else Inl SAVVY_ERR_PROTOCOL)"
  using assms c_str_terminated [OF assms] parse_opts_c_str [of m True]
  by (auto simp: savvy_json_parse_def terminated_def strict_tree_def check_keys_iff check_utf8_iff
      split: option.split)

text \<open>
  C23: the strict front end. On a terminated text, \<^verbatim>\<open>savvy_json_parse\<close> returns the tree cJSON reads
  from the whole text exactly when no object anywhere in it has two members of the same name
  and every string and every name in it is well-formed UTF-8; otherwise, and for any text with
  an embedded NUL, it returns \<^verbatim>\<open>SAVVY_ERR_PROTOCOL\<close>.
\<close>

theorem json_parse_is_strict:
  assumes "terminated m len"
  shows "savvy_json_parse (Some m) len False =
     (if CHR 0x00 \<in> set (take len m) then Inl SAVVY_ERR_PROTOCOL
      else case cJSON_ParseWithOpts (take len m) True of
             None \<Rightarrow> Inl SAVVY_ERR_PROTOCOL
           | Some v \<Rightarrow> if strict_tree v then Inr v else Inl SAVVY_ERR_PROTOCOL)"
proof (cases "CHR 0x00 \<in> set (take len m)")
  case True
  with assms show ?thesis by (simp add: savvy_json_parse_def terminated_def)
qed (simp add: json_parse_terminated [OF assms])

theorem json_parse_is_strict_witness:
  "savvy_json_parse (Some [CHR 0x00]) 0 False = Inl SAVVY_ERR_PROTOCOL"
proof -
  have "cJSON_ParseWithOpts [] True = None"
    by (simp add: cJSON_ParseWithOpts_def c_str_def skip_utf8_bom_def buffer_skip_whitespace_def
        is_blank_def parse_value.simps is_digit_def)
  then show ?thesis
    using json_parse_is_strict [of "[CHR 0x00]" 0] by (simp add: terminated_def)
qed

lemma json_parse_of_text:
  assumes "json_ok CJSON_NESTING_LIMIT v" and "strict_tree v" and "json_text False 0 v = Some t"
  shows "CHR 0x00 \<notin> set t"
    and "savvy_json_parse (Some (t @ CHR 0x00 # junk)) (length t) False = Inr v"
    and "savvy_json_parse_allow_duplicate_keys (Some (t @ CHR 0x00 # junk)) (length t) False = Inr v"
proof -
  show nul: "CHR 0x00 \<notin> set t"
    by (rule json_text_no_nul [OF assms(1,3)])
  have "cJSON_ParseWithOpts t True = Some v" using json_text_parses [OF assms(1,3)] .
  then have p: "cJSON_ParseWithOpts (t @ CHR 0x00 # junk) True = Some v"
    using parse_opts_c_str [of "t @ CHR 0x00 # junk" True] c_str_terminated [OF terminated_text, of t junk] nul
    by simp
  then show "savvy_json_parse (Some (t @ CHR 0x00 # junk)) (length t) False = Inr v"
    using nul assms(2) by (simp add: savvy_json_parse_def strict_tree_def check_keys_iff check_utf8_iff)
  show "savvy_json_parse_allow_duplicate_keys (Some (t @ CHR 0x00 # junk)) (length t) False = Inr v"
    using p nul assms(2) by (simp add: savvy_json_parse_allow_duplicate_keys_def strict_tree_def check_utf8_iff)
qed

lemma json_parse_printed:
  assumes "json_ok CJSON_NESTING_LIMIT v" and "strict_tree v" and "cJSON_PrintUnformatted v = Some t"
  shows "CHR 0x00 \<notin> set t"
    and "savvy_json_parse (Some (t @ CHR 0x00 # junk)) (length t) False = Inr v"
    and "savvy_json_parse_allow_duplicate_keys (Some (t @ CHR 0x00 # junk)) (length t) False = Inr v"
  using json_parse_of_text [OF assms(1,2)] assms(3) by (simp_all add: printed_text)

lemma json_parse_error: "savvy_json_parse text len out_null = Inl st \<Longrightarrow> st \<noteq> SAVVY_OK"
  by (auto simp: savvy_json_parse_def split: option.splits if_splits)

lemma json_parse_nul_free: "savvy_json_parse text len out_null = Inr v \<Longrightarrow> json_nul_free v"
  by (auto simp: savvy_json_parse_def split: option.splits if_splits dest: parse_opts_nul_free)

end
