(* ===== verification/Field_Table.thy ===== *)
theory Field_Table
  imports Json_Codec
begin

text \<open>
  \<^verbatim>\<open>src/protocol/json/field_table.c\<close>: the table-driven mapping between a DTO and a JSON object. A
  descriptor's \<^verbatim>\<open>offset\<close> becomes the pair of a reader and a writer of the member it points to. The
  locale \<open>field_table\<close> states what the code relies on (the members do not overlap, the keys are
  distinct, the members make up the whole struct) and proves the mapping correct once; the
  codecs of the two DTOs interpret it with their own tables.
\<close>

section \<open>Descriptors\<close>

datatype savvy_field_type = SAVVY_FIELD_STRING | SAVVY_FIELD_INT32

datatype field_value = FString string | FInt int

record 's savvy_field_desc =
  json_key :: string
  ftype :: savvy_field_type
  fget :: "'s \<Rightarrow> field_value"
  fput :: "field_value \<Rightarrow> 's \<Rightarrow> 's"
  str_cap :: nat

definition string_field ::
  "string \<Rightarrow> ('s \<Rightarrow> string) \<Rightarrow> ((string \<Rightarrow> string) \<Rightarrow> 's \<Rightarrow> 's) \<Rightarrow> nat \<Rightarrow> 's savvy_field_desc" where
  "string_field key get upd cap =
     \<lparr>json_key = key, ftype = SAVVY_FIELD_STRING, fget = (\<lambda>s. FString (get s)),
      fput = (\<lambda>v s. case v of FString x \<Rightarrow> upd (\<lambda>_. x) s | FInt _ \<Rightarrow> s), str_cap = cap\<rparr>"

definition int32_field ::
  "string \<Rightarrow> ('s \<Rightarrow> int) \<Rightarrow> ((int \<Rightarrow> int) \<Rightarrow> 's \<Rightarrow> 's) \<Rightarrow> 's savvy_field_desc" where
  "int32_field key get upd =
     \<lparr>json_key = key, ftype = SAVVY_FIELD_INT32, fget = (\<lambda>s. FInt (get s)),
      fput = (\<lambda>v s. case v of FInt x \<Rightarrow> upd (\<lambda>_. x) s | FString _ \<Rightarrow> s), str_cap = 0\<rparr>"

section \<open>Operations\<close>

definition field_table_has_key :: "'s savvy_field_desc list \<Rightarrow> string \<Rightarrow> bool" where
  "field_table_has_key tbl key \<longleftrightarrow> list_ex (\<lambda>f. json_key f = key) tbl"

fun object_members :: "cJSON \<Rightarrow> (string \<times> cJSON) list" where
  "object_members (cJSON_Object ms) = ms"
| "object_members _ = []"

text \<open>The loop over the descriptors; members already written stay written when a later one fails.\<close>

fun apply_fields :: "cJSON \<Rightarrow> 's savvy_field_desc list \<Rightarrow> 's \<Rightarrow> savvy_status \<times> 's" where
  "apply_fields obj [] s = (SAVVY_OK, s)"
| "apply_fields obj (f # fs) s =
     (case cJSON_GetObjectItemCaseSensitive obj (json_key f) of
        None \<Rightarrow> apply_fields obj fs s
      | Some item \<Rightarrow>
          if cJSON_IsNull item then (SAVVY_ERR_PROTOCOL, s)
          else if ftype f = SAVVY_FIELD_STRING
          then (case item of
                  cJSON_String str \<Rightarrow>
                    if length str \<ge> str_cap f then (SAVVY_ERR_PROTOCOL, s)
                    else apply_fields obj fs (fput f (FString str) s)
                | _ \<Rightarrow> (SAVVY_ERR_PROTOCOL, s))
          else (case savvy_json_number_to_int32 (Some item) of
                  Inl _ \<Rightarrow> (SAVVY_ERR_PROTOCOL, s)
                | Inr v \<Rightarrow> apply_fields obj fs (fput f (FInt v) s)))"

text \<open>The status, the struct, and the keys handed to the log callback (none when it is \<^verbatim>\<open>NULL\<close>).\<close>

definition savvy_apply_field_table ::
  "cJSON \<Rightarrow> 's savvy_field_desc list \<Rightarrow> 's \<Rightarrow> bool \<Rightarrow> savvy_status \<times> 's \<times> string list" where
  "savvy_apply_field_table obj tbl s log_fn =
     (let logged = (if log_fn
                    then filter (\<lambda>k. \<not> field_table_has_key tbl k) (map fst (object_members obj)) else []);
          (st, s') = apply_fields obj tbl s
      in (st, s', logged))"

definition build_value :: "'s savvy_field_desc \<Rightarrow> 's \<Rightarrow> cJSON" where
  "build_value f s =
     (case fget f s of FString x \<Rightarrow> cJSON_CreateString x | FInt v \<Rightarrow> cJSON_CreateNumber (of_int v))"

fun build_fields :: "cJSON \<Rightarrow> 's savvy_field_desc list \<Rightarrow> 's \<Rightarrow> cJSON option" where
  "build_fields obj [] s = Some obj"
| "build_fields obj (f # fs) s =
     (case cJSON_AddItemToObject obj (json_key f) (build_value f s) of
        None \<Rightarrow> None
      | Some obj' \<Rightarrow> build_fields obj' fs s)"

definition savvy_build_field_table :: "'s savvy_field_desc list \<Rightarrow> 's \<Rightarrow> cJSON option" where
  "savvy_build_field_table tbl s = build_fields cJSON_CreateObject tbl s"

section \<open>What a table must satisfy\<close>

definition typed :: "'s savvy_field_desc \<Rightarrow> field_value \<Rightarrow> bool" where
  "typed f v \<longleftrightarrow> (case v of FString _ \<Rightarrow> ftype f = SAVVY_FIELD_STRING | FInt _ \<Rightarrow> ftype f = SAVVY_FIELD_INT32)"

text \<open>A value that the member can hold in C: a string with its terminator fits the array.\<close>

definition fits :: "'s savvy_field_desc \<Rightarrow> field_value \<Rightarrow> bool" where
  "fits f v \<longleftrightarrow> typed f v \<and>
     (case v of FString x \<Rightarrow> length x < str_cap f \<and> CHR 0x00 \<notin> set x | FInt n \<Rightarrow> int32_range n)"

definition ascii :: "string \<Rightarrow> bool" where
  "ascii s \<longleftrightarrow> list_all (\<lambda>c. 0 < (of_char c :: nat) \<and> (of_char c :: nat) < 0x80) s"

lemma ascii_valid_utf8: "ascii s \<Longrightarrow> valid_utf8 s"
  unfolding valid_utf8_def savvy_utf8_validate_def ascii_def
  by (induction s) (auto simp: utf8_loop.simps)

lemma ascii_nul_free: "ascii s \<Longrightarrow> CHR 0x00 \<notin> set s"
  by (auto simp: ascii_def list_all_iff)

text \<open>The value a member receives from a JSON item, if the item is acceptable.\<close>

definition item_value :: "'s savvy_field_desc \<Rightarrow> cJSON \<Rightarrow> field_value option" where
  "item_value f item =
     (if ftype f = SAVVY_FIELD_STRING
      then (case item of cJSON_String x \<Rightarrow> if length x < str_cap f then Some (FString x) else None | _ \<Rightarrow> None)
      else (case savvy_json_number_to_int32 (Some item) of Inr v \<Rightarrow> Some (FInt v) | Inl _ \<Rightarrow> None))"

lemma item_value_null: "item_value f cJSON_NULL = None"
  by (simp add: item_value_def savvy_json_number_to_int32_def)

lemma item_value_typed: "item_value f item = Some v \<Longrightarrow> typed f v"
  by (cases "ftype f") (auto simp: item_value_def typed_def split: cJSON.splits if_splits sum.splits)

text \<open>One turn of the loop, in terms of the acceptable value.\<close>

lemma apply_fields_step:
  "apply_fields obj (f # fs) s =
     (case cJSON_GetObjectItemCaseSensitive obj (json_key f) of
        None \<Rightarrow> apply_fields obj fs s
      | Some item \<Rightarrow>
          (case item_value f item of
             None \<Rightarrow> (SAVVY_ERR_PROTOCOL, s)
           | Some v \<Rightarrow> apply_fields obj fs (fput f v s)))"
proof (cases "cJSON_GetObjectItemCaseSensitive obj (json_key f)")
  case (Some item)
  show ?thesis
  proof (cases "cJSON_IsNull item")
    case True
    then have "item = cJSON_NULL" by (cases item) auto
    then show ?thesis using Some by (simp add: item_value_null)
  next
    case False
    then show ?thesis
      using Some by (auto simp: item_value_def not_le split: cJSON.splits sum.splits)
  qed
qed simp

declare apply_fields.simps(2) [simp del]

lemma build_fields_members:
  "build_fields (cJSON_Object ms) fs s = Some (cJSON_Object (ms @ map (\<lambda>f. (json_key f, build_value f s)) fs))"
  by (induction fs arbitrary: ms) simp_all

lemma build_field_table_members:
  "savvy_build_field_table tbl s = Some (cJSON_Object (map (\<lambda>f. (json_key f, build_value f s)) tbl))"
  by (simp add: savvy_build_field_table_def cJSON_CreateObject_def build_fields_members)

definition acceptable :: "cJSON \<Rightarrow> 's savvy_field_desc \<Rightarrow> bool" where
  "acceptable obj f \<longleftrightarrow>
     (case cJSON_GetObjectItemCaseSensitive obj (json_key f) of
        None \<Rightarrow> True | Some item \<Rightarrow> item_value f item \<noteq> None)"

definition target :: "cJSON \<Rightarrow> 's savvy_field_desc \<Rightarrow> field_value \<Rightarrow> field_value" where
  "target obj f old =
     (case cJSON_GetObjectItemCaseSensitive obj (json_key f) of
        None \<Rightarrow> old | Some item \<Rightarrow> the (item_value f item))"

definition view :: "'s savvy_field_desc list \<Rightarrow> 's \<Rightarrow> field_value list" where
  "view tbl s = map (\<lambda>f. fget f s) tbl"

lemma apply_fields_reject:
  "\<not> list_all (acceptable obj) fs \<Longrightarrow> fst (apply_fields obj fs s) = SAVVY_ERR_PROTOCOL"
  by (induction fs arbitrary: s) (auto simp: apply_fields_step acceptable_def split: option.splits)

locale field_table =
  fixes tbl :: "'s savvy_field_desc list"
  assumes keys_distinct: "distinct (map json_key tbl)"
    and keys_ascii: "f \<in> set tbl \<Longrightarrow> ascii (json_key f)"
    and put_one: "i < length tbl \<Longrightarrow> typed (tbl ! i) v \<Longrightarrow> view tbl (fput (tbl ! i) v s) = (view tbl s)[i := v]"
    and get_typed: "f \<in> set tbl \<Longrightarrow> typed f (fget f s)"
    and whole_struct: "view tbl s = view tbl t \<Longrightarrow> s = t"
    and table_size: "length tbl \<le> 100"
    and field_size: "f \<in> set tbl \<Longrightarrow> length (json_key f) \<le> 100 \<and> str_cap f \<le> 10000"
begin

lemma length_view [simp]: "length (view tbl s) = length tbl"
  by (simp add: view_def)

lemma put_keeps_later:
  assumes "k < length tbl" and "typed (tbl ! k) v" and "f \<in> set (drop (Suc k) tbl)"
  shows "fget f (fput (tbl ! k) v s) = fget f s"
proof -
  have "drop (Suc k) (view tbl (fput (tbl ! k) v s)) = drop (Suc k) (view tbl s)"
    by (simp add: put_one [OF assms(1,2)])
  then show ?thesis using assms(3) by (simp add: view_def drop_map)
qed

lemma apply_suffix:
  assumes "k \<le> length tbl" and "list_all (acceptable obj) (drop k tbl)"
  shows "\<exists>s'. apply_fields obj (drop k tbl) s = (SAVVY_OK, s')
           \<and> view tbl s' = take k (view tbl s) @ map (\<lambda>f. target obj f (fget f s)) (drop k tbl)"
  using assms
proof (induction "length tbl - k" arbitrary: k s)
  case 0
  then show ?case by simp
next
  case (Suc d)
  then have k: "k < length tbl" by simp
  then have drop: "drop k tbl = tbl ! k # drop (Suc k) tbl" by (simp add: Cons_nth_drop_Suc)
  have acc: "acceptable obj (tbl ! k)" "list_all (acceptable obj) (drop (Suc k) tbl)"
    using Suc.prems(2) by (simp_all add: drop)
  have ih: "\<exists>s'. apply_fields obj (drop (Suc k) tbl) s0 = (SAVVY_OK, s')
      \<and> view tbl s' = take (Suc k) (view tbl s0) @ map (\<lambda>f. target obj f (fget f s0)) (drop (Suc k) tbl)" for s0
    using Suc k acc by simp
  have tk: "take (Suc k) (view tbl s0) = take k (view tbl s0) @ [fget (tbl ! k) s0]" for s0
    using k by (simp add: take_Suc_conv_app_nth) (simp add: view_def)
  show ?case
  proof (cases "cJSON_GetObjectItemCaseSensitive obj (json_key (tbl ! k))")
    case None
    then show ?thesis using ih [of s] by (simp add: drop apply_fields_step target_def tk)
  next
    case (Some item)
    then obtain v where v: "item_value (tbl ! k) item = Some v" using acc(1) by (auto simp: acceptable_def)
    let ?s1 = "fput (tbl ! k) v s"
    have ty: "typed (tbl ! k) v" by (rule item_value_typed [OF v])
    have e1: "take (Suc k) (view tbl ?s1) = take k (view tbl s) @ [v]"
      using k by (simp add: put_one [OF k ty] take_Suc_conv_app_nth)
    have e2: "map (\<lambda>f. target obj f (fget f ?s1)) (drop (Suc k) tbl)
        = map (\<lambda>f. target obj f (fget f s)) (drop (Suc k) tbl)"
      using put_keeps_later [OF k ty] by simp
    obtain s' where s': "apply_fields obj (drop (Suc k) tbl) ?s1 = (SAVVY_OK, s')"
        "view tbl s' = take k (view tbl s) @ [v] @ map (\<lambda>f. target obj f (fget f s)) (drop (Suc k) tbl)"
      using ih [of ?s1] unfolding e1 e2 append_assoc by blast
    moreover have "target obj (tbl ! k) (fget (tbl ! k) s) = v" using Some v by (simp add: target_def)
    ultimately show ?thesis using Some v by (simp add: drop apply_fields_step)
  qed
qed

text \<open>Exactly which objects are applied, and what every member is afterwards.\<close>

lemma apply_fields_correct:
  "fst (apply_fields obj tbl s) = (if list_all (acceptable obj) tbl then SAVVY_OK else SAVVY_ERR_PROTOCOL)"
  "list_all (acceptable obj) tbl \<Longrightarrow>
     view tbl (snd (apply_fields obj tbl s)) = map (\<lambda>f. target obj f (fget f s)) tbl"
  using apply_suffix [of 0 obj s] apply_fields_reject [of obj tbl s] by auto

lemma apply_built:
  assumes "\<forall>f\<in>set tbl. fits f (fget f s)" and "obj = cJSON_Object (map (\<lambda>f. (json_key f, build_value f s)) tbl)"
  shows "apply_fields obj tbl s0 = (SAVVY_OK, s)"
proof -
  have look: "cJSON_GetObjectItemCaseSensitive obj (json_key f) = Some (build_value f s)" if "f \<in> set tbl" for f
    using that keys_distinct by (simp add: assms(2) map_of_eq_Some_iff comp_def)
  have val: "item_value f (build_value f s) = Some (fget f s)" if "f \<in> set tbl" for f
  proof (cases "fget f s")
    case (FString x)
    then show ?thesis
      using assms(1) that by (auto simp: item_value_def build_value_def fits_def typed_def cJSON_CreateString_def)
  next
    case (FInt n)
    then show ?thesis
      using assms(1) that number_to_int32_of_int [of n]
      by (auto simp: item_value_def build_value_def fits_def typed_def cJSON_CreateNumber_def)
  qed
  have acc: "list_all (acceptable obj) tbl" using look val by (simp add: list_all_iff acceptable_def)
  have "view tbl (snd (apply_fields obj tbl s0)) = map (\<lambda>f. target obj f (fget f s0)) tbl"
    by (rule apply_fields_correct(2) [OF acc])
  also have "\<dots> = view tbl s" using look val by (simp add: target_def view_def)
  finally show ?thesis
    using whole_struct apply_fields_correct(1) [of obj s0] acc by (simp add: prod_eq_iff)
qed

text \<open>The keys of a built object are all known, so nothing is logged when it is read back.\<close>

lemma apply_table_built:
  assumes "\<forall>f\<in>set tbl. fits f (fget f s)" and "savvy_build_field_table tbl s = Some obj"
  shows "savvy_apply_field_table obj tbl s0 log_fn = (SAVVY_OK, s, [])"
proof -
  have obj: "obj = cJSON_Object (map (\<lambda>f. (json_key f, build_value f s)) tbl)"
    using assms(2) by (simp add: build_field_table_members)
  have "filter (\<lambda>k. \<not> field_table_has_key tbl k) (map fst (object_members obj)) = []"
    by (auto simp: obj field_table_has_key_def list_ex_iff filter_empty_conv)
  then show ?thesis using apply_built [OF assms(1) obj] by (simp add: savvy_apply_field_table_def)
qed

text \<open>A built object can be printed and survives the strict parser.\<close>

lemma built_json_ok:
  assumes "\<forall>f\<in>set tbl. fits f (fget f s)" and "savvy_build_field_table tbl s = Some obj"
  shows "json_ok (Suc n) obj"
proof -
  have "json_ok n (build_value f s)" if "f \<in> set tbl" for f
    using assms(1) that valueint_of_int
    by (cases "fget f s") (auto simp: build_value_def fits_def cJSON_CreateString_def cJSON_CreateNumber_def)
  then show ?thesis
    using assms(2) keys_ascii ascii_nul_free by (auto simp: build_field_table_members)
qed

text \<open>The sizes of a table keep the text of a built object far below the printer's limit.\<close>

lemma built_printed:
  assumes "\<forall>f\<in>set tbl. fits f (fget f s)" and "savvy_build_field_table tbl s = Some obj"
  shows "\<exists>t. cJSON_PrintUnformatted obj = Some t"
proof -
  let ?ms = "map (\<lambda>f. (json_key f, build_value f s)) tbl"
  have key: "length (print_string_ptr (json_key f)) \<le> 60002" if "f \<in> set tbl" for f
    using field_size [OF that] length_print_string [of "json_key f"] by simp
  have val: "length t \<le> 60002" if "f \<in> set tbl" "json_text False 1 (build_value f s) = Some t" for f t
  proof (cases "fget f s")
    case (FString x)
    then have "t = print_string_ptr x" "length x < str_cap f"
      using that assms(1) by (auto simp: build_value_def cJSON_CreateString_def fits_def)
    then show ?thesis using field_size [OF that(1)] length_print_string [of x] by simp
  next
    case (FInt n)
    then show ?thesis
      using that(2) length_print_number by (fastforce simp: build_value_def cJSON_CreateNumber_def)
  qed
  have "length ?ms * (2 * 60002 + 2) + 4 \<le> nat INT32_MAX"
    using table_size by (simp add: INT32_MAX_room)
  moreover have obj: "obj = cJSON_Object ?ms" using assms(2) by (simp add: build_field_table_members)
  ultimately show ?thesis
    using object_printed [OF built_json_ok [OF assms, of 0, unfolded obj], of 60002] key val by auto
qed

lemma built_strict:
  assumes "\<forall>f\<in>set tbl. \<forall>x. fget f s = FString x \<longrightarrow> valid_utf8 x" and "savvy_build_field_table tbl s = Some obj"
  shows "strict_tree obj"
proof -
  have "x = build_value f s" if "f \<in> set tbl" "x \<in> set (json_nodes (build_value f s))" for f x
    using that(2) by (auto simp: build_value_def cJSON_CreateString_def cJSON_CreateNumber_def split: field_value.splits)
  moreover have "node_keys_ok (build_value f s) \<and> node_utf8_ok (build_value f s)" if "f \<in> set tbl" for f
    using that assms(1) by (auto simp: build_value_def cJSON_CreateString_def cJSON_CreateNumber_def split: field_value.splits)
  ultimately show ?thesis
    using assms(2) keys_distinct keys_ascii ascii_valid_utf8
    by (fastforce simp: strict_tree_def build_field_table_members comp_def)
qed

text \<open>Whatever the object holds, every member stays within its C type, on failure too.\<close>

lemma put_fits:
  assumes "f \<in> set tbl" and "fits f v" and "\<forall>g\<in>set tbl. fits g (fget g s)"
  shows "\<forall>g\<in>set tbl. fits g (fget g (fput f v s))"
proof -
  obtain i where i: "i < length tbl" "tbl ! i = f" using assms(1) by (auto simp: in_set_conv_nth)
  then have upd: "view tbl (fput f v s) = (view tbl s)[i := v]" using put_one [of i v s] assms(2) by (simp add: fits_def)
  have nth: "view tbl t ! j = fget (tbl ! j) t" if "j < length tbl" for t j using that by (simp add: view_def)
  have "fits (tbl ! j) (fget (tbl ! j) (fput f v s))" if j: "j < length tbl" for j
  proof -
    have "fget (tbl ! j) (fput f v s) = (if j = i then v else fget (tbl ! j) s)"
      using j i nth [OF j, of "fput f v s"] nth [OF j, of s] by (auto simp: upd nth_list_update)
    then show ?thesis using assms(2,3) i j by auto
  qed
  then show ?thesis by (metis in_set_conv_nth)
qed

lemma item_value_fits: "json_nul_free item \<Longrightarrow> item_value f item = Some v \<Longrightarrow> fits f v"
  using number_to_int32_value(1)
  by (cases "ftype f") (auto simp: item_value_def fits_def typed_def split: cJSON.splits if_splits sum.splits)

lemma apply_fields_fits:
  assumes "json_nul_free obj" and "set fs \<subseteq> set tbl" and "\<forall>g\<in>set tbl. fits g (fget g s)"
  shows "\<forall>g\<in>set tbl. fits g (fget g (snd (apply_fields obj fs s)))"
  using assms(2,3)
proof (induction fs arbitrary: s)
  case (Cons f fs)
  show ?case
  proof (cases "cJSON_GetObjectItemCaseSensitive obj (json_key f)")
    case None
    then show ?thesis using Cons by (simp add: apply_fields_step)
  next
    case (Some item)
    then have "json_nul_free item" using assms(1) by (cases obj) (fastforce dest: map_of_SomeD)+
    then show ?thesis
      using Cons Some put_fits [of f _ s] item_value_fits [of item f]
      by (auto simp: apply_fields_step split: option.splits)
  qed
qed simp

end

end
