(* ===== verification/Config_Codec.thy ===== *)
theory Config_Codec
  imports Field_Table
begin

text \<open>
  The configuration DTO of \<^verbatim>\<open>src/protocol/json/config_codec.c\<close>: the struct, its field table, the
  defaults, and the parser and builder over the table. The table meets the contract of
  \<open>field_table\<close>, which gives the round trip and the invariant.
\<close>

section \<open>The struct and its table\<close>

definition SAVVY_CONFIG_STR_LEN :: nat where
  "SAVVY_CONFIG_STR_LEN = 64"

record savvy_config =
  cfg_server_ip :: string
  cfg_ftp_ip :: string
  cfg_select_wifi :: string
  cfg_select_beacon :: string
  cfg_video_time :: int
  cfg_frame :: int
  cfg_danger_count :: int
  cfg_decibel :: int
  cfg_inout_time :: int
  cfg_buzzer_time :: int
  cfg_pixel_count :: int
  cfg_milli_meter :: int
  cfg_sending_log_time :: string
  cfg_keep_alive_time :: int
  cfg_keep_server_ip :: string
  cfg_boot_auto_time :: string
  cfg_compress :: int
  cfg_fracture_frame_pixel :: int
  cfg_fracture_frame_cnt :: int
  cfg_reset_frame_pixel :: int
  cfg_reset_frame_cnt :: int
  cfg_same_frame_pixel :: int
  cfg_same_frame_cnt :: int
  cfg_alert_smoke :: int
  cfg_use_rknn :: int
  cfg_volume :: int
  cfg_buzzer_on_stream :: int
  cfg_buzzer_on_voice :: int
  cfg_buzzer_on_beacon :: int
  cfg_buzzer_on_smoke :: int

definition CONFIG_FIELDS :: "savvy_config savvy_field_desc list" where
  "CONFIG_FIELDS = [
     string_field ''serverIp'' cfg_server_ip cfg_server_ip_update SAVVY_CONFIG_STR_LEN,
     string_field ''ftpIp'' cfg_ftp_ip cfg_ftp_ip_update SAVVY_CONFIG_STR_LEN,
     string_field ''selectWifi'' cfg_select_wifi cfg_select_wifi_update SAVVY_CONFIG_STR_LEN,
     string_field ''selectBeacon'' cfg_select_beacon cfg_select_beacon_update SAVVY_CONFIG_STR_LEN,
     int32_field ''videoTime'' cfg_video_time cfg_video_time_update,
     int32_field ''frame'' cfg_frame cfg_frame_update,
     int32_field ''dangerCount'' cfg_danger_count cfg_danger_count_update,
     int32_field ''decibel'' cfg_decibel cfg_decibel_update,
     int32_field ''inoutTime'' cfg_inout_time cfg_inout_time_update,
     int32_field ''buzzerTime'' cfg_buzzer_time cfg_buzzer_time_update,
     int32_field ''pixelCount'' cfg_pixel_count cfg_pixel_count_update,
     int32_field ''milliMeter'' cfg_milli_meter cfg_milli_meter_update,
     string_field ''sendingLogTime'' cfg_sending_log_time cfg_sending_log_time_update SAVVY_CONFIG_STR_LEN,
     int32_field ''keepAliveTime'' cfg_keep_alive_time cfg_keep_alive_time_update,
     string_field ''keepServerIp'' cfg_keep_server_ip cfg_keep_server_ip_update SAVVY_CONFIG_STR_LEN,
     string_field ''bootAutoTime'' cfg_boot_auto_time cfg_boot_auto_time_update SAVVY_CONFIG_STR_LEN,
     int32_field ''compress'' cfg_compress cfg_compress_update,
     int32_field ''fractureFramePixel'' cfg_fracture_frame_pixel cfg_fracture_frame_pixel_update,
     int32_field ''fractureFrameCnt'' cfg_fracture_frame_cnt cfg_fracture_frame_cnt_update,
     int32_field ''resetFramePixel'' cfg_reset_frame_pixel cfg_reset_frame_pixel_update,
     int32_field ''resetFrameCnt'' cfg_reset_frame_cnt cfg_reset_frame_cnt_update,
     int32_field ''sameFramePixel'' cfg_same_frame_pixel cfg_same_frame_pixel_update,
     int32_field ''sameFrameCnt'' cfg_same_frame_cnt cfg_same_frame_cnt_update,
     int32_field ''alertSmoke'' cfg_alert_smoke cfg_alert_smoke_update,
     int32_field ''useRknn'' cfg_use_rknn cfg_use_rknn_update,
     int32_field ''volume'' cfg_volume cfg_volume_update,
     int32_field ''buzzerOnStream'' cfg_buzzer_on_stream cfg_buzzer_on_stream_update,
     int32_field ''buzzerOnVoice'' cfg_buzzer_on_voice cfg_buzzer_on_voice_update,
     int32_field ''buzzerOnBeacon'' cfg_buzzer_on_beacon cfg_buzzer_on_beacon_update,
     int32_field ''buzzerOnSmoke'' cfg_buzzer_on_smoke cfg_buzzer_on_smoke_update]"

section \<open>Operations\<close>

definition savvy_config_set_defaults :: savvy_config where
  "savvy_config_set_defaults =
     \<lparr>cfg_server_ip = [], cfg_ftp_ip = [], cfg_select_wifi = [], cfg_select_beacon = [],
      cfg_video_time = 4, cfg_frame = 3, cfg_danger_count = 4, cfg_decibel = 100000, cfg_inout_time
      = 5, cfg_buzzer_time = 30, cfg_pixel_count = 2000, cfg_milli_meter = 200, cfg_sending_log_time
      = ''03:00'', cfg_keep_alive_time = 60000, cfg_keep_server_ip = ''13.125.173.114'',
      cfg_boot_auto_time = ''01:00'', cfg_compress = 0, cfg_fracture_frame_pixel = 53760,
      cfg_fracture_frame_cnt = 30, cfg_reset_frame_pixel = 768, cfg_reset_frame_cnt = 6,
      cfg_same_frame_pixel = 460, cfg_same_frame_cnt = 900, cfg_alert_smoke = 0, cfg_use_rknn = 0,
      cfg_volume = 80, cfg_buzzer_on_stream = 1, cfg_buzzer_on_voice = 1, cfg_buzzer_on_beacon = 1,
      cfg_buzzer_on_smoke = 1\<rparr>"

text \<open>The status, the struct behind \<^verbatim>\<open>out\<close> and the unknown keys logged.\<close>

definition savvy_config_parse ::
  "string option \<Rightarrow> nat \<Rightarrow> savvy_config option \<Rightarrow> bool \<Rightarrow> savvy_status \<times> savvy_config option \<times> string list" where
  "savvy_config_parse json len out unknown_key_log_fn =
     (case out of
        None \<Rightarrow> (SAVVY_ERR_INVALID_ARGUMENT, out, [])
      | Some s \<Rightarrow>
          if json = None then (SAVVY_ERR_INVALID_ARGUMENT, out, [])
          else case savvy_json_parse json len False of
                 Inl st \<Rightarrow> (st, out, [])
               | Inr tree \<Rightarrow>
                   if \<not> cJSON_IsObject tree then (SAVVY_ERR_PROTOCOL, out, [])
                   else
                     let (st, s', logged) = savvy_apply_field_table tree CONFIG_FIELDS s unknown_key_log_fn
                     in (st, Some s', logged))"

definition savvy_config_build :: "savvy_config option \<Rightarrow> bool \<Rightarrow> string result" where
  "savvy_config_build s out_null =
     (case s of
        None \<Rightarrow> Inl SAVVY_ERR_INVALID_ARGUMENT
      | Some x \<Rightarrow>
          if out_null then Inl SAVVY_ERR_INVALID_ARGUMENT
          else case savvy_build_field_table CONFIG_FIELDS x of
                 None \<Rightarrow> Inl SAVVY_ERR_OUT_OF_MEMORY
               | Some tree \<Rightarrow>
                   (case cJSON_PrintUnformatted tree of
                      None \<Rightarrow> Inl SAVVY_ERR_OUT_OF_MEMORY
                    | Some text \<Rightarrow> Inr text))"

section \<open>The table satisfies the contract\<close>

lemma config_fields_put:
  assumes "i < length CONFIG_FIELDS" and "typed (CONFIG_FIELDS ! i) v"
  shows "view CONFIG_FIELDS (fput (CONFIG_FIELDS ! i) v s) = (view CONFIG_FIELDS s)[i := v]"
proof -
  have "i < 30" using assms(1) by (simp add: CONFIG_FIELDS_def)
  then show ?thesis
    using assms(2) unfolding less_Suc_eq numeral_eq_Suc pred_numeral_simps BitM.simps not_less_zero
    by (elim disjE; cases v; simp add: CONFIG_FIELDS_def view_def typed_def string_field_def int32_field_def)
qed

interpretation cfg: field_table CONFIG_FIELDS
proof
  show "distinct (map json_key CONFIG_FIELDS)"
    by (simp add: CONFIG_FIELDS_def string_field_def int32_field_def)
  show "ascii (json_key f)" if "f \<in> set CONFIG_FIELDS" for f
    using that by (auto simp: CONFIG_FIELDS_def string_field_def int32_field_def ascii_def)
  show "view CONFIG_FIELDS (fput (CONFIG_FIELDS ! i) v s) = (view CONFIG_FIELDS s)[i := v]"
    if "i < length CONFIG_FIELDS" "typed (CONFIG_FIELDS ! i) v" for i v s
    using that by (rule config_fields_put)
  show "typed f (fget f s)" if "f \<in> set CONFIG_FIELDS" for f s
    using that by (auto simp: CONFIG_FIELDS_def string_field_def int32_field_def typed_def)
  show "s = t" if "view CONFIG_FIELDS s = view CONFIG_FIELDS t" for s t
    using that by (simp add: CONFIG_FIELDS_def string_field_def int32_field_def view_def)
  show "length CONFIG_FIELDS \<le> 100" by (simp add: CONFIG_FIELDS_def)
  show "length (json_key f) \<le> 100 \<and> str_cap f \<le> 10000" if "f \<in> set CONFIG_FIELDS" for f
    using that by (auto simp: CONFIG_FIELDS_def string_field_def int32_field_def SAVVY_CONFIG_STR_LEN_def)
qed

section \<open>Correctness\<close>

text \<open>Every member holds a value of its C type, and its strings are well-formed UTF-8.\<close>

definition config_fits :: "savvy_config \<Rightarrow> bool" where
  "config_fits s \<longleftrightarrow> list_all (\<lambda>f. fits f (fget f s)) CONFIG_FIELDS"

definition config_utf8 :: "savvy_config \<Rightarrow> bool" where
  "config_utf8 s \<longleftrightarrow> list_all (\<lambda>f. case fget f s of FString x \<Rightarrow> valid_utf8 x | FInt _ \<Rightarrow> True) CONFIG_FIELDS"

lemma config_defaults_ok: "config_fits savvy_config_set_defaults" "config_utf8 savvy_config_set_defaults"
  by (simp_all add: config_fits_def config_utf8_def CONFIG_FIELDS_def savvy_config_set_defaults_def string_field_def
      int32_field_def fits_def typed_def SAVVY_CONFIG_STR_LEN_def int32_range_def limits valid_utf8_def
      savvy_utf8_validate_def utf8_loop.simps)

text \<open>
  C25: config round trip. Every config whose members hold values of their C types and whose
  strings are UTF-8 is built into a JSON text, and parsing that text (in memory, with its
  terminator and anything behind it) over any previous contents gives back exactly that
  config, with no unknown key reported.
\<close>

theorem config_build_parse_roundtrip:
  assumes "config_fits s" and "config_utf8 s"
  shows "\<exists>text. savvy_config_build (Some s) False = Inr text \<and> CHR 0x00 \<notin> set text
           \<and> savvy_config_parse (Some (text @ CHR 0x00 # junk)) (length text) (Some old) log_fn
             = (SAVVY_OK, Some s, [])"
proof -
  have fits: "\<forall>f\<in>set CONFIG_FIELDS. fits f (fget f s)"
    and utf8: "\<forall>f\<in>set CONFIG_FIELDS. \<forall>x. fget f s = FString x \<longrightarrow> valid_utf8 x"
    using assms by (auto simp: config_fits_def config_utf8_def list_all_iff)
  obtain obj where obj: "savvy_build_field_table CONFIG_FIELDS s = Some obj" by (simp add: build_field_table_members)
  have ok: "json_ok CJSON_NESTING_LIMIT obj"
    using cfg.built_json_ok [OF fits obj, of 0] by (rule json_ok_mono) (simp add: CJSON_NESTING_LIMIT_def)
  have strict: "strict_tree obj" by (rule cfg.built_strict [OF utf8 obj])
  obtain t where t: "cJSON_PrintUnformatted obj = Some t"
    using cfg.built_printed [OF fits obj] by blast
  have "cJSON_IsObject obj" using obj by (auto simp: build_field_table_members)
  then show ?thesis
    using json_parse_printed [OF ok strict t] cfg.apply_table_built [OF fits obj]
    by (simp add: savvy_config_build_def savvy_config_parse_def obj t)
qed

theorem config_build_parse_roundtrip_witness:
  "\<exists>text. savvy_config_build (Some savvy_config_set_defaults) False = Inr text \<and> CHR 0x00 \<notin> set text
      \<and> savvy_config_parse (Some (text @ CHR 0x00 # [])) (length text) (Some savvy_config_set_defaults) True
        = (SAVVY_OK, Some savvy_config_set_defaults, [])"
  by (rule config_build_parse_roundtrip [OF config_defaults_ok])

lemma config_parse_keeps_fits:
  assumes "savvy_json_parse (Some m) len False = Inr (cJSON_Object ms)" and "config_fits old"
  shows "config_fits (the (fst (snd (savvy_config_parse (Some m) len (Some old) log_fn))))"
  using assms cfg.apply_fields_fits [OF json_parse_nul_free [OF assms(1)] order_refl, of old]
  by (simp add: savvy_config_parse_def savvy_apply_field_table_def config_fits_def list_all_iff case_prod_beta)

text \<open>
  Config parsing, member by member. For every text the strict parser turns into an object,
  the call succeeds exactly when each known key that is present has an item of the right kind
  that fits (a string shorter than its array, an integral number in 32-bit range; never
  \<^verbatim>\<open>null\<close>); then each member has the value of its key, or its old value when the key is absent.
  In every case, also a refused one, all members stay within their C types.
\<close>

theorem config_parse_memberwise:
  assumes "savvy_json_parse (Some m) len False = Inr (cJSON_Object ms)" and "config_fits old"
  shows "\<exists>s' logged. savvy_config_parse (Some m) len (Some old) log_fn =
           (if list_all (acceptable (cJSON_Object ms)) CONFIG_FIELDS then SAVVY_OK else SAVVY_ERR_PROTOCOL, Some s', logged)
         \<and> config_fits s'
         \<and> (list_all (acceptable (cJSON_Object ms)) CONFIG_FIELDS \<longrightarrow>
              list_all (\<lambda>f. fget f s' = target (cJSON_Object ms) f (fget f old)) CONFIG_FIELDS)"
proof -
  let ?obj = "cJSON_Object ms"
  obtain st s' where a: "apply_fields ?obj CONFIG_FIELDS old = (st, s')" by (cases "apply_fields ?obj CONFIG_FIELDS old")
  then have "st = (if list_all (acceptable ?obj) CONFIG_FIELDS then SAVVY_OK else SAVVY_ERR_PROTOCOL)"
    using cfg.apply_fields_correct(1) [of ?obj old] by simp
  moreover have "config_fits s'"
    using cfg.apply_fields_fits [OF json_parse_nul_free [OF assms(1)] order_refl, of old] assms(2) a
    by (simp add: config_fits_def list_all_iff)
  moreover have "list_all (\<lambda>f. fget f s' = target ?obj f (fget f old)) CONFIG_FIELDS"
    if "list_all (acceptable ?obj) CONFIG_FIELDS"
    using cfg.apply_fields_correct(2) [OF that, of old] a by (simp add: view_def list_all_iff)
  ultimately show ?thesis
    using assms(1) a by (simp add: savvy_config_parse_def savvy_apply_field_table_def)
qed

theorem config_parse_memberwise_witness:
  "\<exists>s' logged. savvy_config_parse (Some [CHR ''{'', CHR ''}'', CHR 0x00]) 2 (Some savvy_config_set_defaults) False
      = (SAVVY_OK, Some s', logged) \<and> config_fits s'"
proof -
  have "json_ok CJSON_NESTING_LIMIT (cJSON_Object [])" by (simp add: CJSON_NESTING_LIMIT_def numeral_eq_Suc)
  moreover have "strict_tree (cJSON_Object [])" by (simp add: strict_tree_def)
  moreover have "cJSON_PrintUnformatted (cJSON_Object []) = Some ''{}''" by (rule print_empty_object)
  ultimately have "savvy_json_parse (Some [CHR ''{'', CHR ''}'', CHR 0x00]) 2 False = Inr (cJSON_Object [])"
    using json_parse_printed(2) [of "cJSON_Object []" "''{}''" "[]"] by (simp add: numeral_2_eq_2)
  moreover have "list_all (acceptable (cJSON_Object [])) CONFIG_FIELDS" by (simp add: acceptable_def list_all_iff)
  ultimately show ?thesis
    using config_parse_memberwise [OF _ config_defaults_ok(1), of "[CHR ''{'', CHR ''}'', CHR 0x00]" 2 "[]" False]
    by auto
qed

end
