(* ===== verification/Device_Codec.thy ===== *)
theory Device_Codec
  imports Field_Table
begin

text \<open>
  The device DTO of \<^verbatim>\<open>src/protocol/json/device_codec.c\<close>: the struct, its field table, the all-zero
  defaults, and the parser and builder over the table, with the same contract as the
  configuration.
\<close>

section \<open>The struct and its table\<close>

definition SAVVY_DEVICE_STR_LEN :: nat where
  "SAVVY_DEVICE_STR_LEN = 64"

record savvy_device =
  dev_device_serial :: string
  dev_device_mac :: string
  dev_device_ip :: string
  dev_bt_name :: string
  dev_blue_tooth :: int
  dev_mic :: int
  dev_wifi :: int
  dev_tof :: int
  dev_led :: int
  dev_buzzer :: int
  dev_move_sensor :: int
  dev_reboot :: int
  dev_app_mgr :: string
  dev_app_sensor :: string
  dev_os :: string
  dev_t_name :: string
  dev_toilet :: int
  dev_stall :: int
  dev_beacon :: int
  dev_app_rknn :: string
  dev_ver_rknn :: string
  dev_smoke_value :: int
  dev_data_collection :: int

definition DEVICE_FIELDS :: "savvy_device savvy_field_desc list" where
  "DEVICE_FIELDS = [
     string_field ''deviceSerial'' dev_device_serial dev_device_serial_update SAVVY_DEVICE_STR_LEN,
     string_field ''deviceMAC'' dev_device_mac dev_device_mac_update SAVVY_DEVICE_STR_LEN,
     string_field ''deviceIp'' dev_device_ip dev_device_ip_update SAVVY_DEVICE_STR_LEN,
     string_field ''btName'' dev_bt_name dev_bt_name_update SAVVY_DEVICE_STR_LEN,
     int32_field ''blueTooth'' dev_blue_tooth dev_blue_tooth_update,
     int32_field ''mic'' dev_mic dev_mic_update,
     int32_field ''wifi'' dev_wifi dev_wifi_update,
     int32_field ''tof'' dev_tof dev_tof_update,
     int32_field ''led'' dev_led dev_led_update,
     int32_field ''buzzer'' dev_buzzer dev_buzzer_update,
     int32_field ''moveSensor'' dev_move_sensor dev_move_sensor_update,
     int32_field ''reboot'' dev_reboot dev_reboot_update,
     string_field ''appMgr'' dev_app_mgr dev_app_mgr_update SAVVY_DEVICE_STR_LEN,
     string_field ''appSensor'' dev_app_sensor dev_app_sensor_update SAVVY_DEVICE_STR_LEN,
     string_field ''os'' dev_os dev_os_update SAVVY_DEVICE_STR_LEN,
     string_field ''t_name'' dev_t_name dev_t_name_update SAVVY_DEVICE_STR_LEN,
     int32_field ''toilet'' dev_toilet dev_toilet_update,
     int32_field ''stall'' dev_stall dev_stall_update,
     int32_field ''beacon'' dev_beacon dev_beacon_update,
     string_field ''appRknn'' dev_app_rknn dev_app_rknn_update SAVVY_DEVICE_STR_LEN,
     string_field ''verRknn'' dev_ver_rknn dev_ver_rknn_update SAVVY_DEVICE_STR_LEN,
     int32_field ''smokeValue'' dev_smoke_value dev_smoke_value_update,
     int32_field ''dataCollection'' dev_data_collection dev_data_collection_update]"

section \<open>Operations\<close>

definition savvy_device_set_defaults :: savvy_device where
  "savvy_device_set_defaults =
     \<lparr>dev_device_serial = [], dev_device_mac = [], dev_device_ip = [], dev_bt_name = [],
      dev_blue_tooth = 0, dev_mic = 0, dev_wifi = 0, dev_tof = 0, dev_led = 0, dev_buzzer = 0,
      dev_move_sensor = 0, dev_reboot = 0, dev_app_mgr = [], dev_app_sensor = [], dev_os = [],
      dev_t_name = [], dev_toilet = 0, dev_stall = 0, dev_beacon = 0, dev_app_rknn = [],
      dev_ver_rknn = [], dev_smoke_value = 0, dev_data_collection = 0\<rparr>"

text \<open>The status, the struct behind \<^verbatim>\<open>out\<close> and the unknown keys logged.\<close>

definition savvy_device_parse ::
  "string option \<Rightarrow> nat \<Rightarrow> savvy_device option \<Rightarrow> bool \<Rightarrow> savvy_status \<times> savvy_device option \<times> string list" where
  "savvy_device_parse json len out unknown_key_log_fn =
     (case out of
        None \<Rightarrow> (SAVVY_ERR_INVALID_ARGUMENT, out, [])
      | Some s \<Rightarrow>
          if json = None then (SAVVY_ERR_INVALID_ARGUMENT, out, [])
          else case savvy_json_parse json len False of
                 Inl st \<Rightarrow> (st, out, [])
               | Inr tree \<Rightarrow>
                   if \<not> cJSON_IsObject tree then (SAVVY_ERR_PROTOCOL, out, [])
                   else
                     let (st, s', logged) = savvy_apply_field_table tree DEVICE_FIELDS s unknown_key_log_fn
                     in (st, Some s', logged))"

definition savvy_device_build :: "savvy_device option \<Rightarrow> bool \<Rightarrow> string result" where
  "savvy_device_build s out_null =
     (case s of
        None \<Rightarrow> Inl SAVVY_ERR_INVALID_ARGUMENT
      | Some x \<Rightarrow>
          if out_null then Inl SAVVY_ERR_INVALID_ARGUMENT
          else case savvy_build_field_table DEVICE_FIELDS x of
                 None \<Rightarrow> Inl SAVVY_ERR_OUT_OF_MEMORY
               | Some tree \<Rightarrow>
                   (case cJSON_PrintUnformatted tree of
                      None \<Rightarrow> Inl SAVVY_ERR_OUT_OF_MEMORY
                    | Some text \<Rightarrow> Inr text))"

section \<open>The table satisfies the contract\<close>

lemma device_fields_put:
  assumes "i < length DEVICE_FIELDS" and "typed (DEVICE_FIELDS ! i) v"
  shows "view DEVICE_FIELDS (fput (DEVICE_FIELDS ! i) v s) = (view DEVICE_FIELDS s)[i := v]"
proof -
  have "i < 23" using assms(1) by (simp add: DEVICE_FIELDS_def)
  then show ?thesis
    using assms(2) unfolding less_Suc_eq numeral_eq_Suc pred_numeral_simps BitM.simps not_less_zero
    by (elim disjE; cases v; simp add: DEVICE_FIELDS_def view_def typed_def string_field_def int32_field_def)
qed

interpretation dev: field_table DEVICE_FIELDS
proof
  show "distinct (map json_key DEVICE_FIELDS)"
    by (simp add: DEVICE_FIELDS_def string_field_def int32_field_def)
  show "ascii (json_key f)" if "f \<in> set DEVICE_FIELDS" for f
    using that by (auto simp: DEVICE_FIELDS_def string_field_def int32_field_def ascii_def)
  show "view DEVICE_FIELDS (fput (DEVICE_FIELDS ! i) v s) = (view DEVICE_FIELDS s)[i := v]"
    if "i < length DEVICE_FIELDS" "typed (DEVICE_FIELDS ! i) v" for i v s
    using that by (rule device_fields_put)
  show "typed f (fget f s)" if "f \<in> set DEVICE_FIELDS" for f s
    using that by (auto simp: DEVICE_FIELDS_def string_field_def int32_field_def typed_def)
  show "s = t" if "view DEVICE_FIELDS s = view DEVICE_FIELDS t" for s t
    using that by (simp add: DEVICE_FIELDS_def string_field_def int32_field_def view_def)
  show "length DEVICE_FIELDS \<le> 100" by (simp add: DEVICE_FIELDS_def)
  show "length (json_key f) \<le> 100 \<and> str_cap f \<le> 10000" if "f \<in> set DEVICE_FIELDS" for f
    using that by (auto simp: DEVICE_FIELDS_def string_field_def int32_field_def SAVVY_DEVICE_STR_LEN_def)
qed

section \<open>Correctness\<close>

text \<open>Every member holds a value of its C type, and its strings are well-formed UTF-8.\<close>

definition device_fits :: "savvy_device \<Rightarrow> bool" where
  "device_fits s \<longleftrightarrow> list_all (\<lambda>f. fits f (fget f s)) DEVICE_FIELDS"

definition device_utf8 :: "savvy_device \<Rightarrow> bool" where
  "device_utf8 s \<longleftrightarrow> list_all (\<lambda>f. case fget f s of FString x \<Rightarrow> valid_utf8 x | FInt _ \<Rightarrow> True) DEVICE_FIELDS"

lemma device_defaults_ok: "device_fits savvy_device_set_defaults" "device_utf8 savvy_device_set_defaults"
  by (simp_all add: device_fits_def device_utf8_def DEVICE_FIELDS_def savvy_device_set_defaults_def string_field_def
      int32_field_def fits_def typed_def SAVVY_DEVICE_STR_LEN_def int32_range_def limits valid_utf8_def
      savvy_utf8_validate_def utf8_loop.simps)

text \<open>
  Device round trip. Every device whose members hold values of their C types and whose
  strings are UTF-8 is built into a JSON text, and parsing that text (in memory, with its
  terminator and anything behind it) over any previous contents gives back exactly that
  device, with no unknown key reported.
\<close>

theorem device_build_parse_roundtrip:
  assumes "device_fits s" and "device_utf8 s"
  shows "\<exists>text. savvy_device_build (Some s) False = Inr text \<and> CHR 0x00 \<notin> set text
           \<and> savvy_device_parse (Some (text @ CHR 0x00 # junk)) (length text) (Some old) log_fn
             = (SAVVY_OK, Some s, [])"
proof -
  have fits: "\<forall>f\<in>set DEVICE_FIELDS. fits f (fget f s)"
    and utf8: "\<forall>f\<in>set DEVICE_FIELDS. \<forall>x. fget f s = FString x \<longrightarrow> valid_utf8 x"
    using assms by (auto simp: device_fits_def device_utf8_def list_all_iff)
  obtain obj where obj: "savvy_build_field_table DEVICE_FIELDS s = Some obj" by (simp add: build_field_table_members)
  have ok: "json_ok CJSON_NESTING_LIMIT obj"
    using dev.built_json_ok [OF fits obj, of 0] by (rule json_ok_mono) (simp add: CJSON_NESTING_LIMIT_def)
  have strict: "strict_tree obj" by (rule dev.built_strict [OF utf8 obj])
  obtain t where t: "cJSON_PrintUnformatted obj = Some t"
    using dev.built_printed [OF fits obj] by blast
  have "cJSON_IsObject obj" using obj by (auto simp: build_field_table_members)
  then show ?thesis
    using json_parse_printed [OF ok strict t] dev.apply_table_built [OF fits obj]
    by (simp add: savvy_device_build_def savvy_device_parse_def obj t)
qed

theorem device_build_parse_roundtrip_witness:
  "\<exists>text. savvy_device_build (Some savvy_device_set_defaults) False = Inr text \<and> CHR 0x00 \<notin> set text
      \<and> savvy_device_parse (Some (text @ CHR 0x00 # [])) (length text) (Some savvy_device_set_defaults) True
        = (SAVVY_OK, Some savvy_device_set_defaults, [])"
  by (rule device_build_parse_roundtrip [OF device_defaults_ok])

lemma device_parse_keeps_fits:
  assumes "savvy_json_parse (Some m) len False = Inr (cJSON_Object ms)" and "device_fits old"
  shows "device_fits (the (fst (snd (savvy_device_parse (Some m) len (Some old) log_fn))))"
  using assms dev.apply_fields_fits [OF json_parse_nul_free [OF assms(1)] order_refl, of old]
  by (simp add: savvy_device_parse_def savvy_apply_field_table_def device_fits_def list_all_iff case_prod_beta)

text \<open>
  C26: device parsing, member by member. For every text the strict parser turns into an object,
  the call succeeds exactly when each known key that is present has an item of the right kind
  that fits (a string shorter than its array, an integral number in 32-bit range; never
  \<^verbatim>\<open>null\<close>); then each member has the value of its key, or its old value when the key is absent.
  In every case, also a refused one, all members stay within their C types.
\<close>

theorem device_parse_memberwise:
  assumes "savvy_json_parse (Some m) len False = Inr (cJSON_Object ms)" and "device_fits old"
  shows "\<exists>s' logged. savvy_device_parse (Some m) len (Some old) log_fn =
           (if list_all (acceptable (cJSON_Object ms)) DEVICE_FIELDS then SAVVY_OK else SAVVY_ERR_PROTOCOL, Some s', logged)
         \<and> device_fits s'
         \<and> (list_all (acceptable (cJSON_Object ms)) DEVICE_FIELDS \<longrightarrow>
              list_all (\<lambda>f. fget f s' = target (cJSON_Object ms) f (fget f old)) DEVICE_FIELDS)"
proof -
  let ?obj = "cJSON_Object ms"
  obtain st s' where a: "apply_fields ?obj DEVICE_FIELDS old = (st, s')" by (cases "apply_fields ?obj DEVICE_FIELDS old")
  then have "st = (if list_all (acceptable ?obj) DEVICE_FIELDS then SAVVY_OK else SAVVY_ERR_PROTOCOL)"
    using dev.apply_fields_correct(1) [of ?obj old] by simp
  moreover have "device_fits s'"
    using dev.apply_fields_fits [OF json_parse_nul_free [OF assms(1)] order_refl, of old] assms(2) a
    by (simp add: device_fits_def list_all_iff)
  moreover have "list_all (\<lambda>f. fget f s' = target ?obj f (fget f old)) DEVICE_FIELDS"
    if "list_all (acceptable ?obj) DEVICE_FIELDS"
    using dev.apply_fields_correct(2) [OF that, of old] a by (simp add: view_def list_all_iff)
  ultimately show ?thesis
    using assms(1) a by (simp add: savvy_device_parse_def savvy_apply_field_table_def)
qed

theorem device_parse_memberwise_witness:
  "\<exists>s' logged. savvy_device_parse (Some [CHR ''{'', CHR ''}'', CHR 0x00]) 2 (Some savvy_device_set_defaults) False
      = (SAVVY_OK, Some s', logged) \<and> device_fits s'"
proof -
  have "json_ok CJSON_NESTING_LIMIT (cJSON_Object [])" by (simp add: CJSON_NESTING_LIMIT_def numeral_eq_Suc)
  moreover have "strict_tree (cJSON_Object [])" by (simp add: strict_tree_def)
  moreover have "cJSON_PrintUnformatted (cJSON_Object []) = Some ''{}''" by (rule print_empty_object)
  ultimately have "savvy_json_parse (Some [CHR ''{'', CHR ''}'', CHR 0x00]) 2 False = Inr (cJSON_Object [])"
    using json_parse_printed(2) [of "cJSON_Object []" "''{}''" "[]"] by (simp add: numeral_2_eq_2)
  moreover have "list_all (acceptable (cJSON_Object [])) DEVICE_FIELDS" by (simp add: acceptable_def list_all_iff)
  ultimately show ?thesis
    using device_parse_memberwise [OF _ device_defaults_ok(1), of "[CHR ''{'', CHR ''}'', CHR 0x00]" 2 "[]" False]
    by auto
qed

end
