(* ===== verification/Data_Result.thy ===== *)
theory Data_Result
  imports Json_Codec
begin

text \<open>
  \<^verbatim>\<open>src/protocol/json/data_result_codec.c\<close>: the response body \<^verbatim>\<open>{"result": n}\<close> of the stream and voice
  channels, with the coercions of the original client: a missing or null result is 0, a quoted
  integer is read as a number, and of duplicate keys the last one counts.
\<close>

record savvy_data_result =
  dr_result :: int

section \<open>Coercion of one item\<close>

definition LLONG_MAX :: int where
  "LLONG_MAX = 9223372036854775807"

definition LLONG_MIN :: int where
  "LLONG_MIN = - 9223372036854775808"

definition savvy_data_result_string_to_int32 :: "string \<Rightarrow> int result" where
  "savvy_data_result_string_to_int32 s =
     (let neg = (s \<noteq> [] \<and> s ! 0 = CHR ''-'');
          ds = (if neg then drop 1 s else s)
      in if ds = [] then Inl SAVVY_ERR_PROTOCOL
         else if list_ex (\<lambda>c. \<not> is_digit c) ds then Inl SAVVY_ERR_PROTOCOL
         else
           let v = (if neg then - int (digits_val ds) else int (digits_val ds))
           in if v < LLONG_MIN \<or> v > LLONG_MAX then Inl SAVVY_ERR_PROTOCOL
              else if v < INT32_MIN \<or> v > INT32_MAX then Inl SAVVY_ERR_PROTOCOL
              else Inr v)"

definition savvy_data_result_value_to_int32 :: "cJSON \<Rightarrow> int result" where
  "savvy_data_result_value_to_int32 item =
     (case item of
        cJSON_Number _ \<Rightarrow> savvy_json_number_to_int32 (Some item)
      | cJSON_String s \<Rightarrow> savvy_data_result_string_to_int32 s
      | _ \<Rightarrow> Inl SAVVY_ERR_PROTOCOL)"

section \<open>The codec\<close>

text \<open>The walk over the child list that keeps overwriting its candidate.\<close>

definition last_result :: "(string \<times> cJSON) list \<Rightarrow> cJSON option" where
  "last_result ms = foldl (\<lambda>found m. if fst m = ''result'' then Some (snd m) else found) None ms"

definition savvy_data_result_parse ::
  "string option \<Rightarrow> nat \<Rightarrow> savvy_data_result option \<Rightarrow> savvy_status \<times> savvy_data_result option" where
  "savvy_data_result_parse json len out =
     (case out of
        None \<Rightarrow> (SAVVY_ERR_INVALID_ARGUMENT, out)
      | Some dr \<Rightarrow>
          if json = None then (SAVVY_ERR_INVALID_ARGUMENT, out)
          else case savvy_json_parse_allow_duplicate_keys json len False of
                 Inl st \<Rightarrow> (st, out)
               | Inr (cJSON_Object ms) \<Rightarrow>
                   (case last_result ms of
                      None \<Rightarrow> (SAVVY_OK, Some (dr\<lparr>dr_result := 0\<rparr>))
                    | Some item \<Rightarrow>
                        if cJSON_IsNull item then (SAVVY_OK, Some (dr\<lparr>dr_result := 0\<rparr>))
                        else case savvy_data_result_value_to_int32 item of
                               Inr v \<Rightarrow> (SAVVY_OK, Some (dr\<lparr>dr_result := v\<rparr>))
                             | Inl _ \<Rightarrow> (SAVVY_ERR_PROTOCOL, out))
               | Inr _ \<Rightarrow> (SAVVY_ERR_PROTOCOL, out))"

definition savvy_data_result_build :: "savvy_data_result option \<Rightarrow> bool \<Rightarrow> string result" where
  "savvy_data_result_build dr out_null =
     (case dr of
        None \<Rightarrow> Inl SAVVY_ERR_INVALID_ARGUMENT
      | Some d \<Rightarrow>
          if out_null then Inl SAVVY_ERR_INVALID_ARGUMENT
          else case cJSON_AddItemToObject cJSON_CreateObject ''result'' (cJSON_CreateNumber (of_int (dr_result d))) of
                 None \<Rightarrow> Inl SAVVY_ERR_OUT_OF_MEMORY
               | Some tree \<Rightarrow>
                   (case cJSON_PrintUnformatted tree of
                      None \<Rightarrow> Inl SAVVY_ERR_OUT_OF_MEMORY
                    | Some text \<Rightarrow> Inr text))"

definition savvy_data_result_is_normal :: "savvy_data_result \<Rightarrow> bool" where
  "savvy_data_result_is_normal dr \<longleftrightarrow> dr_result dr = 4"

section \<open>Correctness\<close>

text \<open>A quoted integer is accepted exactly when it is a decimal numeral in 32-bit range.\<close>

lemma string_to_int32_iff:
  "savvy_data_result_string_to_int32 s = Inr v \<longleftrightarrow>
     int32_range v \<and> (\<exists>ds. ds \<noteq> [] \<and> list_all is_digit ds \<and>
       ((s = ds \<and> v = int (digits_val ds)) \<or> (s = CHR ''-'' # ds \<and> v = - int (digits_val ds))))"
proof (cases s)
  case (Cons c cs)
  show ?thesis
  proof (cases "c = CHR ''-''")
    case True
    moreover have "\<not> is_digit (CHR ''-'')" by (simp add: is_digit_def)
    ultimately show ?thesis
      by (auto simp: Cons savvy_data_result_string_to_int32_def Let_def list_ex_iff list_all_iff int32_range_def
          limits LLONG_MIN_def LLONG_MAX_def)
  next
    case False
    then show ?thesis
      by (auto simp: Cons savvy_data_result_string_to_int32_def Let_def list_ex_iff list_all_iff int32_range_def
          limits LLONG_MIN_def LLONG_MAX_def)
  qed
qed (auto simp: savvy_data_result_string_to_int32_def)

lemma string_to_int32_of_int:
  "int32_range n \<Longrightarrow> savvy_data_result_string_to_int32 (string_of_int n) = Inr n"
  unfolding string_to_int32_iff
  by (intro conjI exI [of _ "nat_digits (nat \<bar>n\<bar>)"])
    (auto simp: string_of_int_def digits_val_nat_digits list_all_iff nat_digits_are_digits)

lemma last_result_snoc: "last_result (ms @ [m]) = (if fst m = ''result'' then Some (snd m) else last_result ms)"
  by (simp add: last_result_def)

lemma last_result_map_of: "last_result ms = map_of (rev ms) ''result''"
  by (induction ms rule: rev_induct) (simp_all add: last_result_snoc, simp add: last_result_def)

text \<open>The effect of a parse on a text whose tree is an object.\<close>

definition result_of_members :: "(string \<times> cJSON) list \<Rightarrow> int option" where
  "result_of_members ms =
     (case map_of (rev ms) ''result'' of
        None \<Rightarrow> Some 0
      | Some cJSON_NULL \<Rightarrow> Some 0
      | Some (cJSON_Number d) \<Rightarrow>
          (case savvy_json_number_to_int32 (Some (cJSON_Number d)) of Inr v \<Rightarrow> Some v | Inl _ \<Rightarrow> None)
      | Some (cJSON_String s) \<Rightarrow> (case savvy_data_result_string_to_int32 s of Inr v \<Rightarrow> Some v | Inl _ \<Rightarrow> None)
      | Some _ \<Rightarrow> None)"

lemma data_result_parse_object:
  assumes "savvy_json_parse_allow_duplicate_keys (Some m) len False = Inr (cJSON_Object ms)"
  shows "savvy_data_result_parse (Some m) len (Some dr) =
     (case result_of_members ms of
        Some v \<Rightarrow> (SAVVY_OK, Some (dr\<lparr>dr_result := v\<rparr>)) | None \<Rightarrow> (SAVVY_ERR_PROTOCOL, Some dr))"
  using assms
  by (auto simp: savvy_data_result_parse_def result_of_members_def last_result_map_of
      savvy_data_result_value_to_int32_def split: option.splits cJSON.splits sum.splits)

text \<open>
  The coercions of a response body. In any object, duplicates included, only the last
  \<^verbatim>\<open>result\<close> member counts: null gives 0, a number gives itself when it is an integer of 32 bits,
  a string gives the integer it spells (an optional minus sign and decimal digits, nothing
  else) when that fits 32 bits, and everything else is \<^verbatim>\<open>SAVVY_ERR_PROTOCOL\<close> with the output
  untouched; with no \<^verbatim>\<open>result\<close> member the value is 0.
\<close>

theorem data_result_last_member_coerced:
  assumes "savvy_json_parse_allow_duplicate_keys (Some m) len False = Inr (cJSON_Object (pre @ (''result'', item) # post))"
    and "''result'' \<notin> fst ` set post"
  shows "savvy_data_result_parse (Some m) len (Some dr) =
     (case item of
        cJSON_NULL \<Rightarrow> (SAVVY_OK, Some (dr\<lparr>dr_result := 0\<rparr>))
      | cJSON_Number d \<Rightarrow>
          if \<exists>n. int32_range n \<and> d = Fin (of_int n)
          then (SAVVY_OK, Some (dr\<lparr>dr_result := valueint d\<rparr>)) else (SAVVY_ERR_PROTOCOL, Some dr)
      | cJSON_String s \<Rightarrow>
          if \<exists>n ds. int32_range n \<and> ds \<noteq> [] \<and> list_all is_digit ds \<and>
               ((s = ds \<and> n = int (digits_val ds)) \<or> (s = CHR ''-'' # ds \<and> n = - int (digits_val ds)))
          then (SAVVY_OK, Some (dr\<lparr>dr_result := projr (savvy_data_result_string_to_int32 s)\<rparr>))
          else (SAVVY_ERR_PROTOCOL, Some dr)
      | _ \<Rightarrow> (SAVVY_ERR_PROTOCOL, Some dr))"
proof -
  have last: "map_of (rev (pre @ (''result'', item) # post)) ''result'' = Some item"
  proof -
    have "map_of (rev post) ''result'' = None" using assms(2) by (simp add: map_of_eq_None_iff)
    then show ?thesis by (simp add: map_add_def)
  qed
  note parse = data_result_parse_object [OF assms(1), of dr, unfolded result_of_members_def last]
  show ?thesis
  proof (cases item)
    case (cJSON_Number d)
    show ?thesis
    proof (cases "\<exists>n. int32_range n \<and> d = Fin (of_int n)")
      case True
      then obtain n where n: "int32_range n" "d = Fin (of_int n)" by blast
      then have "savvy_json_number_to_int32 (Some item) = Inr (valueint d)"
        using number_to_int32_of_int valueint_of_int by (simp add: cJSON_Number)
      with True show ?thesis using parse by (simp add: cJSON_Number)
    next
      case False
      then have "\<nexists>n. savvy_json_number_to_int32 (Some item) = Inr n"
        using number_to_int32_value cJSON_Number by fastforce
      then obtain e where "savvy_json_number_to_int32 (Some item) = Inl e"
        by (cases "savvy_json_number_to_int32 (Some item)") auto
      with False show ?thesis using parse by (simp add: cJSON_Number)
    qed
  next
    case (cJSON_String s)
    show ?thesis
    proof (cases "savvy_data_result_string_to_int32 s")
      case (Inr v)
      with string_to_int32_iff [of s v] show ?thesis using parse by (simp add: cJSON_String) blast
    next
      case (Inl e)
      then have "savvy_data_result_string_to_int32 s \<noteq> Inr n" for n by simp
      then show ?thesis
        using parse Inl unfolding string_to_int32_iff by (simp add: cJSON_String)
    qed
  qed (use parse in simp_all)
qed

text \<open>The tree of a response body and its text.\<close>

lemma result_object_ok:
  assumes "int32_range n"
  shows "json_ok CJSON_NESTING_LIMIT (cJSON_Object [(''result'', cJSON_Number (Fin (of_int n)))])"
    and "strict_tree (cJSON_Object [(''result'', cJSON_Number (Fin (of_int n)))])"
    and "cJSON_PrintUnformatted (cJSON_Object [(''result'', cJSON_Number (Fin (of_int n)))])
           = Some (CHR ''{'' # CHR 0x22 # ''result'' @ CHR 0x22 # CHR '':'' # string_of_int n @ ''}'')"
proof -
  have "json_ok (Suc 0) (cJSON_Object [(''result'', cJSON_Number (Fin (of_int n)))])"
    using valueint_of_int [OF assms] by simp
  then show "json_ok CJSON_NESTING_LIMIT (cJSON_Object [(''result'', cJSON_Number (Fin (of_int n)))])"
    by (rule json_ok_mono) (simp add: CJSON_NESTING_LIMIT_def)
  show "strict_tree (cJSON_Object [(''result'', cJSON_Number (Fin (of_int n)))])"
    by (simp add: strict_tree_def valid_utf8_def savvy_utf8_validate_def utf8_loop.simps)
  show "cJSON_PrintUnformatted (cJSON_Object [(''result'', cJSON_Number (Fin (of_int n)))])
      = Some (CHR ''{'' # CHR 0x22 # ''result'' @ CHR 0x22 # CHR '':'' # string_of_int n @ ''}'')"
    using print_number_of_int [OF assms] length_print_number [OF print_number_of_int [OF assms]]
    by (simp add: printed_text INT32_MAX_room print_string_ptr_def escape_char_def)
qed

lemma data_result_parse_text:
  assumes "int32_range n"
  shows "savvy_data_result_parse
           (Some ((CHR ''{'' # CHR 0x22 # ''result'' @ CHR 0x22 # CHR '':'' # string_of_int n @ ''}'') @ CHR 0x00 # junk))
           (length (CHR ''{'' # CHR 0x22 # ''result'' @ CHR 0x22 # CHR '':'' # string_of_int n @ ''}'')) (Some dr)
         = (SAVVY_OK, Some (dr\<lparr>dr_result := n\<rparr>))"
  using data_result_parse_object [OF json_parse_printed(3) [OF result_object_ok [OF assms]], of junk dr]
    number_to_int32_of_int [OF assms] by (simp add: result_of_members_def)

text \<open>
  Response bodies round trip: what \<^verbatim>\<open>savvy_data_result_build\<close> writes for any 32-bit result,
  \<^verbatim>\<open>savvy_data_result_parse\<close> reads back, and the verdict normal or danger survives with it.
\<close>

theorem data_result_roundtrip:
  assumes "int32_range (dr_result d)"
  shows "\<exists>text. savvy_data_result_build (Some d) False = Inr text
           \<and> savvy_data_result_parse (Some (text @ CHR 0x00 # junk)) (length text) (Some old) = (SAVVY_OK, Some d)
           \<and> savvy_data_result_is_normal d = (dr_result d = 4)"
  using data_result_parse_text [OF assms, of junk old] result_object_ok(3) [OF assms]
  by (simp add: savvy_data_result_build_def cJSON_CreateObject_def cJSON_CreateNumber_def
      savvy_data_result_is_normal_def)

theorem data_result_roundtrip_witness:
  "\<exists>text. savvy_data_result_build (Some \<lparr>dr_result = 7\<rparr>) False = Inr text
      \<and> savvy_data_result_parse (Some (text @ CHR 0x00 # [])) (length text) (Some \<lparr>dr_result = 0\<rparr>)
        = (SAVVY_OK, Some \<lparr>dr_result = 7\<rparr>)"
  using data_result_roundtrip [of "\<lparr>dr_result = 7\<rparr>" "[]" "\<lparr>dr_result = 0\<rparr>"]
  by (auto simp: int32_range_def limits)

theorem data_result_last_member_coerced_witness:
  "savvy_data_result_parse
     (Some ((CHR ''{'' # CHR 0x22 # ''result'' @ CHR 0x22 # CHR '':'' # string_of_int 5 @ ''}'') @ CHR 0x00 # []))
     (length (CHR ''{'' # CHR 0x22 # ''result'' @ CHR 0x22 # CHR '':'' # string_of_int 5 @ ''}''))
     (Some \<lparr>dr_result = 0\<rparr>) = (SAVVY_OK, Some \<lparr>dr_result = 5\<rparr>)"
proof -
  have r: "int32_range 5" by (simp add: int32_range_def limits)
  have "savvy_json_parse_allow_duplicate_keys
      (Some ((CHR ''{'' # CHR 0x22 # ''result'' @ CHR 0x22 # CHR '':'' # string_of_int 5 @ ''}'') @ CHR 0x00 # []))
      (length (CHR ''{'' # CHR 0x22 # ''result'' @ CHR 0x22 # CHR '':'' # string_of_int 5 @ ''}'')) False
      = Inr (cJSON_Object ([] @ (''result'', cJSON_Number (Fin (of_int 5))) # []))"
    using json_parse_printed(3) [OF result_object_ok [OF r], of "[]"] by simp
  moreover have "\<exists>n. int32_range n \<and> Fin (of_int 5) = Fin (of_int n)" using r by blast
  moreover have "valueint (Fin (of_int 5)) = 5" by (rule valueint_of_int [OF r])
  ultimately show ?thesis
    using data_result_last_member_coerced [where dr = "\<lparr>dr_result = 0\<rparr>" and pre = "[]" and post = "[]"
        and item = "cJSON_Number (Fin (of_int 5))"] by simp
qed

end
