(* ===== verification/Ipc_Codec.thy ===== *)
theory Ipc_Codec
  imports Field_Table
begin

text \<open>
  \<^verbatim>\<open>src/protocol/ipc\<close>: the catalog of the actions exchanged with the manager process, the check of
  a payload against it, and the \<^verbatim>\<open>{action, payload}\<close> envelope every message is wrapped in. A C
  string is the list of its characters before the terminator.
\<close>

section \<open>The action catalog\<close>

datatype catalog_value_type = VT_OBJECT | VT_STRING | VT_NUMBER

datatype savvy_ipc_direction = SAVVY_IPC_MGR_TO_SENSOR | SAVVY_IPC_SENSOR_TO_MGR

record catalog_key =
  key_name :: string
  key_type :: catalog_value_type
  key_required :: bool
  key_nullable :: bool

text \<open>The key tables end with a NULL name in C; here the list ends.\<close>

record catalog_entry =
  entry_action :: string
  entry_direction :: savvy_ipc_direction
  payload_keys :: "catalog_key list"

definition catalog_entry_of :: "string \<Rightarrow> savvy_ipc_direction \<Rightarrow> catalog_key list \<Rightarrow> catalog_entry" where
  "catalog_entry_of a d ks = \<lparr>entry_action = a, entry_direction = d, payload_keys = ks\<rparr>"

definition NO_KEYS :: "catalog_key list" where
  "NO_KEYS = []"

definition CONFIG_KEYS :: "catalog_key list" where
  "CONFIG_KEYS = [\<lparr>key_name = ''jsonConfigDto'', key_type = VT_OBJECT, key_required = True, key_nullable = False\<rparr>]"

definition DEVICE_KEYS :: "catalog_key list" where
  "DEVICE_KEYS = [\<lparr>key_name = ''jsonDeviceDto'', key_type = VT_OBJECT, key_required = True, key_nullable = False\<rparr>]"

definition TEST_KEYS :: "catalog_key list" where
  "TEST_KEYS = [\<lparr>key_name = ''TEST'', key_type = VT_STRING, key_required = True, key_nullable = False\<rparr>]"

definition RESET_KEYS :: "catalog_key list" where
  "RESET_KEYS = [\<lparr>key_name = ''RESET'', key_type = VT_STRING, key_required = True, key_nullable = False\<rparr>]"

definition LEDPWR_KEYS :: "catalog_key list" where
  "LEDPWR_KEYS = [\<lparr>key_name = ''PwrLedState'', key_type = VT_STRING, key_required = True, key_nullable = False\<rparr>]"

definition ALERT_KEYS :: "catalog_key list" where
  "ALERT_KEYS = [\<lparr>key_name = ''AlertLedState'', key_type = VT_STRING, key_required = True, key_nullable = False\<rparr>,
     \<lparr>key_name = ''AlertTime'', key_type = VT_STRING, key_required = True, key_nullable = False\<rparr>,
     \<lparr>key_name = ''AlertSec'', key_type = VT_STRING, key_required = True, key_nullable = False\<rparr>]"

definition RKNN_RESULT_KEYS :: "catalog_key list" where
  "RKNN_RESULT_KEYS = [\<lparr>key_name = ''rknnAnalResult'', key_type = VT_STRING, key_required = True, key_nullable = False\<rparr>]"

definition GETSTATE_KEYS :: "catalog_key list" where
  "GETSTATE_KEYS = [\<lparr>key_name = ''SENSOR'', key_type = VT_STRING, key_required = True, key_nullable = False\<rparr>,
     \<lparr>key_name = ''STATE'', key_type = VT_STRING, key_required = True, key_nullable = False\<rparr>]"

definition IFCOMM_START_KEYS :: "catalog_key list" where
  "IFCOMM_START_KEYS = [\<lparr>key_name = ''IFCOMM_START'', key_type = VT_STRING, key_required = True, key_nullable = False\<rparr>]"

definition UPLOAD_KEYS :: "catalog_key list" where
  "UPLOAD_KEYS = [\<lparr>key_name = ''targetFilePath'', key_type = VT_STRING, key_required = True, key_nullable = False\<rparr>,
     \<lparr>key_name = ''targetFileNm'', key_type = VT_STRING, key_required = True, key_nullable = False\<rparr>]"

definition DELAY_KEYS :: "catalog_key list" where
  "DELAY_KEYS = [\<lparr>key_name = ''DELAY_SEC'', key_type = VT_STRING, key_required = True, key_nullable = False\<rparr>]"

definition TOF_PROP_KEYS :: "catalog_key list" where
  "TOF_PROP_KEYS = [\<lparr>key_name = ''TofTemperature'', key_type = VT_NUMBER, key_required = False, key_nullable = True\<rparr>,
     \<lparr>key_name = ''TofTemperDrv'', key_type = VT_NUMBER, key_required = False, key_nullable = True\<rparr>,
     \<lparr>key_name = ''SmokeValue'', key_type = VT_NUMBER, key_required = False, key_nullable = True\<rparr>,
     \<lparr>key_name = ''MicValue'', key_type = VT_NUMBER, key_required = False, key_nullable = True\<rparr>]"

definition RSLT_KEYS :: "catalog_key list" where
  "RSLT_KEYS = [\<lparr>key_name = ''rslt'', key_type = VT_STRING, key_required = True, key_nullable = False\<rparr>]"

definition CATALOG :: "catalog_entry list" where
  "CATALOG = [
     catalog_entry_of ''com.uniuni.savvysensor.config'' SAVVY_IPC_MGR_TO_SENSOR CONFIG_KEYS,
     catalog_entry_of ''com.uniuni.savvysensor.device'' SAVVY_IPC_MGR_TO_SENSOR DEVICE_KEYS,
     catalog_entry_of ''com.uniuni.savvysensor.serverip'' SAVVY_IPC_MGR_TO_SENSOR NO_KEYS,
     catalog_entry_of ''com.uniuni.savvysensor.voicestart'' SAVVY_IPC_MGR_TO_SENSOR NO_KEYS,
     catalog_entry_of ''com.uniuni.savvysensor.streamstart'' SAVVY_IPC_MGR_TO_SENSOR NO_KEYS,
     catalog_entry_of ''com.uniuni.savvysensor.test'' SAVVY_IPC_MGR_TO_SENSOR TEST_KEYS,
     catalog_entry_of ''com.uniuni.savvysensor.sensor.reset'' SAVVY_IPC_MGR_TO_SENSOR RESET_KEYS,
     catalog_entry_of ''com.uniuni.savvysensor.sensor.beaconnotify'' SAVVY_IPC_MGR_TO_SENSOR NO_KEYS,
     catalog_entry_of ''com.uniuni.savvysensor.sensor.apkupdate'' SAVVY_IPC_MGR_TO_SENSOR NO_KEYS,
     catalog_entry_of ''com.uniuni.savvysensor.sensor.status.ledpwr'' SAVVY_IPC_MGR_TO_SENSOR LEDPWR_KEYS,
     catalog_entry_of ''com.uniuni.savvysensor.sensor.status.alert'' SAVVY_IPC_MGR_TO_SENSOR ALERT_KEYS,
     catalog_entry_of ''com.uniuni.savvysensor.sensor.rknn.alert'' SAVVY_IPC_MGR_TO_SENSOR NO_KEYS,
     catalog_entry_of ''com.uniuni.savvysensor.sensor.update.threash.hold'' SAVVY_IPC_MGR_TO_SENSOR NO_KEYS,
     catalog_entry_of ''com.uniuni.savvysensor.sensor.rknn.anal.result'' SAVVY_IPC_MGR_TO_SENSOR RKNN_RESULT_KEYS,
     catalog_entry_of ''com.uniuni.savvysensor.sensor.max.cpu.temp'' SAVVY_IPC_MGR_TO_SENSOR NO_KEYS,
     catalog_entry_of ''com.uniuni.savvymgr.ipc.connect'' SAVVY_IPC_SENSOR_TO_MGR NO_KEYS,
     catalog_entry_of ''com.uniuni.savvymgr.getstate.sensor'' SAVVY_IPC_SENSOR_TO_MGR GETSTATE_KEYS,
     catalog_entry_of ''com.uniuni.savvymgr.alert.sensor'' SAVVY_IPC_SENSOR_TO_MGR IFCOMM_START_KEYS,
     catalog_entry_of ''com.uniuni.savvymgr.upload.sensor'' SAVVY_IPC_SENSOR_TO_MGR UPLOAD_KEYS,
     catalog_entry_of ''com.uniuni.savvymgr.restart.sensor'' SAVVY_IPC_SENSOR_TO_MGR DELAY_KEYS,
     catalog_entry_of ''com.uniuni.savvymgr.fracture.sensor'' SAVVY_IPC_SENSOR_TO_MGR NO_KEYS,
     catalog_entry_of ''com.uniuni.savvymgr.tof.property'' SAVVY_IPC_SENSOR_TO_MGR TOF_PROP_KEYS,
     catalog_entry_of ''com.uniuni.savvymgr.update.threash.rslt'' SAVVY_IPC_SENSOR_TO_MGR RSLT_KEYS]"

definition find_entry :: "string option \<Rightarrow> catalog_entry option" where
  "find_entry action =
     (case action of
        None \<Rightarrow> None
      | Some a \<Rightarrow> List.find (\<lambda>e. entry_action e = a) CATALOG)"

definition savvy_ipc_action_known :: "string option \<Rightarrow> bool" where
  "savvy_ipc_action_known action \<longleftrightarrow> find_entry action \<noteq> None"

definition savvy_ipc_action_direction :: "string option \<Rightarrow> savvy_ipc_direction" where
  "savvy_ipc_action_direction action =
     (case find_entry action of Some e \<Rightarrow> entry_direction e | None \<Rightarrow> SAVVY_IPC_MGR_TO_SENSOR)"

definition value_matches_type :: "cJSON \<Rightarrow> catalog_value_type \<Rightarrow> bool" where
  "value_matches_type item ty =
     (case ty of
        VT_OBJECT \<Rightarrow> cJSON_IsObject item
      | VT_STRING \<Rightarrow> cJSON_IsString item
      | VT_NUMBER \<Rightarrow> (case savvy_json_number_to_int32 (Some item) of Inr _ \<Rightarrow> True | Inl _ \<Rightarrow> False))"

fun validate_keys :: "cJSON \<Rightarrow> catalog_key list \<Rightarrow> savvy_status" where
  "validate_keys tree [] = SAVVY_OK"
| "validate_keys tree (key # rest) =
     (case cJSON_GetObjectItemCaseSensitive tree (key_name key) of
        None \<Rightarrow> if key_required key then SAVVY_ERR_PROTOCOL else validate_keys tree rest
      | Some item \<Rightarrow>
          if cJSON_IsNull item then (if key_nullable key then validate_keys tree rest else SAVVY_ERR_PROTOCOL)
          else if \<not> value_matches_type item (key_type key) then SAVVY_ERR_PROTOCOL
          else validate_keys tree rest)"

definition savvy_ipc_action_validate_payload :: "string option \<Rightarrow> string option \<Rightarrow> savvy_status" where
  "savvy_ipc_action_validate_payload action payload_json =
     (case (find_entry action, payload_json) of
        (Some e, Some p) \<Rightarrow>
          (case savvy_json_parse (Some (p @ [CHR 0x00])) (length p) False of
             Inl st \<Rightarrow> st
           | Inr tree \<Rightarrow>
               if \<not> cJSON_IsObject tree then SAVVY_ERR_PROTOCOL else validate_keys tree (payload_keys e))
      | _ \<Rightarrow> SAVVY_ERR_PROTOCOL)"

section \<open>The envelope\<close>

definition SAVVY_IPC_MAX_MESSAGE :: nat where
  "SAVVY_IPC_MAX_MESSAGE = 65536"

record savvy_ipc_envelope =
  env_action :: "string option"
  env_payload_json :: "string option"

text \<open>The status and the struct behind \<^verbatim>\<open>out_env\<close>, whose pointers are cleared first.\<close>

definition savvy_ipc_envelope_parse ::
  "string option \<Rightarrow> nat \<Rightarrow> savvy_ipc_envelope option \<Rightarrow> savvy_status \<times> savvy_ipc_envelope option" where
  "savvy_ipc_envelope_parse text len out_env =
     (if text = None \<or> out_env = None then (SAVVY_ERR_INVALID_ARGUMENT, out_env)
      else
        let cleared = Some \<lparr>env_action = None, env_payload_json = None\<rparr>
        in case savvy_json_parse text len False of
             Inl st \<Rightarrow> (st, cleared)
           | Inr tree \<Rightarrow>
               if \<not> cJSON_IsObject tree then (SAVVY_ERR_PROTOCOL, cleared)
               else
               (case (cJSON_GetObjectItemCaseSensitive tree ''action'',
                      cJSON_GetObjectItemCaseSensitive tree ''payload'') of
                  (Some (cJSON_String a), Some payload_node) \<Rightarrow>
                    if length (object_members tree) = 2 \<and> a \<noteq> [] \<and> cJSON_IsObject payload_node then
                      (case cJSON_PrintUnformatted payload_node of
                         None \<Rightarrow> (SAVVY_ERR_OUT_OF_MEMORY, cleared)
                       | Some payload_text \<Rightarrow>
                           (SAVVY_OK, Some \<lparr>env_action = Some a, env_payload_json = Some payload_text\<rparr>))
                    else (SAVVY_ERR_PROTOCOL, cleared)
                | _ \<Rightarrow> (SAVVY_ERR_PROTOCOL, cleared)))"

definition savvy_ipc_envelope_build :: "string option \<Rightarrow> string option \<Rightarrow> bool \<Rightarrow> string result" where
  "savvy_ipc_envelope_build action payload_json out_null =
     (case (action, payload_json) of
        (Some a, Some p) \<Rightarrow>
          if a = [] \<or> out_null then Inl SAVVY_ERR_INVALID_ARGUMENT
          else case savvy_json_parse (Some (p @ [CHR 0x00])) (length p) False of
                 Inl _ \<Rightarrow> Inl SAVVY_ERR_INVALID_ARGUMENT
               | Inr payload_node \<Rightarrow>
                   if \<not> cJSON_IsObject payload_node then Inl SAVVY_ERR_INVALID_ARGUMENT
                   else
                     (case Option.bind (cJSON_AddItemToObject cJSON_CreateObject ''action'' (cJSON_CreateString a))
                             (\<lambda>tree. cJSON_AddItemToObject tree ''payload'' payload_node) of
                        None \<Rightarrow> Inl SAVVY_ERR_OUT_OF_MEMORY
                      | Some tree \<Rightarrow>
                          (case cJSON_PrintUnformatted tree of
                             None \<Rightarrow> Inl SAVVY_ERR_OUT_OF_MEMORY
                           | Some text \<Rightarrow>
                               if length text > SAVVY_IPC_MAX_MESSAGE then Inl SAVVY_ERR_OVERFLOW
                               else Inr text))
      | _ \<Rightarrow> Inl SAVVY_ERR_INVALID_ARGUMENT)"

definition savvy_ipc_envelope_free :: "savvy_ipc_envelope option \<Rightarrow> savvy_ipc_envelope option" where
  "savvy_ipc_envelope_free env = map_option (\<lambda>e. e\<lparr>env_action := None, env_payload_json := None\<rparr>) env"

section \<open>Catalog lemmas\<close>

lemma catalog_actions_distinct: "distinct (map entry_action CATALOG)"
  by (simp add: CATALOG_def catalog_entry_of_def)

lemma find_entry_iff: "find_entry (Some a) = Some e \<longleftrightarrow> e \<in> set CATALOG \<and> entry_action e = a"
proof
  assume "find_entry (Some a) = Some e"
  then show "e \<in> set CATALOG \<and> entry_action e = a" by (auto simp: find_entry_def find_Some_iff)
next
  assume e: "e \<in> set CATALOG \<and> entry_action e = a"
  then obtain e' where e': "find_entry (Some a) = Some e'"
    by (cases "find_entry (Some a)") (auto simp: find_entry_def find_None_iff)
  then have "e' \<in> set CATALOG \<and> entry_action e' = a" by (auto simp: find_entry_def find_Some_iff)
  with e e' show "find_entry (Some a) = Some e"
    using catalog_actions_distinct by (auto simp: distinct_map inj_on_def)
qed

text \<open>
  The direction of an action is in its name. Every action whose name starts with
  \<^verbatim>\<open>com.uniuni.savvysensor.\<close> that the catalog knows is sent by the manager, and every other
  known one starts with \<^verbatim>\<open>com.uniuni.savvymgr.\<close> and is sent by the sensor; no name occurs
  twice in the catalog.
\<close>

theorem ipc_direction_follows_prefix:
  assumes "savvy_ipc_action_known (Some a)"
  shows "(\<exists>!i. i < length CATALOG \<and> entry_action (CATALOG ! i) = a)
     \<and> (if take 23 a = ''com.uniuni.savvysensor.''
        then savvy_ipc_action_direction (Some a) = SAVVY_IPC_MGR_TO_SENSOR
        else take 20 a = ''com.uniuni.savvymgr.'' \<and> savvy_ipc_action_direction (Some a) = SAVVY_IPC_SENSOR_TO_MGR)"
proof -
  obtain e where f: "find_entry (Some a) = Some e" using assms by (auto simp: savvy_ipc_action_known_def)
  then have e: "e \<in> set CATALOG" "entry_action e = a" by (simp_all add: find_entry_iff)
  then have "list_all (\<lambda>e. if take 23 (entry_action e) = ''com.uniuni.savvysensor.''
        then entry_direction e = SAVVY_IPC_MGR_TO_SENSOR
        else take 20 (entry_action e) = ''com.uniuni.savvymgr.'' \<and> entry_direction e = SAVVY_IPC_SENSOR_TO_MGR) CATALOG"
    by (simp add: CATALOG_def catalog_entry_of_def)
  moreover have "\<exists>!i. i < length CATALOG \<and> entry_action (CATALOG ! i) = a"
  proof -
    have "a \<in> set (map entry_action CATALOG)" using e by auto
    then have "\<exists>!i. i < length (map entry_action CATALOG) \<and> map entry_action CATALOG ! i = a"
      by (rule distinct_Ex1 [OF catalog_actions_distinct])
    then show ?thesis by (simp cong: conj_cong)
  qed
  ultimately show ?thesis using e f by (fastforce simp: list_all_iff savvy_ipc_action_direction_def)
qed

theorem ipc_direction_follows_prefix_witness:
  "savvy_ipc_action_direction (Some ''com.uniuni.savvymgr.ipc.connect'') = SAVVY_IPC_SENSOR_TO_MGR"
proof -
  have "savvy_ipc_action_known (Some ''com.uniuni.savvymgr.ipc.connect'')"
    by (simp add: savvy_ipc_action_known_def find_entry_def CATALOG_def catalog_entry_of_def)
  from ipc_direction_follows_prefix [OF this] show ?thesis by simp
qed

section \<open>Payload validation\<close>

text \<open>What the catalog demands of one key of an object.\<close>

definition key_satisfied :: "cJSON \<Rightarrow> catalog_key \<Rightarrow> bool" where
  "key_satisfied tree key \<longleftrightarrow>
     (case cJSON_GetObjectItemCaseSensitive tree (key_name key) of
        None \<Rightarrow> \<not> key_required key
      | Some cJSON_NULL \<Rightarrow> key_nullable key
      | Some item \<Rightarrow>
          (case key_type key of
             VT_OBJECT \<Rightarrow> \<exists>ms. item = cJSON_Object ms
           | VT_STRING \<Rightarrow> \<exists>s. item = cJSON_String s
           | VT_NUMBER \<Rightarrow> \<exists>n. int32_range n \<and> item = cJSON_Number (Fin (of_int n))))"

lemma value_matches_type_iff:
  "value_matches_type item ty \<longleftrightarrow>
     (case ty of
        VT_OBJECT \<Rightarrow> \<exists>ms. item = cJSON_Object ms
      | VT_STRING \<Rightarrow> \<exists>s. item = cJSON_String s
      | VT_NUMBER \<Rightarrow> \<exists>n. int32_range n \<and> item = cJSON_Number (Fin (of_int n)))"
proof (cases ty)
  case VT_NUMBER
  have "(\<exists>n. savvy_json_number_to_int32 (Some item) = Inr n)
      \<longleftrightarrow> (\<exists>n. int32_range n \<and> item = cJSON_Number (Fin (of_int n)))"
  proof
    assume "\<exists>n. savvy_json_number_to_int32 (Some item) = Inr n"
    then obtain n where n: "savvy_json_number_to_int32 (Some item) = Inr n" ..
    with number_to_int32_value [OF n] show "\<exists>n. int32_range n \<and> item = cJSON_Number (Fin (of_int n))"
      by (intro exI [of _ n]) simp
  qed (use number_to_int32_of_int in auto)
  then show ?thesis by (auto simp: VT_NUMBER value_matches_type_def split: sum.splits)
qed (cases item; simp add: value_matches_type_def)+

lemma validate_keys_iff:
  "validate_keys tree ks = (if list_all (key_satisfied tree) ks then SAVVY_OK else SAVVY_ERR_PROTOCOL)"
proof (induction ks)
  case (Cons k ks)
  show ?case
  proof (cases "cJSON_GetObjectItemCaseSensitive tree (key_name k)")
    case (Some item)
    show ?thesis
    proof (cases "item = cJSON_NULL")
      case False
      then have "\<not> cJSON_IsNull item" by (cases item) simp_all
      moreover have "key_satisfied tree k \<longleftrightarrow> value_matches_type item (key_type k)"
        using False Some by (cases item) (simp_all add: key_satisfied_def value_matches_type_iff)
      ultimately show ?thesis using Cons Some by simp
    qed (use Cons Some in \<open>simp add: key_satisfied_def\<close>)
  qed (use Cons in \<open>simp add: key_satisfied_def\<close>)
qed simp

text \<open>
  Payload validation decides the catalog. A payload is accepted for an action exactly when
  the catalog lists the action, the text is a strict JSON object, and every key of the entry is
  satisfied: a required key is present, a \<^verbatim>\<open>null\<close> only where the key is nullable, and any other
  value has the declared type, where a number means an integer of 32 bits. Every other payload
  is \<^verbatim>\<open>SAVVY_ERR_PROTOCOL\<close>.
\<close>

theorem ipc_validate_payload_decides_catalog:
  assumes "CHR 0x00 \<notin> set p"
  shows "savvy_ipc_action_validate_payload (Some a) (Some p) =
     (if \<exists>e ms. e \<in> set CATALOG \<and> entry_action e = a
           \<and> cJSON_ParseWithOpts p True = Some (cJSON_Object ms) \<and> strict_tree (cJSON_Object ms)
           \<and> list_all (key_satisfied (cJSON_Object ms)) (payload_keys e)
      then SAVVY_OK else SAVVY_ERR_PROTOCOL)"
proof -
  have parse: "savvy_json_parse (Some (p @ [CHR 0x00])) (length p) False =
     (case cJSON_ParseWithOpts p True of
        None \<Rightarrow> Inl SAVVY_ERR_PROTOCOL
      | Some v \<Rightarrow> if strict_tree v then Inr v else Inl SAVVY_ERR_PROTOCOL)"
    using json_parse_terminated [OF terminated_text, of p "[]"] assms by simp
  show ?thesis
  proof (cases "find_entry (Some a)")
    case None
    then have "\<nexists>e. e \<in> set CATALOG \<and> entry_action e = a" by (metis find_entry_iff option.distinct(1))
    then show ?thesis by (auto simp: savvy_ipc_action_validate_payload_def None)
  next
    case (Some e)
    then have e: "e' \<in> set CATALOG \<and> entry_action e' = a \<longleftrightarrow> e' = e" for e' by (metis find_entry_iff option.inject)
    show ?thesis
    proof (cases "cJSON_ParseWithOpts p True")
      case (Some v)
      have ex: "(\<exists>e' ms. e' \<in> set CATALOG \<and> entry_action e' = a \<and> P e' ms) \<longleftrightarrow> (\<exists>ms. P e ms)" for P
        using e by metis
      show ?thesis
        unfolding ex using Some by (cases v) (simp_all add: savvy_ipc_action_validate_payload_def
            \<open>find_entry (Some a) = Some e\<close> parse validate_keys_iff)
    qed (simp add: savvy_ipc_action_validate_payload_def \<open>find_entry (Some a) = Some e\<close> parse)
  qed
qed

section \<open>The envelope on the wire\<close>

lemma valid_utf8_names: "valid_utf8 ''action''" "valid_utf8 ''payload''"
  by (rule ascii_valid_utf8, simp add: ascii_def)+

text \<open>Without formatting the depth does not show in the text.\<close>

lemma print_unformatted_depth:
  "\<not> fmt \<Longrightarrow> json_text fmt d v = json_text fmt e v"
  "\<not> fmt \<Longrightarrow> elements_json fmt d vs = elements_json fmt e vs"
  "\<not> fmt \<Longrightarrow> members_json fmt d ms = members_json fmt e ms"
proof (induction fmt d v and fmt d vs and fmt d ms arbitrary: e and e and e
    rule: json_text_elements_json_members_json.induct)
  case (9 fmt d v vs)
  have v: "json_text fmt e v = json_text fmt d v" by (rule 9(1) [OF 9(3), symmetric])
  show ?case
  proof (cases "json_text fmt d v")
    case (Some t)
    have vs: "elements_json fmt e vs = elements_json fmt d vs" by (rule 9(2) [OF Some 9(3), symmetric])
    show ?thesis unfolding elements_json.simps v vs ..
  qed (simp only: elements_json.simps v option.case)
next
  case (11 fmt d name v ms)
  have v: "json_text fmt e v = json_text fmt d v" by (rule 11(1) [OF 11(3), symmetric])
  show ?case
  proof (cases "json_text fmt d v")
    case (Some t)
    have ms: "members_json fmt e ms = members_json fmt d ms" by (rule 11(2) [OF Some 11(3), symmetric])
    show ?thesis unfolding members_json.simps v ms using 11(3) by simp
  qed (simp only: members_json.simps v option.case)
qed (auto intro: arg_cong)

lemma envelope_tree_ok:
  assumes "json_ok n (cJSON_Object ms)" and "CHR 0x00 \<notin> set a"
    and "strict_tree (cJSON_Object ms)" and "valid_utf8 a"
  shows "json_ok (Suc n) (cJSON_Object [(''action'', cJSON_String a), (''payload'', cJSON_Object ms)])"
    and "strict_tree (cJSON_Object [(''action'', cJSON_String a), (''payload'', cJSON_Object ms)])"
proof -
  show "json_ok (Suc n) (cJSON_Object [(''action'', cJSON_String a), (''payload'', cJSON_Object ms)])"
    using assms(1,2) by simp
  show "strict_tree (cJSON_Object [(''action'', cJSON_String a), (''payload'', cJSON_Object ms)])"
    using assms(3,4) valid_utf8_names by (simp add: strict_tree_def)
qed

lemma envelope_text:
  assumes "json_text False 1 v = Some body"
  shows "json_text False 0 (cJSON_Object [(''action'', cJSON_String a), (''payload'', v)]) =
     Some (CHR ''{'' # CHR 0x22 # ''action'' @ [CHR 0x22, CHR '':''] @ print_string_ptr a @
           CHR '','' # CHR 0x22 # ''payload'' @ [CHR 0x22, CHR '':''] @ body @ ''}'')"
proof -
  have "print_string_ptr ''action'' = CHR 0x22 # ''action'' @ [CHR 0x22]"
    "print_string_ptr ''payload'' = CHR 0x22 # ''payload'' @ [CHR 0x22]"
    by (simp_all add: print_string_ptr_def escape_char_def)
  then show ?thesis using assms by simp
qed

lemma json_parse_c_string_strict:
  assumes "savvy_json_parse (Some (p @ [CHR 0x00])) (length p) False = Inr v"
  shows "strict_tree v"
proof -
  have "CHR 0x00 \<notin> set p" using assms by (auto simp: savvy_json_parse_def split: if_splits)
  then show ?thesis
    using assms json_parse_terminated [OF terminated_text, of p "[]"] by (auto split: option.splits if_splits)
qed

text \<open>The text of a built envelope, and what comes out of it again.\<close>

lemma envelope_wire:
  assumes "a \<noteq> []" and "CHR 0x00 \<notin> set a" and "valid_utf8 a"
    and "savvy_json_parse (Some (p @ [CHR 0x00])) (length p) False = Inr (cJSON_Object ms)"
    and "json_ok (CJSON_NESTING_LIMIT - 1) (cJSON_Object ms)"
  obtains body msg where "json_text False 0 (cJSON_Object ms) = Some body"
    and "msg = CHR ''{'' # CHR 0x22 # ''action'' @ [CHR 0x22, CHR '':''] @ print_string_ptr a @
            CHR '','' # CHR 0x22 # ''payload'' @ [CHR 0x22, CHR '':''] @ body @ ''}''"
    and "savvy_ipc_envelope_build (Some a) (Some p) False =
         (if length msg + 2 > nat INT32_MAX then Inl SAVVY_ERR_OUT_OF_MEMORY
          else if length msg > SAVVY_IPC_MAX_MESSAGE then Inl SAVVY_ERR_OVERFLOW else Inr msg)"
    and "length body + 2 \<le> nat INT32_MAX \<Longrightarrow> cJSON_PrintUnformatted (cJSON_Object ms) = Some body"
    and "\<And>junk old. savvy_ipc_envelope_parse (Some (msg @ CHR 0x00 # junk)) (length msg) (Some old)
       = (if length body + 2 \<le> nat INT32_MAX
          then (SAVVY_OK, Some \<lparr>env_action = Some a, env_payload_json = Some body\<rparr>)
          else (SAVVY_ERR_OUT_OF_MEMORY, Some \<lparr>env_action = None, env_payload_json = None\<rparr>))"
    and "savvy_json_parse (Some (body @ [CHR 0x00])) (length body) False = Inr (cJSON_Object ms)"
proof -
  let ?env = "cJSON_Object [(''action'', cJSON_String a), (''payload'', cJSON_Object ms)]"
  have strict: "strict_tree (cJSON_Object ms)" by (rule json_parse_c_string_strict [OF assms(4)])
  have ok: "json_ok CJSON_NESTING_LIMIT ?env" and env_strict: "strict_tree ?env"
    using envelope_tree_ok [OF assms(5,2) strict assms(3)] by (simp_all add: CJSON_NESTING_LIMIT_def numeral_eq_Suc)
  have ok_payload: "json_ok CJSON_NESTING_LIMIT (cJSON_Object ms)" by (rule json_ok_mono [OF assms(5)]) simp
  obtain body where body: "json_text False 0 (cJSON_Object ms) = Some body"
    using json_text_total [OF ok_payload] by blast
  have body1: "json_text False 1 (cJSON_Object ms) = Some body"
    using body print_unformatted_depth(1) [of False 0 "cJSON_Object ms" 1] by metis
  define msg where "msg = CHR ''{'' # CHR 0x22 # ''action'' @ [CHR 0x22, CHR '':''] @ print_string_ptr a @
            CHR '','' # CHR 0x22 # ''payload'' @ [CHR 0x22, CHR '':''] @ body @ ''}''"
  have msg: "json_text False 0 ?env = Some msg"
    unfolding msg_def by (rule envelope_text [OF body1])
  have print: "cJSON_PrintUnformatted v = (if length t + 2 \<le> nat INT32_MAX then Some t else None)"
    if "json_text False 0 v = Some t" for v t
    using that by (simp add: cJSON_PrintUnformatted_def print_is_text)
  have "savvy_ipc_envelope_build (Some a) (Some p) False =
         (if length msg + 2 > nat INT32_MAX then Inl SAVVY_ERR_OUT_OF_MEMORY
          else if length msg > SAVVY_IPC_MAX_MESSAGE then Inl SAVVY_ERR_OVERFLOW else Inr msg)"
    using assms(1,4) print [OF msg]
    by (simp add: savvy_ipc_envelope_build_def cJSON_CreateObject_def cJSON_CreateString_def)
  moreover have "savvy_ipc_envelope_parse (Some (msg @ CHR 0x00 # junk)) (length msg) (Some old)
       = (if length body + 2 \<le> nat INT32_MAX
          then (SAVVY_OK, Some \<lparr>env_action = Some a, env_payload_json = Some body\<rparr>)
          else (SAVVY_ERR_OUT_OF_MEMORY, Some \<lparr>env_action = None, env_payload_json = None\<rparr>))" for junk old
    using json_parse_of_text(2) [OF ok env_strict msg, of junk] assms(1) print [OF body]
    by (simp add: savvy_ipc_envelope_parse_def)
  ultimately show thesis
    using that [OF body msg_def] print [OF body] json_parse_of_text(2) [OF ok_payload strict body, of "[]"] by presburger
qed

text \<open>A message that was built is within every limit, and a short one is built.\<close>

lemma envelope_built:
  assumes "CHR 0x00 \<notin> set a" and "valid_utf8 a"
    and "savvy_json_parse (Some (p @ [CHR 0x00])) (length p) False = Inr (cJSON_Object ms)"
    and "json_ok (CJSON_NESTING_LIMIT - 1) (cJSON_Object ms)"
    and "savvy_ipc_envelope_build (Some a) (Some p) False = Inr msg"
  obtains body where "cJSON_PrintUnformatted (cJSON_Object ms) = Some body"
    and "msg = CHR ''{'' # CHR 0x22 # ''action'' @ [CHR 0x22, CHR '':''] @ print_string_ptr a @
            CHR '','' # CHR 0x22 # ''payload'' @ [CHR 0x22, CHR '':''] @ body @ ''}''"
    and "\<And>junk old. savvy_ipc_envelope_parse (Some (msg @ CHR 0x00 # junk)) (length msg) (Some old)
       = (SAVVY_OK, Some \<lparr>env_action = Some a, env_payload_json = Some body\<rparr>)"
    and "savvy_json_parse (Some (body @ [CHR 0x00])) (length body) False = Inr (cJSON_Object ms)"
proof -
  have "a \<noteq> []" using assms(5) by (auto simp: savvy_ipc_envelope_build_def)
  then obtain body msg' where "json_text False 0 (cJSON_Object ms) = Some body"
    and msg': "msg' = CHR ''{'' # CHR 0x22 # ''action'' @ [CHR 0x22, CHR '':''] @ print_string_ptr a @
            CHR '','' # CHR 0x22 # ''payload'' @ [CHR 0x22, CHR '':''] @ body @ ''}''"
    and build: "savvy_ipc_envelope_build (Some a) (Some p) False =
         (if length msg' + 2 > nat INT32_MAX then Inl SAVVY_ERR_OUT_OF_MEMORY
          else if length msg' > SAVVY_IPC_MAX_MESSAGE then Inl SAVVY_ERR_OVERFLOW else Inr msg')"
    and print: "length body + 2 \<le> nat INT32_MAX \<Longrightarrow> cJSON_PrintUnformatted (cJSON_Object ms) = Some body"
    and parse: "\<And>junk old. savvy_ipc_envelope_parse (Some (msg' @ CHR 0x00 # junk)) (length msg') (Some old)
       = (if length body + 2 \<le> nat INT32_MAX
          then (SAVVY_OK, Some \<lparr>env_action = Some a, env_payload_json = Some body\<rparr>)
          else (SAVVY_ERR_OUT_OF_MEMORY, Some \<lparr>env_action = None, env_payload_json = None\<rparr>))"
    and again: "savvy_json_parse (Some (body @ [CHR 0x00])) (length body) False = Inr (cJSON_Object ms)"
    by (rule envelope_wire [OF _ assms(1-4)]) (rule that; assumption)
  have "msg' = msg" "length msg' + 2 \<le> nat INT32_MAX" using build assms(5) by (simp_all split: if_splits)
  moreover have "length body \<le> length msg'" by (simp add: msg')
  ultimately have "length body + 2 \<le> nat INT32_MAX" by simp
  then show thesis using that [OF print] msg' parse again \<open>msg' = msg\<close> by simp
qed

lemma envelope_build_short:
  assumes "a \<noteq> []" and "CHR 0x00 \<notin> set a" and "valid_utf8 a"
    and "savvy_json_parse (Some (p @ [CHR 0x00])) (length p) False = Inr (cJSON_Object ms)"
    and "json_ok (CJSON_NESTING_LIMIT - 1) (cJSON_Object ms)"
    and "cJSON_PrintUnformatted (cJSON_Object ms) = Some body"
    and msg: "msg = CHR ''{'' # CHR 0x22 # ''action'' @ [CHR 0x22, CHR '':''] @ print_string_ptr a @
            CHR '','' # CHR 0x22 # ''payload'' @ [CHR 0x22, CHR '':''] @ body @ ''}''"
    and "length msg \<le> SAVVY_IPC_MAX_MESSAGE"
  shows "savvy_ipc_envelope_build (Some a) (Some p) False = Inr msg"
proof (rule envelope_wire [OF assms(1-5)])
  fix body' msg'
  assume body': "json_text False 0 (cJSON_Object ms) = Some body'"
    and msg': "msg' = CHR ''{'' # CHR 0x22 # ''action'' @ [CHR 0x22, CHR '':''] @ print_string_ptr a @
            CHR '','' # CHR 0x22 # ''payload'' @ [CHR 0x22, CHR '':''] @ body' @ ''}''"
    and build: "savvy_ipc_envelope_build (Some a) (Some p) False =
         (if length msg' + 2 > nat INT32_MAX then Inl SAVVY_ERR_OUT_OF_MEMORY
          else if length msg' > SAVVY_IPC_MAX_MESSAGE then Inl SAVVY_ERR_OVERFLOW else Inr msg')"
  have "body' = body" using body' assms(6) unfolding printed_text by (metis option.inject)
  then have "msg' = msg" unfolding msg msg' by (rule arg_cong)
  then show ?thesis using build assms(8) by (simp add: INT32_MAX_room SAVVY_IPC_MAX_MESSAGE_def)
qed

text \<open>
  C27: messages survive the wire. Take a non-empty action that is UTF-8 without NUL and a payload
  text that the strict parser reads as an object whose numbers are 32-bit integers and whose
  nesting is at most \<^verbatim>\<open>CJSON_NESTING_LIMIT - 1\<close> (the envelope adds a level).
  \<^verbatim>\<open>savvy_ipc_envelope_build\<close> then writes \<^verbatim>\<open>{"action":...,"payload":...}\<close> when that text has at most
  \<^verbatim>\<open>SAVVY_IPC_MAX_MESSAGE\<close> bytes, reports \<^verbatim>\<open>SAVVY_ERR_OVERFLOW\<close> when it is longer, and
  \<^verbatim>\<open>SAVVY_ERR_OUT_OF_MEMORY\<close> when it is too long for cJSON to print at all. Parsing a message that was
  built gives back the action and the payload in unformatted form, which again parses to the
  same object.
\<close>

theorem ipc_envelope_roundtrip:
  assumes "a \<noteq> []" and "CHR 0x00 \<notin> set a" and "valid_utf8 a"
    and "savvy_json_parse (Some (p @ [CHR 0x00])) (length p) False = Inr (cJSON_Object ms)"
    and "json_ok (CJSON_NESTING_LIMIT - 1) (cJSON_Object ms)"
  shows "\<exists>body text. json_text False 0 (cJSON_Object ms) = Some body
     \<and> text = CHR ''{'' # CHR 0x22 # ''action'' @ [CHR 0x22, CHR '':''] @ print_string_ptr a @
            CHR '','' # CHR 0x22 # ''payload'' @ [CHR 0x22, CHR '':''] @ body @ ''}''
     \<and> savvy_ipc_envelope_build (Some a) (Some p) False =
         (if length text + 2 > 2147483647 then Inl SAVVY_ERR_OUT_OF_MEMORY
          else if length text > SAVVY_IPC_MAX_MESSAGE then Inl SAVVY_ERR_OVERFLOW else Inr text)
     \<and> (length text \<le> SAVVY_IPC_MAX_MESSAGE \<longrightarrow>
          savvy_ipc_envelope_parse (Some (text @ CHR 0x00 # junk)) (length text) (Some old)
          = (SAVVY_OK, Some \<lparr>env_action = Some a, env_payload_json = Some body\<rparr>))
     \<and> savvy_json_parse (Some (body @ [CHR 0x00])) (length body) False = Inr (cJSON_Object ms)"
proof (rule envelope_wire [OF assms])
  fix body msg
  assume w: "json_text False 0 (cJSON_Object ms) = Some body"
    "msg = CHR ''{'' # CHR 0x22 # ''action'' @ [CHR 0x22, CHR '':''] @ print_string_ptr a @
            CHR '','' # CHR 0x22 # ''payload'' @ [CHR 0x22, CHR '':''] @ body @ ''}''"
    "savvy_ipc_envelope_build (Some a) (Some p) False =
         (if length msg + 2 > nat INT32_MAX then Inl SAVVY_ERR_OUT_OF_MEMORY
          else if length msg > SAVVY_IPC_MAX_MESSAGE then Inl SAVVY_ERR_OVERFLOW else Inr msg)"
    "savvy_json_parse (Some (body @ [CHR 0x00])) (length body) False = Inr (cJSON_Object ms)"
    and parse: "\<And>junk old. savvy_ipc_envelope_parse (Some (msg @ CHR 0x00 # junk)) (length msg) (Some old)
       = (if length body + 2 \<le> nat INT32_MAX
          then (SAVVY_OK, Some \<lparr>env_action = Some a, env_payload_json = Some body\<rparr>)
          else (SAVVY_ERR_OUT_OF_MEMORY, Some \<lparr>env_action = None, env_payload_json = None\<rparr>))"
  have "length body + 2 \<le> nat INT32_MAX" if "length msg \<le> SAVVY_IPC_MAX_MESSAGE"
    using that by (simp add: w(2) INT32_MAX_room SAVVY_IPC_MAX_MESSAGE_def)
  then have "length msg \<le> SAVVY_IPC_MAX_MESSAGE \<longrightarrow>
      savvy_ipc_envelope_parse (Some (msg @ CHR 0x00 # junk)) (length msg) (Some old)
      = (SAVVY_OK, Some \<lparr>env_action = Some a, env_payload_json = Some body\<rparr>)"
    by (simp add: parse)
  then show ?thesis using w unfolding INT32_MAX_room by blast
qed

theorem ipc_envelope_roundtrip_witness:
  "\<exists>text. savvy_ipc_envelope_build (Some ''a'') (Some ''{}'') False = Inr text
    \<and> savvy_ipc_envelope_parse (Some (text @ [CHR 0x00])) (length text)
        (Some \<lparr>env_action = None, env_payload_json = None\<rparr>)
      = (SAVVY_OK, Some \<lparr>env_action = Some ''a'', env_payload_json = Some ''{}''\<rparr>)"
proof -
  have ok: "json_ok (CJSON_NESTING_LIMIT - 1) (cJSON_Object [])" by (simp add: CJSON_NESTING_LIMIT_def numeral_eq_Suc)
  have parse: "savvy_json_parse (Some (''{}'' @ [CHR 0x00])) (length ''{}'') False = Inr (cJSON_Object [])"
    using print_empty_object by (intro json_parse_printed(2)) (simp_all add: strict_tree_def json_ok_mono [OF ok])
  have printed: "json_text False 0 (cJSON_Object []) = Some ''{}''" by simp
  have "valid_utf8 ''a''" by (rule ascii_valid_utf8) (simp add: ascii_def)
  from ipc_envelope_roundtrip [OF _ _ this parse ok, of "[]" "\<lparr>env_action = None, env_payload_json = None\<rparr>"]
  show ?thesis
    unfolding printed option.inject by (auto simp: SAVVY_IPC_MAX_MESSAGE_def print_string_ptr_def escape_char_def)
qed

theorem ipc_validate_payload_decides_catalog_witness:
  "savvy_ipc_action_validate_payload (Some ''com.uniuni.savvymgr.tof.property'') (Some ''{}'') = SAVVY_OK
   \<and> savvy_ipc_action_validate_payload (Some ''nonsense'') (Some ''{}'') = SAVVY_ERR_PROTOCOL"
proof -
  let ?e = "catalog_entry_of ''com.uniuni.savvymgr.tof.property'' SAVVY_IPC_SENSOR_TO_MGR TOF_PROP_KEYS"
  have ok: "json_ok CJSON_NESTING_LIMIT (cJSON_Object [])" by (simp add: CJSON_NESTING_LIMIT_def numeral_eq_Suc)
  have "cJSON_PrintUnformatted (cJSON_Object []) = Some ''{}''" by (rule print_empty_object)
  then have parse: "cJSON_ParseWithOpts ''{}'' True = Some (cJSON_Object [])" by (rule json_parse_text [OF ok])
  have "?e \<in> set CATALOG" "entry_action ?e = ''com.uniuni.savvymgr.tof.property''"
    by (simp_all add: CATALOG_def catalog_entry_of_def)
  moreover have "list_all (key_satisfied (cJSON_Object [])) (payload_keys ?e)"
    by (simp add: catalog_entry_of_def TOF_PROP_KEYS_def key_satisfied_def)
  moreover have "\<nexists>e. e \<in> set CATALOG \<and> entry_action e = ''nonsense''"
  proof -
    have "''nonsense'' \<notin> set (map entry_action CATALOG)" by (simp add: CATALOG_def catalog_entry_of_def)
    then show ?thesis by (force simp: image_iff)
  qed
  ultimately show ?thesis
    using parse ipc_validate_payload_decides_catalog [of "''{}''" "''com.uniuni.savvymgr.tof.property''"]
      ipc_validate_payload_decides_catalog [of "''{}''" "''nonsense''"]
    by (auto simp: strict_tree_def)
qed

end
