(* ===== verification/Result_Policy.thy ===== *)
theory Result_Policy
  imports Data_Result
begin

text \<open>
  \<^verbatim>\<open>src/features/result_policy/result_policy.c\<close>: what a response body from the streaming server means.
  The server writes \<^verbatim>\<open>{result:4}\<close> with a bare key, so the policy quotes exactly that key before the
  strict codec reads the body. On the stream channel a run of abnormal results raises the alert
  once it reaches the threshold; on the voice channel every abnormal result does. The 32-bit
  counter wraps, and calls of the alert callback are listed as the channel letters passed to it.
\<close>

section \<open>Finding the bare key\<close>

definition is_ws :: "char \<Rightarrow> bool" where
  "is_ws c \<longleftrightarrow> c = CHR '' '' \<or> c = CHR 0x09 \<or> c = CHR 0x0A \<or> c = CHR 0x0D"

function skip_ws :: "string \<Rightarrow> nat \<Rightarrow> nat" where
  "skip_ws body i = (if i < length body \<and> is_ws (body ! i) then skip_ws body (i + 1) else i)"
  by pat_completeness auto

termination
  by (relation "measure (\<lambda>(body, i). length body - i)") auto

declare skip_ws.simps [simp del]

text \<open>The start and the end of the key, when the body begins \<^verbatim>\<open><ws>{<ws>result<ws>:\<close>.\<close>

definition find_unquoted_result_key :: "string \<Rightarrow> (nat \<times> nat) option" where
  "find_unquoted_result_key body =
     (let i = skip_ws body 0
      in if i \<ge> length body \<or> body ! i \<noteq> CHR ''{'' then None
         else
           let i = skip_ws body (i + 1); key_len = length ''result''
           in if key_len > length body - i \<or> take key_len (drop i body) \<noteq> ''result'' then None
              else
                let key_start = i; key_end = i + key_len; i = skip_ws body key_end
                in if i \<ge> length body \<or> body ! i \<noteq> CHR '':'' then None
                   else Some (key_start, key_end))"

text \<open>The owned, terminated copy handed to the codec, and its length.\<close>

definition make_parser_input :: "string \<Rightarrow> bool \<Rightarrow> (string \<times> nat) result" where
  "make_parser_input body malloc_ok =
     (let key = find_unquoted_result_key body;
          extra = (if key = None then 0 else 2)
      in if length body > SIZE_MAX - extra - 1 then Inl SAVVY_ERR_OVERFLOW
         else if \<not> malloc_ok then Inl SAVVY_ERR_OUT_OF_MEMORY
         else
           let text = (case key of
                 Some (key_start, key_end) \<Rightarrow>
                   take key_start body @ [CHR 0x22] @ take (key_end - key_start) (drop key_start body)
                   @ [CHR 0x22] @ drop key_end body
               | None \<Rightarrow> body)
           in Inr (text @ [CHR 0x00], length body + extra))"

section \<open>The policy\<close>

datatype sensor_result_channel_role = SENSOR_RESULT_ROLE_STREAM | SENSOR_RESULT_ROLE_VOICE

record sensor_result_policy =
  rp_role :: sensor_result_channel_role
  rp_danger_count_threshold :: u32
  rp_danger_count :: u32
  rp_on_alert :: bool  \<comment> \<open>whether a callback is set\<close>

definition sensor_result_policy_create ::
  "bool \<Rightarrow> sensor_result_channel_role \<Rightarrow> u32 \<Rightarrow> bool \<Rightarrow> bool \<Rightarrow> sensor_result_policy result" where
  "sensor_result_policy_create out_null role threshold on_alert calloc_ok =
     (if out_null then Inl SAVVY_ERR_INVALID_ARGUMENT
      else if role = SENSOR_RESULT_ROLE_STREAM \<and> threshold = 0 then Inl SAVVY_ERR_INVALID_ARGUMENT
      else if \<not> calloc_ok then Inl SAVVY_ERR_OUT_OF_MEMORY
      else Inr \<lparr>rp_role = role, rp_danger_count_threshold = threshold, rp_danger_count = 0, rp_on_alert = on_alert\<rparr>)"

definition sensor_result_policy_reset :: "sensor_result_policy option \<Rightarrow> sensor_result_policy option" where
  "sensor_result_policy_reset policy = map_option (\<lambda>p. p\<lparr>rp_danger_count := 0\<rparr>) policy"

text \<open>
  One response. The result struct is uninitialised in C; every successful parse stores it, so
  its initial value here is immaterial.
\<close>

definition sensor_result_policy_on_response ::
  "sensor_result_policy option \<Rightarrow> string option \<Rightarrow> bool \<Rightarrow> sensor_result_policy option \<times> char list" where
  "sensor_result_policy_on_response policy body malloc_ok =
     (case policy of
        None \<Rightarrow> (policy, [])
      | Some p \<Rightarrow>
          (case body of
             None \<Rightarrow> (policy, [])
           | Some b \<Rightarrow>
               if b = [] then (policy, [])
               else case make_parser_input b malloc_ok of
                 Inl _ \<Rightarrow> (policy, [])
               | Inr (parser_text, parser_len) \<Rightarrow>
                   (case savvy_data_result_parse (Some parser_text) parser_len (Some \<lparr>dr_result = 0\<rparr>) of
                      (SAVVY_OK, Some dr) \<Rightarrow>
                        if rp_role p = SENSOR_RESULT_ROLE_STREAM then
                          if savvy_data_result_is_normal dr then (Some (p\<lparr>rp_danger_count := 0\<rparr>), [])
                          else
                            let p' = p\<lparr>rp_danger_count := rp_danger_count p + 1\<rparr>
                            in (Some p', if rp_danger_count p' \<ge> rp_danger_count_threshold p' \<and> rp_on_alert p'
                                         then [CHR ''S''] else [])
                        else (policy, if \<not> savvy_data_result_is_normal dr \<and> rp_on_alert p then [CHR ''V''] else [])
                    | _ \<Rightarrow> (policy, []))))"

definition sensor_result_policy_danger_count :: "sensor_result_policy option \<Rightarrow> u32" where
  "sensor_result_policy_danger_count policy = (case policy of None \<Rightarrow> 0 | Some p \<Rightarrow> rp_danger_count p)"

definition sensor_result_policy_role :: "sensor_result_policy option \<Rightarrow> sensor_result_channel_role" where
  "sensor_result_policy_role policy = (case policy of None \<Rightarrow> SENSOR_RESULT_ROLE_STREAM | Some p \<Rightarrow> rp_role p)"

section \<open>The bodies the server sends\<close>

lemma skip_ws_run:
  assumes "list_all is_ws w" and "ys = [] \<or> \<not> is_ws (hd ys)"
  shows "skip_ws (pre @ w @ ys) (length pre) = length pre + length w"
  using assms(1)
proof (induction w arbitrary: pre)
  case Nil
  then show ?case using assms(2) by (cases ys) (simp_all add: skip_ws.simps)
next
  case (Cons c w)
  then show ?case using Cons.IH [of "pre @ [c]"] by (simp add: skip_ws.simps [of _ "length pre"])
qed

lemma is_ws_plain [simp]:
  "\<not> is_ws (CHR ''{'')" "\<not> is_ws (CHR '':'')" "\<not> is_ws (CHR ''r'')" "\<not> is_ws (CHR 0x22)"
  by (simp_all add: is_ws_def)

text \<open>\<^verbatim>\<open><ws>{<ws>result<ws>:\<close> is found where it stands; a body whose key is quoted is left alone.\<close>

lemma find_bare_key:
  assumes "list_all is_ws w0" "list_all is_ws w1" "list_all is_ws w2"
  shows "find_unquoted_result_key (w0 @ CHR ''{'' # w1 @ ''result'' @ w2 @ CHR '':'' # rest)
     = Some (length w0 + 1 + length w1, length w0 + 1 + length w1 + length ''result'')"
proof -
  define key where "key = ''result''"
  have key: "\<not> is_ws (hd (key @ ys))" for ys by (simp add: key_def)
  define body where "body = w0 @ CHR ''{'' # w1 @ key @ w2 @ CHR '':'' # rest"
  define i where "i = length w0 + 1 + length w1"
  have 0: "skip_ws body 0 = length w0"
    using skip_ws_run [OF assms(1), of "CHR ''{'' # w1 @ key @ w2 @ CHR '':'' # rest" "[]"] by (simp add: body_def)
  have 1: "skip_ws body (length w0 + 1) = i"
    using skip_ws_run [OF assms(2) disjI2 [OF key], of "w0 @ [CHR ''{'']"] by (simp add: body_def i_def)
  have 2: "skip_ws body (i + length key) = i + length key + length w2"
    using skip_ws_run [OF assms(3), of "CHR '':'' # rest" "w0 @ CHR ''{'' # w1 @ key"] by (simp add: body_def i_def ac_simps)
  have 3: "body ! length w0 = CHR ''{''" "take (length key) (drop i body) = key" "length key \<le> length body - i"
    by (simp_all add: body_def i_def)
  have 4: "i + length key + length w2 < length body" "body ! (i + length key + length w2) = CHR '':''"
    using nth_append_length [of "w0 @ CHR ''{'' # w1 @ key @ w2" "CHR '':''" rest]
    by (simp_all add: body_def i_def ac_simps)
  have "find_unquoted_result_key body = Some (i, i + length key)"
    using 0 1 2 3 4 unfolding find_unquoted_result_key_def Let_def key_def [symmetric] by (simp add: body_def)
  then show ?thesis by (simp only: body_def i_def key_def)
qed

lemma find_quoted_key:
  assumes "list_all is_ws w0" "list_all is_ws w1"
  shows "find_unquoted_result_key (w0 @ CHR ''{'' # w1 @ CHR 0x22 # rest) = None"
proof -
  let ?body = "w0 @ CHR ''{'' # w1 @ CHR 0x22 # rest"
  have 0: "skip_ws ?body 0 = length w0"
    using skip_ws_run [OF assms(1), of "CHR ''{'' # w1 @ CHR 0x22 # rest" "[]"] by simp
  have 1: "skip_ws ?body (length w0 + 1) = length w0 + 1 + length w1"
    using skip_ws_run [OF assms(2), of "CHR 0x22 # rest" "w0 @ [CHR ''{'']"] by simp
  show ?thesis using 0 1 unfolding find_unquoted_result_key_def Let_def by simp
qed

lemma print_result_key: "print_string_ptr ''result'' = CHR 0x22 # ''result'' @ [CHR 0x22]"
  by (simp add: print_string_ptr_def escape_char_def)

definition server_body :: "bool \<Rightarrow> string \<Rightarrow> string \<Rightarrow> string \<Rightarrow> string \<Rightarrow> string" where
  "server_body quoted w0 w1 w2 rest =
     w0 @ CHR ''{'' # w1 @ (if quoted then CHR 0x22 # ''result'' @ [CHR 0x22] else ''result'') @ w2 @ CHR '':'' # rest"

lemma parser_input_server_body:
  assumes "list_all is_ws w0" "list_all is_ws w1" "list_all is_ws w2"
    and "length (server_body quoted w0 w1 w2 rest) + 3 \<le> SIZE_MAX"
  shows "make_parser_input (server_body quoted w0 w1 w2 rest) True =
     Inr (server_body True w0 w1 w2 rest @ [CHR 0x00], length (server_body True w0 w1 w2 rest))"
proof (cases quoted)
  case True
  then show ?thesis
    using assms(4) find_quoted_key [OF assms(1,2), of "''result'' @ CHR 0x22 # w2 @ CHR '':'' # rest"]
    by (simp add: make_parser_input_def server_body_def)
next
  case False
  then show ?thesis
    using assms(4) find_bare_key [OF assms(1-3), of rest]
    by (simp add: make_parser_input_def server_body_def numeral_eq_Suc)
qed

lemma ws_blank: "is_ws c \<Longrightarrow> is_blank c"
  by (auto simp: is_ws_def is_blank_def)

lemma skip_blanks:
  assumes "list_all is_ws w" and "\<not> is_blank c"
  shows "buffer_skip_whitespace (w @ c # r) = c # r"
proof -
  have "dropWhile is_blank (w @ c # r) = c # r"
    using assms by (induction w) (auto simp: ws_blank)
  then show ?thesis by (simp add: buffer_skip_whitespace_def)
qed

lemma skip_blanks_end:
  assumes "list_all is_ws w"
  shows "buffer_skip_whitespace (w @ [CHR 0x00]) = [CHR 0x00]"
proof -
  have "dropWhile is_blank (w @ [CHR 0x00]) = []"
    using assms ws_blank by (auto simp: list_all_iff is_blank_def [of "CHR 0x00"])
  then show ?thesis by (simp add: buffer_skip_whitespace_def)
qed

text \<open>The parser reads a body with any white space around its tokens.\<close>

lemma parse_server_body:
  assumes "list_all is_ws w0" "list_all is_ws w1" "list_all is_ws w2" "list_all is_ws w3" "list_all is_ws w4"
    "list_all is_ws w5" and "int32_range n"
  shows "parse_value (Suc k) (CHR ''{'' # w1 @ print_string_ptr ''result'' @ w2 @ CHR '':'' # w3 @ string_of_int n
           @ w4 @ CHR ''}'' # r) = Some (cJSON_Object [(''result'', cJSON_Number (Fin (of_int n)))], r)"
proof -
  let ?tail = "w2 @ CHR '':'' # w3 @ string_of_int n @ w4 @ CHR ''}'' # r"
  have after: "w4 @ CHR ''}'' # r = [] \<or> \<not> is_number_char (hd (w4 @ CHR ''}'' # r))"
    using assms(5) by (cases w4) (auto simp: is_ws_def is_number_char_def is_digit_def)
  obtain c u where c: "string_of_int n = c # u" "c = CHR ''-'' \<or> is_digit c" by (rule string_of_int_first)
  then have nb: "\<not> is_blank c" by auto
  have "parse_members (parse_value k) (Suc m) (print_string_ptr ''result'' @ ?tail)
      = Some ([(''result'', cJSON_Number (Fin (of_int n)))], r)" for m
  proof -
    have "buffer_skip_whitespace (print_string_ptr ''result'' @ ?tail) = print_string_ptr ''result'' @ ?tail"
      by (simp add: print_result_key)
    moreover have "buffer_skip_whitespace (w3 @ string_of_int n @ w4 @ CHR ''}'' # r) = string_of_int n @ w4 @ CHR ''}'' # r"
      using skip_blanks [OF assms(4) nb] c(1) by simp
    ultimately show ?thesis
      using parse_print_string [of "''result''" ?tail] skip_blanks [OF assms(3), of "CHR '':''"]
        parse_value_int [OF assms(7) after, of k] skip_blanks [OF assms(5), of "CHR ''}''" r]
      by (simp add: print_result_key)
  qed
  moreover have "buffer_skip_whitespace (w1 @ print_string_ptr ''result'' @ ?tail) = print_string_ptr ''result'' @ ?tail"
    using skip_blanks [OF assms(2), of "CHR 0x22"] by (simp add: print_result_key)
  ultimately show ?thesis
    by (simp add: parse_value_brackets parse_object_def print_result_key del: parse_members.simps)
qed

lemma skip_bom_absent: "hd xs \<noteq> CHR 0xEF \<Longrightarrow> skip_utf8_bom xs = xs"
  by (cases xs) (simp_all add: skip_utf8_bom_def numeral_3_eq_3)

lemma parse_result_server_body:
  assumes "list_all is_ws w0" "list_all is_ws w1" "list_all is_ws w2" "list_all is_ws w3" "list_all is_ws w4"
    "list_all is_ws w5" and "int32_range n"
    and "t = server_body True w0 w1 w2 (w3 @ string_of_int n @ w4 @ CHR ''}'' # w5)"
  shows "savvy_data_result_parse (Some (t @ [CHR 0x00])) (length t) (Some dr) = (SAVVY_OK, Some (dr\<lparr>dr_result := n\<rparr>))"
proof -
  let ?obj = "cJSON_Object [(''result'', cJSON_Number (Fin (of_int n)))]"
  have "\<not> is_ws (CHR 0x00)" by (simp add: is_ws_def)
  then have ws_nul: "CHR 0x00 \<notin> set w" if "list_all is_ws w" for w using that by (auto simp: list_all_iff)
  have int_nul: "CHR 0x00 \<notin> set (string_of_int n)" using number_chars_of_int [of "CHR 0x00" n] by auto
  have nul: "CHR 0x00 \<notin> set t" using assms ws_nul int_nul by (simp add: server_body_def)
  have t: "t = w0 @ CHR ''{'' # w1 @ print_string_ptr ''result'' @ w2 @ CHR '':'' # w3 @ string_of_int n
           @ w4 @ CHR ''}'' # w5"
    using assms(8) by (simp add: server_body_def print_result_key)
  have "skip_utf8_bom (t @ [CHR 0x00]) = t @ [CHR 0x00]"
  proof (rule skip_bom_absent)
    have "hd (t @ [CHR 0x00]) = CHR ''{'' \<or> is_ws (hd (t @ [CHR 0x00]))"
      using assms(1) unfolding t by (cases w0) simp_all
    moreover have "\<not> is_ws (CHR 0xEF)" by (simp add: is_ws_def)
    ultimately show "hd (t @ [CHR 0x00]) \<noteq> CHR 0xEF" by auto
  qed
  moreover have "buffer_skip_whitespace (t @ [CHR 0x00])
      = CHR ''{'' # w1 @ print_string_ptr ''result'' @ w2 @ CHR '':'' # w3 @ string_of_int n @ w4 @ CHR ''}'' # (w5 @ [CHR 0x00])"
    using skip_blanks [OF assms(1), of "CHR ''{''"] by (simp add: t)
  moreover have "CJSON_NESTING_LIMIT = Suc 999" by (simp add: CJSON_NESTING_LIMIT_def)
  ultimately have "cJSON_ParseWithOpts (t @ [CHR 0x00]) True = Some ?obj"
    using parse_server_body [OF assms(1-7), of 999 "w5 @ [CHR 0x00]"] skip_blanks_end [OF assms(6)]
      c_str_terminated [OF terminated_text, of t "[]"] nul
    by (simp add: cJSON_ParseWithOpts_def)
  then have "savvy_json_parse_allow_duplicate_keys (Some (t @ [CHR 0x00])) (length t) False = Inr ?obj"
    using nul result_object_ok(2) [OF assms(7)]
    by (simp add: savvy_json_parse_allow_duplicate_keys_def strict_tree_def check_utf8_iff)
  from data_result_parse_object [OF this, of dr] number_to_int32_of_int [OF assms(7)]
  show ?thesis by (simp add: result_of_members_def)
qed

text \<open>
  The bodies of the production server are understood. Whether its key is quoted or bare, and
  whatever white space stands between the tokens, a body \<^verbatim>\<open>{result:n}\<close> with a 32-bit \<^verbatim>\<open>n\<close> is read
  as the result \<^verbatim>\<open>n\<close>: on the stream channel 4 resets the counter, anything else counts one more
  and alerts when the threshold is reached; on the voice channel anything but 4 alerts at once.
\<close>

theorem result_policy_reads_server_bodies:
  assumes "list_all is_ws w0" "list_all is_ws w1" "list_all is_ws w2" "list_all is_ws w3" "list_all is_ws w4"
    "list_all is_ws w5" and "int32_range n"
    and "body = server_body quoted w0 w1 w2 (w3 @ string_of_int n @ w4 @ CHR ''}'' # w5)"
    and "length body + 3 \<le> SIZE_MAX"
  shows "sensor_result_policy_on_response (Some p) (Some body) True =
     (case rp_role p of
        SENSOR_RESULT_ROLE_STREAM \<Rightarrow>
          if n = 4 then (Some (p\<lparr>rp_danger_count := 0\<rparr>), [])
          else (Some (p\<lparr>rp_danger_count := rp_danger_count p + 1\<rparr>),
                if rp_danger_count_threshold p \<le> rp_danger_count p + 1 \<and> rp_on_alert p then [CHR ''S''] else [])
      | SENSOR_RESULT_ROLE_VOICE \<Rightarrow> (Some p, if n \<noteq> 4 \<and> rp_on_alert p then [CHR ''V''] else []))"
proof -
  let ?t = "server_body True w0 w1 w2 (w3 @ string_of_int n @ w4 @ CHR ''}'' # w5)"
  have "body \<noteq> []" using assms(8) by (simp add: server_body_def)
  moreover have "make_parser_input body True = Inr (?t @ [CHR 0x00], length ?t)"
    using parser_input_server_body [OF assms(1-3)] assms(8,9) by simp
  moreover have "savvy_data_result_parse (Some (?t @ [CHR 0x00])) (length ?t) (Some \<lparr>dr_result = 0\<rparr>)
      = (SAVVY_OK, Some \<lparr>dr_result = n\<rparr>)"
    using parse_result_server_body [OF assms(1-7) refl, of "\<lparr>dr_result = 0\<rparr>"] by simp
  ultimately show ?thesis
    by (cases "rp_role p") (simp_all add: sensor_result_policy_on_response_def savvy_data_result_is_normal_def)
qed

theorem result_policy_reads_server_bodies_witness:
  "sensor_result_policy_on_response
     (Some \<lparr>rp_role = SENSOR_RESULT_ROLE_STREAM, rp_danger_count_threshold = 3, rp_danger_count = 2, rp_on_alert = True\<rparr>)
     (Some (server_body False [] [] [] ('' '' @ string_of_int 7 @ [] @ CHR ''}'' # []))) True
   = (Some \<lparr>rp_role = SENSOR_RESULT_ROLE_STREAM, rp_danger_count_threshold = 3, rp_danger_count = 3, rp_on_alert = True\<rparr>,
      [CHR ''S''])"
proof -
  have r: "int32_range 7" by (simp add: int32_range_def limits)
  have "length (server_body False [] [] [] ('' '' @ string_of_int 7 @ [] @ CHR ''}'' # [])) + 3 \<le> SIZE_MAX"
    using length_string_of_int [OF r] by (simp add: server_body_def limits)
  from result_policy_reads_server_bodies [OF _ _ _ _ _ _ r refl this] show ?thesis by (simp add: is_ws_def)
qed

section \<open>Runs of responses\<close>

text \<open>The result a body carries, if it carries one; the handler in terms of it.\<close>

definition verdict :: "string \<Rightarrow> int option" where
  "verdict b =
     (if b = [] then None
      else case make_parser_input b True of
             Inl _ \<Rightarrow> None
           | Inr (t, len) \<Rightarrow>
               (case savvy_data_result_parse (Some t) len (Some \<lparr>dr_result = 0\<rparr>) of
                  (SAVVY_OK, Some dr) \<Rightarrow> Some (dr_result dr) | _ \<Rightarrow> None))"

lemma on_response_verdict:
  "sensor_result_policy_on_response (Some p) (Some b) True =
     (case verdict b of
        None \<Rightarrow> (Some p, [])
      | Some n \<Rightarrow>
          if rp_role p = SENSOR_RESULT_ROLE_STREAM then
            if n = 4 then (Some (p\<lparr>rp_danger_count := 0\<rparr>), [])
            else (Some (p\<lparr>rp_danger_count := rp_danger_count p + 1\<rparr>),
                  if rp_danger_count_threshold p \<le> rp_danger_count p + 1 \<and> rp_on_alert p then [CHR ''S''] else [])
          else (Some p, if n \<noteq> 4 \<and> rp_on_alert p then [CHR ''V''] else []))"
  by (auto simp: sensor_result_policy_on_response_def verdict_def savvy_data_result_is_normal_def Let_def
      split: sum.splits prod.splits savvy_status.splits option.splits)

fun responses :: "sensor_result_policy option \<Rightarrow> string list \<Rightarrow> sensor_result_policy option \<times> char list list" where
  "responses policy [] = (policy, [])"
| "responses policy (b # bs) =
     (let (policy', alerts) = sensor_result_policy_on_response policy (Some b) True;
          (policy'', rest) = responses policy' bs
      in (policy'', alerts # rest))"

lemma responses_append:
  "responses policy (bs @ cs) =
     (let (policy', a) = responses policy bs; (policy'', c) = responses policy' cs in (policy'', a @ c))"
  by (induction bs arbitrary: policy) (auto simp: Let_def split: prod.splits)

text \<open>How many abnormal results in a row the responses so far end with.\<close>

definition danger_run :: "string list \<Rightarrow> nat" where
  "danger_run bs = length (takeWhile (\<lambda>n. n \<noteq> 4) (rev (List.map_filter verdict bs)))"

lemma danger_run_snoc:
  "danger_run (bs @ [b]) =
     (case verdict b of None \<Rightarrow> danger_run bs | Some n \<Rightarrow> if n = 4 then 0 else Suc (danger_run bs))"
  by (simp add: danger_run_def List.map_filter_def split: option.splits)

text \<open>
  C28: the stream alert. From the creation of a stream policy with a callback, after any sequence
  of response bodies the counter is the number of abnormal results since the last normal one
  (bodies that carry no result count for nothing), taken modulo 2^32; and the callback is
  invoked for a response exactly when that response is abnormal and the counter has then
  reached the threshold.
\<close>

theorem result_policy_counts_danger_runs:
  assumes "sensor_result_policy_create False SENSOR_RESULT_ROLE_STREAM threshold True True = Inr p"
  shows "\<exists>p' alerts. responses (Some p) bs = (Some p', alerts)
     \<and> rp_danger_count p' = of_nat (danger_run bs)
     \<and> alerts = map (\<lambda>i. if verdict (bs ! i) \<notin> {None, Some 4}
                          \<and> threshold \<le> of_nat (danger_run (take (Suc i) bs))
                        then [CHR ''S''] else []) [0 ..< length bs]"
proof -
  have p: "p = \<lparr>rp_role = SENSOR_RESULT_ROLE_STREAM, rp_danger_count_threshold = threshold,
                rp_danger_count = 0, rp_on_alert = True\<rparr>"
    using assms by (auto simp: sensor_result_policy_create_def split: if_splits)
  have "responses (Some p) bs = (Some (p\<lparr>rp_danger_count := of_nat (danger_run bs)\<rparr>),
      map (\<lambda>i. if verdict (bs ! i) \<notin> {None, Some 4} \<and> threshold \<le> of_nat (danger_run (take (Suc i) bs))
               then [CHR ''S''] else []) [0 ..< length bs])"
  proof (induction bs rule: rev_induct)
    case Nil
    then show ?case by (simp add: p danger_run_def List.map_filter_def)
  next
    case (snoc b bs)
    have old: "map (\<lambda>i. if verdict ((bs @ [b]) ! i) \<notin> {None, Some 4}
                 \<and> threshold \<le> of_nat (danger_run (take (Suc i) (bs @ [b]))) then [CHR ''S''] else []) [0 ..< length bs]
        = map (\<lambda>i. if verdict (bs ! i) \<notin> {None, Some 4}
                 \<and> threshold \<le> of_nat (danger_run (take (Suc i) bs)) then [CHR ''S''] else []) [0 ..< length bs]"
      by (simp add: nth_append)
    show ?case
      unfolding responses_append snoc.IH length_append_singleton upt_Suc_append [OF le0] map_append old
      by (cases "verdict b") (simp_all add: on_response_verdict danger_run_snoc p add.commute)
  qed
  then show ?thesis by (intro exI conjI) (assumption | simp)+
qed

theorem result_policy_counts_danger_runs_witness:
  "\<exists>p' alerts. responses
     (Some \<lparr>rp_role = SENSOR_RESULT_ROLE_STREAM, rp_danger_count_threshold = 3, rp_danger_count = 0, rp_on_alert = True\<rparr>)
     [''x'', []] = (Some p', alerts)
   \<and> rp_danger_count p' = of_nat (danger_run [''x'', []])"
proof -
  have "sensor_result_policy_create False SENSOR_RESULT_ROLE_STREAM 3 True True =
    Inr \<lparr>rp_role = SENSOR_RESULT_ROLE_STREAM, rp_danger_count_threshold = 3, rp_danger_count = 0, rp_on_alert = True\<rparr>"
    by (simp add: sensor_result_policy_create_def)
  from result_policy_counts_danger_runs [OF this, of "[''x'', []]"] show ?thesis by blast
qed

end
