(* ===== verification/Wav_Encoder.thy ===== *)
theory Wav_Encoder
  imports Json_Codec
begin

text \<open>
  \<^verbatim>\<open>src/features/wav/wav_encoder.c\<close>: captured PCM samples wrapped in the 44-byte RIFF/WAVE header.
  The header is little-endian and its size fields have 32 bits, so the code refuses what does
  not fit. Fields are written one behind the other, as the running offset of the code does.
\<close>

unbundle bit_operations_syntax

definition SENSOR_WAV_AUDIO_FORMAT_PCM :: nat where "SENSOR_WAV_AUDIO_FORMAT_PCM = 1"
definition SENSOR_WAV_NUM_CHANNELS :: nat where "SENSOR_WAV_NUM_CHANNELS = 1"
definition SENSOR_WAV_SAMPLE_RATE :: nat where "SENSOR_WAV_SAMPLE_RATE = 8000"
definition SENSOR_WAV_BITS_PER_SAMPLE :: nat where "SENSOR_WAV_BITS_PER_SAMPLE = 16"
definition SENSOR_WAV_BYTE_RATE :: nat where "SENSOR_WAV_BYTE_RATE = 16000"
definition SENSOR_WAV_BLOCK_ALIGN :: nat where "SENSOR_WAV_BLOCK_ALIGN = 2"
definition SENSOR_WAV_HEADER_LEN :: nat where "SENSOR_WAV_HEADER_LEN = 44"

lemmas wav_constants =
  SENSOR_WAV_AUDIO_FORMAT_PCM_def SENSOR_WAV_NUM_CHANNELS_def SENSOR_WAV_SAMPLE_RATE_def
  SENSOR_WAV_BITS_PER_SAMPLE_def SENSOR_WAV_BYTE_RATE_def SENSOR_WAV_BLOCK_ALIGN_def SENSOR_WAV_HEADER_LEN_def

definition put_u16_le :: "u16 \<Rightarrow> bytes" where
  "put_u16_le v = [ucast (v AND 0xFF), ucast (drop_bit 8 v AND 0xFF)]"

definition put_u32_le :: "u32 \<Rightarrow> bytes" where
  "put_u32_le v = [ucast (v AND 0xFF), ucast (drop_bit 8 v AND 0xFF), ucast (drop_bit 16 v AND 0xFF),
                   ucast (drop_bit 24 v AND 0xFF)]"

definition ascii_bytes :: "string \<Rightarrow> bytes" where
  "ascii_bytes s = map of_char s"

definition sensor_wav_wrap :: "bytes option \<Rightarrow> nat \<Rightarrow> bool \<Rightarrow> bool \<Rightarrow> bytes result" where
  "sensor_wav_wrap pcm pcm_len out_null malloc_ok =
     (if out_null then Inl SAVVY_ERR_INVALID_ARGUMENT
      else if pcm = None \<and> pcm_len > 0 then Inl SAVVY_ERR_INVALID_ARGUMENT
      else if pcm_len > UINT32_MAX then Inl SAVVY_ERR_OVERFLOW
      else if pcm_len > UINT32_MAX - 36 then Inl SAVVY_ERR_OVERFLOW
      else if pcm_len > SIZE_MAX - SENSOR_WAV_HEADER_LEN then Inl SAVVY_ERR_OVERFLOW
      else if \<not> malloc_ok then Inl SAVVY_ERR_OUT_OF_MEMORY
      else Inr (ascii_bytes ''RIFF'' @ put_u32_le (36 + of_nat pcm_len) @ ascii_bytes ''WAVE'' @
        ascii_bytes ''fmt '' @ put_u32_le 16 @ put_u16_le (of_nat SENSOR_WAV_AUDIO_FORMAT_PCM) @
        put_u16_le (of_nat SENSOR_WAV_NUM_CHANNELS) @ put_u32_le (of_nat SENSOR_WAV_SAMPLE_RATE) @
        put_u32_le (of_nat SENSOR_WAV_BYTE_RATE) @ put_u16_le (of_nat SENSOR_WAV_BLOCK_ALIGN) @
        put_u16_le (of_nat SENSOR_WAV_BITS_PER_SAMPLE) @ ascii_bytes ''data'' @ put_u32_le (of_nat pcm_len) @
        (case pcm of None \<Rightarrow> [] | Some p \<Rightarrow> take pcm_len p)))"

section \<open>What a reader of the file sees\<close>

text \<open>A little-endian number, as any reader of RIFF computes it.\<close>

definition le_value :: "bytes \<Rightarrow> nat" where
  "le_value bs = foldr (\<lambda>b acc. unat b + 256 * acc) bs 0"

definition wav_field :: "bytes \<Rightarrow> nat \<Rightarrow> nat \<Rightarrow> nat" where
  "wav_field file off len = le_value (take len (drop off file))"

lemma unat_low_byte: "unat (ucast (drop_bit k v AND 0xFF) :: u8) = (unat v div 2 ^ k) mod 256"
  for v :: "'a::len word"
proof -
  have "(0xFF :: 'a word) = mask 8" by (simp add: mask_eq_exp_minus_1)
  then have "(ucast (drop_bit k v AND 0xFF) :: u8) = ucast (take_bit 8 (drop_bit k v))"
    by (simp add: take_bit_eq_mask)
  also have "\<dots> = ucast (drop_bit k v)" by (rule bit_word_eqI) (auto simp: bit_simps)
  finally have "unat (ucast (drop_bit k v AND 0xFF) :: u8) = unat (ucast (drop_bit k v) :: u8)" by simp
  also have "\<dots> = (unat v div 2 ^ k) mod 256"
    unfolding unsigned_ucast_eq unsigned_drop_bit_eq by (simp add: take_bit_eq_mod drop_bit_eq_div)
  finally show ?thesis .
qed

lemma le_value_u16 [simp]: "le_value (put_u16_le v) = unat v"
proof -
  have "unat v < 2 ^ 16" using unsigned_less [of v] by simp
  then show ?thesis
    using unat_low_byte [of 0 v] unat_low_byte [of 8 v] by (simp add: le_value_def put_u16_le_def)
qed

lemma le_value_u32 [simp]: "le_value (put_u32_le v) = unat v"
proof -
  have "n mod 256 + 256 * (n div 256 mod 256 + 256 * (n div 65536 mod 256 + 256 * (n div 16777216 mod 256))) = n"
    if "n < 4294967296" for n :: nat
  proof -
    have q: "n div 65536 = n div 256 div 256" "n div 16777216 = n div 256 div 256 div 256"
      by (simp_all add: div_mult2_eq [symmetric])
    have "n div 256 div 256 div 256 mod 256 = n div 256 div 256 div 256"
      using that by (simp add: div_mult2_eq [symmetric])
    then show ?thesis unfolding q by (metis mod_mult_div_eq)
  qed
  moreover have "unat v < 4294967296" using unsigned_less [of v] by simp
  ultimately show ?thesis
    using unat_low_byte [of 0 v] unat_low_byte [of 8 v] unat_low_byte [of 16 v] unat_low_byte [of 24 v]
    by (simp add: le_value_def put_u32_le_def)
qed

lemma length_put_le [simp]: "length (put_u16_le v) = 2" "length (put_u32_le w) = 4"
  by (simp_all add: put_u16_le_def put_u32_le_def)

lemma length_ascii_bytes [simp]: "length (ascii_bytes s) = length s"
  by (simp add: ascii_bytes_def)

text \<open>The fields of a file given as consecutive parts: skip whole parts, then take one.\<close>

lemma wav_field_skip: "length a \<le> off \<Longrightarrow> wav_field (a @ b) off len = wav_field b (off - length a) len"
  by (simp add: wav_field_def)

lemma wav_field_here: "length a = len \<Longrightarrow> wav_field (a @ b) 0 len = le_value a"
  by (simp add: wav_field_def)

text \<open>
  C35: the WAV file is right. PCM data is refused with \<^verbatim>\<open>SAVVY_ERR_OVERFLOW\<close> exactly when the 32-bit
  RIFF size could not hold it. Otherwise the file is 44 bytes longer than the data and ends with
  it unchanged, and a RIFF reader finds the magic words, the length of what follows each size
  field, the format of the capture hardware (PCM, one channel, 8000 Hz, 16 bits per sample), and the
  byte rate and block size that follow from it. The output pointers are set and the allocation
  succeeds.
\<close>

theorem wav_wrap_reads_back:
  "if length pcm > UINT32_MAX - 36 then sensor_wav_wrap (Some pcm) (length pcm) False True = Inl SAVVY_ERR_OVERFLOW
   else \<exists>file. sensor_wav_wrap (Some pcm) (length pcm) False True = Inr file
     \<and> length file = 44 + length pcm \<and> drop 44 file = pcm
     \<and> take 4 file = ascii_bytes ''RIFF'' \<and> take 8 (drop 8 file) = ascii_bytes ''WAVEfmt ''
     \<and> take 4 (drop 36 file) = ascii_bytes ''data''
     \<and> wav_field file 4 4 = length file - 8 \<and> wav_field file 40 4 = length pcm \<and> wav_field file 16 4 = 16
     \<and> wav_field file 20 2 = 1 \<and> wav_field file 22 2 = 1 \<and> wav_field file 24 4 = 8000 \<and> wav_field file 34 2 = 16
     \<and> wav_field file 28 4 = wav_field file 24 4 * wav_field file 22 2 * wav_field file 34 2 div 8
     \<and> wav_field file 32 2 = wav_field file 22 2 * wav_field file 34 2 div 8"
proof (cases "length pcm > UINT32_MAX - 36")
  case True
  then show ?thesis by (simp add: sensor_wav_wrap_def)
next
  case False
  then have small: "length pcm + 36 < 4294967296" by (simp add: limits)
  then have sizes: "unat (36 + of_nat (length pcm) :: u32) = 36 + length pcm" "unat (of_nat (length pcm) :: u32) = length pcm"
    by (simp_all add: unat_word_ariths unat_of_nat take_bit_eq_mod)
  let ?file = "ascii_bytes ''RIFF'' @ put_u32_le (36 + of_nat (length pcm)) @ ascii_bytes ''WAVE'' @
        ascii_bytes ''fmt '' @ put_u32_le 16 @ put_u16_le (of_nat SENSOR_WAV_AUDIO_FORMAT_PCM) @
        put_u16_le (of_nat SENSOR_WAV_NUM_CHANNELS) @ put_u32_le (of_nat SENSOR_WAV_SAMPLE_RATE) @
        put_u32_le (of_nat SENSOR_WAV_BYTE_RATE) @ put_u16_le (of_nat SENSOR_WAV_BLOCK_ALIGN) @
        put_u16_le (of_nat SENSOR_WAV_BITS_PER_SAMPLE) @ ascii_bytes ''data'' @ put_u32_le (of_nat (length pcm)) @ pcm"
  have "sensor_wav_wrap (Some pcm) (length pcm) False True = Inr ?file"
    using small by (simp add: sensor_wav_wrap_def limits SENSOR_WAV_HEADER_LEN_def)
  moreover have "wav_field ?file 4 4 = length ?file - 8" "wav_field ?file 40 4 = length pcm"
    "wav_field ?file 16 4 = 16" "wav_field ?file 20 2 = 1" "wav_field ?file 24 4 = 8000" "wav_field ?file 22 2 = 1"
    "wav_field ?file 34 2 = 16" "wav_field ?file 28 4 = 16000" "wav_field ?file 32 2 = 2"
    using sizes by (simp_all add: wav_field_skip wav_field_here wav_constants)
  moreover have "take 8 (drop 8 ?file) = ascii_bytes ''WAVEfmt ''"
    by (simp add: ascii_bytes_def)
  ultimately show ?thesis using False by (intro if_not_P [THEN iffD2] exI [of _ ?file] conjI) simp_all
qed

end
