(* ===== verification/Bzip_Codec.thy ===== *)
theory Bzip_Codec
  imports Json_Codec
begin

text \<open>
  \<^verbatim>\<open>src/features/compression/bzip_codec.c\<close>: the loops that drive libbz2 over one whole buffer. The
  library is a parameter: a step takes the state of the stream, the unread input, the room in
  the output and (when compressing) the action, and returns the code, the new state, what is
  left of the input and the bytes it wrote. Success of \<^verbatim>\<open>malloc\<close> and \<^verbatim>\<open>realloc\<close> are arguments too.
  The output buffer is the list of the bytes written so far beside its capacity; a loop that
  would not return is \<open>None\<close>.
\<close>

datatype bz_code =
    BZ_OK | BZ_RUN_OK | BZ_FLUSH_OK | BZ_FINISH_OK | BZ_STREAM_END | BZ_SEQUENCE_ERROR | BZ_PARAM_ERROR
  | BZ_MEM_ERROR | BZ_DATA_ERROR | BZ_DATA_ERROR_MAGIC | BZ_IO_ERROR | BZ_UNEXPECTED_EOF | BZ_OUTBUFF_FULL
  | BZ_CONFIG_ERROR

datatype bz_action = BZ_RUN | BZ_FINISH

type_synonym 's bz_compress = "'s \<Rightarrow> bytes \<Rightarrow> nat \<Rightarrow> bz_action \<Rightarrow> bz_code \<times> 's \<times> bytes \<times> bytes"
type_synonym 's bz_decompress = "'s \<Rightarrow> bytes \<Rightarrow> nat \<Rightarrow> bz_code \<times> 's \<times> bytes \<times> bytes"

definition SENSOR_BZIP_MAX_INPUT :: nat where
  "SENSOR_BZIP_MAX_INPUT = UINT_MAX"

definition SENSOR_BZIP_MAX_LOOP_ITERATIONS :: nat where
  "SENSOR_BZIP_MAX_LOOP_ITERATIONS = 10000000"

definition sensor_min_sz :: "nat \<Rightarrow> nat \<Rightarrow> nat" where
  "sensor_min_sz a b = (if a < b then a else b)"

section \<open>Growing the output buffer\<close>

text \<open>The doubling loop; from capacity 0 it would never end, but it is never started there.\<close>

partial_function (option) grow_cap :: "nat \<Rightarrow> nat \<Rightarrow> nat option" where
  "grow_cap new_cap needed =
     (if new_cap < needed then
        if new_cap > SIZE_MAX div 2 then Some needed else grow_cap (new_cap * 2) needed
      else Some new_cap)"

definition sensor_bzip_ensure_capacity :: "nat \<Rightarrow> nat \<Rightarrow> (nat \<Rightarrow> bool) \<Rightarrow> (savvy_status \<times> nat) option" where
  "sensor_bzip_ensure_capacity cap needed realloc_ok =
     (if needed \<le> cap then Some (SAVVY_OK, cap)
      else
        map_option (\<lambda>new_cap. if realloc_ok new_cap then (SAVVY_OK, new_cap) else (SAVVY_ERR_OUT_OF_MEMORY, cap))
          (grow_cap (if cap = 0 then 4096 else cap) needed))"

section \<open>The two loops\<close>

text \<open>
  The number is what is left of \<^verbatim>\<open>SENSOR_BZIP_MAX_LOOP_ITERATIONS\<close>. The results are the status with
  which the loop ends and the bytes written.
\<close>

fun compress_loop ::
  "'s bz_compress \<Rightarrow> (nat \<Rightarrow> bool) \<Rightarrow> nat \<Rightarrow> 's \<Rightarrow> bytes \<Rightarrow> bytes \<Rightarrow> nat \<Rightarrow> (savvy_status \<times> bytes) option" where
  "compress_loop BZ2_bzCompress realloc_ok 0 strm inp out out_cap = Some (SAVVY_ERR_UNKNOWN, out)"
| "compress_loop BZ2_bzCompress realloc_ok (Suc n) strm inp out out_cap =
     (case (if length out = out_cap then sensor_bzip_ensure_capacity out_cap (size_add (length out) 1) realloc_ok
            else Some (SAVVY_OK, out_cap)) of
        None \<Rightarrow> None
      | Some (grow_status, cap) \<Rightarrow>
          if grow_status \<noteq> SAVVY_OK then Some (grow_status, out)
          else
            let avail_now = sensor_min_sz (cap - length out) UINT_MAX;
                action = (if inp \<noteq> [] then BZ_RUN else BZ_FINISH);
                (bzrc, strm', inp', produced) = BZ2_bzCompress strm inp avail_now action;
                out' = out @ produced
            in if bzrc = BZ_STREAM_END then Some (SAVVY_OK, out')
               else if bzrc \<noteq> BZ_RUN_OK \<and> bzrc \<noteq> BZ_FINISH_OK then Some (SAVVY_ERR_UNKNOWN, out')
               else compress_loop BZ2_bzCompress realloc_ok n strm' inp' out' cap)"

fun decompress_loop ::
  "'s bz_decompress \<Rightarrow> (nat \<Rightarrow> bool) \<Rightarrow> nat \<Rightarrow> 's \<Rightarrow> bytes \<Rightarrow> bytes \<Rightarrow> nat \<Rightarrow> (savvy_status \<times> bytes) option" where
  "decompress_loop BZ2_bzDecompress realloc_ok 0 strm inp out out_cap = Some (SAVVY_ERR_UNKNOWN, out)"
| "decompress_loop BZ2_bzDecompress realloc_ok (Suc n) strm inp out out_cap =
     (case (if length out = out_cap then sensor_bzip_ensure_capacity out_cap (size_add (length out) 1) realloc_ok
            else Some (SAVVY_OK, out_cap)) of
        None \<Rightarrow> None
      | Some (grow_status, cap) \<Rightarrow>
          if grow_status \<noteq> SAVVY_OK then Some (grow_status, out)
          else
            let avail_out_now = sensor_min_sz (cap - length out) UINT_MAX;
                (bzrc, strm', inp', produced) = BZ2_bzDecompress strm inp avail_out_now;
                consumed = length inp - length inp';
                out' = out @ produced
            in if bzrc = BZ_STREAM_END then Some (SAVVY_OK, out')
               else if bzrc \<noteq> BZ_OK then
                 Some (if bzrc = BZ_MEM_ERROR then SAVVY_ERR_OUT_OF_MEMORY else SAVVY_ERR_PROTOCOL, out')
               else if length produced = 0 \<and> consumed = 0 then Some (SAVVY_ERR_PROTOCOL, out')
               else decompress_loop BZ2_bzDecompress realloc_ok n strm' inp' out' cap)"

definition init_failure :: "bz_code \<Rightarrow> savvy_status" where
  "init_failure bzrc = (if bzrc = BZ_MEM_ERROR then SAVVY_ERR_OUT_OF_MEMORY else SAVVY_ERR_UNKNOWN)"

text \<open>What the code does with the result of a loop: the buffer, or nothing but the status.\<close>

definition loop_result :: "savvy_status \<times> bytes \<Rightarrow> bytes result" where
  "loop_result r = (case r of (status, out) \<Rightarrow> if status \<noteq> SAVVY_OK then Inl status else Inr out)"

definition sensor_bzip_compress ::
  "'s bz_compress \<Rightarrow> bz_code \<times> 's \<Rightarrow> (nat \<Rightarrow> bool) \<Rightarrow> bytes option \<Rightarrow> nat \<Rightarrow> bool \<Rightarrow> bool \<Rightarrow> bytes result option" where
  "sensor_bzip_compress BZ2_bzCompress init realloc_ok input input_len out_null malloc_ok =
     (if out_null then Some (Inl SAVVY_ERR_INVALID_ARGUMENT)
      else if input = None \<and> input_len > 0 then Some (Inl SAVVY_ERR_INVALID_ARGUMENT)
      else if input_len > SENSOR_BZIP_MAX_INPUT then Some (Inl SAVVY_ERR_OVERFLOW)
      else case init of
        (bzrc, strm) \<Rightarrow>
          if bzrc \<noteq> BZ_OK then Some (Inl (init_failure bzrc))
          else if \<not> malloc_ok then Some (Inl SAVVY_ERR_OUT_OF_MEMORY)
          else
            let inp = (case input of None \<Rightarrow> [] | Some b \<Rightarrow> take input_len b);
                out_cap = input_len + input_len div 100 + 600
            in map_option loop_result
                 (compress_loop BZ2_bzCompress realloc_ok SENSOR_BZIP_MAX_LOOP_ITERATIONS strm inp [] out_cap))"

text \<open>\<^verbatim>\<open>reached_end\<close> is set exactly when the loop is left with \<^verbatim>\<open>SAVVY_OK\<close>.\<close>

definition sensor_bzip_decompress ::
  "'s bz_decompress \<Rightarrow> bz_code \<times> 's \<Rightarrow> (nat \<Rightarrow> bool) \<Rightarrow> bytes option \<Rightarrow> nat \<Rightarrow> bool \<Rightarrow> bool \<Rightarrow> bytes result option" where
  "sensor_bzip_decompress BZ2_bzDecompress init realloc_ok input input_len out_null malloc_ok =
     (if out_null then Some (Inl SAVVY_ERR_INVALID_ARGUMENT)
      else if input = None \<and> input_len > 0 then Some (Inl SAVVY_ERR_INVALID_ARGUMENT)
      else if input_len > SENSOR_BZIP_MAX_INPUT then Some (Inl SAVVY_ERR_OVERFLOW)
      else if input_len = 0 then Some (Inl SAVVY_ERR_PROTOCOL)
      else case init of
        (bzrc, strm) \<Rightarrow>
          if bzrc \<noteq> BZ_OK then Some (Inl (init_failure bzrc))
          else if \<not> malloc_ok then Some (Inl SAVVY_ERR_OUT_OF_MEMORY)
          else
            let inp = (case input of None \<Rightarrow> [] | Some b \<Rightarrow> take input_len b);
                cap0 = (if input_len > SIZE_MAX div 4 then SIZE_MAX else input_len * 4);
                out_cap = (if cap0 < 4096 then 4096 else cap0)
            in map_option loop_result
                 (decompress_loop BZ2_bzDecompress realloc_ok SENSOR_BZIP_MAX_LOOP_ITERATIONS strm inp [] out_cap))"

section \<open>The buffer always grows enough\<close>

lemma grow_cap_returns:
  assumes "0 < cap" and "cap \<le> SIZE_MAX" and "needed \<le> SIZE_MAX"
  shows "\<exists>c. grow_cap cap needed = Some c \<and> needed \<le> c \<and> cap \<le> c \<and> c \<le> SIZE_MAX \<and> c < max (cap + 1) (2 * needed)"
  using assms
proof (induction "needed - cap" arbitrary: cap rule: less_induct)
  case less
  show ?case
  proof (cases "cap < needed \<and> \<not> cap > SIZE_MAX div 2")
    case True
    then have "needed - cap * 2 < needed - cap" "cap * 2 \<le> SIZE_MAX" using less.prems by auto
    from less.hyps [OF this(1) _ this(2) less.prems(3)] less.prems True show ?thesis
      by (subst grow_cap.simps) fastforce
  qed (use less.prems in \<open>auto simp: grow_cap.simps [of cap]\<close>)
qed

lemma ensure_capacity_cases:
  assumes "cap \<le> SIZE_MAX" and "needed \<le> SIZE_MAX"
  obtains (unchanged) "needed \<le> cap" "sensor_bzip_ensure_capacity cap needed realloc_ok = Some (SAVVY_OK, cap)"
  | (grown) c where "sensor_bzip_ensure_capacity cap needed realloc_ok = Some (SAVVY_OK, c)" "realloc_ok c"
      "needed \<le> c" "cap \<le> c" "c \<le> SIZE_MAX" "c < max 4097 (2 * needed)"
  | (refused) c where "sensor_bzip_ensure_capacity cap needed realloc_ok = Some (SAVVY_ERR_OUT_OF_MEMORY, cap)"
      "\<not> realloc_ok c"
proof (cases "needed \<le> cap")
  case True
  then show ?thesis by (intro unchanged) (simp_all add: sensor_bzip_ensure_capacity_def)
next
  case False
  have "0 < (if cap = 0 then 4096 else cap)" "(if cap = 0 then 4096 else cap) \<le> SIZE_MAX"
    using assms(1) by (simp_all add: limits)
  from grow_cap_returns [OF this assms(2)] obtain c where c: "grow_cap (if cap = 0 then 4096 else cap) needed = Some c" "needed \<le> c"
      "(if cap = 0 then 4096 else cap) \<le> c" "c \<le> SIZE_MAX" "c < max ((if cap = 0 then 4096 else cap) + 1) (2 * needed)"
    by blast
  then have bound: "c < max 4097 (2 * needed)" using False by (auto split: if_splits)
  show ?thesis
  proof (cases "realloc_ok c")
    case True
    show ?thesis
    proof (rule grown)
      show "sensor_bzip_ensure_capacity cap needed realloc_ok = Some (SAVVY_OK, c)"
        using False True c by (simp add: sensor_bzip_ensure_capacity_def)
    qed (use True c bound in \<open>auto split: if_splits\<close>)
  next
    case False
    with \<open>\<not> needed \<le> cap\<close> c show ?thesis by (intro refused [of c]) (simp_all add: sensor_bzip_ensure_capacity_def)
  qed
qed

text \<open>
  Growing the buffer ends. From any capacity the doubling loop returns. On success the new
  capacity holds what was asked for and is not smaller than the old one, it is a \<^verbatim>\<open>size_t\<close> (the
  doubling never wraps), and when it had to grow it is less than twice the demand or the first
  4096; when \<^verbatim>\<open>realloc\<close> fails the capacity stays and the status is \<^verbatim>\<open>SAVVY_ERR_OUT_OF_MEMORY\<close>.
\<close>

theorem bzip_ensure_capacity_terminates:
  assumes "cap \<le> SIZE_MAX" and "needed \<le> SIZE_MAX"
  shows "\<exists>st cap'. sensor_bzip_ensure_capacity cap needed realloc_ok = Some (st, cap')
     \<and> (if st = SAVVY_OK then needed \<le> cap' \<and> cap \<le> cap' \<and> cap' \<le> SIZE_MAX
                            \<and> (cap' = cap \<or> cap' < max 4097 (2 * needed))
        else st = SAVVY_ERR_OUT_OF_MEMORY \<and> cap' = cap)"
  by (rule ensure_capacity_cases [OF assms, of realloc_ok]) (use assms in auto)

theorem bzip_ensure_capacity_terminates_witness:
  "\<exists>st cap'. sensor_bzip_ensure_capacity 4096 10000 (\<lambda>_. True) = Some (st, cap') \<and> 10000 \<le> cap'"
proof -
  have "sensor_bzip_ensure_capacity 4096 10000 (\<lambda>_. True) = Some (SAVVY_OK, 16384)"
    by (simp add: sensor_bzip_ensure_capacity_def grow_cap.simps limits)
  with bzip_ensure_capacity_terminates [of 4096 10000 "\<lambda>_. True"] show ?thesis by (auto simp: limits)
qed

section \<open>Decompression is exact\<close>

text \<open>
  What the manual of libbz2 promises of \<^verbatim>\<open>BZ2_bzDecompress\<close> on one stream. \<open>decodes strm inp\<close> is what
  the stream still yields when its remaining input is \<open>inp\<close>, nothing when it is damaged or cut
  short. A call with room never writes more than there is room for and leaves a suffix of its
  input. On a good stream it ends the stream with the last bytes, or writes a part and makes
  progress, or reports \<^verbatim>\<open>BZ_MEM_ERROR\<close>; on a bad one it never reports the end of the stream.
\<close>

definition bz_decodes :: "'s bz_decompress \<Rightarrow> ('s \<Rightarrow> bytes \<Rightarrow> bytes option) \<Rightarrow> bool" where
  "bz_decodes lib decodes \<longleftrightarrow>
     (\<forall>strm inp room rc strm' inp' out.
        0 < room \<longrightarrow> lib strm inp room = (rc, strm', inp', out) \<longrightarrow>
          length out \<le> room \<and> length inp' \<le> length inp \<and>
          (case decodes strm inp of
             None \<Rightarrow> rc \<noteq> BZ_STREAM_END \<and> (rc = BZ_OK \<longrightarrow> decodes strm' inp' = None)
           | Some d \<Rightarrow>
               rc = BZ_MEM_ERROR \<or>
               (rc = BZ_STREAM_END \<and> out = d) \<or>
               (rc = BZ_OK \<and> (out \<noteq> [] \<or> length inp' < length inp)
                 \<and> (\<exists>d'. d = out @ d' \<and> decodes strm' inp' = Some d'))))"

text \<open>The library never runs out of memory; a hypothesis of its own, no part of the contract.\<close>

definition bz_memory_lasts :: "'s bz_decompress \<Rightarrow> bool" where
  "bz_memory_lasts lib \<longleftrightarrow> (\<forall>strm inp room. fst (lib strm inp room) \<noteq> BZ_MEM_ERROR)"

lemma bz_decodesD:
  assumes "bz_decodes lib decodes" and "0 < room" and "lib strm inp room = (rc, strm', inp', out)"
  shows "length out \<le> room" and "length inp' \<le> length inp"
    and "decodes strm inp = None \<Longrightarrow> rc \<noteq> BZ_STREAM_END \<and> (rc = BZ_OK \<longrightarrow> decodes strm' inp' = None)"
    and "decodes strm inp = Some d \<Longrightarrow>
       rc = BZ_MEM_ERROR \<or> (rc = BZ_STREAM_END \<and> out = d) \<or>
       (rc = BZ_OK \<and> (out \<noteq> [] \<or> length inp' < length inp) \<and> (\<exists>d'. d = out @ d' \<and> decodes strm' inp' = Some d'))"
proof -
  have "length out \<le> room \<and> length inp' \<le> length inp \<and>
      (case decodes strm inp of
         None \<Rightarrow> rc \<noteq> BZ_STREAM_END \<and> (rc = BZ_OK \<longrightarrow> decodes strm' inp' = None)
       | Some d \<Rightarrow>
           rc = BZ_MEM_ERROR \<or>
           (rc = BZ_STREAM_END \<and> out = d) \<or>
           (rc = BZ_OK \<and> (out \<noteq> [] \<or> length inp' < length inp)
             \<and> (\<exists>d'. d = out @ d' \<and> decodes strm' inp' = Some d')))"
    using assms(1) [unfolded bz_decodes_def] assms(2,3) by blast
  then show "length out \<le> room" and "length inp' \<le> length inp"
    and "decodes strm inp = None \<Longrightarrow> rc \<noteq> BZ_STREAM_END \<and> (rc = BZ_OK \<longrightarrow> decodes strm' inp' = None)"
    and "decodes strm inp = Some d \<Longrightarrow>
       rc = BZ_MEM_ERROR \<or> (rc = BZ_STREAM_END \<and> out = d) \<or>
       (rc = BZ_OK \<and> (out \<noteq> [] \<or> length inp' < length inp) \<and> (\<exists>d'. d = out @ d' \<and> decodes strm' inp' = Some d'))"
    by simp_all
qed

text \<open>The buffer of one turn: it has room, unless \<^verbatim>\<open>realloc\<close> was refused.\<close>

definition turn_buffer :: "nat \<Rightarrow> nat \<Rightarrow> (nat \<Rightarrow> bool) \<Rightarrow> (savvy_status \<times> nat) option" where
  "turn_buffer written cap realloc_ok =
     (if written = cap then sensor_bzip_ensure_capacity cap (size_add written 1) realloc_ok else Some (SAVVY_OK, cap))"

lemma turn_buffer_cases:
  assumes "written \<le> cap" and "cap \<le> SIZE_MAX" and "written < SIZE_MAX"
  obtains (room) c where "turn_buffer written cap realloc_ok = Some (SAVVY_OK, c)" "written < c" "c \<le> SIZE_MAX" "cap \<le> c"
      "0 < sensor_min_sz (c - written) UINT_MAX" "sensor_min_sz (c - written) UINT_MAX \<le> UINT_MAX"
      "written + sensor_min_sz (c - written) UINT_MAX \<le> c"
  | (refused) c where "turn_buffer written cap realloc_ok = Some (SAVVY_ERR_OUT_OF_MEMORY, cap)" "\<not> realloc_ok c"
proof (cases "written = cap")
  case True
  have need: "written + 1 \<le> SIZE_MAX" using assms(3) by simp
  show ?thesis
  proof (cases rule: ensure_capacity_cases [OF assms(2) need, of realloc_ok, case_names unchanged grown refused])
    case (grown c)
    with True need show ?thesis
      by (intro room [of c]) (auto simp: turn_buffer_def sensor_min_sz_def limits split: if_splits)
  next
    case (refused c)
    with True need show ?thesis by (intro that(2) [of c]) (simp_all add: turn_buffer_def)
  qed (use True in simp)
next
  case False
  with assms show ?thesis
    by (intro room [of cap]) (auto simp: turn_buffer_def sensor_min_sz_def limits split: if_splits)
qed

lemma decompress_loop_exact:
  assumes lib: "bz_decodes lib decodes"
  shows "length out \<le> cap \<Longrightarrow> cap \<le> SIZE_MAX \<Longrightarrow> length out + n * UINT_MAX < SIZE_MAX \<Longrightarrow>
    \<exists>st out'. decompress_loop lib realloc_ok n strm inp out cap = Some (st, out')
      \<and> (st = SAVVY_OK \<longrightarrow> (\<exists>d. decodes strm inp = Some d \<and> out' = out @ d))
      \<and> (\<forall>d. decodes strm inp = Some d \<and> length inp + length d < n \<longrightarrow>
            st = SAVVY_OK \<or> st = SAVVY_ERR_OUT_OF_MEMORY \<and> \<not> ((\<forall>c. realloc_ok c) \<and> bz_memory_lasts lib))"
proof (induction n arbitrary: strm inp out cap)
  case (Suc n)
  note unfold = decompress_loop.simps(2) [of lib realloc_ok n strm inp out cap, folded turn_buffer_def]
  have below: "length out < SIZE_MAX" using Suc.prems(3) by simp
  show ?case
  proof (cases rule: turn_buffer_cases [OF Suc.prems(1,2) below, of realloc_ok, case_names room refused])
    case (room c)
    define avail where "avail = sensor_min_sz (c - length out) UINT_MAX"
    obtain rc strm' inp' p where call: "lib strm inp avail = (rc, strm', inp', p)" by (metis prod_cases4)
    have "0 < avail" using room(5) by (simp add: avail_def)
    note L = bz_decodesD [OF lib this call]
    have fit: "length (out @ p) \<le> c" "length (out @ p) + n * UINT_MAX < SIZE_MAX"
      using L(1) room(6,7) Suc.prems(3) unfolding avail_def by simp_all
    have step: "decompress_loop lib realloc_ok (Suc n) strm inp out cap =
      (if rc = BZ_STREAM_END then Some (SAVVY_OK, out @ p)
       else if rc \<noteq> BZ_OK then Some (if rc = BZ_MEM_ERROR then SAVVY_ERR_OUT_OF_MEMORY else SAVVY_ERR_PROTOCOL, out @ p)
       else if p = [] \<and> length inp - length inp' = 0 then Some (SAVVY_ERR_PROTOCOL, out @ p)
       else decompress_loop lib realloc_ok n strm' inp' (out @ p) c)"
      unfolding unfold room(1) by (simp add: avail_def [symmetric] call Let_def)
    note IH = Suc.IH [OF fit(1) room(3) fit(2), of strm' inp']
    show ?thesis
    proof (cases "decodes strm inp")
      case None
      then show ?thesis using L(3) IH unfolding step by auto
    next
      case (Some d)
      from L(4) [OF this] consider "rc = BZ_MEM_ERROR" | "rc = BZ_STREAM_END" "p = d"
        | d' where "rc = BZ_OK" "p \<noteq> [] \<or> length inp' < length inp" "d = p @ d'" "decodes strm' inp' = Some d'"
        by blast
      then show ?thesis
      proof cases
        case 1
        then have "\<not> bz_memory_lasts lib" unfolding bz_memory_lasts_def by (metis call fst_conv)
        with 1 show ?thesis unfolding step by simp
      next
        case 2
        then show ?thesis using Some unfolding step by simp
      next
        case ok: (3 d')
        then have next_turn: "decompress_loop lib realloc_ok (Suc n) strm inp out cap
            = decompress_loop lib realloc_ok n strm' inp' (out @ p) c"
          using L(2) unfolding step by auto
        have "length inp' + length d' < n" if "length inp + length d < Suc n"
          using that ok(2,3) L(2) by (cases p) auto
        then show ?thesis unfolding next_turn using IH Some ok(3,4) by auto
      qed
    qed
  next
    case (refused c)
    then show ?thesis unfolding unfold refused(1) by auto
  qed
qed simp

text \<open>
  C34: decompression is all or nothing. Whatever libbz2 does within its contract, running out of
  memory included, the call on a non-empty input of at most \<^verbatim>\<open>UINT_MAX\<close> bytes returns once the stream is
  set up and the first buffer allocated; data is returned only when it is exactly what the stream
  decodes to, never a prefix. For a good stream of moderate size (input and output together below the
  iteration limit) the only failure is \<^verbatim>\<open>SAVVY_ERR_OUT_OF_MEMORY\<close>, and when neither \<^verbatim>\<open>realloc\<close> nor libbz2
  runs out of memory it is returned in full, however often the buffer had to grow.
\<close>

theorem bzip_decompress_exact:
  assumes "bz_decodes lib decodes" and "0 < length input" and "length input \<le> SENSOR_BZIP_MAX_INPUT"
  shows "\<exists>r. sensor_bzip_decompress lib (BZ_OK, strm) realloc_ok (Some input) (length input) False True = Some r
     \<and> (case r of Inr out \<Rightarrow> decodes strm input = Some out
               | Inl st \<Rightarrow> \<forall>d. decodes strm input = Some d \<and> length input + length d < SENSOR_BZIP_MAX_LOOP_ITERATIONS \<longrightarrow>
                            st = SAVVY_ERR_OUT_OF_MEMORY \<and> \<not> ((\<forall>c. realloc_ok c) \<and> bz_memory_lasts lib))"
proof -
  let ?cap = "if length input * 4 < 4096 then 4096 else length input * 4"
  have len: "length input \<le> 4294967295" using assms(3) by (simp add: SENSOR_BZIP_MAX_INPUT_def limits)
  have "length ([] :: bytes) \<le> ?cap" "?cap \<le> SIZE_MAX" "length ([] :: bytes) + SENSOR_BZIP_MAX_LOOP_ITERATIONS * UINT_MAX < SIZE_MAX"
    using len by (simp_all add: limits SENSOR_BZIP_MAX_LOOP_ITERATIONS_def)
  from decompress_loop_exact [OF assms(1) this, of realloc_ok strm input]
  obtain st out where loop: "decompress_loop lib realloc_ok SENSOR_BZIP_MAX_LOOP_ITERATIONS strm input [] ?cap = Some (st, out)"
    and sound: "st = SAVVY_OK \<Longrightarrow> decodes strm input = Some out"
    and complete: "decodes strm input = Some d \<Longrightarrow> length input + length d < SENSOR_BZIP_MAX_LOOP_ITERATIONS
       \<Longrightarrow> st = SAVVY_OK \<or> st = SAVVY_ERR_OUT_OF_MEMORY \<and> \<not> ((\<forall>c. realloc_ok c) \<and> bz_memory_lasts lib)" for d
    by auto
  have "sensor_bzip_decompress lib (BZ_OK, strm) realloc_ok (Some input) (length input) False True
      = Some (loop_result (st, out))"
    using assms(2,3) len loop by (simp add: sensor_bzip_decompress_def Let_def limits)
  then show ?thesis using sound complete by (auto simp: loop_result_def)
qed

text \<open>A stored stream satisfies the contract.\<close>

definition stored_decompress :: "unit bz_decompress" where
  "stored_decompress strm inp room =
     (if length inp \<le> room then (BZ_STREAM_END, (), [], inp) else (BZ_OK, (), drop room inp, take room inp))"

lemma stored_decompress_ok: "bz_decodes stored_decompress (\<lambda>_. Some)" "bz_memory_lasts stored_decompress"
  by (auto simp: bz_decodes_def bz_memory_lasts_def stored_decompress_def split: if_splits)

theorem bzip_decompress_exact_witness:
  "sensor_bzip_decompress stored_decompress (BZ_OK, ()) (\<lambda>_. True) (Some [1, 2, 3]) 3 False True = Some (Inr [1, 2, 3])"
proof -
  have "0 < length [1, 2, 3 :: u8]" "length [1, 2, 3 :: u8] \<le> SENSOR_BZIP_MAX_INPUT"
    by (simp_all add: SENSOR_BZIP_MAX_INPUT_def limits)
  from bzip_decompress_exact [OF stored_decompress_ok(1) this, of "()" "\<lambda>_. True"] show ?thesis
    by (elim exE conjE, case_tac r) (simp_all add: stored_decompress_ok(2) SENSOR_BZIP_MAX_LOOP_ITERATIONS_def numeral_3_eq_3)
qed

section \<open>Compression is complete\<close>

text \<open>
  What the manual promises of \<^verbatim>\<open>BZ2_bzCompress\<close> as the loop uses it: \<^verbatim>\<open>BZ_RUN\<close> while there is input,
  \<^verbatim>\<open>BZ_FINISH\<close> afterwards. \<open>encodes strm inp\<close> is what the stream will still write.
\<close>

definition bz_encodes :: "'s bz_compress \<Rightarrow> ('s \<Rightarrow> bytes \<Rightarrow> bytes) \<Rightarrow> bool" where
  "bz_encodes lib encodes \<longleftrightarrow>
     (\<forall>strm inp room rc strm' inp' out.
        0 < room \<longrightarrow> lib strm inp room (if inp \<noteq> [] then BZ_RUN else BZ_FINISH) = (rc, strm', inp', out) \<longrightarrow>
          length out \<le> room \<and> length inp' \<le> length inp \<and>
          (if inp \<noteq> []
           then rc = BZ_RUN_OK \<and> (out \<noteq> [] \<or> length inp' < length inp) \<and> encodes strm inp = out @ encodes strm' inp'
           else (rc = BZ_STREAM_END \<and> out = encodes strm inp)
              \<or> (rc = BZ_FINISH_OK \<and> out \<noteq> [] \<and> encodes strm inp = out @ encodes strm' inp')))"

lemma bz_encodesD:
  assumes "bz_encodes lib encodes" and "0 < room"
    and "lib strm inp room (if inp \<noteq> [] then BZ_RUN else BZ_FINISH) = (rc, strm', inp', out)"
  shows "length out \<le> room" and "length inp' \<le> length inp"
    and "(rc = BZ_STREAM_END \<and> out = encodes strm inp)
       \<or> (rc \<in> {BZ_RUN_OK, BZ_FINISH_OK} \<and> (out \<noteq> [] \<or> length inp' < length inp)
          \<and> encodes strm inp = out @ encodes strm' inp')"
proof -
  have "length out \<le> room \<and> length inp' \<le> length inp \<and>
          (if inp \<noteq> []
           then rc = BZ_RUN_OK \<and> (out \<noteq> [] \<or> length inp' < length inp) \<and> encodes strm inp = out @ encodes strm' inp'
           else (rc = BZ_STREAM_END \<and> out = encodes strm inp)
              \<or> (rc = BZ_FINISH_OK \<and> out \<noteq> [] \<and> encodes strm inp = out @ encodes strm' inp'))"
    using assms(1) [unfolded bz_encodes_def] assms(2,3) by blast
  then show "length out \<le> room" and "length inp' \<le> length inp"
    and "(rc = BZ_STREAM_END \<and> out = encodes strm inp)
       \<or> (rc \<in> {BZ_RUN_OK, BZ_FINISH_OK} \<and> (out \<noteq> [] \<or> length inp' < length inp)
          \<and> encodes strm inp = out @ encodes strm' inp')"
    by (auto split: if_splits)
qed

lemma compress_loop_exact:
  assumes lib: "bz_encodes lib encodes"
  shows "length out \<le> cap \<Longrightarrow> cap \<le> SIZE_MAX \<Longrightarrow> length out + n * UINT_MAX < SIZE_MAX \<Longrightarrow>
    \<exists>st out'. compress_loop lib realloc_ok n strm inp out cap = Some (st, out')
      \<and> (st = SAVVY_OK \<longrightarrow> out' = out @ encodes strm inp)
      \<and> ((\<forall>c. realloc_ok c) \<longrightarrow> length inp + length (encodes strm inp) < n \<longrightarrow> st = SAVVY_OK)"
proof (induction n arbitrary: strm inp out cap)
  case (Suc n)
  note unfold = compress_loop.simps(2) [of lib realloc_ok n strm inp out cap, folded turn_buffer_def]
  have below: "length out < SIZE_MAX" using Suc.prems(3) by simp
  show ?case
  proof (cases rule: turn_buffer_cases [OF Suc.prems(1,2) below, of realloc_ok, case_names room refused])
    case (room c)
    define avail where "avail = sensor_min_sz (c - length out) UINT_MAX"
    obtain rc strm' inp' p where call: "lib strm inp avail (if inp \<noteq> [] then BZ_RUN else BZ_FINISH) = (rc, strm', inp', p)"
      by (metis prod_cases4)
    have "0 < avail" using room(5) by (simp add: avail_def)
    note L = bz_encodesD [OF lib this call]
    have fit: "length (out @ p) \<le> c" "length (out @ p) + n * UINT_MAX < SIZE_MAX"
      using L(1) room(6,7) Suc.prems(3) unfolding avail_def by simp_all
    have step: "compress_loop lib realloc_ok (Suc n) strm inp out cap =
      (if rc = BZ_STREAM_END then Some (SAVVY_OK, out @ p)
       else if rc \<noteq> BZ_RUN_OK \<and> rc \<noteq> BZ_FINISH_OK then Some (SAVVY_ERR_UNKNOWN, out @ p)
       else compress_loop lib realloc_ok n strm' inp' (out @ p) c)"
      unfolding unfold room(1) by (simp add: avail_def [symmetric] call Let_def del: if_not_P)
    note IH = Suc.IH [OF fit(1) room(3) fit(2), of strm' inp']
    from L(3) consider "rc = BZ_STREAM_END" "p = encodes strm inp"
      | "rc \<in> {BZ_RUN_OK, BZ_FINISH_OK}" "p \<noteq> [] \<or> length inp' < length inp" "encodes strm inp = p @ encodes strm' inp'"
      by blast
    then show ?thesis
    proof cases
      case ok: 2
      have "length inp' + length (encodes strm' inp') < n" if "length inp + length (encodes strm inp) < Suc n"
        using that ok(2,3) L(2) by (cases p) auto
      then show ?thesis unfolding step using IH ok by auto
    qed (unfold step, simp)
  next
    case (refused c)
    then show ?thesis unfolding unfold refused(1) by auto
  qed
qed simp

text \<open>
  Compression is never truncated. For every input the call returns; what it returns is the
  whole stream the library writes for the input, also when that is longer than the input and
  the buffer had to grow, and it does return it when memory lasts and the sizes are below the
  iteration limit.
\<close>

theorem bzip_compress_complete:
  assumes "bz_encodes lib encodes" and "length input \<le> SENSOR_BZIP_MAX_INPUT"
  shows "\<exists>r. sensor_bzip_compress lib (BZ_OK, strm) realloc_ok (Some input) (length input) False True = Some r
     \<and> (case r of Inr out \<Rightarrow> out = encodes strm input
               | Inl st \<Rightarrow> \<not> ((\<forall>c. realloc_ok c)
                     \<and> length input + length (encodes strm input) < SENSOR_BZIP_MAX_LOOP_ITERATIONS))"
proof -
  let ?cap = "length input + length input div 100 + 600"
  have len: "length input \<le> 4294967295" using assms(2) by (simp add: SENSOR_BZIP_MAX_INPUT_def limits)
  have "length ([] :: bytes) \<le> ?cap" "?cap \<le> SIZE_MAX" "length ([] :: bytes) + SENSOR_BZIP_MAX_LOOP_ITERATIONS * UINT_MAX < SIZE_MAX"
    using len by (simp_all add: limits SENSOR_BZIP_MAX_LOOP_ITERATIONS_def)
  from compress_loop_exact [OF assms(1) this, of realloc_ok strm input]
  obtain st out where loop: "compress_loop lib realloc_ok SENSOR_BZIP_MAX_LOOP_ITERATIONS strm input [] ?cap = Some (st, out)"
    and sound: "st = SAVVY_OK \<Longrightarrow> out = encodes strm input"
    and complete: "(\<forall>c. realloc_ok c) \<Longrightarrow> length input + length (encodes strm input) < SENSOR_BZIP_MAX_LOOP_ITERATIONS
       \<Longrightarrow> st = SAVVY_OK"
    by auto
  have "sensor_bzip_compress lib (BZ_OK, strm) realloc_ok (Some input) (length input) False True
      = Some (loop_result (st, out))"
    using assms(2) loop by (simp add: sensor_bzip_compress_def Let_def)
  then show ?thesis using sound complete by (auto simp: loop_result_def)
qed

definition stored_compress :: "bytes bz_compress" where
  "stored_compress strm inp room action =
     (case inp of
        b # bs \<Rightarrow> (BZ_RUN_OK, strm @ [b], bs, [])
      | [] \<Rightarrow> if length strm \<le> room then (BZ_STREAM_END, [], [], strm)
              else (BZ_FINISH_OK, drop room strm, [], take room strm))"

lemma stored_compress_ok: "bz_encodes stored_compress (\<lambda>strm inp. strm @ inp)"
  by (auto simp: bz_encodes_def stored_compress_def split: if_splits list.splits)

theorem bzip_compress_complete_witness:
  "sensor_bzip_compress stored_compress (BZ_OK, []) (\<lambda>_. True) (Some [1, 2]) 2 False True = Some (Inr [1, 2])"
proof -
  have "length [1, 2 :: u8] \<le> SENSOR_BZIP_MAX_INPUT" by (simp add: SENSOR_BZIP_MAX_INPUT_def limits)
  from bzip_compress_complete [OF stored_compress_ok this, of "[]" "\<lambda>_. True"] show ?thesis
    by (elim exE conjE, case_tac r) (simp_all add: SENSOR_BZIP_MAX_LOOP_ITERATIONS_def numeral_2_eq_2)
qed

end
