(* ===== verification/Store_Base.thy ===== *)
theory Store_Base
  imports Snapshot Json_Codec
begin

text \<open>
  What the config and the device store (\<^verbatim>\<open>src/features/config\<close>) share: the payload that pairs a typed
  value with the exact JSON text it was read from, and the effect of whole calls of the snapshot
  functions on a system whose live payloads all satisfy a predicate.
\<close>

text \<open>\<^verbatim>\<open>raw_json\<close> holds \<^verbatim>\<open>raw_json_len\<close> characters and a terminator.\<close>

record 'v dto_payload =
  jp_value :: 'v
  jp_raw_json :: string

definition payloads_ok :: "('p \<Rightarrow> bool) \<Rightarrow> 'p snap_sys \<Rightarrow> bool" where
  "payloads_ok P s \<longleftrightarrow>
     snap_inv s \<and> pending s = {} \<and> (\<forall>h r. handles (sy_mem s) h = Some r \<longrightarrow> P (payload r))"

definition current_payload :: "'p snap_sys \<Rightarrow> 'p option" where
  "current_payload s =
     (case sn_current (sy_owner s) of None \<Rightarrow> None | Some h \<Rightarrow> map_option payload (handles (sy_mem s) h))"

lemma unref_payload_back:
  "unref_locked m h = Some (m', fin) \<Longrightarrow> handles m' k = Some r' \<Longrightarrow>
     \<exists>r. handles m k = Some r \<and> payload r = payload r'"
  by (cases "k = h") (auto simp: unref_locked_def Let_def split: option.splits)

text \<open>Finalising leaves the other handles alone.\<close>

lemma finalize_pending:
  assumes inv: "snap_inv s" and pend: "pending s = add_pending fin {}"
  shows "\<exists>m'. finalize_unlocked (sy_mem s) fin = Some m' \<and> snap_inv (s\<lparr>sy_mem := m', pending := {}\<rparr>)
     \<and> (\<forall>h r. handles m' h = Some r \<longrightarrow> handles (sy_mem s) h = Some r)
     \<and> (\<forall>h. fin \<noteq> Some h \<longrightarrow> handles m' h = handles (sy_mem s) h)"
proof (cases fin)
  case None
  then show ?thesis using inv pend by (cases s) (auto simp: finalize_unlocked_def add_pending_def)
next
  case (Some h)
  then have p: "pending s = {h}" using pend by (simp add: add_pending_def)
  then obtain r where r: "handles (sy_mem s) h = Some r"
    using snap_inv_ok [OF inv, of h] by (auto simp: handle_ok_def split: option.splits)
  then obtain m' where m': "finalize_unlocked (sy_mem s) (Some h) = Some m'"
    and "handles m' = (handles (sy_mem s))(h := None)"
    by (simp add: finalize_unlocked_def)
  moreover have "snap_inv (s\<lparr>sy_mem := m', pending := {}\<rparr>)"
    using snap_inv_finalize [OF inv _ m'] p by simp
  ultimately show ?thesis using Some by (auto split: if_splits)
qed

lemma publish_call:
  assumes ok: "payloads_ok P s" and fresh: "handles (sy_mem s) a = None" and p: "P p"
  shows "\<exists>ow' m'. savvy_snapshot_publish (sy_owner s) (sy_mem s) (Some a) p = Some (SAVVY_OK, ow', m')
     \<and> payloads_ok P (s\<lparr>sy_owner := ow', sy_mem := m', published := published s @ [p]\<rparr>)
     \<and> current_payload (s\<lparr>sy_owner := ow', sy_mem := m', published := published s @ [p]\<rparr>) = Some p"
proof -
  have inv: "snap_inv s" and pend: "pending s = {}" using ok by (simp_all add: payloads_ok_def)
  obtain ow' m' where pub: "savvy_snapshot_publish (sy_owner s) (sy_mem s) (Some a) p = Some (SAVVY_OK, ow', m')"
    and cur: "sn_current ow' = Some a" "map_option payload (handles m' a) = Some p"
    using publish_then_acquire [OF inv fresh, of p] by blast
  from pub obtain m1 fin where locked: "publish_locked (sy_owner s) (sy_mem s) a p = Some (ow', m1, fin)"
    and fin: "finalize_unlocked m1 fin = Some m'"
    by (auto simp: savvy_snapshot_publish_def split: option.splits)
  let ?s1 = "s\<lparr>sy_owner := ow', sy_mem := m1, pending := add_pending fin (pending s), published := published s @ [p]\<rparr>"
  have inv1: "snap_inv ?s1" by (rule snap_inv_publish [OF inv fresh locked])
  have pe: "pending ?s1 = add_pending fin {}" using pend by simp
  obtain m2 where m2: "finalize_unlocked (sy_mem ?s1) fin = Some m2" "snap_inv (?s1\<lparr>sy_mem := m2, pending := {}\<rparr>)"
    and sub2: "\<forall>h r. handles m2 h = Some r \<longrightarrow> handles (sy_mem ?s1) h = Some r"
    using finalize_pending [OF inv1 pe] by blast
  have same: "m2 = m'" using m2(1) fin by simp
  have "?s1\<lparr>sy_mem := m', pending := {}\<rparr> = s\<lparr>sy_owner := ow', sy_mem := m', published := published s @ [p]\<rparr>"
    using pend by (cases s) simp
  then have inv': "snap_inv (s\<lparr>sy_owner := ow', sy_mem := m', published := published s @ [p]\<rparr>)"
    using m2(2) unfolding same by simp
  have sub: "\<And>h r. handles m' h = Some r \<Longrightarrow> handles m1 h = Some r" using sub2 unfolding same by simp
  have "P (payload r)" if "handles m1 h = Some r" for h r
  proof -
    let ?m = "(sy_mem s)\<lparr>handles := (handles (sy_mem s))(a \<mapsto> \<lparr>payload = p, refcount = 1, h_free_fn = sn_free_fn (sy_owner s)\<rparr>)\<rparr>"
    obtain r0 where r0: "handles ?m h = Some r0" "payload r0 = payload r"
    proof (cases "sn_current (sy_owner s)")
      case None
      then have "m1 = ?m" using locked by (simp add: publish_locked_def Let_def)
      with \<open>handles m1 h = Some r\<close> show ?thesis by (intro that [of r]) simp_all
    next
      case (Some c)
      then have "unref_locked ?m c = Some (m1, fin)" using locked by (auto simp: publish_locked_def Let_def)
      from unref_payload_back [OF this \<open>handles m1 h = Some r\<close>] that show ?thesis by blast
    qed
    show ?thesis
    proof (cases "h = a")
      case True
      then show ?thesis using r0 p by auto
    next
      case False
      then have "handles (sy_mem s) h = Some r0" using r0 by simp
      then show ?thesis using r0(2) ok unfolding payloads_ok_def by metis
    qed
  qed
  with sub have "\<forall>h r. handles m' h = Some r \<longrightarrow> P (payload r)" by blast
  with inv' pend have "payloads_ok P (s\<lparr>sy_owner := ow', sy_mem := m', published := published s @ [p]\<rparr>)"
    by (simp add: payloads_ok_def)
  then show ?thesis using pub cur by (auto simp: current_payload_def)
qed

lemma acquire_call:
  assumes ok: "payloads_ok P s" and cur: "current_payload s = Some p"
    and room: "\<forall>h. held s h < UINT32_MAX - 1"
  shows "\<exists>h m'. savvy_snapshot_acquire (sy_owner s) (sy_mem s) = Some (Some h, sn_version (sy_owner s), m')
     \<and> payloads_ok P (s\<lparr>sy_mem := m', held := (held s)(h := held s h + 1)\<rparr>)
     \<and> current_payload (s\<lparr>sy_mem := m', held := (held s)(h := held s h + 1)\<rparr>) = Some p
     \<and> savvy_snapshot_payload m' (Some h) = Some p"
proof -
  obtain h r where h: "sn_current (sy_owner s) = Some h" "handles (sy_mem s) h = Some r" "payload r = p"
    using cur by (auto simp: current_payload_def split: option.splits)
  then obtain m' where acq: "savvy_snapshot_acquire (sy_owner s) (sy_mem s) = Some (Some h, sn_version (sy_owner s), m')"
    and m': "handles m' = (handles (sy_mem s))(h \<mapsto> r\<lparr>refcount := refcount r + 1\<rparr>)"
    by (simp add: savvy_snapshot_acquire_def)
  have "snap_inv (s\<lparr>sy_mem := m', held := (held s)(h := held s h + 1)\<rparr>)"
    using ok room by (intro snap_inv_acquire [OF _ acq]) (simp_all add: payloads_ok_def)
  then have "payloads_ok P (s\<lparr>sy_mem := m', held := (held s)(h := held s h + 1)\<rparr>)"
    using ok h m' by (auto simp: payloads_ok_def)
  then show ?thesis using acq m' h by (auto simp: current_payload_def savvy_snapshot_payload_def)
qed

lemma release_call:
  assumes ok: "payloads_ok P s" and pos: "0 < held s h"
  shows "\<exists>m'. savvy_snapshot_release (sy_mem s) (Some h) = Some m'
     \<and> payloads_ok P (s\<lparr>sy_mem := m', held := (held s)(h := held s h - 1)\<rparr>)"
proof -
  have inv: "snap_inv s" and pend: "pending s = {}" using ok by (simp_all add: payloads_ok_def)
  have "0 < refs s h" using pos by (simp add: refs_def)
  then obtain r where "handles (sy_mem s) h = Some r" by (rule snap_inv_referenced [OF inv])
  then obtain m1 fin where un: "unref_locked (sy_mem s) h = Some (m1, fin)" by (simp add: unref_locked_def)
  note m1 = unref_payload_back [OF un]
  let ?s1 = "s\<lparr>sy_mem := m1, held := (held s)(h := held s h - 1), pending := add_pending fin (pending s)\<rparr>"
  have inv1: "snap_inv ?s1" by (rule snap_inv_release [OF inv pos un])
  have pe: "pending ?s1 = add_pending fin {}" using pend by simp
  obtain m' where fin: "finalize_unlocked (sy_mem ?s1) fin = Some m'" "snap_inv (?s1\<lparr>sy_mem := m', pending := {}\<rparr>)"
    and sub1: "\<forall>h r. handles m' h = Some r \<longrightarrow> handles (sy_mem ?s1) h = Some r"
    using finalize_pending [OF inv1 pe] by blast
  have "?s1\<lparr>sy_mem := m', pending := {}\<rparr> = s\<lparr>sy_mem := m', held := (held s)(h := held s h - 1)\<rparr>"
    using pend by (cases s) simp
  then have inv': "snap_inv (s\<lparr>sy_mem := m', held := (held s)(h := held s h - 1)\<rparr>)" using fin(2) by simp
  have sub: "\<And>h r. handles m' h = Some r \<Longrightarrow> handles m1 h = Some r" using sub1 by simp
  have "payloads_ok P (s\<lparr>sy_mem := m', held := (held s)(h := held s h - 1)\<rparr>)"
    using inv' pend ok sub m1 unfolding payloads_ok_def by simp metis
  then show ?thesis using un fin by (simp add: savvy_snapshot_release_def)
qed

section \<open>Reparsing the stored text\<close>

text \<open>A text that parsed also parses from its own terminated copy.\<close>

lemma json_parse_ok_terminated:
  assumes "len < length m" and "savvy_json_parse (Some m) len False = Inr v"
  shows "terminated m len" and "CHR 0x00 \<notin> set (take len m)" and "0 < len"
proof -
  show t: "terminated m len" and n: "CHR 0x00 \<notin> set (take len m)"
    using assms by (auto simp: savvy_json_parse_def terminated_def split: if_splits)
  have "cJSON_ParseWithOpts [] True = None"
    by (simp add: cJSON_ParseWithOpts_def c_str_def skip_utf8_bom_def buffer_skip_whitespace_def
        is_blank_def parse_value.simps is_digit_def)
  then show "0 < len" using assms(2) json_parse_terminated [OF t n] by (cases len) auto
qed

lemma json_parse_copy:
  assumes "len < length m" and "savvy_json_parse (Some m) len False = Inr v"
  shows "savvy_json_parse (Some (take len m @ [CHR 0x00])) (length (take len m)) False = Inr v"
proof -
  note t = json_parse_ok_terminated [OF assms]
  show ?thesis
    using assms json_parse_terminated [OF t(1,2)] json_parse_terminated [OF terminated_text, of "take len m" "[]"] t(2)
    by simp
qed

end
