(* ===== verification/Config_Store.thy ===== *)
theory Config_Store
  imports Store_Base Config_Codec
begin

text \<open>
  \<^verbatim>\<open>src/features/config/config_store.c\<close>: the config the daemon runs with. Each accepted message is
  published as an immutable snapshot that pairs the typed value with the text it came from.
  \<^verbatim>\<open>malloc\<close> of the payload is a flag, the address of the new handle an argument, and \<^verbatim>\<open>sizeof\<close> the
  payload struct a parameter of the size check; \<open>None\<close> would be a use of a freed handle. Calls
  run under \<^verbatim>\<open>write_lock\<close> and are single steps.
\<close>

record sensor_config_store =
  cs_snapshot :: snapshot_owner
  cs_working :: savvy_config

record sensor_config_apply_result =
  ar_server_ip_changed :: bool
  ar_server_ip :: string
  ar_use_rknn_raw_changed :: bool
  ar_use_rknn_raw_old :: int
  ar_use_rknn_raw_new :: int

text \<open>The result struct is cleared first, so its address is empty unless it changed.\<close>

definition config_apply_diff :: "savvy_config \<Rightarrow> savvy_config \<Rightarrow> sensor_config_apply_result" where
  "config_apply_diff working scratch =
     \<lparr>ar_server_ip_changed = (cfg_server_ip working \<noteq> cfg_server_ip scratch),
      ar_server_ip = (if cfg_server_ip working \<noteq> cfg_server_ip scratch then cfg_server_ip scratch else []),
      ar_use_rknn_raw_changed = (cfg_use_rknn working \<noteq> cfg_use_rknn scratch),
      ar_use_rknn_raw_old = cfg_use_rknn working,
      ar_use_rknn_raw_new = cfg_use_rknn scratch\<rparr>"

definition config_payload_create :: "nat \<Rightarrow> savvy_config \<Rightarrow> string \<Rightarrow> nat \<Rightarrow> bool \<Rightarrow> savvy_config dto_payload option" where
  "config_payload_create struct_size val raw_json raw_json_len malloc_ok =
     (if raw_json_len > SIZE_MAX - struct_size - 1 then None
      else if \<not> malloc_ok then None
      else Some \<lparr>jp_value = val, jp_raw_json = take raw_json_len raw_json\<rparr>)"

definition sensor_config_store_init :: "bool \<Rightarrow> bool \<Rightarrow> bool \<Rightarrow> savvy_status \<times> sensor_config_store option" where
  "sensor_config_store_init store_null owner_mutex_ok mutex_ok =
     (if store_null then (SAVVY_ERR_INVALID_ARGUMENT, None)
      else case savvy_snapshot_owner_init owner_mutex_ok True of
        (st, None) \<Rightarrow> (st, None)
      | (st, Some owner) \<Rightarrow>
          if st \<noteq> SAVVY_OK then (st, None)
          else if \<not> mutex_ok then (SAVVY_ERR_UNKNOWN, None)
          else (SAVVY_OK, Some \<lparr>cs_snapshot = owner, cs_working = savvy_config_set_defaults\<rparr>))"

definition sensor_config_store_destroy ::
  "sensor_config_store option \<Rightarrow> savvy_config dto_payload snap_mem
     \<Rightarrow> (sensor_config_store option \<times> savvy_config dto_payload snap_mem) option" where
  "sensor_config_store_destroy store m =
     (case store of
        None \<Rightarrow> Some (None, m)
      | Some s \<Rightarrow>
          map_option (\<lambda>(owner, m'). (Some (s\<lparr>cs_snapshot := owner\<rparr>), m'))
            (savvy_snapshot_owner_destroy (cs_snapshot s) m))"

text \<open>
  The end of both writers: the payload is created and published, and only then the working
  copy replaced. \<^verbatim>\<open>publish\<close> frees the payload again when it fails.
\<close>

definition config_store_commit ::
  "nat \<Rightarrow> sensor_config_store \<Rightarrow> savvy_config dto_payload snap_mem \<Rightarrow> savvy_config \<Rightarrow> string \<Rightarrow> nat \<Rightarrow> bool \<Rightarrow> nat option
     \<Rightarrow> (savvy_status \<times> sensor_config_store \<times> savvy_config dto_payload snap_mem) option" where
  "config_store_commit struct_size s m scratch raw_json raw_json_len malloc_ok alloc =
     (case config_payload_create struct_size scratch raw_json raw_json_len malloc_ok of
        None \<Rightarrow> Some (SAVVY_ERR_OUT_OF_MEMORY, s, m)
      | Some copy \<Rightarrow>
          (case savvy_snapshot_publish (cs_snapshot s) m alloc copy of
             None \<Rightarrow> None
           | Some (st, owner, m') \<Rightarrow>
               if st \<noteq> SAVVY_OK then Some (st, s\<lparr>cs_snapshot := owner\<rparr>, m')
               else Some (SAVVY_OK, s\<lparr>cs_snapshot := owner, cs_working := scratch\<rparr>, m')))"

definition sensor_config_store_load_cached ::
  "nat \<Rightarrow> sensor_config_store option \<Rightarrow> savvy_config dto_payload snap_mem \<Rightarrow> string option \<Rightarrow> nat \<Rightarrow> bool \<Rightarrow> nat option
     \<Rightarrow> (savvy_status \<times> sensor_config_store option \<times> savvy_config dto_payload snap_mem) option" where
  "sensor_config_store_load_cached struct_size store m cached_json cached_len malloc_ok alloc =
     (case store of
        None \<Rightarrow> Some (SAVVY_ERR_INVALID_ARGUMENT, None, m)
      | Some s \<Rightarrow>
          (case (if cached_json \<noteq> None \<and> cached_len > 0
                 then savvy_config_parse cached_json cached_len (Some savvy_config_set_defaults) False
                 else (SAVVY_OK, Some savvy_config_set_defaults, [])) of
             (st, scratch, _) \<Rightarrow>
               if st \<noteq> SAVVY_OK then Some (st, store, m)
               else
                 let raw_json = (case cached_json of None \<Rightarrow> [] | Some j \<Rightarrow> j);
                     raw_json_len = (if cached_json \<noteq> None \<and> cached_len > 0 then cached_len else 0)
                 in map_option (\<lambda>(st, s', m'). (st, Some s', m'))
                      (config_store_commit struct_size s m ((the scratch)) raw_json raw_json_len malloc_ok alloc)))"

definition sensor_config_store_apply_runtime ::
  "nat \<Rightarrow> sensor_config_store option \<Rightarrow> savvy_config dto_payload snap_mem \<Rightarrow> string option \<Rightarrow> nat \<Rightarrow> bool \<Rightarrow> nat option
     \<Rightarrow> sensor_config_apply_result option
     \<Rightarrow> (savvy_status \<times> sensor_config_store option \<times> savvy_config dto_payload snap_mem \<times> sensor_config_apply_result option) option" where
  "sensor_config_store_apply_runtime struct_size store m json len malloc_ok alloc out_result =
     (case (store, json, out_result) of
        (Some s, Some j, Some _) \<Rightarrow>
          (case savvy_config_parse json len (Some savvy_config_set_defaults) False of
             (st, scratch, _) \<Rightarrow>
               if st \<noteq> SAVVY_OK then Some (st, store, m, out_result)
               else
                 (case config_store_commit struct_size s m (the scratch) j len malloc_ok alloc of
                    None \<Rightarrow> None
                  | Some (st, s', m') \<Rightarrow>
                      if st \<noteq> SAVVY_OK then Some (st, Some s', m', out_result)
                      else Some (SAVVY_OK, Some s', m', Some (config_apply_diff (cs_working s) (the scratch)))))
      | _ \<Rightarrow> Some (SAVVY_ERR_INVALID_ARGUMENT, store, m, out_result))"

definition sensor_config_store_acquire ::
  "sensor_config_store option \<Rightarrow> savvy_config dto_payload snap_mem \<Rightarrow> (nat option \<times> u64 option \<times> savvy_config dto_payload snap_mem) option" where
  "sensor_config_store_acquire store m =
     (case store of
        None \<Rightarrow> Some (None, None, m)
      | Some s \<Rightarrow> map_option (\<lambda>(h, v, m'). (h, Some v, m')) (savvy_snapshot_acquire (cs_snapshot s) m))"

definition sensor_config_snapshot_payload :: "savvy_config dto_payload snap_mem \<Rightarrow> nat option \<Rightarrow> savvy_config option" where
  "sensor_config_snapshot_payload m handle = map_option jp_value (savvy_snapshot_payload m handle)"

text \<open>The characters and the length; in memory a terminator follows.\<close>

definition sensor_config_snapshot_raw_json :: "savvy_config dto_payload snap_mem \<Rightarrow> nat option \<Rightarrow> (string \<times> nat) option" where
  "sensor_config_snapshot_raw_json m handle =
     map_option (\<lambda>p. (jp_raw_json p @ [CHR 0x00], length (jp_raw_json p))) (savvy_snapshot_payload m handle)"

definition sensor_config_store_release ::
  "sensor_config_store option \<Rightarrow> savvy_config dto_payload snap_mem \<Rightarrow> nat option \<Rightarrow> savvy_config dto_payload snap_mem option" where
  "sensor_config_store_release store m handle =
     (if store = None \<or> handle = None then Some m else savvy_snapshot_release m handle)"

section \<open>The published value is what its text says\<close>

text \<open>
  A payload is sound when its members are within their C types and reparsing its text over the
  defaults gives its value; without a text the value is the defaults.
\<close>

definition config_payload_ok :: "savvy_config dto_payload \<Rightarrow> bool" where
  "config_payload_ok p \<longleftrightarrow>
     config_fits (jp_value p)
   \<and> (\<exists>v logged. jp_value p = v
        \<and> (if jp_raw_json p = [] then v = savvy_config_set_defaults
           else savvy_config_parse (Some (jp_raw_json p @ [CHR 0x00])) (length (jp_raw_json p))
                  (Some savvy_config_set_defaults) False = (SAVVY_OK, Some v, logged)))"

text \<open>All live snapshots are sound, and the current one is the working copy.\<close>

definition config_store_ok :: "sensor_config_store \<Rightarrow> savvy_config dto_payload snap_sys \<Rightarrow> bool" where
  "config_store_ok s sys \<longleftrightarrow>
     payloads_ok config_payload_ok sys \<and> sy_owner sys = cs_snapshot s
   \<and> (case current_payload sys of None \<Rightarrow> True | Some p \<Rightarrow> jp_value p = cs_working s)"

lemma config_parse_ok:
  assumes "savvy_config_parse (Some j) len (Some savvy_config_set_defaults) False = (SAVVY_OK, scratch, logged)"
    and "len < length j"
  obtains v where "scratch = Some v" and "config_fits v" and "0 < len" and "len < length j"
    and "savvy_config_parse (Some (take len j @ [CHR 0x00])) (length (take len j)) (Some savvy_config_set_defaults) False
      = (SAVVY_OK, Some v, logged)"
proof -
  obtain ms where tree: "savvy_json_parse (Some j) len False = Inr (cJSON_Object ms)"
  proof (cases "savvy_json_parse (Some j) len False")
    case (Inl e)
    then show ?thesis using assms(1) json_parse_error [OF Inl] by (simp add: savvy_config_parse_def)
  next
    case (Inr tree)
    then show ?thesis using assms(1) that by (cases tree) (simp_all add: savvy_config_parse_def)
  qed
  note copy = json_parse_copy [OF assms(2) tree] and t = json_parse_ok_terminated [OF assms(2) tree]
  obtain v where v: "scratch = Some v"
    using assms(1) tree by (auto simp: savvy_config_parse_def Let_def split: prod.splits)
  have "config_fits v"
    using config_parse_keeps_fits [OF tree config_defaults_ok(1), of False] assms(1) v by simp
  moreover have "savvy_config_parse (Some (take len j @ [CHR 0x00])) (length (take len j)) (Some savvy_config_set_defaults) False
      = (SAVVY_OK, Some v, logged)"
    using assms(1) v tree copy by (simp add: savvy_config_parse_def)
  ultimately show ?thesis using v t(3) assms(2) that by blast
qed

lemma config_commit_publishes:
  assumes ok: "config_store_ok s sys" and fresh: "handles (sy_mem sys) a = None"
    and size: "len \<le> SIZE_MAX - struct_size - 1"
    and p: "config_payload_ok \<lparr>jp_value = v, jp_raw_json = take len j\<rparr>"
  shows "\<exists>s' m'. config_store_commit struct_size s (sy_mem sys) v j len True (Some a) = Some (SAVVY_OK, s', m')
     \<and> cs_working s' = v
     \<and> config_store_ok s' (sys\<lparr>sy_owner := cs_snapshot s', sy_mem := m',
                             published := published sys @ [\<lparr>jp_value = v, jp_raw_json = take len j\<rparr>]\<rparr>)
     \<and> current_payload (sys\<lparr>sy_owner := cs_snapshot s', sy_mem := m',
                             published := published sys @ [\<lparr>jp_value = v, jp_raw_json = take len j\<rparr>]\<rparr>)
       = Some \<lparr>jp_value = v, jp_raw_json = take len j\<rparr>"
proof -
  have create: "config_payload_create struct_size v j len True = Some \<lparr>jp_value = v, jp_raw_json = take len j\<rparr>"
    using size by (simp add: config_payload_create_def)
  have "payloads_ok config_payload_ok sys" "sy_owner sys = cs_snapshot s" using ok by (simp_all add: config_store_ok_def)
  with publish_call [OF this(1) fresh p] create show ?thesis
    by (auto simp: config_store_commit_def config_store_ok_def)
qed

lemma config_commit_fails:
  assumes "\<not> malloc_ok \<or> alloc = None"
  shows "config_store_commit struct_size s m v j len malloc_ok alloc = Some (SAVVY_ERR_OUT_OF_MEMORY, s, m)"
  using assms by (cases s) (auto simp: config_store_commit_def config_payload_create_def savvy_snapshot_publish_def)

text \<open>
  C33: a runtime config is applied atomically. When the message parses, its value over the
  defaults becomes the working copy and the current snapshot, paired with the exact text, all
  live snapshots still agree with their texts, and the reported differences are those between
  the old and the new value. When it does not parse, or memory runs out, the status says so and
  store, snapshots and result are untouched. In no case is a freed snapshot touched.
\<close>

theorem config_store_apply_atomic:
  assumes "config_store_ok s sys" and "handles (sy_mem sys) a = None"
    and "len < length j" and "len \<le> SIZE_MAX - struct_size - 1"
  shows "case savvy_config_parse (Some j) len (Some savvy_config_set_defaults) False of
       (SAVVY_OK, scratch, _) \<Rightarrow>
         \<exists>v s' m'. scratch = Some v
           \<and> sensor_config_store_apply_runtime struct_size (Some s) (sy_mem sys) (Some j) len True (Some a) (Some out)
             = Some (SAVVY_OK, Some s', m', Some (config_apply_diff (cs_working s) v))
           \<and> cs_working s' = v
           \<and> config_store_ok s' (sys\<lparr>sy_owner := cs_snapshot s', sy_mem := m',
                                   published := published sys @ [\<lparr>jp_value = v, jp_raw_json = take len j\<rparr>]\<rparr>)
           \<and> sensor_config_store_apply_runtime struct_size (Some s) (sy_mem sys) (Some j) len False (Some a) (Some out)
             = Some (SAVVY_ERR_OUT_OF_MEMORY, Some s, sy_mem sys, Some out)
           \<and> sensor_config_store_apply_runtime struct_size (Some s) (sy_mem sys) (Some j) len True None (Some out)
             = Some (SAVVY_ERR_OUT_OF_MEMORY, Some s, sy_mem sys, Some out)
     | (st, _) \<Rightarrow>
         sensor_config_store_apply_runtime struct_size (Some s) (sy_mem sys) (Some j) len malloc_ok alloc (Some out)
           = Some (st, Some s, sy_mem sys, Some out)"
proof (cases "savvy_config_parse (Some j) len (Some savvy_config_set_defaults) False")
  case (fields st scratch logged)
  show ?thesis
  proof (cases "st = SAVVY_OK")
    case True
    obtain v where v: "scratch = Some v" "config_fits v" "0 < len"
      "savvy_config_parse (Some (take len j @ [CHR 0x00])) (length (take len j)) (Some savvy_config_set_defaults) False
      = (SAVVY_OK, Some v, logged)"
      using config_parse_ok [OF _ assms(3)] fields True by metis
    then have p: "config_payload_ok \<lparr>jp_value = v, jp_raw_json = take len j\<rparr>"
      using assms(3) by (auto simp: config_payload_ok_def)
    from config_commit_publishes [OF assms(1,2,4) p] fields True v show ?thesis
      by (auto simp: sensor_config_store_apply_runtime_def config_commit_fails)
  next
    case False
    then show ?thesis using fields
      by (cases st) (simp_all add: sensor_config_store_apply_runtime_def)
  qed
qed

lemma config_store_starts_ok:
  assumes "sensor_config_store_init False True True = (SAVVY_OK, Some s)"
  shows "config_store_ok s (snap_start (cs_snapshot s))"
proof -
  have "savvy_snapshot_owner_init True True = (SAVVY_OK, Some (cs_snapshot s))"
    using assms by (auto simp: sensor_config_store_init_def savvy_snapshot_owner_init_def)
  then show ?thesis
    using snap_inv_start [of True "cs_snapshot s"]
    by (simp add: config_store_ok_def payloads_ok_def current_payload_def snap_start_def savvy_snapshot_owner_init_def)
       (auto split: option.splits)
qed

text \<open>
  Loading the cached config. Without a cache the defaults are published; with one, its value
  over the defaults, and a cache that does not parse changes nothing. The snapshots stay sound.
\<close>

theorem config_store_load_publishes:
  assumes "config_store_ok s sys" and "handles (sy_mem sys) a = None"
    and "len < length j" and "len \<le> SIZE_MAX - struct_size - 1"
  shows "\<exists>st s' m'. sensor_config_store_load_cached struct_size (Some s) (sy_mem sys) (Some j) len True (Some a)
         = Some (st, Some s', m')
     \<and> (if st = SAVVY_OK
        then \<exists>v. (v, SAVVY_OK) = (if len = 0 then (savvy_config_set_defaults, SAVVY_OK)
                  else case savvy_config_parse (Some j) len (Some savvy_config_set_defaults) False of
                         (st', v', _) \<Rightarrow> (the v', st'))
           \<and> cs_working s' = v
           \<and> config_store_ok s' (sys\<lparr>sy_owner := cs_snapshot s', sy_mem := m',
                                   published := published sys @ [\<lparr>jp_value = v, jp_raw_json = take len j\<rparr>]\<rparr>)
        else len \<noteq> 0 \<and> s' = s \<and> m' = sy_mem sys)"
proof (cases "len = 0")
  case True
  have "config_payload_ok \<lparr>jp_value = savvy_config_set_defaults, jp_raw_json = take len j\<rparr>"
    using True config_defaults_ok(1) by (simp add: config_payload_ok_def)
  from config_commit_publishes [OF assms(1,2,4) this] True show ?thesis
    by (auto simp: sensor_config_store_load_cached_def)
next
  case False
  obtain st scratch logged where parse:
    "savvy_config_parse (Some j) len (Some savvy_config_set_defaults) False = (st, scratch, logged)" by (metis prod_cases3)
  show ?thesis
  proof (cases "st = SAVVY_OK")
    case True
    obtain v where v: "scratch = Some v" "config_fits v"
      "savvy_config_parse (Some (take len j @ [CHR 0x00])) (length (take len j)) (Some savvy_config_set_defaults) False
      = (SAVVY_OK, Some v, logged)"
      using config_parse_ok [OF _ assms(3)] parse True by metis
    then have "config_payload_ok \<lparr>jp_value = v, jp_raw_json = take len j\<rparr>"
      using assms(3) False by (auto simp: config_payload_ok_def)
    from config_commit_publishes [OF assms(1,2,4) this] parse True False v show ?thesis
      by (auto simp: sensor_config_store_load_cached_def)
  qed (use parse False in \<open>simp add: sensor_config_store_load_cached_def\<close>)
qed

text \<open>An empty object changes nothing.\<close>

lemma config_parse_empty:
  "savvy_config_parse (Some [CHR ''{'', CHR ''}'', CHR 0x00]) 2 (Some s) False = (SAVVY_OK, Some s, [])"
proof -
  have "savvy_json_parse (Some (''{}'' @ CHR 0x00 # [])) (length ''{}'') False = Inr (cJSON_Object [])"
    by (rule json_parse_printed(2))
      (simp_all add: CJSON_NESTING_LIMIT_def numeral_eq_Suc strict_tree_def print_empty_object)
  moreover have "apply_fields (cJSON_Object []) fs s = (SAVVY_OK, s)" for fs by (induction fs) (simp_all add: apply_fields_step)
  ultimately show ?thesis by (simp add: savvy_config_parse_def savvy_apply_field_table_def numeral_2_eq_2)
qed

definition config_store_demo :: sensor_config_store where
  "config_store_demo = \<lparr>cs_snapshot = \<lparr>sn_current = None, sn_free_fn = True, sn_version = 0\<rparr>,
     cs_working = savvy_config_set_defaults\<rparr>"

lemma config_store_demo_ok: "config_store_ok config_store_demo (snap_start (cs_snapshot config_store_demo))"
  by (rule config_store_starts_ok) (simp add: sensor_config_store_init_def savvy_snapshot_owner_init_def config_store_demo_def)

theorem config_store_apply_atomic_witness:
  "\<exists>s' m'. sensor_config_store_apply_runtime 0 (Some config_store_demo) \<lparr>handles = (\<lambda>_. None), free_log = []\<rparr>
       (Some [CHR ''{'', CHR ''}'', CHR 0x00]) 2 True (Some 0)
       (Some (config_apply_diff savvy_config_set_defaults savvy_config_set_defaults))
     = Some (SAVVY_OK, Some s', m', Some (config_apply_diff savvy_config_set_defaults savvy_config_set_defaults))"
  using config_store_apply_atomic [OF config_store_demo_ok, of 0 2 "[CHR ''{'', CHR ''}'', CHR 0x00]" 0
      "config_apply_diff savvy_config_set_defaults savvy_config_set_defaults"]
  by (auto simp: config_parse_empty limits snap_start_def config_store_demo_def)

theorem config_store_load_publishes_witness:
  "\<exists>st s' m'. sensor_config_store_load_cached 0 (Some config_store_demo) \<lparr>handles = (\<lambda>_. None), free_log = []\<rparr>
       (Some [CHR ''{'', CHR ''}'', CHR 0x00]) 2 True (Some 0) = Some (st, Some s', m')"
  using config_store_load_publishes [OF config_store_demo_ok, of 0 2 "[CHR ''{'', CHR ''}'', CHR 0x00]" 0]
  by (auto simp: limits snap_start_def)

end
