(* ===== verification/Device_Store.thy ===== *)
theory Device_Store
  imports Store_Base Device_Codec
begin

text \<open>
  \<^verbatim>\<open>src/features/config/device_store.c\<close>: the device the daemon runs with. Each accepted message is
  published as an immutable snapshot that pairs the typed value with the text it came from.
  \<^verbatim>\<open>malloc\<close> of the payload is a flag, the address of the new handle an argument, and \<^verbatim>\<open>sizeof\<close> the
  payload struct a parameter of the size check; \<open>None\<close> would be a use of a freed handle. Calls
  run under \<^verbatim>\<open>write_lock\<close> and are single steps.
\<close>

record sensor_device_store =
  ds_snapshot :: snapshot_owner
  ds_working :: savvy_device

record sensor_device_apply_result =
  ar_data_collection_raw_old :: int
  ar_data_collection_raw_new :: int

definition device_apply_diff :: "savvy_device \<Rightarrow> savvy_device \<Rightarrow> sensor_device_apply_result" where
  "device_apply_diff working scratch =
     \<lparr>ar_data_collection_raw_old = dev_data_collection working,
      ar_data_collection_raw_new = dev_data_collection scratch\<rparr>"

definition device_payload_create :: "nat \<Rightarrow> savvy_device \<Rightarrow> string \<Rightarrow> nat \<Rightarrow> bool \<Rightarrow> savvy_device dto_payload option" where
  "device_payload_create struct_size val raw_json raw_json_len malloc_ok =
     (if raw_json_len > SIZE_MAX - struct_size - 1 then None
      else if \<not> malloc_ok then None
      else Some \<lparr>jp_value = val, jp_raw_json = take raw_json_len raw_json\<rparr>)"

definition sensor_device_store_init :: "bool \<Rightarrow> bool \<Rightarrow> bool \<Rightarrow> savvy_status \<times> sensor_device_store option" where
  "sensor_device_store_init store_null owner_mutex_ok mutex_ok =
     (if store_null then (SAVVY_ERR_INVALID_ARGUMENT, None)
      else case savvy_snapshot_owner_init owner_mutex_ok True of
        (st, None) \<Rightarrow> (st, None)
      | (st, Some owner) \<Rightarrow>
          if st \<noteq> SAVVY_OK then (st, None)
          else if \<not> mutex_ok then (SAVVY_ERR_UNKNOWN, None)
          else (SAVVY_OK, Some \<lparr>ds_snapshot = owner, ds_working = savvy_device_set_defaults\<rparr>))"

definition sensor_device_store_destroy ::
  "sensor_device_store option \<Rightarrow> savvy_device dto_payload snap_mem
     \<Rightarrow> (sensor_device_store option \<times> savvy_device dto_payload snap_mem) option" where
  "sensor_device_store_destroy store m =
     (case store of
        None \<Rightarrow> Some (None, m)
      | Some s \<Rightarrow>
          map_option (\<lambda>(owner, m'). (Some (s\<lparr>ds_snapshot := owner\<rparr>), m'))
            (savvy_snapshot_owner_destroy (ds_snapshot s) m))"

definition reset_stateful_fields :: "savvy_device \<Rightarrow> savvy_device" where
  "reset_stateful_fields d =
     d\<lparr>dev_blue_tooth := 0, dev_mic := 0, dev_wifi := 0, dev_tof := 0, dev_led := 0, dev_buzzer := 0,
       dev_move_sensor := 0, dev_beacon := 0, dev_reboot := 0\<rparr>"

text \<open>
  The end of both writers: the payload is created and published, and only then the working
  copy replaced. \<^verbatim>\<open>publish\<close> frees the payload again when it fails.
\<close>

definition device_store_commit ::
  "nat \<Rightarrow> sensor_device_store \<Rightarrow> savvy_device dto_payload snap_mem \<Rightarrow> savvy_device \<Rightarrow> string \<Rightarrow> nat \<Rightarrow> bool \<Rightarrow> nat option
     \<Rightarrow> (savvy_status \<times> sensor_device_store \<times> savvy_device dto_payload snap_mem) option" where
  "device_store_commit struct_size s m scratch raw_json raw_json_len malloc_ok alloc =
     (case device_payload_create struct_size scratch raw_json raw_json_len malloc_ok of
        None \<Rightarrow> Some (SAVVY_ERR_OUT_OF_MEMORY, s, m)
      | Some copy \<Rightarrow>
          (case savvy_snapshot_publish (ds_snapshot s) m alloc copy of
             None \<Rightarrow> None
           | Some (st, owner, m') \<Rightarrow>
               if st \<noteq> SAVVY_OK then Some (st, s\<lparr>ds_snapshot := owner\<rparr>, m')
               else Some (SAVVY_OK, s\<lparr>ds_snapshot := owner, ds_working := scratch\<rparr>, m')))"

definition sensor_device_store_load_cached ::
  "nat \<Rightarrow> sensor_device_store option \<Rightarrow> savvy_device dto_payload snap_mem \<Rightarrow> string option \<Rightarrow> nat \<Rightarrow> bool \<Rightarrow> nat option
     \<Rightarrow> (savvy_status \<times> sensor_device_store option \<times> savvy_device dto_payload snap_mem) option" where
  "sensor_device_store_load_cached struct_size store m cached_json cached_len malloc_ok alloc =
     (case store of
        None \<Rightarrow> Some (SAVVY_ERR_INVALID_ARGUMENT, None, m)
      | Some s \<Rightarrow>
          (case (if cached_json \<noteq> None \<and> cached_len > 0
                 then savvy_device_parse cached_json cached_len (Some savvy_device_set_defaults) False
                 else (SAVVY_OK, Some savvy_device_set_defaults, [])) of
             (st, scratch, _) \<Rightarrow>
               if st \<noteq> SAVVY_OK then Some (st, store, m)
               else
                 let raw_json = (case cached_json of None \<Rightarrow> [] | Some j \<Rightarrow> j);
                     raw_json_len = (if cached_json \<noteq> None \<and> cached_len > 0 then cached_len else 0)
                 in map_option (\<lambda>(st, s', m'). (st, Some s', m'))
                      (device_store_commit struct_size s m (reset_stateful_fields (the scratch)) raw_json raw_json_len malloc_ok alloc)))"

definition sensor_device_store_apply_runtime ::
  "nat \<Rightarrow> sensor_device_store option \<Rightarrow> savvy_device dto_payload snap_mem \<Rightarrow> string option \<Rightarrow> nat \<Rightarrow> bool \<Rightarrow> nat option
     \<Rightarrow> sensor_device_apply_result option
     \<Rightarrow> (savvy_status \<times> sensor_device_store option \<times> savvy_device dto_payload snap_mem \<times> sensor_device_apply_result option) option" where
  "sensor_device_store_apply_runtime struct_size store m json len malloc_ok alloc out_result =
     (case (store, json, out_result) of
        (Some s, Some j, Some _) \<Rightarrow>
          (case savvy_device_parse json len (Some savvy_device_set_defaults) False of
             (st, scratch, _) \<Rightarrow>
               if st \<noteq> SAVVY_OK then Some (st, store, m, out_result)
               else
                 (case device_store_commit struct_size s m (the scratch) j len malloc_ok alloc of
                    None \<Rightarrow> None
                  | Some (st, s', m') \<Rightarrow>
                      if st \<noteq> SAVVY_OK then Some (st, Some s', m', out_result)
                      else Some (SAVVY_OK, Some s', m', Some (device_apply_diff (ds_working s) (the scratch)))))
      | _ \<Rightarrow> Some (SAVVY_ERR_INVALID_ARGUMENT, store, m, out_result))"

definition sensor_device_store_acquire ::
  "sensor_device_store option \<Rightarrow> savvy_device dto_payload snap_mem \<Rightarrow> (nat option \<times> u64 option \<times> savvy_device dto_payload snap_mem) option" where
  "sensor_device_store_acquire store m =
     (case store of
        None \<Rightarrow> Some (None, None, m)
      | Some s \<Rightarrow> map_option (\<lambda>(h, v, m'). (h, Some v, m')) (savvy_snapshot_acquire (ds_snapshot s) m))"

definition sensor_device_snapshot_payload :: "savvy_device dto_payload snap_mem \<Rightarrow> nat option \<Rightarrow> savvy_device option" where
  "sensor_device_snapshot_payload m handle = map_option jp_value (savvy_snapshot_payload m handle)"

text \<open>The characters and the length; in memory a terminator follows.\<close>

definition sensor_device_snapshot_raw_json :: "savvy_device dto_payload snap_mem \<Rightarrow> nat option \<Rightarrow> (string \<times> nat) option" where
  "sensor_device_snapshot_raw_json m handle =
     map_option (\<lambda>p. (jp_raw_json p @ [CHR 0x00], length (jp_raw_json p))) (savvy_snapshot_payload m handle)"

definition sensor_device_store_release ::
  "sensor_device_store option \<Rightarrow> savvy_device dto_payload snap_mem \<Rightarrow> nat option \<Rightarrow> savvy_device dto_payload snap_mem option" where
  "sensor_device_store_release store m handle =
     (if store = None \<or> handle = None then Some m else savvy_snapshot_release m handle)"

section \<open>The published value is what its text says\<close>

text \<open>
  A payload is sound when its members are within their C types and reparsing its text over the
  defaults gives its value, its stateful members possibly reset; without a text the value is the defaults.
\<close>

definition device_payload_ok :: "savvy_device dto_payload \<Rightarrow> bool" where
  "device_payload_ok p \<longleftrightarrow>
     device_fits (jp_value p)
   \<and> (\<exists>v logged. (jp_value p = v \<or> jp_value p = reset_stateful_fields v)
        \<and> (if jp_raw_json p = [] then v = savvy_device_set_defaults
           else savvy_device_parse (Some (jp_raw_json p @ [CHR 0x00])) (length (jp_raw_json p))
                  (Some savvy_device_set_defaults) False = (SAVVY_OK, Some v, logged)))"

text \<open>All live snapshots are sound, and the current one is the working copy.\<close>

definition device_store_ok :: "sensor_device_store \<Rightarrow> savvy_device dto_payload snap_sys \<Rightarrow> bool" where
  "device_store_ok s sys \<longleftrightarrow>
     payloads_ok device_payload_ok sys \<and> sy_owner sys = ds_snapshot s
   \<and> (case current_payload sys of None \<Rightarrow> True | Some p \<Rightarrow> jp_value p = ds_working s)"

lemma device_parse_ok:
  assumes "savvy_device_parse (Some j) len (Some savvy_device_set_defaults) False = (SAVVY_OK, scratch, logged)"
    and "len < length j"
  obtains v where "scratch = Some v" and "device_fits v" and "0 < len" and "len < length j"
    and "savvy_device_parse (Some (take len j @ [CHR 0x00])) (length (take len j)) (Some savvy_device_set_defaults) False
      = (SAVVY_OK, Some v, logged)"
proof -
  obtain ms where tree: "savvy_json_parse (Some j) len False = Inr (cJSON_Object ms)"
  proof (cases "savvy_json_parse (Some j) len False")
    case (Inl e)
    then show ?thesis using assms(1) json_parse_error [OF Inl] by (simp add: savvy_device_parse_def)
  next
    case (Inr tree)
    then show ?thesis using assms(1) that by (cases tree) (simp_all add: savvy_device_parse_def)
  qed
  note copy = json_parse_copy [OF assms(2) tree] and t = json_parse_ok_terminated [OF assms(2) tree]
  obtain v where v: "scratch = Some v"
    using assms(1) tree by (auto simp: savvy_device_parse_def Let_def split: prod.splits)
  have "device_fits v"
    using device_parse_keeps_fits [OF tree device_defaults_ok(1), of False] assms(1) v by simp
  moreover have "savvy_device_parse (Some (take len j @ [CHR 0x00])) (length (take len j)) (Some savvy_device_set_defaults) False
      = (SAVVY_OK, Some v, logged)"
    using assms(1) v tree copy by (simp add: savvy_device_parse_def)
  ultimately show ?thesis using v t(3) assms(2) that by blast
qed

lemma device_commit_publishes:
  assumes ok: "device_store_ok s sys" and fresh: "handles (sy_mem sys) a = None"
    and size: "len \<le> SIZE_MAX - struct_size - 1"
    and p: "device_payload_ok \<lparr>jp_value = v, jp_raw_json = take len j\<rparr>"
  shows "\<exists>s' m'. device_store_commit struct_size s (sy_mem sys) v j len True (Some a) = Some (SAVVY_OK, s', m')
     \<and> ds_working s' = v
     \<and> device_store_ok s' (sys\<lparr>sy_owner := ds_snapshot s', sy_mem := m',
                             published := published sys @ [\<lparr>jp_value = v, jp_raw_json = take len j\<rparr>]\<rparr>)
     \<and> current_payload (sys\<lparr>sy_owner := ds_snapshot s', sy_mem := m',
                             published := published sys @ [\<lparr>jp_value = v, jp_raw_json = take len j\<rparr>]\<rparr>)
       = Some \<lparr>jp_value = v, jp_raw_json = take len j\<rparr>"
proof -
  have create: "device_payload_create struct_size v j len True = Some \<lparr>jp_value = v, jp_raw_json = take len j\<rparr>"
    using size by (simp add: device_payload_create_def)
  have "payloads_ok device_payload_ok sys" "sy_owner sys = ds_snapshot s" using ok by (simp_all add: device_store_ok_def)
  with publish_call [OF this(1) fresh p] create show ?thesis
    by (auto simp: device_store_commit_def device_store_ok_def)
qed

lemma device_commit_fails:
  assumes "\<not> malloc_ok \<or> alloc = None"
  shows "device_store_commit struct_size s m v j len malloc_ok alloc = Some (SAVVY_ERR_OUT_OF_MEMORY, s, m)"
  using assms by (cases s) (auto simp: device_store_commit_def device_payload_create_def savvy_snapshot_publish_def)

text \<open>A runtime device message, as for the config store: applied whole or not at all.\<close>

lemma device_store_apply_atomic:
  assumes "device_store_ok s sys" and "handles (sy_mem sys) a = None"
    and "len < length j" and "len \<le> SIZE_MAX - struct_size - 1"
  shows "case savvy_device_parse (Some j) len (Some savvy_device_set_defaults) False of
       (SAVVY_OK, scratch, _) \<Rightarrow>
         \<exists>v s' m'. scratch = Some v
           \<and> sensor_device_store_apply_runtime struct_size (Some s) (sy_mem sys) (Some j) len True (Some a) (Some out)
             = Some (SAVVY_OK, Some s', m', Some (device_apply_diff (ds_working s) v))
           \<and> ds_working s' = v
           \<and> device_store_ok s' (sys\<lparr>sy_owner := ds_snapshot s', sy_mem := m',
                                   published := published sys @ [\<lparr>jp_value = v, jp_raw_json = take len j\<rparr>]\<rparr>)
           \<and> sensor_device_store_apply_runtime struct_size (Some s) (sy_mem sys) (Some j) len False (Some a) (Some out)
             = Some (SAVVY_ERR_OUT_OF_MEMORY, Some s, sy_mem sys, Some out)
           \<and> sensor_device_store_apply_runtime struct_size (Some s) (sy_mem sys) (Some j) len True None (Some out)
             = Some (SAVVY_ERR_OUT_OF_MEMORY, Some s, sy_mem sys, Some out)
     | (st, _) \<Rightarrow>
         sensor_device_store_apply_runtime struct_size (Some s) (sy_mem sys) (Some j) len malloc_ok alloc (Some out)
           = Some (st, Some s, sy_mem sys, Some out)"
proof (cases "savvy_device_parse (Some j) len (Some savvy_device_set_defaults) False")
  case (fields st scratch logged)
  show ?thesis
  proof (cases "st = SAVVY_OK")
    case True
    obtain v where v: "scratch = Some v" "device_fits v" "0 < len"
      "savvy_device_parse (Some (take len j @ [CHR 0x00])) (length (take len j)) (Some savvy_device_set_defaults) False
      = (SAVVY_OK, Some v, logged)"
      using device_parse_ok [OF _ assms(3)] fields True by metis
    then have p: "device_payload_ok \<lparr>jp_value = v, jp_raw_json = take len j\<rparr>"
      using assms(3) by (auto simp: device_payload_ok_def)
    from device_commit_publishes [OF assms(1,2,4) p] fields True v show ?thesis
      by (auto simp: sensor_device_store_apply_runtime_def device_commit_fails)
  next
    case False
    then show ?thesis using fields
      by (cases st) (simp_all add: sensor_device_store_apply_runtime_def)
  qed
qed

lemma device_store_starts_ok:
  assumes "sensor_device_store_init False True True = (SAVVY_OK, Some s)"
  shows "device_store_ok s (snap_start (ds_snapshot s))"
proof -
  have "savvy_snapshot_owner_init True True = (SAVVY_OK, Some (ds_snapshot s))"
    using assms by (auto simp: sensor_device_store_init_def savvy_snapshot_owner_init_def)
  then show ?thesis
    using snap_inv_start [of True "ds_snapshot s"]
    by (simp add: device_store_ok_def payloads_ok_def current_payload_def snap_start_def savvy_snapshot_owner_init_def)
       (auto split: option.splits)
qed


lemma reset_stateful_fields_fits: "device_fits d \<Longrightarrow> device_fits (reset_stateful_fields d)"
  by (simp add: device_fits_def DEVICE_FIELDS_def reset_stateful_fields_def string_field_def int32_field_def
      fits_def typed_def int32_range_def limits)

text \<open>
  Loading the cached device record. The value of the cache over the defaults (the defaults
  without a cache) is published with its nine stateful members reset to zero and every other
  member kept, and becomes the working copy; a cache that does not parse changes nothing.
\<close>

theorem device_store_load_resets:
  assumes "device_store_ok s sys" and "handles (sy_mem sys) a = None"
    and "len < length j" and "len \<le> SIZE_MAX - struct_size - 1"
  shows "\<exists>st s' m'. sensor_device_store_load_cached struct_size (Some s) (sy_mem sys) (Some j) len True (Some a)
         = Some (st, Some s', m')
     \<and> (if st = SAVVY_OK
        then \<exists>v. (v, SAVVY_OK) = (if len = 0 then (savvy_device_set_defaults, SAVVY_OK)
                  else case savvy_device_parse (Some j) len (Some savvy_device_set_defaults) False of
                         (st', v', _) \<Rightarrow> (the v', st'))
           \<and> ds_working s' = reset_stateful_fields v
           \<and> device_store_ok s' (sys\<lparr>sy_owner := ds_snapshot s', sy_mem := m',
               published := published sys @ [\<lparr>jp_value = reset_stateful_fields v, jp_raw_json = take len j\<rparr>]\<rparr>)
        else len \<noteq> 0 \<and> s' = s \<and> m' = sy_mem sys)"
proof (cases "len = 0")
  case True
  have "device_payload_ok \<lparr>jp_value = reset_stateful_fields savvy_device_set_defaults, jp_raw_json = take len j\<rparr>"
    using True reset_stateful_fields_fits [OF device_defaults_ok(1)] by (auto simp: device_payload_ok_def)
  from device_commit_publishes [OF assms(1,2,4) this] True show ?thesis
    by (auto simp: sensor_device_store_load_cached_def)
next
  case False
  obtain st scratch logged where parse:
    "savvy_device_parse (Some j) len (Some savvy_device_set_defaults) False = (st, scratch, logged)" by (metis prod_cases3)
  show ?thesis
  proof (cases "st = SAVVY_OK")
    case True
    obtain v where v: "scratch = Some v" "device_fits v"
      "savvy_device_parse (Some (take len j @ [CHR 0x00])) (length (take len j)) (Some savvy_device_set_defaults) False
      = (SAVVY_OK, Some v, logged)"
      using device_parse_ok [OF _ assms(3)] parse True by metis
    then have "device_payload_ok \<lparr>jp_value = reset_stateful_fields v, jp_raw_json = take len j\<rparr>"
      using assms(3) False reset_stateful_fields_fits by (auto simp: device_payload_ok_def)
    from device_commit_publishes [OF assms(1,2,4) this] parse True False v show ?thesis
      by (auto simp: sensor_device_store_load_cached_def)
  qed (use parse False in \<open>simp add: sensor_device_store_load_cached_def\<close>)
qed

definition device_store_demo :: sensor_device_store where
  "device_store_demo = \<lparr>ds_snapshot = \<lparr>sn_current = None, sn_free_fn = True, sn_version = 0\<rparr>,
     ds_working = savvy_device_set_defaults\<rparr>"

lemma device_store_demo_ok: "device_store_ok device_store_demo (snap_start (ds_snapshot device_store_demo))"
  by (rule device_store_starts_ok) (simp add: sensor_device_store_init_def savvy_snapshot_owner_init_def device_store_demo_def)

theorem device_store_load_resets_witness:
  "\<exists>st s' m'. sensor_device_store_load_cached 0 (Some device_store_demo) \<lparr>handles = (\<lambda>_. None), free_log = []\<rparr>
       (Some [CHR ''{'', CHR ''}'', CHR 0x00]) 2 True (Some 0) = Some (st, Some s', m')"
  using device_store_load_resets [OF device_store_demo_ok, of 0 2 "[CHR ''{'', CHR ''}'', CHR 0x00]" 0]
  by (auto simp: limits snap_start_def)

end
