(* ===== verification/Sensor_Core.thy ===== *)
theory Sensor_Core
  imports Core_Base
begin

text \<open>
  The small state machines of the sensor daemon: the module registry on top of the lifecycle
  (\<^verbatim>\<open>src/features/health\<close>), the same-state suppression of reports (\<^verbatim>\<open>state_report\<close>), the update guard,
  the mode derivation and the reconnect tracker of the IPC client
  (\<^verbatim>\<open>src/platform/interfaces/ipc_reconnect.c\<close>). Callbacks are names of type \<open>'c\<close> with an
  interpretation \<open>run\<close> that may change the registry, as a callback that registers a module does.
\<close>

section \<open>Lifecycle with registered modules\<close>

definition SENSOR_LIFECYCLE_MAX_MODULES :: nat where
  "SENSOR_LIFECYCLE_MAX_MODULES = 16"

record 'c sensor_lifecycle_hooks =
  module_id :: "string option"
  on_start :: "'c option"
  on_config_applied :: "'c option"
  on_shutdown :: "'c option"
  user_data :: nat

text \<open>The array of modules is the list of its first \<^verbatim>\<open>module_count\<close> elements.\<close>

record 'c sensor_lifecycle =
  sl_base :: savvy_lifecycle
  sl_modules :: "'c sensor_lifecycle_hooks list"
  sl_callback_depth :: nat

definition snapshot_modules :: "'c sensor_lifecycle \<Rightarrow> 'c sensor_lifecycle_hooks list \<times> 'c sensor_lifecycle" where
  "snapshot_modules lc = (sl_modules lc, lc\<lparr>sl_callback_depth := sl_callback_depth lc + 1\<rparr>)"

definition finish_module_snapshot :: "'c sensor_lifecycle \<Rightarrow> 'c sensor_lifecycle" where
  "finish_module_snapshot lc = lc\<lparr>sl_callback_depth := sl_callback_depth lc - 1\<rparr>"

definition sensor_lifecycle_init :: "bool \<Rightarrow> bool \<Rightarrow> bool \<Rightarrow> savvy_status \<times> 'c sensor_lifecycle option" where
  "sensor_lifecycle_init lc_null base_mutex_ok mutex_ok =
     (if lc_null then (SAVVY_ERR_INVALID_ARGUMENT, None)
      else case savvy_lifecycle_init base_mutex_ok of
        (st, None) \<Rightarrow> (st, None)
      | (st, Some base) \<Rightarrow>
          if st \<noteq> SAVVY_OK then (st, None)
          else if \<not> mutex_ok then (SAVVY_ERR_UNKNOWN, None)
          else (SAVVY_OK, Some \<lparr>sl_base = base, sl_modules = [], sl_callback_depth = 0\<rparr>))"

text \<open>Whether the registry was destroyed; a call while a fan-out is under way is refused.\<close>

definition sensor_lifecycle_destroy :: "'c sensor_lifecycle option \<Rightarrow> bool" where
  "sensor_lifecycle_destroy lc = (case lc of None \<Rightarrow> False | Some l \<Rightarrow> \<not> (sl_callback_depth l \<noteq> 0))"

definition sensor_lifecycle_register_module ::
  "'c sensor_lifecycle option \<Rightarrow> 'c sensor_lifecycle_hooks option \<Rightarrow> savvy_status \<times> 'c sensor_lifecycle option" where
  "sensor_lifecycle_register_module lc hooks =
     (case (lc, hooks) of
        (Some l, Some h) \<Rightarrow>
          if module_id h = None then (SAVVY_ERR_INVALID_ARGUMENT, lc)
          else if length (sl_modules l) \<ge> SENSOR_LIFECYCLE_MAX_MODULES then (SAVVY_ERR_OVERFLOW, lc)
          else (SAVVY_OK, Some (l\<lparr>sl_modules := sl_modules l @ [h]\<rparr>))
      | _ \<Rightarrow> (SAVVY_ERR_INVALID_ARGUMENT, lc))"

text \<open>
  The loop over a snapshot. Each call is recorded with its argument and the registry it is
  made in.
\<close>

type_synonym 'c callback_log = "('c \<times> nat \<times> 'c sensor_lifecycle) list"

fun fan_out ::
  "('c \<Rightarrow> nat \<Rightarrow> 'c sensor_lifecycle \<Rightarrow> 'c sensor_lifecycle) \<Rightarrow> ('c sensor_lifecycle_hooks \<Rightarrow> 'c option)
     \<Rightarrow> 'c sensor_lifecycle_hooks list \<Rightarrow> 'c sensor_lifecycle \<Rightarrow> 'c sensor_lifecycle \<times> 'c callback_log" where
  "fan_out run hook [] lc = (lc, [])"
| "fan_out run hook (h # hs) lc =
     (case hook h of
        None \<Rightarrow> fan_out run hook hs lc
      | Some f \<Rightarrow>
          let (lc', calls) = fan_out run hook hs (run f (user_data h) lc)
          in (lc', (f, user_data h, lc) # calls))"

definition notify_modules ::
  "('c \<Rightarrow> nat \<Rightarrow> 'c sensor_lifecycle \<Rightarrow> 'c sensor_lifecycle) \<Rightarrow> ('c sensor_lifecycle_hooks \<Rightarrow> 'c option)
     \<Rightarrow> 'c sensor_lifecycle \<Rightarrow> 'c sensor_lifecycle \<times> 'c callback_log" where
  "notify_modules run hook lc =
     (let (snapshot, lc1) = snapshot_modules lc; (lc2, calls) = fan_out run hook snapshot lc1
      in (finish_module_snapshot lc2, calls))"

definition sensor_lifecycle_start ::
  "('c \<Rightarrow> nat \<Rightarrow> 'c sensor_lifecycle \<Rightarrow> 'c sensor_lifecycle) \<Rightarrow> 'c sensor_lifecycle option
     \<Rightarrow> savvy_status \<times> 'c sensor_lifecycle option \<times> 'c callback_log" where
  "sensor_lifecycle_start run lc =
     (case lc of
        None \<Rightarrow> (SAVVY_ERR_INVALID_ARGUMENT, None, [])
      | Some l \<Rightarrow>
          let (st, transitioned, base) = savvy_lifecycle_start (sl_base l);
              l1 = l\<lparr>sl_base := base\<rparr>
          in if st \<noteq> SAVVY_OK \<or> \<not> transitioned then (st, Some l1, [])
             else let (l2, calls) = notify_modules run on_start l1 in (SAVVY_OK, Some l2, calls))"

definition sensor_lifecycle_notify_config_applied ::
  "('c \<Rightarrow> nat \<Rightarrow> 'c sensor_lifecycle \<Rightarrow> 'c sensor_lifecycle) \<Rightarrow> 'c sensor_lifecycle option
     \<Rightarrow> 'c sensor_lifecycle option \<times> 'c callback_log" where
  "sensor_lifecycle_notify_config_applied run lc =
     (case lc of
        None \<Rightarrow> (None, [])
      | Some l \<Rightarrow> let (l', calls) = notify_modules run on_config_applied l in (Some l', calls))"

definition sensor_lifecycle_stop ::
  "('c \<Rightarrow> nat \<Rightarrow> 'c sensor_lifecycle \<Rightarrow> 'c sensor_lifecycle) \<Rightarrow> 'c sensor_lifecycle option
     \<Rightarrow> savvy_status \<times> 'c sensor_lifecycle option \<times> 'c callback_log" where
  "sensor_lifecycle_stop run lc =
     (case lc of
        None \<Rightarrow> (SAVVY_ERR_INVALID_ARGUMENT, None, [])
      | Some l \<Rightarrow>
          let (st, transitioned, base) = savvy_lifecycle_stop (sl_base l);
              l1 = l\<lparr>sl_base := base\<rparr>
          in if st \<noteq> SAVVY_OK \<or> \<not> transitioned then (st, Some l1, [])
             else let (l2, calls) = notify_modules run on_shutdown l1 in (SAVVY_OK, Some l2, calls))"

definition sensor_lifecycle_get_state :: "'c sensor_lifecycle \<Rightarrow> savvy_lifecycle_state" where
  "sensor_lifecycle_get_state lc = savvy_lifecycle_get (sl_base lc)"

record sensor_health_status =
  lifecycle_state :: savvy_lifecycle_state
  update_guard_tripped :: bool

definition sensor_health_snapshot :: "'c sensor_lifecycle \<Rightarrow> bool \<Rightarrow> sensor_health_status" where
  "sensor_health_snapshot lc tripped =
     \<lparr>lifecycle_state = sensor_lifecycle_get_state lc, update_guard_tripped = tripped\<rparr>"

section \<open>Mode derivation\<close>

record sensor_mode_transition =
  mt_changed :: bool
  mt_runtime_value :: bool

definition sensor_mode_use_rknn_apply_startup :: "int \<Rightarrow> bool" where
  "sensor_mode_use_rknn_apply_startup raw \<longleftrightarrow> raw \<noteq> 0"

definition sensor_mode_use_rknn_apply_live :: "int \<Rightarrow> int \<Rightarrow> sensor_mode_transition" where
  "sensor_mode_use_rknn_apply_live old_raw new_raw =
     \<lparr>mt_changed = (old_raw \<noteq> new_raw), mt_runtime_value = (new_raw = 1)\<rparr>"

definition sensor_mode_data_collection_apply_startup :: "int \<Rightarrow> bool" where
  "sensor_mode_data_collection_apply_startup raw \<longleftrightarrow> raw = 1"

definition sensor_mode_data_collection_apply_live :: "int \<Rightarrow> bool" where
  "sensor_mode_data_collection_apply_live raw \<longleftrightarrow> raw \<noteq> 0"

section \<open>Update guard\<close>

record sensor_update_guard =
  ug_tripped :: bool

definition sensor_update_guard_init :: sensor_update_guard where
  "sensor_update_guard_init = \<lparr>ug_tripped = False\<rparr>"

definition sensor_update_guard_on_apk_update :: "sensor_update_guard \<Rightarrow> sensor_update_guard" where
  "sensor_update_guard_on_apk_update g = g\<lparr>ug_tripped := True\<rparr>"

definition sensor_update_guard_is_tripped :: "sensor_update_guard \<Rightarrow> bool" where
  "sensor_update_guard_is_tripped g = ug_tripped g"

definition sensor_update_guard_should_allow_pir_in :: "sensor_update_guard \<Rightarrow> bool" where
  "sensor_update_guard_should_allow_pir_in g = (\<not> sensor_update_guard_is_tripped g)"

section \<open>Same-state suppression\<close>

datatype sensor_report_sensor_type =
    SENSOR_REPORT_TYPE_MIC | SENSOR_REPORT_TYPE_LED | SENSOR_REPORT_TYPE_BUZZER | SENSOR_REPORT_TYPE_TOF
  | SENSOR_REPORT_TYPE_PIR

text \<open>The two arrays are indexed by the sensor type; \<^verbatim>\<open>SENSOR_REPORT_TYPE_COUNT\<close> is their length.\<close>

record sensor_state_report_tracker =
  has_value :: "sensor_report_sensor_type \<Rightarrow> bool"
  last_value :: "sensor_report_sensor_type \<Rightarrow> int"

definition sensor_state_report_tracker_init :: sensor_state_report_tracker where
  "sensor_state_report_tracker_init = \<lparr>has_value = (\<lambda>_. False), last_value = (\<lambda>_. 0)\<rparr>"

definition sensor_state_report_should_send ::
  "sensor_state_report_tracker \<Rightarrow> sensor_report_sensor_type \<Rightarrow> int \<Rightarrow> sensor_state_report_tracker \<times> bool" where
  "sensor_state_report_should_send tr ty new_value =
     (if has_value tr ty \<and> last_value tr ty = new_value then (tr, False)
      else (tr\<lparr>has_value := (has_value tr)(ty := True), last_value := (last_value tr)(ty := new_value)\<rparr>, True))"

section \<open>Reconnect tracker\<close>

record savvy_ipc_reconnect_tracker =
  has_connected_before :: bool

datatype reconnect_call = Request_Config nat | Request_Device nat

record savvy_ipc_reconnect_hooks =
  request_config :: bool  \<comment> \<open>whether the callback is set\<close>
  request_device :: bool
  rc_user_data :: nat

definition savvy_ipc_reconnect_tracker_init :: savvy_ipc_reconnect_tracker where
  "savvy_ipc_reconnect_tracker_init = \<lparr>has_connected_before = False\<rparr>"

definition savvy_ipc_reconnect_tracker_on_connected ::
  "savvy_ipc_reconnect_tracker \<Rightarrow> savvy_ipc_reconnect_hooks option
     \<Rightarrow> savvy_ipc_reconnect_tracker \<times> reconnect_call list" where
  "savvy_ipc_reconnect_tracker_on_connected t hooks =
     (if \<not> has_connected_before t then (t\<lparr>has_connected_before := True\<rparr>, [])
      else case hooks of
        None \<Rightarrow> (t, [])
      | Some h \<Rightarrow>
          (t, (if request_config h then [Request_Config (rc_user_data h)] else [])
              @ (if request_device h then [Request_Device (rc_user_data h)] else [])))"

section \<open>Fan-out\<close>

text \<open>The calls a fan-out over these modules has to make.\<close>

definition wanted_calls :: "('c sensor_lifecycle_hooks \<Rightarrow> 'c option) \<Rightarrow> 'c sensor_lifecycle_hooks list \<Rightarrow> ('c \<times> nat) list" where
  "wanted_calls hook hs = List.map_filter (\<lambda>h. map_option (\<lambda>f. (f, user_data h)) (hook h)) hs"

definition made_calls :: "'c callback_log \<Rightarrow> ('c \<times> nat) list" where
  "made_calls calls = map (\<lambda>(f, u, _). (f, u)) calls"

text \<open>
  Nested calls of the registry's own functions are balanced, so a callback leaves the depth as
  it found it.
\<close>

definition balanced :: "('c \<Rightarrow> nat \<Rightarrow> 'c sensor_lifecycle \<Rightarrow> 'c sensor_lifecycle) \<Rightarrow> bool" where
  "balanced run \<longleftrightarrow> (\<forall>f u lc. sl_callback_depth (run f u lc) = sl_callback_depth lc)"

lemma fan_out_calls: "made_calls (snd (fan_out run hook hs lc)) = wanted_calls hook hs"
proof (induction hs arbitrary: lc)
  case (Cons h hs)
  then show ?case
    by (cases "hook h") (simp_all add: made_calls_def wanted_calls_def List.map_filter_def case_prod_beta Let_def)
qed (simp add: made_calls_def wanted_calls_def List.map_filter_def)

lemma fan_out_depth:
  assumes "balanced run"
  shows "sl_callback_depth (fst (fan_out run hook hs lc)) = sl_callback_depth lc
     \<and> (\<forall>(f, u, l) \<in> set (snd (fan_out run hook hs lc)). sl_callback_depth l = sl_callback_depth lc)"
proof (induction hs arbitrary: lc)
  case (Cons h hs)
  show ?case
  proof (cases "hook h")
    case (Some f)
    have "sl_callback_depth (run f (user_data h) lc) = sl_callback_depth lc" using assms by (simp add: balanced_def)
    then show ?thesis using Cons.IH [of "run f (user_data h) lc"] Some by (auto simp: case_prod_beta Let_def)
  qed (simp add: Cons.IH)
qed simp

lemma notify_modules_calls:
  assumes "balanced run"
  shows "made_calls (snd (notify_modules run hook lc)) = wanted_calls hook (sl_modules lc)"
    and "sl_callback_depth (fst (notify_modules run hook lc)) = sl_callback_depth lc"
    and "\<forall>(f, u, l) \<in> set (snd (notify_modules run hook lc)). \<not> sensor_lifecycle_destroy (Some l)"
proof -
  let ?lc1 = "lc\<lparr>sl_callback_depth := sl_callback_depth lc + 1\<rparr>"
  note depth = fan_out_depth [OF assms, of hook "sl_modules lc" ?lc1]
  show "made_calls (snd (notify_modules run hook lc)) = wanted_calls hook (sl_modules lc)"
    using fan_out_calls [of run hook "sl_modules lc" ?lc1]
    by (simp add: notify_modules_def snapshot_modules_def case_prod_beta Let_def)
  show "sl_callback_depth (fst (notify_modules run hook lc)) = sl_callback_depth lc"
    using depth by (simp add: notify_modules_def snapshot_modules_def finish_module_snapshot_def case_prod_beta Let_def)
  show "\<forall>(f, u, l) \<in> set (snd (notify_modules run hook lc)). \<not> sensor_lifecycle_destroy (Some l)"
    using depth by (fastforce simp: notify_modules_def snapshot_modules_def sensor_lifecycle_destroy_def case_prod_beta Let_def)
qed

text \<open>
  C36: modules are notified in registration order, on real transitions only. For any callbacks,
  also ones that register further modules, \<^verbatim>\<open>start\<close> calls the \<^verbatim>\<open>on_start\<close> hooks of exactly the modules
  registered when it began, in that order, and only if it moved the daemon from stopped to
  running; likewise \<^verbatim>\<open>stop\<close> with \<^verbatim>\<open>on_shutdown\<close>. While a hook runs a reentrant \<^verbatim>\<open>destroy\<close> is refused, and
  afterwards the nesting depth is what it was.
\<close>

theorem lifecycle_notifies_in_order:
  assumes "balanced run"
  shows "(\<exists>lc' calls. sensor_lifecycle_start run (Some lc) = (SAVVY_OK, Some lc', calls)
      \<and> made_calls calls = (if sensor_lifecycle_get_state lc = SAVVY_LIFECYCLE_STOPPED
                             then wanted_calls on_start (sl_modules lc) else [])
      \<and> (\<forall>(f, u, l) \<in> set calls. \<not> sensor_lifecycle_destroy (Some l))
      \<and> sl_callback_depth lc' = sl_callback_depth lc)
    \<and> (\<exists>lc' calls. sensor_lifecycle_stop run (Some lc) = (SAVVY_OK, Some lc', calls)
      \<and> made_calls calls = (if sensor_lifecycle_get_state lc = SAVVY_LIFECYCLE_RUNNING
                             then wanted_calls on_shutdown (sl_modules lc) else [])
      \<and> (\<forall>(f, u, l) \<in> set calls. \<not> sensor_lifecycle_destroy (Some l))
      \<and> sl_callback_depth lc' = sl_callback_depth lc)"
  using notify_modules_calls [OF assms, of on_start "lc\<lparr>sl_base := sl_base lc\<lparr>lc_state := SAVVY_LIFECYCLE_RUNNING\<rparr>\<rparr>"]
    notify_modules_calls [OF assms, of on_shutdown "lc\<lparr>sl_base := sl_base lc\<lparr>lc_state := SAVVY_LIFECYCLE_STOPPED\<rparr>\<rparr>"]
  by (simp add: sensor_lifecycle_start_def sensor_lifecycle_stop_def sensor_lifecycle_get_state_def
      lifecycle_defs case_prod_beta Let_def) (auto simp: made_calls_def)

theorem lifecycle_notifies_in_order_witness:
  "\<exists>lc' calls. sensor_lifecycle_start (\<lambda>f u lc. lc)
      (Some \<lparr>sl_base = \<lparr>lc_state = SAVVY_LIFECYCLE_STOPPED\<rparr>,
             sl_modules = [\<lparr>module_id = Some ''m'', on_start = Some ''s'', on_config_applied = None, on_shutdown = None, user_data = 7\<rparr>],
             sl_callback_depth = 0\<rparr>)
      = (SAVVY_OK, Some lc', calls) \<and> made_calls calls = [(''s'', 7)]"
proof -
  have "balanced (\<lambda>(f :: string) u lc. lc)" by (simp add: balanced_def)
  from lifecycle_notifies_in_order [OF this, of "\<lparr>sl_base = \<lparr>lc_state = SAVVY_LIFECYCLE_STOPPED\<rparr>,
             sl_modules = [\<lparr>module_id = Some ''m'', on_start = Some ''s'', on_config_applied = None, on_shutdown = None, user_data = 7\<rparr>],
             sl_callback_depth = 0\<rparr>"]
  show ?thesis
    by (auto simp: sensor_lifecycle_get_state_def savvy_lifecycle_get_def wanted_calls_def List.map_filter_def)
qed

text \<open>Registration never exceeds the array, and fails exactly when it is full.\<close>

lemma register_module_bound:
  assumes "length (sl_modules lc) \<le> SENSOR_LIFECYCLE_MAX_MODULES" and "module_id h \<noteq> None"
  shows "\<exists>st lc'. sensor_lifecycle_register_module (Some lc) (Some h) = (st, Some lc')
     \<and> length (sl_modules lc') \<le> SENSOR_LIFECYCLE_MAX_MODULES
     \<and> (st = SAVVY_ERR_OVERFLOW \<longleftrightarrow> length (sl_modules lc) = SENSOR_LIFECYCLE_MAX_MODULES)"
  using assms by (auto simp: sensor_lifecycle_register_module_def)

section \<open>Runs of reports and of connections\<close>

fun reports ::
  "sensor_state_report_tracker \<Rightarrow> (sensor_report_sensor_type \<times> int) list \<Rightarrow> (sensor_report_sensor_type \<times> int) list" where
  "reports tr [] = []"
| "reports tr ((ty, v) # rs) =
     (case sensor_state_report_should_send tr ty v of
        (tr', send) \<Rightarrow> (if send then [(ty, v)] else []) @ reports tr' rs)"

definition values_of :: "sensor_report_sensor_type \<Rightarrow> (sensor_report_sensor_type \<times> int) list \<Rightarrow> int list" where
  "values_of ty rs = map snd (filter (\<lambda>r. fst r = ty) rs)"

lemma values_of_simps [simp]:
  "values_of ty [] = []" "values_of ty ((t, v) # rs) = (if t = ty then v # values_of ty rs else values_of ty rs)"
  by (simp_all add: values_of_def)

lemma reports_remdups:
  "values_of ty (reports tr rs) =
     (if has_value tr ty then tl (remdups_adj (last_value tr ty # values_of ty rs)) else remdups_adj (values_of ty rs))"
proof (induction rs arbitrary: tr)
  case (Cons r rs)
  obtain t v where r: "r = (t, v)" by (cases r)
  show ?case
  proof (cases "has_value tr t \<and> last_value tr t = v")
    case True
    then show ?thesis using Cons.IH [of tr] by (auto simp: r sensor_state_report_should_send_def)
  next
    case False
    then show ?thesis
      using Cons.IH [of "tr\<lparr>has_value := (has_value tr)(t := True), last_value := (last_value tr)(t := v)\<rparr>"]
        remdups_adj_Cons [of v "values_of ty rs"]
      by (auto simp: r sensor_state_report_should_send_def split: list.splits)
  qed
qed simp

text \<open>
  Same-state suppression. From a fresh tracker, for any interleaving of reports of the five
  sensors, the values sent for a sensor are exactly the values reported for it with immediate
  repetitions removed, in order; other sensors' reports have no influence.
\<close>

theorem state_report_suppresses_repeats:
  "values_of ty (reports sensor_state_report_tracker_init rs) = remdups_adj (values_of ty rs)"
  by (simp add: reports_remdups sensor_state_report_tracker_init_def)

fun connects ::
  "savvy_ipc_reconnect_tracker \<Rightarrow> savvy_ipc_reconnect_hooks option list \<Rightarrow> reconnect_call list" where
  "connects t [] = []"
| "connects t (hooks # hs) =
     (case savvy_ipc_reconnect_tracker_on_connected t hooks of (t', calls) \<Rightarrow> calls @ connects t' hs)"

definition replay :: "savvy_ipc_reconnect_hooks option \<Rightarrow> reconnect_call list" where
  "replay hooks = snd (savvy_ipc_reconnect_tracker_on_connected \<lparr>has_connected_before = True\<rparr> hooks)"

lemma connects_after_first: "connects \<lparr>has_connected_before = True\<rparr> hs = concat (map replay hs)"
  by (induction hs)
    (auto simp: replay_def savvy_ipc_reconnect_tracker_on_connected_def split: option.splits)

text \<open>The first connection replays nothing; every later one asks for the config, then the device.\<close>

lemma reconnect_replays_each_time:
  "connects savvy_ipc_reconnect_tracker_init hs = concat (map replay (tl hs))"
  by (cases hs)
    (simp_all add: savvy_ipc_reconnect_tracker_init_def savvy_ipc_reconnect_tracker_on_connected_def connects_after_first)

text \<open>Once an update was announced, movement events stay blocked.\<close>

lemma update_guard_latches:
  "sensor_update_guard_should_allow_pir_in ((sensor_update_guard_on_apk_update ^^ n) sensor_update_guard_init) \<longleftrightarrow> n = 0"
  by (induction n)
    (simp_all add: sensor_update_guard_should_allow_pir_in_def sensor_update_guard_is_tripped_def
      sensor_update_guard_init_def sensor_update_guard_on_apk_update_def)

text \<open>The two rules of each mode agree exactly on the values 0 and 1.\<close>

lemma mode_rules_agree_on_flags:
  "sensor_mode_use_rknn_apply_startup raw = mt_runtime_value (sensor_mode_use_rknn_apply_live old raw) \<longleftrightarrow> raw = 0 \<or> raw = 1"
  "sensor_mode_data_collection_apply_startup raw = sensor_mode_data_collection_apply_live raw \<longleftrightarrow> raw = 0 \<or> raw = 1"
  by (auto simp: sensor_mode_use_rknn_apply_startup_def sensor_mode_use_rknn_apply_live_def
      sensor_mode_data_collection_apply_startup_def sensor_mode_data_collection_apply_live_def)

end
