(* ===== verification/Ipc_Transport.thy ===== *)
theory Ipc_Transport
  imports Ipc_Codec
begin

text \<open>
  \<^verbatim>\<open>src/platform/linux/ipc\<close>: the transport to the manager process over an AF_UNIX SOCK_SEQPACKET
  socket. The operating system is a parameter: each turn of the poll loop has the two readings
  of the clock the code makes in it and the answer \<^verbatim>\<open>poll\<close> gives for a time-out; the results of the
  other system calls are arguments, and the calls that release a descriptor are recorded.
  A loop that has not returned is \<open>None\<close>.
\<close>

unbundle bit_operations_syntax

type_synonym poll_events = "16 word"

definition POLLIN :: poll_events where "POLLIN = 1"
definition POLLOUT :: poll_events where "POLLOUT = 4"
definition POLLERR :: poll_events where "POLLERR = 8"
definition POLLHUP :: poll_events where "POLLHUP = 16"

section \<open>Cancellation source\<close>

record savvy_ipc_cancel_source =
  cancel_read_fd :: int
  cancel_write_fd :: int

text \<open>
  The pipe's descriptors if \<^verbatim>\<open>pipe\<close> succeeds, and for each whether its three \<^verbatim>\<open>fcntl\<close> calls do; the
  result lists the descriptors closed again.
\<close>

definition savvy_ipc_cancel_source_init ::
  "(int \<times> int) option \<Rightarrow> (nat \<Rightarrow> bool) \<Rightarrow> savvy_status \<times> savvy_ipc_cancel_source \<times> int list" where
  "savvy_ipc_cancel_source_init pipe fcntl_ok =
     (case pipe of
        None \<Rightarrow> (SAVVY_ERR_IO, \<lparr>cancel_read_fd = -1, cancel_write_fd = -1\<rparr>, [])
      | Some (r, w) \<Rightarrow>
          if \<not> fcntl_ok 0 \<or> \<not> fcntl_ok 1
          then (SAVVY_ERR_IO, \<lparr>cancel_read_fd = -1, cancel_write_fd = -1\<rparr>, [r, w])
          else (SAVVY_OK, \<lparr>cancel_read_fd = r, cancel_write_fd = w\<rparr>, []))"

definition SAVVY_CANCEL_WRITE_MAX_ATTEMPTS :: nat where
  "SAVVY_CANCEL_WRITE_MAX_ATTEMPTS = 16"

datatype write_result = Written int | Write_EINTR | Write_EAGAIN | Write_Error

text \<open>The retry loop; the number is the attempts left, and \<open>os\<close> answers the attempts from number \<open>i\<close> on.\<close>

fun cancel_attempts :: "(nat \<Rightarrow> write_result) \<Rightarrow> nat \<Rightarrow> nat \<Rightarrow> savvy_status" where
  "cancel_attempts os i 0 = SAVVY_ERR_IO"
| "cancel_attempts os i (Suc left) =
     (case os i of
        Written n \<Rightarrow> if n = 1 then SAVVY_OK else SAVVY_ERR_IO
      | Write_EINTR \<Rightarrow> cancel_attempts os (i + 1) left
      | Write_EAGAIN \<Rightarrow> SAVVY_OK
      | Write_Error \<Rightarrow> SAVVY_ERR_IO)"

definition savvy_ipc_cancel_source_cancel ::
  "(nat \<Rightarrow> write_result) \<Rightarrow> savvy_ipc_cancel_source option \<Rightarrow> savvy_status" where
  "savvy_ipc_cancel_source_cancel os cs =
     (case cs of
        None \<Rightarrow> SAVVY_ERR_INVALID_ARGUMENT
      | Some c \<Rightarrow>
          if cancel_write_fd c < 0 then SAVVY_ERR_INVALID_ARGUMENT
          else cancel_attempts os 0 SAVVY_CANCEL_WRITE_MAX_ATTEMPTS)"

definition savvy_ipc_cancel_source_destroy :: "savvy_ipc_cancel_source \<Rightarrow> savvy_ipc_cancel_source \<times> int list" where
  "savvy_ipc_cancel_source_destroy cs =
     (\<lparr>cancel_read_fd = (if cancel_read_fd cs \<ge> 0 then -1 else cancel_read_fd cs),
       cancel_write_fd = (if cancel_write_fd cs \<ge> 0 then -1 else cancel_write_fd cs)\<rparr>,
      (if cancel_read_fd cs \<ge> 0 then [cancel_read_fd cs] else [])
      @ (if cancel_write_fd cs \<ge> 0 then [cancel_write_fd cs] else []))"

text \<open>The answer of the non-blocking \<^verbatim>\<open>poll\<close> is its return value and the events of the pipe.\<close>

definition savvy_ipc_cancel_source_is_cancelled :: "savvy_ipc_cancel_source option \<Rightarrow> int \<times> poll_events \<Rightarrow> bool" where
  "savvy_ipc_cancel_source_is_cancelled cs poll =
     (case cs of
        None \<Rightarrow> False
      | Some c \<Rightarrow> if cancel_read_fd c < 0 then False else fst poll > 0 \<and> snd poll AND POLLIN \<noteq> 0)"

section \<open>Polling against a deadline\<close>

datatype poll_result = Poll_Error bool  \<comment> \<open>whether \<^verbatim>\<open>errno\<close> is \<^verbatim>\<open>EINTR\<close>\<close>
  | Poll_Timeout | Poll_Ready poll_events poll_events

record poll_turn =
  turn_check :: savvy_time
  turn_now :: savvy_time
  turn_poll :: "nat \<Rightarrow> poll_result"

text \<open>\<^verbatim>\<open>first_poll_done\<close> is set by the first turn, so it holds from turn 1 on.\<close>

partial_function (option) poll_loop ::
  "(nat \<Rightarrow> poll_turn) \<Rightarrow> bool \<Rightarrow> savvy_deadline \<Rightarrow> nat \<Rightarrow> (int \<times> poll_events option) option" where
  "poll_loop os cancelable deadline i =
     (if i \<noteq> 0 \<and> savvy_deadline_expired (turn_check (os i)) deadline then Some (0, None)
      else
        let remaining = savvy_deadline_remaining_ms (turn_now (os i)) deadline;
            clamped = (if unat remaining > nat INT32_MAX then nat INT32_MAX else unat remaining)
        in case turn_poll (os i) clamped of
             Poll_Error eintr \<Rightarrow> if eintr then poll_loop os cancelable deadline (i + 1) else Some (-1, None)
           | Poll_Timeout \<Rightarrow> Some (0, None)
           | Poll_Ready revents cancel_revents \<Rightarrow>
               if cancelable \<and> cancel_revents AND POLLIN \<noteq> 0 then Some (2, None) else Some (1, Some revents))"

text \<open>The time the deadline is armed at is the first argument.\<close>

definition savvy_ipc_poll_with_deadline_cancelable ::
  "savvy_time \<Rightarrow> (nat \<Rightarrow> poll_turn) \<Rightarrow> u32 \<Rightarrow> savvy_ipc_cancel_source option \<Rightarrow> (int \<times> poll_events option) option" where
  "savvy_ipc_poll_with_deadline_cancelable now os timeout cancel =
     poll_loop os (case cancel of None \<Rightarrow> False | Some c \<Rightarrow> cancel_read_fd c \<ge> 0) (savvy_deadline_arm now timeout) 0"

definition savvy_ipc_poll_with_deadline ::
  "savvy_time \<Rightarrow> (nat \<Rightarrow> poll_turn) \<Rightarrow> u32 \<Rightarrow> (int \<times> poll_events option) option" where
  "savvy_ipc_poll_with_deadline now os timeout = savvy_ipc_poll_with_deadline_cancelable now os timeout None"

section \<open>Sending and receiving one record\<close>

definition revents_of :: "poll_events option \<Rightarrow> poll_events" where
  "revents_of r = (case r of None \<Rightarrow> 0 | Some e \<Rightarrow> e)"

text \<open>\<open>send\<close> is what the system call returns.\<close>

definition savvy_ipc_send_capped ::
  "savvy_time \<Rightarrow> (nat \<Rightarrow> poll_turn) \<Rightarrow> nat \<Rightarrow> u32 \<Rightarrow> int \<Rightarrow> savvy_status option" where
  "savvy_ipc_send_capped now os len timeout send =
     (if len > SAVVY_IPC_MAX_MESSAGE then Some SAVVY_ERR_OVERFLOW
      else case savvy_ipc_poll_with_deadline now os timeout of
        None \<Rightarrow> None
      | Some (pr, r) \<Rightarrow>
          if pr = 0 then Some SAVVY_ERR_TIMEOUT
          else if pr < 0 then Some SAVVY_ERR_IO
          else if revents_of r AND (POLLERR OR POLLHUP) \<noteq> 0 then Some SAVVY_ERR_IO
          else if send < 0 then Some SAVVY_ERR_IO
          else if send \<noteq> int len then Some SAVVY_ERR_IO
          else Some SAVVY_OK)"

text \<open>
  \<^verbatim>\<open>recvmsg\<close> into a buffer of \<open>cap\<close> bytes: the record queued in the socket (nothing on an error; an
  empty record is the end of the stream) is cut to the buffer, and \<^verbatim>\<open>MSG_TRUNC\<close> tells whether it
  was. The result has the length reported and the bytes now in the buffer.
\<close>

definition savvy_ipc_recv_capped ::
  "savvy_time \<Rightarrow> (nat \<Rightarrow> poll_turn) \<Rightarrow> nat \<Rightarrow> u32 \<Rightarrow> bytes option \<Rightarrow> (savvy_status \<times> nat option \<times> bytes) option" where
  "savvy_ipc_recv_capped now os cap timeout rec =
     (case savvy_ipc_poll_with_deadline now os timeout of
        None \<Rightarrow> None
      | Some (pr, r) \<Rightarrow>
          if pr = 0 then Some (SAVVY_ERR_TIMEOUT, None, [])
          else if pr < 0 then Some (SAVVY_ERR_IO, None, [])
          else if revents_of r AND POLLERR \<noteq> 0 then Some (SAVVY_ERR_IO, None, [])
          else case rec of
            None \<Rightarrow> Some (SAVVY_ERR_IO, None, [])
          | Some d \<Rightarrow>
              let n = length (take cap d); truncated = (length d > cap)
              in if n = 0 then Some (SAVVY_OK, Some 0, [])
                 else if truncated \<or> n > SAVVY_IPC_MAX_MESSAGE then Some (SAVVY_ERR_OVERFLOW, None, take cap d)
                 else Some (SAVVY_OK, Some n, take cap d))"

section \<open>The transport object\<close>

record savvy_ipc_transport =
  tr_impl :: int

datatype fd_call = Sys_shutdown int | Sys_close int

definition savvy_ipc_fd_transport_init :: "int \<Rightarrow> savvy_ipc_transport" where
  "savvy_ipc_fd_transport_init fd = \<lparr>tr_impl = fd\<rparr>"

definition fd_transport_send ::
  "savvy_ipc_transport \<Rightarrow> savvy_time \<Rightarrow> (nat \<Rightarrow> poll_turn) \<Rightarrow> nat \<Rightarrow> u32 \<Rightarrow> int \<Rightarrow> savvy_status option" where
  "fd_transport_send t now os len timeout send =
     (if tr_impl t < 0 then Some SAVVY_ERR_CLOSED else savvy_ipc_send_capped now os len timeout send)"

definition fd_transport_recv ::
  "savvy_ipc_transport \<Rightarrow> savvy_time \<Rightarrow> (nat \<Rightarrow> poll_turn) \<Rightarrow> nat \<Rightarrow> u32 \<Rightarrow> bytes option \<Rightarrow> (savvy_status \<times> nat option \<times> bytes) option" where
  "fd_transport_recv t now os cap timeout rec =
     (if tr_impl t < 0 then Some (SAVVY_ERR_CLOSED, None, []) else savvy_ipc_recv_capped now os cap timeout rec)"

definition fd_transport_close :: "savvy_ipc_transport \<Rightarrow> savvy_ipc_transport \<times> fd_call list" where
  "fd_transport_close t =
     (t\<lparr>tr_impl := -1\<rparr>, if tr_impl t \<ge> 0 then [Sys_shutdown (tr_impl t), Sys_close (tr_impl t)] else [])"

section \<open>Connecting\<close>

text \<open>The answers of the system calls of one connection attempt.\<close>

datatype connect_result = Connected | In_Progress | Refused

record connect_os =
  os_socket :: int
  os_getfl :: int
  os_set_nonblock_ok :: bool
  os_connect :: connect_result
  os_getsockopt_ok :: bool
  os_so_error :: int
  os_restore_ok :: bool

definition SUN_PATH_SIZE :: nat where
  "SUN_PATH_SIZE = 108"

definition savvy_ipc_client_connect_cancelable ::
  "savvy_time \<Rightarrow> (nat \<Rightarrow> poll_turn) \<Rightarrow> connect_os \<Rightarrow> int \<times> poll_events \<Rightarrow> string option \<Rightarrow> u32 \<Rightarrow> savvy_ipc_cancel_source option \<Rightarrow> bool
     \<Rightarrow> (savvy_status \<times> savvy_ipc_transport option \<times> fd_call list) option" where
  "savvy_ipc_client_connect_cancelable now os sys cancel_poll socket_path timeout cancel out_null =
     (if socket_path = None \<or> out_null then Some (SAVVY_ERR_INVALID_ARGUMENT, None, [])
      else if savvy_ipc_cancel_source_is_cancelled cancel cancel_poll then Some (SAVVY_ERR_CANCELLED, None, [])
      else if length (the socket_path) \<ge> SUN_PATH_SIZE then Some (SAVVY_ERR_INVALID_ARGUMENT, None, [])
      else if os_socket sys < 0 then Some (SAVVY_ERR_IO, None, [])
      else
        let fd = os_socket sys;
            restore = (if \<not> os_restore_ok sys then Some (SAVVY_ERR_IO, None, [Sys_close fd])
                       else Some (SAVVY_OK, Some (savvy_ipc_fd_transport_init fd), []))
        in if os_getfl sys = -1 \<or> \<not> os_set_nonblock_ok sys then Some (SAVVY_ERR_IO, None, [Sys_close fd])
           else case os_connect sys of
             Connected \<Rightarrow> restore
           | Refused \<Rightarrow> Some (SAVVY_ERR_NOT_CONNECTED, None, [Sys_close fd])
           | In_Progress \<Rightarrow>
               (case savvy_ipc_poll_with_deadline_cancelable now os timeout cancel of
                  None \<Rightarrow> None
                | Some (pr, r) \<Rightarrow>
                    if pr = 0 then Some (SAVVY_ERR_TIMEOUT, None, [Sys_close fd])
                    else if pr = 2 then Some (SAVVY_ERR_CANCELLED, None, [Sys_close fd])
                    else if pr < 0 \<or> revents_of r AND (POLLERR OR POLLHUP) \<noteq> 0 then Some (SAVVY_ERR_IO, None, [Sys_close fd])
                    else if \<not> os_getsockopt_ok sys \<or> os_so_error sys \<noteq> 0
                    then Some (SAVVY_ERR_NOT_CONNECTED, None, [Sys_close fd])
                    else restore))"

definition savvy_ipc_client_connect ::
  "savvy_time \<Rightarrow> (nat \<Rightarrow> poll_turn) \<Rightarrow> connect_os \<Rightarrow> string option \<Rightarrow> u32 \<Rightarrow> bool
     \<Rightarrow> (savvy_status \<times> savvy_ipc_transport option \<times> fd_call list) option" where
  "savvy_ipc_client_connect now os sys socket_path timeout out_null =
     savvy_ipc_client_connect_cancelable now os sys (0, 0) socket_path timeout None out_null"

section \<open>Waiting ends\<close>

lemma poll_loop_by_deadline:
  assumes "i \<le> k" and "0 < k" and "savvy_deadline_expired (turn_check (os k)) d"
  shows "\<exists>pr r. poll_loop os c d i = Some (pr, r) \<and> pr \<in> {-1, 0, 1, 2} \<and> (pr = 1 \<longleftrightarrow> r \<noteq> None) \<and> (pr = 2 \<longrightarrow> c)
     \<and> (\<forall>os'. (\<forall>j\<le>k. os' j = os j) \<longrightarrow> poll_loop os' c d i = Some (pr, r))"
  using assms(1)
proof (induction "k - i" arbitrary: i)
  case 0
  then have "i = k" by simp
  with assms show ?case by (simp add: poll_loop.simps)
next
  case (Suc n)
  then have "n = k - (i + 1)" "i + 1 \<le> k" by simp_all
  note IH = Suc.hyps(1) [OF this]
  define w where "w = (let m = unat (savvy_deadline_remaining_ms (turn_now (os i)) d)
    in if m > nat INT32_MAX then nat INT32_MAX else m)"
  have unfold: "poll_loop os' c d i =
     (if i \<noteq> 0 \<and> savvy_deadline_expired (turn_check (os i)) d then Some (0, None)
      else case turn_poll (os i) w of
             Poll_Error eintr \<Rightarrow> if eintr then poll_loop os' c d (i + 1) else Some (-1, None)
           | Poll_Timeout \<Rightarrow> Some (0, None)
           | Poll_Ready r0 r1 \<Rightarrow> if c \<and> r1 AND POLLIN \<noteq> 0 then Some (2, None) else Some (1, Some r0))"
    if "\<forall>j\<le>k. os' j = os j" for os'
    using that Suc.prems by (subst poll_loop.simps) (simp add: w_def Let_def)
  show ?case
  proof (cases "(i = 0 \<or> \<not> savvy_deadline_expired (turn_check (os i)) d) \<and> turn_poll (os i) w = Poll_Error True")
    case True
    then have "poll_loop os' c d i = poll_loop os' c d (i + 1)" if "\<forall>j\<le>k. os' j = os j" for os'
      using unfold [OF that] by auto
    with IH show ?thesis by (metis order_refl)
  next
    case False
    then show ?thesis
      using unfold by (cases "turn_poll (os i) w") (auto split: if_splits)
  qed
qed

text \<open>
  C37: waiting ends by the deadline. As soon as the clock check of some later turn is past the
  deadline, the wait has returned, with an answer that depends on the turns up to that one only:
  a storm of interrupted polls cannot prolong it. Cancellation is reported only to a caller that
  passed a source, and events only with result 1. With time-out 0 a single poll decides.
\<close>

theorem ipc_poll_ends_by_deadline:
  assumes "0 < k" and "savvy_deadline_expired (turn_check (os k)) (savvy_deadline_arm now timeout)"
  shows "\<exists>pr r. savvy_ipc_poll_with_deadline_cancelable now os timeout cancel = Some (pr, r)
     \<and> pr \<in> {-1, 0, 1, 2} \<and> (pr = 1 \<longleftrightarrow> r \<noteq> None) \<and> (pr = 2 \<longrightarrow> cancel \<noteq> None)
     \<and> (\<forall>os'. (\<forall>j\<le>k. os' j = os j) \<longrightarrow>
          savvy_ipc_poll_with_deadline_cancelable now os' timeout cancel = Some (pr, r))"
  using poll_loop_by_deadline [of 0 k os "savvy_deadline_arm now timeout"
      "case cancel of None \<Rightarrow> False | Some c \<Rightarrow> cancel_read_fd c \<ge> 0"] assms
  unfolding savvy_ipc_poll_with_deadline_cancelable_def by (cases cancel) auto

theorem ipc_poll_ends_by_deadline_witness:
  "\<exists>pr r. savvy_ipc_poll_with_deadline_cancelable \<lparr>monotonic_ns = 0\<rparr>
       (\<lambda>i. \<lparr>turn_check = \<lparr>monotonic_ns = of_nat i * 1000000\<rparr>, turn_now = \<lparr>monotonic_ns = of_nat i * 1000000\<rparr>,
             turn_poll = (\<lambda>_. Poll_Error True)\<rparr>) 3 None = Some (pr, r) \<and> pr \<in> {-1, 0, 1, 2}"
  using ipc_poll_ends_by_deadline [of 5 "\<lambda>i. \<lparr>turn_check = \<lparr>monotonic_ns = of_nat i * 1000000\<rparr>,
      turn_now = \<lparr>monotonic_ns = of_nat i * 1000000\<rparr>, turn_poll = (\<lambda>_. Poll_Error True)\<rparr>" "\<lparr>monotonic_ns = 0\<rparr>" 3 None]
  by (auto simp: savvy_deadline_expired_def savvy_deadline_arm_def savvy_clock_diff_ms_def)

lemma poll_once_without_timeout:
  "savvy_ipc_poll_with_deadline now os 0 =
     Some (case turn_poll (os 0) 0 of
             Poll_Error eintr \<Rightarrow> (if eintr then 0 else -1, None)
           | Poll_Timeout \<Rightarrow> (0, None)
           | Poll_Ready r _ \<Rightarrow> (1, Some r))"
proof -
  have exp: "savvy_deadline_expired t (savvy_deadline_arm now 0)" for t
    by (simp add: savvy_deadline_expired_def savvy_deadline_arm_def)
  then have "savvy_deadline_remaining_ms t (savvy_deadline_arm now 0) = 0" for t
    by (simp add: deadline_expired_iff_remaining_0 [symmetric])
  then show ?thesis
    using exp by (auto simp: savvy_ipc_poll_with_deadline_def savvy_ipc_poll_with_deadline_cancelable_def
        poll_loop.simps [of _ _ _ 0] poll_loop.simps [of _ _ _ "Suc 0"] split: poll_result.splits)
qed

section \<open>Records are whole and bounded\<close>

lemma recv_whole_records:
  assumes "savvy_ipc_recv_capped now os cap timeout rec = Some (SAVVY_OK, Some n, buf)"
  shows "n \<le> cap" and "n \<le> SAVVY_IPC_MAX_MESSAGE" and "n \<noteq> 0 \<Longrightarrow> rec = Some buf \<and> n = length buf"
  using assms by (auto simp: savvy_ipc_recv_capped_def Let_def split: option.splits if_splits prod.splits)

lemma send_within_cap:
  assumes "savvy_ipc_send_capped now os len timeout sent = Some SAVVY_OK"
  shows "len \<le> SAVVY_IPC_MAX_MESSAGE" and "sent = int len"
  using assms by (auto simp: savvy_ipc_send_capped_def split: option.splits if_splits)

section \<open>Descriptors are released once\<close>

datatype transport_op = Op_Send nat u32 int | Op_Recv nat u32 "bytes option" | Op_Close

fun transport_run ::
  "savvy_time \<Rightarrow> (nat \<Rightarrow> poll_turn) \<Rightarrow> savvy_ipc_transport \<Rightarrow> transport_op list \<Rightarrow> savvy_status option list \<times> fd_call list" where
  "transport_run now os t [] = ([], [])"
| "transport_run now os t (Op_Send len timeout sent # ops) =
     (let (sts, calls) = transport_run now os t ops in (fd_transport_send t now os len timeout sent # sts, calls))"
| "transport_run now os t (Op_Recv cap timeout rec # ops) =
     (let (sts, calls) = transport_run now os t ops
      in (map_option fst (fd_transport_recv t now os cap timeout rec) # sts, calls))"
| "transport_run now os t (Op_Close # ops) =
     (let (t', c) = fd_transport_close t; (sts, calls) = transport_run now os t' ops in (None # sts, c @ calls))"

lemma transport_run_closed:
  assumes "tr_impl t < 0"
  shows "transport_run now os t ops = (map (\<lambda>p. if p = Op_Close then None else Some SAVVY_ERR_CLOSED) ops, [])"
  using assms
proof (induction ops arbitrary: t)
  case (Cons p ops)
  then show ?case
    by (cases p) (simp_all add: fd_transport_send_def fd_transport_recv_def fd_transport_close_def)
qed simp

lemma transport_run_calls:
  assumes "0 \<le> tr_impl t"
  shows "snd (transport_run now os t ops) = (if Op_Close \<in> set ops then [Sys_shutdown (tr_impl t), Sys_close (tr_impl t)] else [])"
  using assms
proof (induction ops)
  case (Cons p ops)
  then show ?case
    by (cases p) (auto simp: fd_transport_close_def transport_run_closed case_prod_beta)
qed simp

text \<open>
  Descriptors are released exactly once. A failed connection attempt has closed the socket it
  opened and handed nothing out. A successful one has closed nothing, and whatever is then done
  with the transport, its descriptor is shut down and closed by the first \<^verbatim>\<open>close\<close> and by no later
  one; everything after that reports \<^verbatim>\<open>SAVVY_ERR_CLOSED\<close> without touching the descriptor.
\<close>

theorem ipc_descriptor_released_once:
  assumes "savvy_ipc_client_connect_cancelable now os sys cancel_poll path timeout cancel False = Some (st, tr, calls)"
    and "0 \<le> os_socket sys"
  shows "(case tr of
       None \<Rightarrow> st \<noteq> SAVVY_OK \<and> (calls = [] \<or> calls = [Sys_close (os_socket sys)])
     | Some t \<Rightarrow> st = SAVVY_OK \<and> calls = []
         \<and> snd (transport_run now2 os2 t ops)
             = (if Op_Close \<in> set ops then [Sys_shutdown (os_socket sys), Sys_close (os_socket sys)] else [])
         \<and> transport_run now2 os2 (fst (fd_transport_close t)) ops
             = (map (\<lambda>p. if p = Op_Close then None else Some SAVVY_ERR_CLOSED) ops, []))
     \<and> (calls = [] \<and> tr = None \<longleftrightarrow>
          path = None \<or> savvy_ipc_cancel_source_is_cancelled cancel cancel_poll \<or> SUN_PATH_SIZE \<le> length (the path))"
proof -
  have open_fd: "snd (transport_run now2 os2 \<lparr>tr_impl = os_socket sys\<rparr> ops)
      = (if Op_Close \<in> set ops then [Sys_shutdown (os_socket sys), Sys_close (os_socket sys)] else [])"
    using transport_run_calls [of "\<lparr>tr_impl = os_socket sys\<rparr>" now2 os2 ops] assms(2) by simp
  have closed: "transport_run now2 os2 (fst (fd_transport_close \<lparr>tr_impl = os_socket sys\<rparr>)) ops
      = (map (\<lambda>p. if p = Op_Close then None else Some SAVVY_ERR_CLOSED) ops, [])"
    by (rule transport_run_closed) (simp add: fd_transport_close_def)
  show ?thesis
    using assms open_fd closed
    unfolding savvy_ipc_client_connect_cancelable_def savvy_ipc_fd_transport_init_def
    by (auto simp: Let_def split: if_splits connect_result.splits option.splits)
qed

theorem ipc_descriptor_released_once_witness:
  "snd (transport_run \<lparr>monotonic_ns = 0\<rparr> (\<lambda>_. \<lparr>turn_check = \<lparr>monotonic_ns = 0\<rparr>, turn_now = \<lparr>monotonic_ns = 0\<rparr>,
       turn_poll = (\<lambda>_. Poll_Timeout)\<rparr>) \<lparr>tr_impl = 7\<rparr> [Op_Send 3 10 3, Op_Close, Op_Recv 8 10 None, Op_Close])
     = [Sys_shutdown 7, Sys_close 7]"
  using ipc_descriptor_released_once [of "\<lparr>monotonic_ns = 0\<rparr>" "\<lambda>_. \<lparr>turn_check = \<lparr>monotonic_ns = 0\<rparr>,
       turn_now = \<lparr>monotonic_ns = 0\<rparr>, turn_poll = (\<lambda>_. Poll_Timeout)\<rparr>"
      "\<lparr>os_socket = 7, os_getfl = 2, os_set_nonblock_ok = True, os_connect = Connected,
        os_getsockopt_ok = True, os_so_error = 0, os_restore_ok = True\<rparr>"
      "(0, 0)" "Some ''/run/mgr''" 100 None SAVVY_OK "Some \<lparr>tr_impl = 7\<rparr>" "[]" "\<lparr>monotonic_ns = 0\<rparr>"
      "\<lambda>_. \<lparr>turn_check = \<lparr>monotonic_ns = 0\<rparr>, turn_now = \<lparr>monotonic_ns = 0\<rparr>, turn_poll = (\<lambda>_. Poll_Timeout)\<rparr>"
      "[Op_Send 3 10 3, Op_Close, Op_Recv 8 10 None, Op_Close]"]
  by (simp add: savvy_ipc_client_connect_cancelable_def savvy_ipc_cancel_source_is_cancelled_def
      savvy_ipc_fd_transport_init_def SUN_PATH_SIZE_def Let_def)

end
