(* ===== verification/Tcp_Channel.thy ===== *)
theory Tcp_Channel
  imports Bounded_Queue Stream_Parser Ipc_Transport
begin

text \<open>
  The request channel of \<^verbatim>\<open>src/platform/linux/tcp_8141/tcp_channel.c\<close>: a worker thread takes
  requests from a bounded queue, connects when it has to, sends the packet and waits for the
  response. One turn of a waiting loop is one record of what the loop finds there: the stop flag,
  the clock, the answer of \<^verbatim>\<open>poll\<close> for a time-out and the answers of \<^verbatim>\<open>getsockopt\<close>, \<^verbatim>\<open>send\<close> and
  \<^verbatim>\<open>recv\<close>. The three loops of one request use up successive turns; a loop that does not return is
  \<open>None\<close>. What a request does to the outside is a list of events.

  \<^verbatim>\<open>parse_buf\<close> is the storage of the stream parser. A callback and its context are one value of
  type \<open>'c\<close>.
\<close>

unbundle bit_operations_syntax

section \<open>Data\<close>

definition SENSOR_TCP_CONNECT_TIMEOUT_MS :: u32 where "SENSOR_TCP_CONNECT_TIMEOUT_MS = 1000"
definition SENSOR_TCP_RESPONSE_TIMEOUT_MS :: u32 where "SENSOR_TCP_RESPONSE_TIMEOUT_MS = 3000"
definition SENSOR_TCP_STOP_CHECK_SLICE_MS :: u32 where "SENSOR_TCP_STOP_CHECK_SLICE_MS = 100"

datatype sensor_tcp_result_status =
    SENSOR_TCP_OK | SENSOR_TCP_SENT_NO_WAIT | SENSOR_TCP_ERR_CONNECT_TIMEOUT | SENSOR_TCP_ERR_RESPONSE_TIMEOUT
  | SENSOR_TCP_ERR_DISCONNECTED | SENSOR_TCP_ERR_IO | SENSOR_TCP_ERR_PROTOCOL | SENSOR_TCP_ERR_NOT_CONNECTED
  | SENSOR_TCP_ERR_QUEUE_FULL | SENSOR_TCP_ERR_SHUTTING_DOWN

text \<open>\<^verbatim>\<open>data\<close> is what the borrowed pointer shows while the callback runs.\<close>

record sensor_tcp_result =
  res_status :: sensor_tcp_result_status
  res_start :: u8
  res_command :: u8
  res_crc_valid :: bool
  res_data :: bytes

datatype sensor_tcp_item_kind = SENSOR_TCP_ITEM_NORMAL | SENSOR_TCP_ITEM_FINAL | SENSOR_TCP_ITEM_RELAY

record 'c sensor_tcp_queue_item =
  it_packet :: bytes
  it_packet_len :: nat
  it_response_timeout_ms :: u32
  it_kind :: sensor_tcp_item_kind
  it_on_complete :: 'c

text \<open>The size of a queue item on the 64-bit targets.\<close>

definition TCP_ITEM_SIZE :: nat where "TCP_ITEM_SIZE = 40"

record 'c sensor_tcp_channel =
  tc_host :: string
  tc_port :: u16
  max_packet_size :: nat
  tc_lifecycle :: savvy_lifecycle
  tc_queue :: "'c sensor_tcp_queue_item savvy_queue"
  sockfd :: int
  tc_parser :: savvy_stream_parser
  connected :: bool
  stop_requested :: bool

datatype 'c tcp_event =
    Tcp_Open int
  | Tcp_Close int
  | Tcp_Wire int bytes
  | Tcp_Complete 'c sensor_tcp_result

section \<open>The outside world\<close>

datatype tcp_poll = Tp_Fail bool  \<comment> \<open>whether \<^verbatim>\<open>errno\<close> is \<^verbatim>\<open>EINTR\<close>\<close>
  | Tp_Elapsed | Tp_Ready poll_events

datatype tcp_errno = Errno_Retry  \<comment> \<open>\<^verbatim>\<open>EINTR\<close>, \<^verbatim>\<open>EAGAIN\<close>, \<^verbatim>\<open>EWOULDBLOCK\<close>\<close>
  | Errno_Gone  \<comment> \<open>\<^verbatim>\<open>EPIPE\<close>, \<^verbatim>\<open>ECONNRESET\<close>\<close>
  | Errno_Other

datatype send_answer = Sent nat | Send_Failed tcp_errno

text \<open>No bytes: the peer has closed.\<close>

datatype recv_answer = Received bytes | Recv_Failed tcp_errno

record tcp_turn =
  tt_stop :: bool
  tt_now :: savvy_time
  tt_poll :: "nat \<Rightarrow> tcp_poll"
  tt_so_error_ok :: bool
  tt_send :: send_answer
  tt_recv :: recv_answer

text \<open>One resolved address: the socket, the answer of \<^verbatim>\<open>connect\<close> and the two deadline checks after a failure.\<close>

record tcp_addr =
  ad_socket :: int
  ad_connect :: connect_result
  ad_check :: savvy_time
  ad_recheck :: savvy_time

text \<open>What one request meets: \<^verbatim>\<open>getaddrinfo\<close>'s answer, the times the deadlines are armed, the turns.\<close>

record tcp_env =
  te_addrs :: "tcp_addr list option"
  te_connect_at :: savvy_time
  te_response_at :: savvy_time
  te_turn :: "nat \<Rightarrow> tcp_turn"

definition tcp_slice :: "u32 \<Rightarrow> nat" where
  "tcp_slice remaining =
     unat (if remaining < SENSOR_TCP_STOP_CHECK_SLICE_MS then remaining else SENSOR_TCP_STOP_CHECK_SLICE_MS)"

section \<open>The worker's operations\<close>

definition close_session_internal :: "'c sensor_tcp_channel \<Rightarrow> 'c sensor_tcp_channel \<times> 'c tcp_event list" where
  "close_session_internal ch =
     (ch\<lparr>sockfd := (if sockfd ch \<ge> 0 then -1 else sockfd ch), connected := False\<rparr>,
      if sockfd ch \<ge> 0 then [Tcp_Close (sockfd ch)] else [])"

datatype connect_outcome = Wait_Connected | Wait_Aborted | Wait_Failed

partial_function (option) connect_wait ::
  "(nat \<Rightarrow> tcp_turn) \<Rightarrow> savvy_deadline \<Rightarrow> nat \<Rightarrow> (connect_outcome \<times> nat) option" where
  "connect_wait os dl k =
     (if tt_stop (os k) then Some (Wait_Aborted, k + 1)
      else
        let remaining = savvy_deadline_remaining_ms (tt_now (os k)) dl
        in if remaining = 0 then Some (Wait_Failed, k + 1)
           else case tt_poll (os k) (tcp_slice remaining) of
             Tp_Fail eintr \<Rightarrow> if eintr then connect_wait os dl (k + 1) else Some (Wait_Failed, k + 1)
           | Tp_Elapsed \<Rightarrow> connect_wait os dl (k + 1)
           | Tp_Ready _ \<Rightarrow> Some (if tt_so_error_ok (os k) then Wait_Connected else Wait_Failed, k + 1))"

text \<open>The loop over the addresses: the outcome, the connected socket and the sockets opened and closed.\<close>

fun try_addresses ::
  "(nat \<Rightarrow> tcp_turn) \<Rightarrow> savvy_deadline \<Rightarrow> tcp_addr list \<Rightarrow> sensor_tcp_result_status \<Rightarrow> nat
     \<Rightarrow> (sensor_tcp_result_status \<times> int option \<times> 'c tcp_event list \<times> nat) option" where
  "try_addresses os dl [] outcome k = Some (outcome, None, [], k)"
| "try_addresses os dl (rp # rest) outcome k =
     (let fd = ad_socket rp; more = (\<lambda>ev out k'.
            case try_addresses os dl rest out k' of
              None \<Rightarrow> None
            | Some (out', sock, evs, k'') \<Rightarrow> Some (out', sock, ev @ evs, k''))
      in if fd < 0 then more [] outcome k
         else case ad_connect rp of
           Connected \<Rightarrow> Some (SENSOR_TCP_OK, Some fd, [Tcp_Open fd], k)
         | Refused \<Rightarrow> more [Tcp_Open fd, Tcp_Close fd] outcome k
         | In_Progress \<Rightarrow>
             (case connect_wait os dl k of
                None \<Rightarrow> None
              | Some (w, k') \<Rightarrow>
                  if w = Wait_Connected then Some (SENSOR_TCP_OK, Some fd, [Tcp_Open fd], k')
                  else if w = Wait_Aborted then Some (SENSOR_TCP_ERR_SHUTTING_DOWN, None, [Tcp_Open fd, Tcp_Close fd], k')
                  else
                    let out = (if savvy_deadline_expired (ad_check rp) dl then SENSOR_TCP_ERR_CONNECT_TIMEOUT
                               else SENSOR_TCP_ERR_IO)
                    in if savvy_deadline_expired (ad_recheck rp) dl
                       then Some (out, None, [Tcp_Open fd, Tcp_Close fd], k')
                       else more [Tcp_Open fd, Tcp_Close fd] out k'))"

definition try_connect ::
  "tcp_env \<Rightarrow> 'c sensor_tcp_channel
     \<Rightarrow> (sensor_tcp_result_status \<times> 'c sensor_tcp_channel \<times> 'c tcp_event list \<times> nat) option" where
  "try_connect env ch =
     (if te_addrs env = None \<or> te_addrs env = Some [] then Some (SENSOR_TCP_ERR_IO, ch, [], 0)
      else
        case try_addresses (te_turn env) (savvy_deadline_arm (te_connect_at env) SENSOR_TCP_CONNECT_TIMEOUT_MS)
               (the (te_addrs env)) SENSOR_TCP_ERR_IO 0 of
          None \<Rightarrow> None
        | Some (outcome, sock, evs, k) \<Rightarrow>
            let ch1 = (case sock of None \<Rightarrow> ch | Some fd \<Rightarrow> ch\<lparr>sockfd := fd\<rparr>);
                ch2 = (if outcome = SENSOR_TCP_OK
                       then ch1\<lparr>connected := True,
                                tc_parser := savvy_stream_parser_init (sp_buf (tc_parser ch1)) (max_packet_size ch1)\<rparr>
                       else ch1)
            in Some (outcome, ch2, evs, k))"

text \<open>
  \<open>sent\<close> is the loop's counter, \<open>out\<close> what the calls of \<^verbatim>\<open>send\<close> have put on the wire: each call is given
  \<^verbatim>\<open>buf + sent\<close> and \<^verbatim>\<open>len - sent\<close> and takes the first bytes from there. The result has the last value of \<open>out\<close>.
\<close>

partial_function (option) send_all ::
  "(nat \<Rightarrow> tcp_turn) \<Rightarrow> bytes \<Rightarrow> nat \<Rightarrow> nat \<Rightarrow> bytes \<Rightarrow> nat \<Rightarrow> (sensor_tcp_result_status \<times> bytes \<times> nat) option" where
  "send_all os buf len sent out k =
     (if \<not> sent < len then Some (SENSOR_TCP_OK, out, k)
      else if tt_stop (os k) then Some (SENSOR_TCP_ERR_SHUTTING_DOWN, out, k + 1)
      else case tt_poll (os k) (unat SENSOR_TCP_STOP_CHECK_SLICE_MS) of
        Tp_Fail eintr \<Rightarrow> if eintr then send_all os buf len sent out (k + 1) else Some (SENSOR_TCP_ERR_IO, out, k + 1)
      | Tp_Elapsed \<Rightarrow> send_all os buf len sent out (k + 1)
      | Tp_Ready revents \<Rightarrow>
          if revents AND (POLLERR OR POLLHUP) \<noteq> 0 then Some (SENSOR_TCP_ERR_DISCONNECTED, out, k + 1)
          else case tt_send (os k) of
            Send_Failed e \<Rightarrow>
              if e = Errno_Retry then send_all os buf len sent out (k + 1)
              else if e = Errno_Gone then Some (SENSOR_TCP_ERR_DISCONNECTED, out, k + 1)
              else Some (SENSOR_TCP_ERR_IO, out, k + 1)
          | Sent n \<Rightarrow> send_all os buf len (sent + n) (out @ take n (mem_read buf sent (len - sent))) (k + 1))"

partial_function (option) response_loop ::
  "(nat \<Rightarrow> tcp_turn) \<Rightarrow> savvy_deadline \<Rightarrow> savvy_stream_parser \<Rightarrow> nat
     \<Rightarrow> (sensor_tcp_result_status \<times> packet option \<times> savvy_stream_parser \<times> nat) option" where
  "response_loop os dl p k =
     (if tt_stop (os k) then Some (SENSOR_TCP_ERR_SHUTTING_DOWN, None, p, k + 1)
      else
        let remaining = savvy_deadline_remaining_ms (tt_now (os k)) dl
        in if remaining = 0 then Some (SENSOR_TCP_ERR_RESPONSE_TIMEOUT, None, p, k + 1)
           else case tt_poll (os k) (tcp_slice remaining) of
             Tp_Fail eintr \<Rightarrow> if eintr then response_loop os dl p (k + 1) else Some (SENSOR_TCP_ERR_IO, None, p, k + 1)
           | Tp_Elapsed \<Rightarrow> response_loop os dl p (k + 1)
           | Tp_Ready _ \<Rightarrow>
               (case tt_recv (os k) of
                  Recv_Failed e \<Rightarrow>
                    if e = Errno_Retry then response_loop os dl p (k + 1) else Some (SENSOR_TCP_ERR_IO, None, p, k + 1)
                | Received xs \<Rightarrow>
                    if xs = [] then Some (SENSOR_TCP_ERR_DISCONNECTED, None, p, k + 1)
                    else case savvy_stream_parser_push p (Some xs) (length xs) of
                      (st, p1) \<Rightarrow>
                        if st \<noteq> SAVVY_OK then Some (SENSOR_TCP_ERR_PROTOCOL, None, p1, k + 1)
                        else case sp_take p1 of
                          (r, p2, pk) \<Rightarrow>
                            if r = SAVVY_STREAM_PACKET_READY then Some (SENSOR_TCP_OK, pk, p2, k + 1)
                            else if r = SAVVY_STREAM_ERROR then Some (SENSOR_TCP_ERR_PROTOCOL, None, p2, k + 1)
                            else response_loop os dl p2 (k + 1)))"

definition wait_for_response ::
  "(nat \<Rightarrow> tcp_turn) \<Rightarrow> savvy_time \<Rightarrow> u32 \<Rightarrow> savvy_stream_parser \<Rightarrow> nat
     \<Rightarrow> (sensor_tcp_result_status \<times> packet option \<times> savvy_stream_parser \<times> nat) option" where
  "wait_for_response os now timeout p k =
     (case sp_take p of
        (r, p1, pk) \<Rightarrow>
          if r = SAVVY_STREAM_PACKET_READY then Some (SENSOR_TCP_OK, pk, p1, k)
          else if r = SAVVY_STREAM_ERROR then Some (SENSOR_TCP_ERR_PROTOCOL, None, p1, k)
          else response_loop os (savvy_deadline_arm now timeout) p1 k)"

text \<open>A zeroed result with a status.\<close>

definition tcp_failure :: "sensor_tcp_result_status \<Rightarrow> sensor_tcp_result" where
  "tcp_failure st = \<lparr>res_status = st, res_start = 0, res_command = 0, res_crc_valid = False, res_data = []\<rparr>"

definition tcp_response :: "packet \<Rightarrow> sensor_tcp_result" where
  "tcp_response pk =
     (let (hdr, data) = pk
      in \<lparr>res_status = SENSOR_TCP_OK, res_start = hdr_start hdr, res_command = hdr_command hdr,
          res_crc_valid = (length data = 0 \<or> hdr_crc32 hdr = savvy_crc32 data), res_data = data\<rparr>)"

definition process_item ::
  "tcp_env \<Rightarrow> 'c sensor_tcp_channel \<Rightarrow> 'c sensor_tcp_queue_item
     \<Rightarrow> ('c sensor_tcp_channel \<times> 'c tcp_event list) option" where
  "process_item env ch item =
     (let complete = (\<lambda>r. [Tcp_Complete (it_on_complete item) r])
      in if it_kind item = SENSOR_TCP_ITEM_RELAY \<and> sockfd ch < 0
         then Some (ch, complete (tcp_failure SENSOR_TCP_ERR_NOT_CONNECTED))
         else case (if sockfd ch < 0 then try_connect env ch else Some (SENSOR_TCP_OK, ch, [], 0)) of
           None \<Rightarrow> None
         | Some (cs, ch1, ev1, k1) \<Rightarrow>
             if cs \<noteq> SENSOR_TCP_OK then Some (ch1, ev1 @ complete (tcp_failure cs))
             else case send_all (te_turn env) (it_packet item) (it_packet_len item) 0 [] k1 of
               None \<Rightarrow> None
             | Some (ss, out, k2) \<Rightarrow>
                 let ev2 = ev1 @ [Tcp_Wire (sockfd ch1) out];
                     (chc, evc) = close_session_internal ch1
                 in if ss \<noteq> SENSOR_TCP_OK then Some (chc, ev2 @ evc @ complete (tcp_failure ss))
                    else if it_kind item = SENSOR_TCP_ITEM_FINAL
                    then Some (chc, ev2 @ evc @ complete (tcp_failure SENSOR_TCP_SENT_NO_WAIT))
                    else if it_kind item = SENSOR_TCP_ITEM_RELAY
                    then Some (ch1, ev2 @ complete (tcp_failure SENSOR_TCP_SENT_NO_WAIT))
                    else case wait_for_response (te_turn env) (te_response_at env) (it_response_timeout_ms item)
                                (tc_parser ch1) k2 of
                      None \<Rightarrow> None
                    | Some (rs, pk, p, k3) \<Rightarrow>
                        let ch2 = ch1\<lparr>tc_parser := p\<rparr>; (chc2, evc2) = close_session_internal ch2
                        in if rs \<noteq> SENSOR_TCP_OK then Some (chc2, ev2 @ evc2 @ complete (tcp_failure rs))
                           else Some (ch2, ev2 @ complete (tcp_response (the pk))))"

text \<open>What the worker does when the queue reports \<^verbatim>\<open>SAVVY_ERR_CLOSED\<close>.\<close>

definition worker_exit :: "'c sensor_tcp_channel \<Rightarrow> 'c sensor_tcp_channel \<times> 'c tcp_event list" where
  "worker_exit ch =
     (if sockfd ch \<ge> 0 then (ch\<lparr>sockfd := -1, connected := False\<rparr>, [Tcp_Close (sockfd ch)]) else (ch, []))"

text \<open>
  The worker's loop, with one environment for each request it takes. The flag tells whether the
  thread has ended; otherwise it waits for the next request. \<open>None\<close>: a request never finishes, or
  there are more requests than environments.
\<close>

fun worker_main ::
  "tcp_env list \<Rightarrow> 'c sensor_tcp_channel \<Rightarrow> ('c sensor_tcp_channel \<times> 'c tcp_event list \<times> bool) option" where
  "worker_main [] ch =
     (case savvy_queue_pop (tc_queue ch) of
        None \<Rightarrow> Some (ch, [], False)
      | Some (ps, _, _) \<Rightarrow>
          if ps \<noteq> SAVVY_OK then (let (ch', ev) = worker_exit ch in Some (ch', ev, True)) else None)"
| "worker_main (env # envs) ch =
     (case savvy_queue_pop (tc_queue ch) of
        None \<Rightarrow> Some (ch, [], False)
      | Some (ps, item, q) \<Rightarrow>
          if ps \<noteq> SAVVY_OK then (let (ch', ev) = worker_exit ch in Some (ch', ev, True))
          else case process_item env (ch\<lparr>tc_queue := q\<rparr>) (the item) of
            None \<Rightarrow> None
          | Some (ch1, ev1) \<Rightarrow>
              (case worker_main envs ch1 of
                 None \<Rightarrow> None
               | Some (ch2, ev2, done) \<Rightarrow> Some (ch2, ev1 @ ev2, done)))"

section \<open>The public operations\<close>

definition sensor_tcp_channel_create ::
  "bool \<Rightarrow> string option \<Rightarrow> u16 \<Rightarrow> nat \<Rightarrow> nat \<Rightarrow> bool \<Rightarrow> bool \<Rightarrow> bytes option \<Rightarrow> bool
     \<Rightarrow> 'c sensor_tcp_queue_item list option \<Rightarrow> bool \<Rightarrow> bool \<Rightarrow> bool \<Rightarrow> savvy_status \<times> 'c sensor_tcp_channel option" where
  "sensor_tcp_channel_create out_null host port max_size queue_capacity calloc_ok dup_ok parse_mem lc_ok
       queue_mem mutex_ok not_empty_ok not_full_ok =
     (if out_null then (SAVVY_ERR_INVALID_ARGUMENT, None)
      else if host = None \<or> host = Some [] \<or> port = 0 \<or> max_size < SAVVY_PACKET_HEADER_LEN \<or> queue_capacity = 0
      then (SAVVY_ERR_INVALID_ARGUMENT, None)
      else if \<not> calloc_ok then (SAVVY_ERR_OUT_OF_MEMORY, None)
      else if \<not> dup_ok \<or> parse_mem = None then (SAVVY_ERR_OUT_OF_MEMORY, None)
      else case savvy_lifecycle_init lc_ok of
        (st, None) \<Rightarrow> (st, None)
      | (_, Some lc) \<Rightarrow>
          (case savvy_queue_init False queue_capacity TCP_ITEM_SIZE True queue_mem mutex_ok not_empty_ok not_full_ok of
             (st, None) \<Rightarrow> (st, None)
           | (_, Some q) \<Rightarrow>
               (SAVVY_OK, Some \<lparr>tc_host = the host, tc_port = port, max_packet_size = max_size, tc_lifecycle = lc,
                  tc_queue = q, sockfd = -1,
                  tc_parser = \<lparr>sp_buf = the parse_mem, buf_cap = 0, sp_head = 0, sp_tail = 0\<rparr>,
                  connected = False, stop_requested = False\<rparr>)))"

text \<open>The flag of the result: a worker thread was created.\<close>

definition sensor_tcp_channel_start ::
  "bool \<Rightarrow> 'c sensor_tcp_channel option \<Rightarrow> savvy_status \<times> 'c sensor_tcp_channel option \<times> bool" where
  "sensor_tcp_channel_start thread_ok channel =
     (case channel of
        None \<Rightarrow> (SAVVY_ERR_INVALID_ARGUMENT, None, False)
      | Some ch \<Rightarrow>
          (case savvy_lifecycle_start (tc_lifecycle ch) of
             (st, transitioned, lc) \<Rightarrow>
               let ch1 = ch\<lparr>tc_lifecycle := lc\<rparr>
               in if st \<noteq> SAVVY_OK then (st, Some ch1, False)
                  else if \<not> transitioned then (SAVVY_OK, Some ch1, False)
                  else
                    let ch2 = ch1\<lparr>stop_requested := False\<rparr>
                    in if \<not> thread_ok
                       then (SAVVY_ERR_UNKNOWN, Some (ch2\<lparr>tc_lifecycle := snd (snd (savvy_lifecycle_stop lc))\<rparr>), False)
                       else (SAVVY_OK, Some ch2, True)))"

definition enqueue_common ::
  "bool \<Rightarrow> 'c sensor_tcp_channel \<Rightarrow> bytes option \<Rightarrow> nat \<Rightarrow> u32 \<Rightarrow> sensor_tcp_item_kind \<Rightarrow> 'c option
     \<Rightarrow> savvy_status \<times> 'c sensor_tcp_channel" where
  "enqueue_common malloc_ok ch packet packet_len timeout kind on_complete =
     (if packet = None \<or> on_complete = None then (SAVVY_ERR_INVALID_ARGUMENT, ch)
      else if packet_len = 0 \<or> packet_len > max_packet_size ch then (SAVVY_ERR_INVALID_ARGUMENT, ch)
      else if savvy_lifecycle_get (tc_lifecycle ch) \<noteq> SAVVY_LIFECYCLE_RUNNING then (SAVVY_ERR_NOT_STARTED, ch)
      else if \<not> malloc_ok then (SAVVY_ERR_OUT_OF_MEMORY, ch)
      else
        let item = \<lparr>it_packet = mem_read (the packet) 0 packet_len, it_packet_len = packet_len,
                    it_response_timeout_ms = timeout, it_kind = kind, it_on_complete = the on_complete\<rparr>
        in case savvy_queue_try_push (tc_queue ch) item of
             (st, q) \<Rightarrow> (st, if st \<noteq> SAVVY_OK then ch else ch\<lparr>tc_queue := q\<rparr>))"

definition sensor_tcp_channel_submit ::
  "bool \<Rightarrow> 'c sensor_tcp_channel option \<Rightarrow> bytes option \<Rightarrow> nat \<Rightarrow> u32 \<Rightarrow> 'c option
     \<Rightarrow> savvy_status \<times> 'c sensor_tcp_channel option" where
  "sensor_tcp_channel_submit malloc_ok channel packet packet_len response_timeout on_complete =
     (if response_timeout = 0 then (SAVVY_ERR_INVALID_ARGUMENT, channel)
      else case channel of
        None \<Rightarrow> (SAVVY_ERR_INVALID_ARGUMENT, None)
      | Some ch \<Rightarrow> apsnd Some
          (enqueue_common malloc_ok ch packet packet_len response_timeout SENSOR_TCP_ITEM_NORMAL on_complete))"

definition sensor_tcp_channel_submit_final ::
  "bool \<Rightarrow> 'c sensor_tcp_channel option \<Rightarrow> bytes option \<Rightarrow> nat \<Rightarrow> 'c option
     \<Rightarrow> savvy_status \<times> 'c sensor_tcp_channel option" where
  "sensor_tcp_channel_submit_final malloc_ok channel packet packet_len on_complete =
     (case channel of
        None \<Rightarrow> (SAVVY_ERR_INVALID_ARGUMENT, None)
      | Some ch \<Rightarrow> apsnd Some (enqueue_common malloc_ok ch packet packet_len 0 SENSOR_TCP_ITEM_FINAL on_complete))"

definition sensor_tcp_channel_try_relay ::
  "bool \<Rightarrow> 'c sensor_tcp_channel option \<Rightarrow> bytes option \<Rightarrow> nat \<Rightarrow> 'c option
     \<Rightarrow> savvy_status \<times> 'c sensor_tcp_channel option" where
  "sensor_tcp_channel_try_relay malloc_ok channel packet packet_len on_complete =
     (case channel of
        None \<Rightarrow> (SAVVY_ERR_INVALID_ARGUMENT, None)
      | Some ch \<Rightarrow>
          if \<not> connected ch then (SAVVY_ERR_NOT_CONNECTED, channel)
          else apsnd Some (enqueue_common malloc_ok ch packet packet_len 0 SENSOR_TCP_ITEM_RELAY on_complete))"

definition sensor_tcp_channel_is_connected :: "'c sensor_tcp_channel option \<Rightarrow> bool" where
  "sensor_tcp_channel_is_connected channel = (case channel of None \<Rightarrow> False | Some ch \<Rightarrow> connected ch)"

definition sensor_tcp_channel_close_session ::
  "'c sensor_tcp_channel option \<Rightarrow> 'c sensor_tcp_channel option \<times> 'c tcp_event list" where
  "sensor_tcp_channel_close_session channel =
     (case channel of None \<Rightarrow> (None, []) | Some ch \<Rightarrow> apfst Some (close_session_internal ch))"

text \<open>\<^verbatim>\<open>stop\<close> up to the join: the packets freed with the queued requests, and whether it goes on to join.\<close>

definition stop_signal ::
  "'c sensor_tcp_channel \<Rightarrow> 'c sensor_tcp_queue_item list \<times> 'c sensor_tcp_channel \<times> bool" where
  "stop_signal ch =
     (case savvy_lifecycle_stop (tc_lifecycle ch) of
        (_, transitioned, lc) \<Rightarrow>
          let ch1 = ch\<lparr>tc_lifecycle := lc\<rparr>
          in if \<not> transitioned then ([], ch1, False)
             else
               let ch2 = ch1\<lparr>stop_requested := True\<rparr>; (dropped, q) = savvy_queue_cancel (tc_queue ch2)
               in (dropped, ch2\<lparr>tc_queue := q\<rparr>, True))"

text \<open>
  The whole call. \<open>busy\<close> is the request the worker is at and what it meets while it finishes it;
  the join then waits for the rest of the worker's loop. \<open>None\<close>: the join does not return.
\<close>

definition sensor_tcp_channel_stop ::
  "(tcp_env \<times> 'c sensor_tcp_queue_item) option \<Rightarrow> 'c sensor_tcp_channel option
     \<Rightarrow> ('c sensor_tcp_queue_item list \<times> 'c sensor_tcp_channel option \<times> 'c tcp_event list) option" where
  "sensor_tcp_channel_stop busy channel =
     (case channel of
        None \<Rightarrow> Some ([], None, [])
      | Some ch \<Rightarrow>
          (case stop_signal ch of
             (dropped, ch1, joins) \<Rightarrow>
               if \<not> joins then Some (dropped, Some ch1, [])
               else case (case busy of None \<Rightarrow> Some (ch1, []) | Some (env, item) \<Rightarrow> process_item env ch1 item) of
                 None \<Rightarrow> None
               | Some (ch2, ev2) \<Rightarrow>
                   (case worker_main [] ch2 of
                      None \<Rightarrow> None
                    | Some (ch3, ev3, done) \<Rightarrow>
                        if done then Some (dropped, Some ch3, ev2 @ ev3) else None)))"

text \<open>\<^verbatim>\<open>destroy\<close> stops the channel and frees what is left in the queue.\<close>

definition sensor_tcp_channel_destroy ::
  "(tcp_env \<times> 'c sensor_tcp_queue_item) option \<Rightarrow> 'c sensor_tcp_channel option
     \<Rightarrow> ('c sensor_tcp_queue_item list \<times> 'c tcp_event list) option" where
  "sensor_tcp_channel_destroy busy channel =
     (case channel of
        None \<Rightarrow> Some ([], [])
      | Some ch \<Rightarrow>
          (case sensor_tcp_channel_stop busy channel of
             None \<Rightarrow> None
           | Some (dropped, ch', ev) \<Rightarrow> Some (dropped @ savvy_queue_destroy (tc_queue (the ch')), ev)))"

section \<open>Every loop heeds the stop flag\<close>

lemma connect_wait_stops:
  assumes "k \<le> n" and "tt_stop (os n)"
  shows "\<exists>w k'. connect_wait os dl k = Some (w, k') \<and> (w = Wait_Aborted \<or> k' \<le> n)"
  using assms
proof (induction "n - k" arbitrary: k)
  case 0
  then show ?case by (simp add: connect_wait.simps)
next
  case (Suc m)
  then have "\<exists>w k'. connect_wait os dl (k + 1) = Some (w, k') \<and> (w = Wait_Aborted \<or> k' \<le> n)"
    by (intro Suc.hyps(1)) auto
  moreover have "k + 1 \<le> n" using Suc.hyps(2) by simp
  ultimately show ?case
    by (subst connect_wait.simps) (auto simp: Let_def split: tcp_poll.splits)
qed

lemma try_addresses_stops:
  assumes "k \<le> n" and "tt_stop (os n)"
  shows "\<exists>out sock (evs :: 'c tcp_event list) k'. try_addresses os dl addrs out0 k = Some (out, sock, evs, k')
     \<and> (out = SENSOR_TCP_ERR_SHUTTING_DOWN \<or> k' \<le> n)"
  using assms(1)
proof (induction addrs arbitrary: out0 k)
  case (Cons rp rest)
  obtain w k' where w: "connect_wait os dl k = Some (w, k')" "w = Wait_Aborted \<or> k' \<le> n"
    using connect_wait_stops [of k n os dl] Cons.prems assms(2) by blast
  have more: "\<exists>out sock evs k''. (case try_addresses os dl rest o1 k1 of None \<Rightarrow> None
        | Some (out', sock, evs, k'') \<Rightarrow> Some (out', sock, ev @ evs, k'')) = Some (out, sock, evs, k'')
      \<and> (out = SENSOR_TCP_ERR_SHUTTING_DOWN \<or> k'' \<le> n)" if "k1 \<le> n" for o1 k1 and ev :: "'c tcp_event list"
    using Cons.IH [OF that, of o1] by auto
  show ?case
    using w Cons.prems more [of k] more [of k']
    by (auto simp: Let_def split: connect_result.splits)
qed simp

lemma send_all_stops:
  assumes "k \<le> n" and "tt_stop (os n)"
  shows "\<exists>st out' k'. send_all os buf len sent out k = Some (st, out', k') \<and> (st \<noteq> SENSOR_TCP_OK \<or> k' \<le> n)"
  using assms
proof (induction "n - k" arbitrary: k sent out)
  case 0
  then show ?case by (simp add: send_all.simps)
next
  case (Suc m)
  then have IH: "\<exists>st out' k'. send_all os buf len sent1 out1 (k + 1) = Some (st, out', k') \<and> (st \<noteq> SENSOR_TCP_OK \<or> k' \<le> n)"
    for sent1 out1 by (intro Suc.hyps(1)) auto
  have "k + 1 \<le> n" using Suc.hyps(2) by simp
  with IH [of sent out] IH show ?case
    by (subst send_all.simps) (auto split: tcp_poll.splits send_answer.splits)
qed

lemma response_loop_stops:
  assumes "k \<le> n" and "tt_stop (os n)"
  shows "\<exists>r. response_loop os dl p k = Some r"
  using assms
proof (induction "n - k" arbitrary: k p)
  case 0
  then show ?case by (simp add: response_loop.simps)
next
  case (Suc m)
  then have IH: "\<exists>r. response_loop os dl p1 (k + 1) = Some r" for p1
    by (intro Suc.hyps(1)) auto
  have "k + 1 \<le> n" using Suc.hyps(2) by simp
  with IH [of p] IH show ?case
    by (subst response_loop.simps)
      (auto simp: Let_def split: tcp_poll.splits recv_answer.splits prod.splits)
qed

lemma process_item_stops:
  fixes ch :: "'a sensor_tcp_channel"
  assumes "tt_stop (te_turn env n)"
  shows "\<exists>r. process_item env ch item = Some r"
proof -
  obtain out sock k0 and evs :: "'a tcp_event list" where a: "try_addresses (te_turn env)
      (savvy_deadline_arm (te_connect_at env) SENSOR_TCP_CONNECT_TIMEOUT_MS) (the (te_addrs env))
      SENSOR_TCP_ERR_IO 0 = Some (out, sock, evs, k0)" "out = SENSOR_TCP_ERR_SHUTTING_DOWN \<or> k0 \<le> n"
    using try_addresses_stops [of 0 n "te_turn env", OF _ assms] by blast
  then have "\<exists>cs ch1 ev k1. try_connect env ch = Some (cs, ch1, ev, k1) \<and> (cs \<noteq> SENSOR_TCP_OK \<or> k1 \<le> n)"
    unfolding try_connect_def by (auto simp: Let_def)
  then have conn: "\<exists>cs ch1 ev k1. (if sockfd ch < 0 then try_connect env ch else Some (SENSOR_TCP_OK, ch, [], 0))
      = Some (cs, ch1, ev, k1) \<and> (cs \<noteq> SENSOR_TCP_OK \<or> k1 \<le> n)"
    by (cases "sockfd ch < 0") simp_all
  have send: "\<exists>ss out k2. send_all (te_turn env) buf len 0 [] k = Some (ss, out, k2) \<and> (ss \<noteq> SENSOR_TCP_OK \<or> k2 \<le> n)"
    if "k \<le> n" for k buf len
    using send_all_stops [of k n "te_turn env", OF that assms] by blast
  have wait: "\<exists>rs pk p' k3. wait_for_response (te_turn env) now timeout p k = Some (rs, pk, p', k3)"
    if "k \<le> n" for k now timeout p
    using response_loop_stops [of k n "te_turn env", OF that assms] unfolding wait_for_response_def
    by (fastforce split: prod.splits)
  obtain cs ch1 ev k1 where c: "(if sockfd ch < 0 then try_connect env ch else Some (SENSOR_TCP_OK, ch, [], 0))
      = Some (cs, ch1, ev, k1)" "cs \<noteq> SENSOR_TCP_OK \<or> k1 \<le> n"
    using conn by blast
  show ?thesis
  proof (cases "cs = SENSOR_TCP_OK")
    case True
    then obtain ss out k2 where s: "send_all (te_turn env) (it_packet item) (it_packet_len item) 0 [] k1 = Some (ss, out, k2)"
        "ss \<noteq> SENSOR_TCP_OK \<or> k2 \<le> n"
      using send c(2) by blast
    then show ?thesis
      using True c(1) wait [of k2 "te_response_at env" "it_response_timeout_ms item" "tc_parser ch1"]
      unfolding process_item_def by (auto simp: Let_def split: prod.splits)
  qed (use c(1) in \<open>simp add: process_item_def Let_def\<close>)
qed

section \<open>What one request does\<close>

text \<open>The descriptors held after a list of events; \<open>None\<close> if one is used that is not held.\<close>

fun fd_run :: "int list \<Rightarrow> 'c tcp_event list \<Rightarrow> int list option" where
  "fd_run fds [] = Some fds"
| "fd_run fds (Tcp_Open fd # es) = fd_run (fd # fds) es"
| "fd_run fds (Tcp_Close fd # es) = (if fd \<in> set fds then fd_run (remove1 fd fds) es else None)"
| "fd_run fds (Tcp_Wire fd _ # es) = (if fd \<in> set fds then fd_run fds es else None)"
| "fd_run fds (Tcp_Complete _ _ # es) = fd_run fds es"

definition held :: "'c sensor_tcp_channel \<Rightarrow> int list" where
  "held ch = (if 0 \<le> sockfd ch then [sockfd ch] else [])"

fun completions :: "'c tcp_event list \<Rightarrow> ('c \<times> sensor_tcp_result) list" where
  "completions [] = []"
| "completions (Tcp_Complete c r # es) = (c, r) # completions es"
| "completions (_ # es) = completions es"

lemma fd_run_append [simp]: "fd_run fds (es @ fs) = Option.bind (fd_run fds es) (\<lambda>fds'. fd_run fds' fs)"
  by (induction fds es rule: fd_run.induct) auto

lemma completions_append [simp]: "completions (es @ fs) = completions es @ completions fs"
  by (induction es rule: completions.induct) auto

fun wire :: "'c tcp_event list \<Rightarrow> bytes" where
  "wire [] = []"
| "wire (Tcp_Wire _ bs # es) = bs @ wire es"
| "wire (_ # es) = wire es"

lemma wire_append [simp]: "wire (es @ fs) = wire es @ wire fs"
  by (induction es rule: wire.induct) auto

text \<open>The channel's invariant while the worker is between requests.\<close>

definition tcp_ok :: "'c sensor_tcp_channel \<Rightarrow> bool" where
  "tcp_ok ch \<longleftrightarrow> -1 \<le> sockfd ch \<and> (connected ch \<longleftrightarrow> 0 \<le> sockfd ch)
     \<and> length (sp_buf (tc_parser ch)) = max_packet_size ch
     \<and> (0 \<le> sockfd ch \<longrightarrow> sp_inv (tc_parser ch) \<and> buf_cap (tc_parser ch) = max_packet_size ch)"

text \<open>The fields the worker never writes.\<close>

definition same_shared :: "'c sensor_tcp_channel \<Rightarrow> 'c sensor_tcp_channel \<Rightarrow> bool" where
  "same_shared ch ch' \<longleftrightarrow> tc_queue ch' = tc_queue ch \<and> tc_lifecycle ch' = tc_lifecycle ch
     \<and> stop_requested ch' = stop_requested ch \<and> max_packet_size ch' = max_packet_size ch"

lemma try_addresses_fds:
  assumes "try_addresses os dl addrs out0 k = Some (out, sock, evs, k')" and "out0 \<notin> {SENSOR_TCP_OK, SENSOR_TCP_SENT_NO_WAIT}"
  shows "fd_run [] evs = Some (case sock of None \<Rightarrow> [] | Some fd \<Rightarrow> [fd]) \<and> completions evs = []
     \<and> (out = SENSOR_TCP_OK \<longleftrightarrow> sock \<noteq> None) \<and> (case sock of None \<Rightarrow> True | Some fd \<Rightarrow> 0 \<le> fd)
     \<and> out \<noteq> SENSOR_TCP_SENT_NO_WAIT \<and> wire evs = []"
  using assms
proof (induction addrs arbitrary: out0 k evs)
  case (Cons rp rest)
  have more: "fd_run [] evs = Some (case sock of None \<Rightarrow> [] | Some fd \<Rightarrow> [fd]) \<and> completions evs = []
     \<and> (out = SENSOR_TCP_OK \<longleftrightarrow> sock \<noteq> None) \<and> (case sock of None \<Rightarrow> True | Some fd \<Rightarrow> 0 \<le> fd)
     \<and> out \<noteq> SENSOR_TCP_SENT_NO_WAIT \<and> wire evs = []"
    if "(case try_addresses os dl rest o1 k1 of None \<Rightarrow> None
        | Some (out', sock, evs, k'') \<Rightarrow> Some (out', sock, ev @ evs, k'')) = Some (out, sock, evs, k')"
      and "o1 \<notin> {SENSOR_TCP_OK, SENSOR_TCP_SENT_NO_WAIT}" and "ev = [] \<or> ev = [Tcp_Open fd, Tcp_Close fd]" for o1 k1 ev fd
    using that Cons.IH [of o1 k1] by (auto split: option.splits)
  consider "ad_socket rp < 0" | "0 \<le> ad_socket rp" "ad_connect rp = Connected"
    | "0 \<le> ad_socket rp" "ad_connect rp = Refused" | "0 \<le> ad_socket rp" "ad_connect rp = In_Progress"
    by (cases "ad_socket rp < 0"; cases "ad_connect rp") (simp_all add: not_less)
  then show ?case
  proof cases
    case 1
    then show ?thesis using Cons.prems by (intro more [where ?o1.0 = out0 and ?k1.0 = k and ev = "[]"]) (simp_all add: Let_def)
  next
    case 2
    then show ?thesis using Cons.prems by (auto simp: Let_def)
  next
    case 3
    then show ?thesis using Cons.prems
      by (intro more [where ?o1.0 = out0 and ?k1.0 = k and ev = "[Tcp_Open (ad_socket rp), Tcp_Close (ad_socket rp)]"]) (simp_all add: Let_def)
  next
    case 4
    then obtain w k1 where w: "connect_wait os dl k = Some (w, k1)"
      using Cons.prems(1) by (cases "connect_wait os dl k") (auto simp: Let_def)
    let ?out = "if savvy_deadline_expired (ad_check rp) dl then SENSOR_TCP_ERR_CONNECT_TIMEOUT else SENSOR_TCP_ERR_IO"
    show ?thesis
    proof (cases "w = Wait_Failed \<and> \<not> savvy_deadline_expired (ad_recheck rp) dl")
      case True
      then show ?thesis using 4 w Cons.prems
        by (intro more [where ?o1.0 = ?out and ?k1.0 = k1 and ev = "[Tcp_Open (ad_socket rp), Tcp_Close (ad_socket rp)]"]) (simp_all add: Let_def)
    next
      case False
      then show ?thesis using 4 w Cons.prems by (cases w) (auto simp: Let_def split: if_splits)
    qed
  qed
qed simp

lemma open_channel:
  assumes "(if sockfd ch < 0 then try_connect env ch else Some (SENSOR_TCP_OK, ch, [], 0)) = Some (cs, ch1, ev, k)"
    and "tcp_ok ch"
  shows "tcp_ok ch1 \<and> same_shared ch ch1 \<and> fd_run (held ch) ev = Some (held ch1) \<and> completions ev = [] \<and> wire ev = []
     \<and> (cs = SENSOR_TCP_OK \<longrightarrow> 0 \<le> sockfd ch1 \<and> (sockfd ch < 0 \<longrightarrow> sp_content (tc_parser ch1) = []))
     \<and> (cs \<noteq> SENSOR_TCP_OK \<longrightarrow> ch1 = ch \<and> sockfd ch < 0 \<and> cs \<noteq> SENSOR_TCP_SENT_NO_WAIT)
     \<and> (0 \<le> sockfd ch \<longrightarrow> ch1 = ch \<and> ev = [])"
proof (cases "sockfd ch < 0 \<and> te_addrs env \<noteq> None \<and> te_addrs env \<noteq> Some []")
  case True
  let ?dl = "savvy_deadline_arm (te_connect_at env) SENSOR_TCP_CONNECT_TIMEOUT_MS"
  obtain out sock evs k1 where a:
      "try_addresses (te_turn env) ?dl (the (te_addrs env)) SENSOR_TCP_ERR_IO 0 = Some (out, sock, evs, k1)"
      "cs = out" "ev = evs"
      "ch1 = (let ch1 = (case sock of None \<Rightarrow> ch | Some fd \<Rightarrow> ch\<lparr>sockfd := fd\<rparr>)
              in if out = SENSOR_TCP_OK then ch1\<lparr>connected := True,
                   tc_parser := savvy_stream_parser_init (sp_buf (tc_parser ch1)) (max_packet_size ch1)\<rparr> else ch1)"
    using assms(1) True by (auto simp: try_connect_def Let_def split: option.splits)
  have h: "held ch = []" using True by (simp add: held_def)
  from try_addresses_fds [OF a(1)] True assms(2) show ?thesis
    by (cases sock)
      (auto simp: a(2-4) h tcp_ok_def same_shared_def held_def Let_def sp_inv_def sp_content_def
        mem_read_def savvy_stream_parser_init_def)
next
  case False
  then show ?thesis using assms
    by (auto simp: try_connect_def same_shared_def held_def split: if_splits)
qed

text \<open>Whatever pieces \<^verbatim>\<open>send\<close> takes, what goes out is a prefix of the packet, and the whole of it on success.\<close>

lemma mem_read_take:
  "take n (mem_read buf off m) @ mem_read buf (off + n) (m - n) = mem_read buf off m"
proof -
  have "mem_read buf (off + n) (m - n) = drop n (mem_read buf off m)"
    by (simp add: mem_read_def drop_take add.commute)
  then show ?thesis by simp
qed

lemma send_all_progress:
  assumes "send_all os buf len sent out k = Some (st, out', k')"
  shows "st \<noteq> SENSOR_TCP_SENT_NO_WAIT \<and> k \<le> k' \<and> (\<exists>rest. out' @ rest = out @ mem_read buf sent (len - sent))
     \<and> (st = SENSOR_TCP_OK \<longrightarrow> out' = out @ mem_read buf sent (len - sent))"
  using assms
proof (induction "(st, out', k')" rule: send_all.raw_induct [rotated, consumes 1, case_names turn])
  case (turn send_all os buf len sent out k)
  have sent: "st \<noteq> SENSOR_TCP_SENT_NO_WAIT \<and> k \<le> k' \<and> (\<exists>rest. out' @ rest = out @ mem_read buf sent (len - sent))
     \<and> (st = SENSOR_TCP_OK \<longrightarrow> out' = out @ mem_read buf sent (len - sent))"
    if "send_all os buf len (sent + n) (out @ take n (mem_read buf sent (len - sent))) (k + 1) = Some (st, out', k')" for n
    using turn.hyps(1) [OF that] mem_read_take [of n buf sent "len - sent"]
    by (simp add: diff_diff_left)
  have again: "st \<noteq> SENSOR_TCP_SENT_NO_WAIT \<and> k \<le> k' \<and> (\<exists>rest. out' @ rest = out @ mem_read buf sent (len - sent))
     \<and> (st = SENSOR_TCP_OK \<longrightarrow> out' = out @ mem_read buf sent (len - sent))"
    if "send_all os buf len sent out (k + 1) = Some (st, out', k')"
    using turn.hyps(1) [OF that] by simp
  have "out = out @ mem_read buf sent (len - sent)" if "\<not> sent < len" using that by (simp add: mem_read_def)
  then show ?case
    using turn.hyps(2) sent again
    by (auto split: if_splits tcp_poll.splits send_answer.splits)
qed

lemma send_all_whole:
  assumes "send_all os buf len 0 [] k = Some (st, out, k')"
  shows "st \<noteq> SENSOR_TCP_SENT_NO_WAIT" and "k \<le> k'" and "st = SENSOR_TCP_OK \<Longrightarrow> out = take len buf"
  using send_all_progress [OF assms] by (auto simp: mem_read_def)

text \<open>The bytes a turn of the response loop reads from the socket.\<close>

definition turn_bytes :: "(nat \<Rightarrow> tcp_turn) \<Rightarrow> savvy_deadline \<Rightarrow> nat \<Rightarrow> bytes" where
  "turn_bytes os dl i =
     (case tt_poll (os i) (tcp_slice (savvy_deadline_remaining_ms (tt_now (os i)) dl)) of
        Tp_Ready _ \<Rightarrow> (case tt_recv (os i) of Received xs \<Rightarrow> xs | Recv_Failed _ \<Rightarrow> [])
      | _ \<Rightarrow> [])"

definition received :: "(nat \<Rightarrow> tcp_turn) \<Rightarrow> savvy_deadline \<Rightarrow> nat \<Rightarrow> nat \<Rightarrow> bytes" where
  "received os dl k k' = concat (map (turn_bytes os dl) [k..<k'])"

lemma received_Suc: "k < k' \<Longrightarrow> received os dl k k' = turn_bytes os dl k @ received os dl (k + 1) k'"
  by (simp add: received_def upt_conv_Cons)

lemma next_packet_frame:
  assumes "next_packet cap bs = Packet h d r"
  shows "\<exists>w. frame w \<and> unframe w = (h, d) \<and> bs = w @ r"
proof -
  have fits: "packet_size bs \<le> length bs" "SAVVY_PACKET_HEADER_LEN \<le> packet_size bs"
    and parts: "h = decode_header bs" "r = drop (packet_size bs) bs"
      "d = mem_read bs SAVVY_PACKET_HEADER_LEN (unat (be32_load bs 4))"
    using assms by (auto simp: next_packet_def packet_size_def split: if_splits)
  let ?w = "take (packet_size bs) bs"
  have "packet_size ?w = packet_size bs"
    using fits packet_size_append [of ?w "drop (packet_size bs) bs"] by simp
  moreover have "decode_header ?w = decode_header bs" using fits by (intro decode_header_prefix)
  ultimately have "frame ?w" "unframe ?w = (h, d)"
    using fits by (simp_all add: frame_def unframe_def parts mem_read_def drop_take packet_size_def)
  then show ?thesis using parts(2) by (intro exI [of _ ?w]) simp
qed

lemma sp_take_frame:
  assumes "sp_inv p" and "sp_take p = (r, p', pk)"
  shows "sp_inv p'" and "buf_cap p' = buf_cap p"
    and "r = SAVVY_STREAM_PACKET_READY \<Longrightarrow> \<exists>w. frame w \<and> pk = Some (unframe w) \<and> sp_content p = w @ sp_content p'"
    and "r \<noteq> SAVVY_STREAM_PACKET_READY \<Longrightarrow> p' = p"
proof -
  have "sp_inv p' \<and> buf_cap p' = buf_cap p
     \<and> (r = SAVVY_STREAM_PACKET_READY \<longrightarrow> (\<exists>w. frame w \<and> pk = Some (unframe w) \<and> sp_content p = w @ sp_content p'))
     \<and> (r \<noteq> SAVVY_STREAM_PACKET_READY \<longrightarrow> p' = p)"
  proof (cases "next_packet (buf_cap p) (sp_content p)")
    case (Packet h d c)
    then show ?thesis
      using sp_take_content [OF assms(1)] assms(2) next_packet_frame [OF Packet] by force
  qed (use sp_take_content [OF assms(1)] assms in auto)
  then show "sp_inv p'" and "buf_cap p' = buf_cap p"
    and "r = SAVVY_STREAM_PACKET_READY \<Longrightarrow> \<exists>w. frame w \<and> pk = Some (unframe w) \<and> sp_content p = w @ sp_content p'"
    and "r \<noteq> SAVVY_STREAM_PACKET_READY \<Longrightarrow> p' = p"
    by auto
qed

lemma sp_push_content:
  assumes "sp_inv p" and "savvy_stream_parser_push p (Some xs) (length xs) = (st, p')"
  shows "sp_inv p'" and "buf_cap p' = buf_cap p"
    and "sp_content p' = sp_content p @ (if st = SAVVY_OK then xs else [])"
  using sp_push_room [OF assms(1), of xs] sp_push_no_room [OF assms(1), of xs] assms(2)
  by (cases "length (sp_content p) + length xs \<le> buf_cap p"; fastforce)+

definition response_ok ::
  "(nat \<Rightarrow> tcp_turn) \<Rightarrow> savvy_deadline \<Rightarrow> savvy_stream_parser \<Rightarrow> nat
     \<Rightarrow> sensor_tcp_result_status \<times> packet option \<times> savvy_stream_parser \<times> nat \<Rightarrow> bool" where
  "response_ok os dl p k r \<longleftrightarrow> (case r of (st, pk, p', k') \<Rightarrow>
     k \<le> k' \<and> sp_inv p' \<and> buf_cap p' = buf_cap p
     \<and> (st = SENSOR_TCP_OK \<longrightarrow> (\<exists>w. frame w \<and> pk = Some (unframe w)
          \<and> sp_content p @ received os dl k k' = w @ sp_content p')))"

lemma response_ok_step:
  assumes "response_ok os dl p1 (k + 1) r" and "buf_cap p1 = buf_cap p"
    and "sp_content p1 = sp_content p @ turn_bytes os dl k"
  shows "response_ok os dl p k r"
  using assms by (auto simp: response_ok_def received_Suc)

lemma response_loop_ok:
  assumes "response_loop os dl p k = Some r" and "sp_inv p"
  shows "response_ok os dl p k r"
  using assms
proof (induction rule: response_loop.raw_induct [rotated, consumes 1, case_names turn])
  case (turn loop os dl p k r)
  have again: "response_ok os dl p k r"
    if "loop os dl p1 (k + 1) = Some r" "sp_inv p1" "buf_cap p1 = buf_cap p"
      "sp_content p1 = sp_content p @ turn_bytes os dl k" for p1
    using turn.IH [OF that(1,2)] that(3,4) by (rule response_ok_step)
  have failed: "response_ok os dl p k r"
    if "r = (st, pk, p1, k + 1)" "st \<noteq> SENSOR_TCP_OK" "sp_inv p1" "buf_cap p1 = buf_cap p" for st pk p1
    using that by (simp add: response_ok_def)
  let ?poll = "tt_poll (os k) (tcp_slice (savvy_deadline_remaining_ms (tt_now (os k)) dl))"
  show ?case
  proof (cases "\<not> tt_stop (os k) \<and> savvy_deadline_remaining_ms (tt_now (os k)) dl \<noteq> 0
      \<and> (\<exists>e xs. ?poll = Tp_Ready e \<and> tt_recv (os k) = Received xs \<and> xs \<noteq> [])")
    case True
    then obtain e xs where x: "?poll = Tp_Ready e" "tt_recv (os k) = Received xs" "xs \<noteq> []" by blast
    then have tb: "turn_bytes os dl k = xs" by (simp add: turn_bytes_def)
    obtain st p1 where push: "savvy_stream_parser_push p (Some xs) (length xs) = (st, p1)" by fastforce
    obtain v p2 pk where take: "sp_take p1 = (v, p2, pk)" by (cases "sp_take p1")
    note p1 = sp_push_content [OF turn.prems push]
    note p2 = sp_take_frame [OF p1(1) take]
    have res: "(if st \<noteq> SAVVY_OK then Some (SENSOR_TCP_ERR_PROTOCOL, None, p1, k + 1)
        else if v = SAVVY_STREAM_PACKET_READY then Some (SENSOR_TCP_OK, pk, p2, k + 1)
        else if v = SAVVY_STREAM_ERROR then Some (SENSOR_TCP_ERR_PROTOCOL, None, p2, k + 1)
        else loop os dl p2 (k + 1)) = Some r"
      using turn.hyps True x push take by (cases "st = SAVVY_OK") (simp_all add: Let_def)
    show ?thesis
    proof (cases "st = SAVVY_OK \<and> v = SAVVY_STREAM_PACKET_READY")
      case ready: True
      then show ?thesis using res p1 p2 tb by (auto simp: response_ok_def received_def)
    next
      case False
      then show ?thesis
        using res p1 p2 tb again [of p2] failed by (auto split: if_splits)
    qed
  next
    case False
    then show ?thesis
      using turn.hyps turn.prems again [of p] failed
      by (auto simp: Let_def turn_bytes_def split: if_splits tcp_poll.splits recv_answer.splits)
  qed
qed

lemma wait_for_response_ok:
  assumes "wait_for_response os now timeout p k = Some r" and "sp_inv p"
  shows "response_ok os (savvy_deadline_arm now timeout) p k r"
proof -
  obtain v p1 pk where take: "sp_take p = (v, p1, pk)" by (cases "sp_take p")
  note p1 = sp_take_frame [OF assms(2) take]
  show ?thesis
    using assms take p1 response_loop_ok [of os _ p k r]
    by (auto simp: wait_for_response_def response_ok_def received_def split: if_splits)
qed

text \<open>The ways a request ends.\<close>

lemma process_item_cases:
  assumes "process_item env ch item = Some (ch', evs)"
  obtains (refused) "it_kind item = SENSOR_TCP_ITEM_RELAY" "sockfd ch < 0" "ch' = ch"
      "evs = [Tcp_Complete (it_on_complete item) (tcp_failure SENSOR_TCP_ERR_NOT_CONNECTED)]"
  | (unconnected) cs ev k where
      "(if sockfd ch < 0 then try_connect env ch else Some (SENSOR_TCP_OK, ch, [], 0)) = Some (cs, ch', ev, k)"
      "cs \<noteq> SENSOR_TCP_OK" "evs = ev @ [Tcp_Complete (it_on_complete item) (tcp_failure cs)]"
  | (closed) ch1 ch2 ev k ss out k2 st where
      "(if sockfd ch < 0 then try_connect env ch else Some (SENSOR_TCP_OK, ch, [], 0)) = Some (SENSOR_TCP_OK, ch1, ev, k)"
      "send_all (te_turn env) (it_packet item) (it_packet_len item) 0 [] k = Some (ss, out, k2)"
      "st \<noteq> SENSOR_TCP_OK" "ss = SENSOR_TCP_OK \<or> ss = st"
      "ch2 = ch1 \<or> (\<exists>pk p k3. ch2 = ch1\<lparr>tc_parser := p\<rparr> \<and>
         wait_for_response (te_turn env) (te_response_at env) (it_response_timeout_ms item) (tc_parser ch1) k2
           = Some (st, pk, p, k3))"
      "ch' = fst (close_session_internal ch2)"
      "evs = ev @ [Tcp_Wire (sockfd ch1) out] @ snd (close_session_internal ch2)
         @ [Tcp_Complete (it_on_complete item) (tcp_failure st)]"
  | (kept) out k2 where "it_kind item = SENSOR_TCP_ITEM_RELAY" "0 \<le> sockfd ch" "ch' = ch"
      "send_all (te_turn env) (it_packet item) (it_packet_len item) 0 [] 0 = Some (SENSOR_TCP_OK, out, k2)"
      "evs = [Tcp_Wire (sockfd ch) out,
         Tcp_Complete (it_on_complete item) (tcp_failure SENSOR_TCP_SENT_NO_WAIT)]"
  | (answered) ch1 ev k out k2 pk p k3 where "it_kind item = SENSOR_TCP_ITEM_NORMAL"
      "(if sockfd ch < 0 then try_connect env ch else Some (SENSOR_TCP_OK, ch, [], 0)) = Some (SENSOR_TCP_OK, ch1, ev, k)"
      "send_all (te_turn env) (it_packet item) (it_packet_len item) 0 [] k = Some (SENSOR_TCP_OK, out, k2)"
      "wait_for_response (te_turn env) (te_response_at env) (it_response_timeout_ms item) (tc_parser ch1) k2
         = Some (SENSOR_TCP_OK, pk, p, k3)"
      "ch' = ch1\<lparr>tc_parser := p\<rparr>"
      "evs = ev @ [Tcp_Wire (sockfd ch1) out,
         Tcp_Complete (it_on_complete item) (tcp_response (the pk))]"
proof -
  let ?conn = "if sockfd ch < 0 then try_connect env ch else Some (SENSOR_TCP_OK, ch, [], 0)"
  let ?send = "send_all (te_turn env) (it_packet item) (it_packet_len item) 0 []"
  show thesis
  proof (cases "it_kind item = SENSOR_TCP_ITEM_RELAY \<and> sockfd ch < 0")
    case True
    then show thesis using assms by (intro refused) (simp_all add: process_item_def)
  next
    case live: False
    then obtain cs ch1 ev k where c: "?conn = Some (cs, ch1, ev, k)"
      using assms by (cases ?conn) (auto simp: process_item_def Let_def)
    show thesis
    proof (cases "cs = SENSOR_TCP_OK")
      case False
      then show thesis
        using assms live c by (intro unconnected [of cs ev k]) (simp_all add: process_item_def Let_def)
    next
      case True
      then obtain ss out k2 where s: "?send k = Some (ss, out, k2)"
        using assms live c by (cases "?send k") (auto simp: process_item_def Let_def)
      note run = assms [unfolded process_item_def Let_def, simplified live c True s option.case prod.case]
      have kept_ch: "ch1 = ch" "ev = []" "k = 0" if "it_kind item = SENSOR_TCP_ITEM_RELAY"
        using that live c by auto
      let ?wait = "wait_for_response (te_turn env) (te_response_at env) (it_response_timeout_ms item) (tc_parser ch1) k2"
      show thesis
      proof (cases "ss = SENSOR_TCP_OK \<and> it_kind item \<noteq> SENSOR_TCP_ITEM_FINAL")
        case False
        then show thesis
          using run c True s
          by (intro closed [of ch1 ev k ss out k2 "if ss = SENSOR_TCP_OK then SENSOR_TCP_SENT_NO_WAIT else ss" ch1])
            (auto simp: case_prod_beta split: if_splits)
      next
        case sent: True
        show thesis
        proof (cases "it_kind item")
          case SENSOR_TCP_ITEM_RELAY
          then show thesis
            using run sent kept_ch live s by (intro kept [of out k2]) (auto simp: case_prod_beta)
        next
          case SENSOR_TCP_ITEM_NORMAL
          then obtain rs pk q k3 where w: "?wait = Some (rs, pk, q, k3)"
            using run sent by (cases ?wait) (auto simp: case_prod_beta)
          show thesis
          proof (cases "rs = SENSOR_TCP_OK")
            case ok: True
            then show thesis
              using SENSOR_TCP_ITEM_NORMAL run sent c True s w
              by (intro answered [of ch1 ev k out k2 pk q k3]) (auto simp: case_prod_beta)
          next
            case failed: False
            then show thesis
              using SENSOR_TCP_ITEM_NORMAL run sent c True s w
              by (intro closed [of ch1 ev k ss out k2 rs "ch1\<lparr>tc_parser := q\<rparr>"]) (auto simp: case_prod_beta)
          qed
        qed (use sent in simp)
      qed
    qed
  qed
qed

text \<open>The bytes of the current connection that are read but not yet delivered.\<close>

definition unread :: "'c sensor_tcp_channel \<Rightarrow> bytes" where
  "unread ch = (if sockfd ch < 0 then [] else sp_content (tc_parser ch))"

lemma close_session_ok:
  assumes "tcp_ok ch" and "0 \<le> sockfd ch"
  shows "tcp_ok (fst (close_session_internal ch)) \<and> same_shared ch (fst (close_session_internal ch))
     \<and> fd_run (held ch) (snd (close_session_internal ch)) = Some [] \<and> sockfd (fst (close_session_internal ch)) = -1
     \<and> completions (snd (close_session_internal ch)) = [] \<and> wire (snd (close_session_internal ch)) = []"
  using assms by (auto simp: close_session_internal_def tcp_ok_def same_shared_def held_def)

lemma new_parser_ok:
  assumes "tcp_ok ch" and "0 \<le> sockfd ch"
    and "wait_for_response os now timeout (tc_parser ch) k = Some (st, pk, p, k')"
  shows "tcp_ok (ch\<lparr>tc_parser := p\<rparr>) \<and> same_shared ch (ch\<lparr>tc_parser := p\<rparr>) \<and> held (ch\<lparr>tc_parser := p\<rparr>) = held ch"
  using wait_for_response_ok [OF assms(3)] assms(1,2)
  by (auto simp: tcp_ok_def same_shared_def held_def response_ok_def sp_inv_def)

lemma same_shared_trans: "same_shared a b \<Longrightarrow> same_shared b c \<Longrightarrow> same_shared a c"
  by (simp add: same_shared_def)

text \<open>What every request keeps, whichever way it ends, and its one completion.\<close>

lemma process_item_effect:
  assumes run: "process_item env ch item = Some (ch', evs)" and ok: "tcp_ok ch"
  shows "tcp_ok ch' \<and> same_shared ch ch' \<and> fd_run (held ch) evs = Some (held ch')
     \<and> (\<exists>r es. evs = es @ [Tcp_Complete (it_on_complete item) r] \<and> completions es = []
          \<and> (res_status r \<notin> {SENSOR_TCP_OK, SENSOR_TCP_SENT_NO_WAIT} \<or> it_kind item = SENSOR_TCP_ITEM_FINAL
               \<longrightarrow> sockfd ch' = -1)
          \<and> (res_status r \<in> {SENSOR_TCP_OK, SENSOR_TCP_SENT_NO_WAIT} \<and> length (it_packet item) = it_packet_len item
               \<longrightarrow> wire evs = it_packet item))"
  using run
proof (cases rule: process_item_cases)
  case refused
  then show ?thesis using ok by (auto simp: tcp_failure_def same_shared_def held_def tcp_ok_def)
next
  case (unconnected cs ev k)
  have "sockfd ch = -1" "ch' = ch" using open_channel [OF unconnected(1) ok] unconnected(2) ok by (auto simp: tcp_ok_def)
  with open_channel [OF unconnected(1) ok] unconnected(2,3) show ?thesis by (auto simp: tcp_failure_def)
next
  case (closed ch1 ch2 ev k ss out k2 st)
  note o = open_channel [OF closed(1) ok]
  have ch2: "tcp_ok ch2" "same_shared ch1 ch2" "held ch2 = held ch1" "sockfd ch2 = sockfd ch1"
    using closed(5) o new_parser_ok [of ch1] by (auto simp: same_shared_def)
  have fd: "0 \<le> sockfd ch1" "held ch1 = [sockfd ch1]" using o by (simp_all add: held_def)
  note c = close_session_ok [OF ch2(1)]
  have "wire evs = it_packet item" if "st = SENSOR_TCP_SENT_NO_WAIT" "length (it_packet item) = it_packet_len item"
    using that closed(4,7) send_all_whole [OF closed(2)] o c fd ch2 by auto
  moreover have "same_shared ch ch'"
    using o c fd ch2 closed(6) by (metis same_shared_trans)
  moreover have "held ch' = []" using c fd ch2 closed(6) by (simp add: held_def)
  ultimately show ?thesis
    using o c fd ch2 closed(3,6,7) by (auto simp: tcp_failure_def)
next
  case (kept out k2)
  then show ?thesis
    using ok send_all_whole [OF kept(4)] by (auto simp: tcp_failure_def same_shared_def held_def)
next
  case (answered ch1 ev k out k2 pk p k3)
  note o = open_channel [OF answered(2) ok]
  have "0 \<le> sockfd ch1" "held ch1 = [sockfd ch1]" using o by (simp_all add: held_def)
  moreover from this have "tcp_ok ch' \<and> same_shared ch1 ch' \<and> held ch' = held ch1"
    using new_parser_ok [OF _ _ answered(4)] o answered(5) by simp
  moreover from this have "same_shared ch ch'" using o same_shared_trans by blast
  ultimately show ?thesis
    using o send_all_whole [OF answered(3)] answered(1,6)
    by (auto simp: tcp_response_def case_prod_beta Let_def)
qed

text \<open>The turns in which a request waits for its response: from the end of sending to the end of the wait.\<close>

definition response_turns :: "tcp_env \<Rightarrow> 'c sensor_tcp_channel \<Rightarrow> 'c sensor_tcp_queue_item \<Rightarrow> nat \<Rightarrow> nat \<Rightarrow> bool" where
  "response_turns env ch item k k' \<longleftrightarrow>
     (\<exists>ch1 ev k1 pk p.
        (if sockfd ch < 0 then try_connect env ch else Some (SENSOR_TCP_OK, ch, [], 0)) = Some (SENSOR_TCP_OK, ch1, ev, k1)
      \<and> send_all (te_turn env) (it_packet item) (it_packet_len item) 0 [] k1
          = Some (SENSOR_TCP_OK, take (it_packet_len item) (it_packet item), k)
      \<and> wait_for_response (te_turn env) (te_response_at env) (it_response_timeout_ms item) (tc_parser ch1) k
          = Some (SENSOR_TCP_OK, pk, p, k'))"

lemma process_item_response:
  assumes run: "process_item env ch item = Some (ch', evs)" and ok: "tcp_ok ch"
    and r: "(c, r) \<in> set (completions evs)" "res_status r = SENSOR_TCP_OK"
  shows "it_kind item = SENSOR_TCP_ITEM_NORMAL \<and> (\<exists>w k k'. frame w \<and> r = tcp_response (unframe w)
     \<and> response_turns env ch item k k' \<and> k \<le> k'
     \<and> unread ch @ received (te_turn env) (savvy_deadline_arm (te_response_at env) (it_response_timeout_ms item)) k k'
         = w @ unread ch')"
  using run
proof (cases rule: process_item_cases)
  case (unconnected cs ev k)
  then show ?thesis using open_channel [OF unconnected(1) ok] r by (auto simp: tcp_failure_def)
next
  case (closed ch1 ch2 ev k ss out k2 st)
  have "completions (snd (close_session_internal ch2)) = []" by (simp add: close_session_internal_def)
  then show ?thesis using open_channel [OF closed(1) ok] closed r by (auto simp: tcp_failure_def)
next
  case (answered ch1 ev k out k2 pk p k3)
  note o = open_channel [OF answered(2) ok]
  then have fd: "0 \<le> sockfd ch1" and inv: "sp_inv (tc_parser ch1)" by (auto simp: tcp_ok_def)
  have u: "unread ch = sp_content (tc_parser ch1)" using o by (auto simp: unread_def)
  have "r = tcp_response (the pk)" using o answered(6) r(1) by auto
  moreover have "response_turns env ch item k2 k3"
    using answered(2,3,4) send_all_whole(3) [OF answered(3)] unfolding response_turns_def by blast
  ultimately show ?thesis
    using wait_for_response_ok [OF answered(4) inv] answered(1,5) u fd
    by (fastforce simp: response_ok_def unread_def)
qed (use r in \<open>auto simp: tcp_failure_def\<close>)

lemma relay_opens_nothing:
  assumes "process_item env ch item = Some (ch', evs)" and "it_kind item = SENSOR_TCP_ITEM_RELAY"
  shows "Tcp_Open fd \<notin> set evs"
  using assms(1)
proof (cases rule: process_item_cases)
  case (unconnected cs ev k)
  then show ?thesis using assms by (cases "sockfd ch < 0") (auto simp: process_item_def)
next
  case (closed ch1 ch2 ev k ss out k2 st)
  then show ?thesis using assms
    by (cases "sockfd ch < 0") (auto simp: process_item_def close_session_internal_def)
qed (use assms in auto)

section \<open>Properties of one request\<close>

text \<open>
  C7: a response is the next packet of the connection. When a request completes with
  \<^verbatim>\<open>SENSOR_TCP_OK\<close>, it waited for a response, its packet went out whole, and what its callback sees
  is the packet that comes next in the byte stream of the current connection, whatever pieces
  \<^verbatim>\<open>recv\<close> returned: the bytes left over from earlier requests and all those read now, from the end of
  sending to the end of the wait, are this packet followed by the bytes left over for the next
  request. \<^verbatim>\<open>crc_valid\<close> tells whether the checksum matches the body.
\<close>

theorem tcp_response_is_next_packet:
  assumes "process_item env ch item = Some (ch', evs)" and "tcp_ok ch"
    and "(c, r) \<in> set (completions evs)" and "res_status r = SENSOR_TCP_OK"
    and "length (it_packet item) = it_packet_len item"
  shows "c = it_on_complete item \<and> it_kind item = SENSOR_TCP_ITEM_NORMAL \<and> wire evs = it_packet item
     \<and> (\<exists>w k k'. frame w \<and> res_data r = drop SAVVY_PACKET_HEADER_LEN w
          \<and> response_turns env ch item k k' \<and> k \<le> k'
          \<and> res_start r = w ! 0 \<and> res_command r = w ! 1
          \<and> (res_crc_valid r \<longleftrightarrow> length w = SAVVY_PACKET_HEADER_LEN
               \<or> be32_load w 22 = savvy_crc32 (drop SAVVY_PACKET_HEADER_LEN w))
          \<and> unread ch @ received (te_turn env) (savvy_deadline_arm (te_response_at env) (it_response_timeout_ms item)) k k'
              = w @ unread ch')"
proof -
  obtain w k k' where w: "frame w" "r = tcp_response (unframe w)" "response_turns env ch item k k'" "k \<le> k'"
      "unread ch @ received (te_turn env) (savvy_deadline_arm (te_response_at env) (it_response_timeout_ms item)) k k'
         = w @ unread ch'"
    and kind: "it_kind item = SENSOR_TCP_ITEM_NORMAL"
    using process_item_response [OF assms(1-4)] by blast
  have "c = it_on_complete item" "wire evs = it_packet item"
    using process_item_effect [OF assms(1,2)] assms(3-5) by auto
  moreover have "length w = SAVVY_PACKET_HEADER_LEN \<longleftrightarrow> length (drop SAVVY_PACKET_HEADER_LEN w) = 0"
    using w(1) by (auto simp: frame_def)
  moreover have "hdr_start (decode_header w) = w ! 0" "hdr_command (decode_header w) = w ! 1"
    "hdr_crc32 (decode_header w) = be32_load w 22"
    by (simp_all add: decode_header_def)
  ultimately show ?thesis
    using w kind by (intro conjI exI [of _ w] exI [of _ k] exI [of _ k']) (simp_all add: tcp_response_def unframe_def)
qed

text \<open>
  C15: sockets are accounted for, and a failure ends the connection. Whichever way a request ends,
  its callback runs exactly once and last; every socket opened on the way is closed again unless
  it is the channel's, data only goes to an open socket, and none is closed twice. After a
  failure, and after a final request, the channel is disconnected with no byte of the old
  connection left, so that a late response cannot be taken for the answer to another request.
  A relay never opens a socket.
\<close>

theorem tcp_failure_ends_connection:
  assumes "process_item env ch item = Some (ch', evs)" and "tcp_ok ch"
  shows "tcp_ok ch' \<and> fd_run (held ch) evs = Some (held ch')
     \<and> (\<exists>r. completions evs = [(it_on_complete item, r)] \<and> last evs = Tcp_Complete (it_on_complete item) r
          \<and> (res_status r \<notin> {SENSOR_TCP_OK, SENSOR_TCP_SENT_NO_WAIT} \<or> it_kind item = SENSOR_TCP_ITEM_FINAL
               \<longrightarrow> sockfd ch' = -1 \<and> \<not> connected ch' \<and> unread ch' = []))
     \<and> (it_kind item = SENSOR_TCP_ITEM_RELAY \<longrightarrow> (\<forall>fd. Tcp_Open fd \<notin> set evs))"
proof -
  obtain r es where e: "evs = es @ [Tcp_Complete (it_on_complete item) r]" "completions es = []"
    "res_status r \<notin> {SENSOR_TCP_OK, SENSOR_TCP_SENT_NO_WAIT} \<or> it_kind item = SENSOR_TCP_ITEM_FINAL
       \<longrightarrow> sockfd ch' = -1"
    using process_item_effect [OF assms] by blast
  have ok: "tcp_ok ch'" using process_item_effect [OF assms] by blast
  then have "sockfd ch' = -1 \<longrightarrow> \<not> connected ch' \<and> unread ch' = []" by (simp add: tcp_ok_def unread_def)
  then have "\<exists>r. completions evs = [(it_on_complete item, r)] \<and> last evs = Tcp_Complete (it_on_complete item) r
      \<and> (res_status r \<notin> {SENSOR_TCP_OK, SENSOR_TCP_SENT_NO_WAIT} \<or> it_kind item = SENSOR_TCP_ITEM_FINAL
           \<longrightarrow> sockfd ch' = -1 \<and> \<not> connected ch' \<and> unread ch' = [])"
    using e by (intro exI [of _ r]) simp
  with ok process_item_effect [OF assms] relay_opens_nothing [OF assms(1)] show ?thesis by blast
qed

text \<open>A connected channel with an empty parser, a peer that takes three bytes and answers with an empty packet.\<close>

definition demo_turn :: tcp_turn where
  "demo_turn = \<lparr>tt_stop = False, tt_now = \<lparr>monotonic_ns = 0\<rparr>, tt_poll = (\<lambda>_. Tp_Ready 0), tt_so_error_ok = True,
     tt_send = Sent 3, tt_recv = Received (replicate 26 0)\<rparr>"

definition demo_env :: tcp_env where
  "demo_env = \<lparr>te_addrs = None, te_connect_at = \<lparr>monotonic_ns = 0\<rparr>, te_response_at = \<lparr>monotonic_ns = 0\<rparr>,
     te_turn = (\<lambda>_. demo_turn)\<rparr>"

definition demo_item :: "nat sensor_tcp_queue_item" where
  "demo_item = \<lparr>it_packet = [1, 2, 3], it_packet_len = 3, it_response_timeout_ms = 3000,
     it_kind = SENSOR_TCP_ITEM_NORMAL, it_on_complete = 7\<rparr>"

definition demo_channel :: "nat sensor_tcp_channel" where
  "demo_channel = \<lparr>tc_host = ''h'', tc_port = 8141, max_packet_size = 26,
     tc_lifecycle = \<lparr>lc_state = SAVVY_LIFECYCLE_RUNNING\<rparr>,
     tc_queue = \<lparr>storage = replicate 4 demo_item, item_size = TCP_ITEM_SIZE, capacity = 4, q_count = 0, head = 0,
       closed = False, has_destroy_fn = True\<rparr>,
     sockfd = 5, tc_parser = \<lparr>sp_buf = replicate 26 0, buf_cap = 26, sp_head = 0, sp_tail = 0\<rparr>,
     connected = True, stop_requested = False\<rparr>"

lemma demo_send: "send_all (\<lambda>_. demo_turn) [1, 2, 3] 3 0 [] 0 = Some (SENSOR_TCP_OK, [1, 2, 3], 1)"
  by (simp add: send_all.simps demo_turn_def mem_read_def)

lemma demo_take:
  "sp_take \<lparr>sp_buf = replicate 26 0, buf_cap = 26, sp_head = 0, sp_tail = 26\<rparr>
     = (SAVVY_STREAM_PACKET_READY, \<lparr>sp_buf = replicate 26 0, buf_cap = 26, sp_head = 26, sp_tail = 26\<rparr>,
        Some (decode_header (replicate 26 0), []))"
  by (simp add: sp_take_def savvy_stream_parser_try_extract_def packet_lens be32_load_def savvy_packet_decode_def
      decode_header_def mem_read_def)

lemma demo_wait:
  "wait_for_response (\<lambda>_. demo_turn) \<lparr>monotonic_ns = 0\<rparr> 3000 \<lparr>sp_buf = replicate 26 0, buf_cap = 26, sp_head = 0, sp_tail = 0\<rparr> 1
     = Some (SENSOR_TCP_OK, Some (decode_header (replicate 26 0), []),
         \<lparr>sp_buf = replicate 26 0, buf_cap = 26, sp_head = 26, sp_tail = 26\<rparr>, 2)"
proof -
  have "sp_take \<lparr>sp_buf = replicate 26 0, buf_cap = 26, sp_head = 0, sp_tail = 0\<rparr>
      = (SAVVY_STREAM_NEED_MORE_DATA, \<lparr>sp_buf = replicate 26 0, buf_cap = 26, sp_head = 0, sp_tail = 0\<rparr>, None)"
    by (simp add: sp_take_def savvy_stream_parser_try_extract_def packet_lens)
  moreover have "savvy_stream_parser_push \<lparr>sp_buf = replicate 26 0, buf_cap = 26, sp_head = 0, sp_tail = 0\<rparr>
      (Some (replicate 26 0)) 26 = (SAVVY_OK, \<lparr>sp_buf = replicate 26 0, buf_cap = 26, sp_head = 0, sp_tail = 26\<rparr>)"
    by (simp add: savvy_stream_parser_push_def mem_write_def mem_read_def)
  ultimately show ?thesis
    using demo_take
    by (simp add: wait_for_response_def response_loop.simps demo_turn_def savvy_deadline_arm_def
        savvy_deadline_remaining_ms_def savvy_clock_diff_ms_def)
qed

lemma demo_request:
  "process_item demo_env demo_channel demo_item
     = Some (demo_channel\<lparr>tc_parser := \<lparr>sp_buf = replicate 26 0, buf_cap = 26, sp_head = 26, sp_tail = 26\<rparr>\<rparr>,
         [Tcp_Wire 5 [1, 2, 3], Tcp_Complete 7 (tcp_response (decode_header (replicate 26 0), []))])"
  using demo_send demo_wait
  by (simp add: process_item_def demo_env_def demo_channel_def demo_item_def close_session_internal_def)

lemma demo_item_fields [simp]:
  "it_packet demo_item = [1, 2, 3]" "it_packet_len demo_item = 3" "it_response_timeout_ms demo_item = 3000"
  "it_kind demo_item = SENSOR_TCP_ITEM_NORMAL" "it_on_complete demo_item = 7"
  by (simp_all add: demo_item_def)

lemma demo_channel_ok: "tcp_ok demo_channel"
  by (simp add: tcp_ok_def demo_channel_def sp_inv_def)

theorem tcp_response_is_next_packet_witness:
  "\<exists>r. (7, r) \<in> set (completions (snd (the (process_item demo_env demo_channel demo_item))))
     \<and> res_status r = SENSOR_TCP_OK \<and> it_kind demo_item = SENSOR_TCP_ITEM_NORMAL
     \<and> wire (snd (the (process_item demo_env demo_channel demo_item))) = [1, 2, 3]
     \<and> (\<exists>k k'. response_turns demo_env demo_channel demo_item k k')"
  using tcp_response_is_next_packet [OF demo_request demo_channel_ok,
      of 7 "tcp_response (decode_header (replicate 26 0), [])"]
  by (auto simp: demo_request tcp_response_def)

theorem tcp_failure_ends_connection_witness:
  "\<exists>r. completions (snd (the (process_item demo_env demo_channel demo_item))) = [(7, r)]"
  using tcp_failure_ends_connection [OF demo_request demo_channel_ok] unfolding demo_request by auto

section \<open>Stopping\<close>

lemma stop_signal_running:
  assumes "lc_state (tc_lifecycle ch) = SAVVY_LIFECYCLE_RUNNING"
  shows "stop_signal ch = (fst (savvy_queue_cancel (tc_queue ch)),
     ch\<lparr>tc_lifecycle := (tc_lifecycle ch)\<lparr>lc_state := SAVVY_LIFECYCLE_STOPPED\<rparr>, stop_requested := True,
        tc_queue := snd (savvy_queue_cancel (tc_queue ch))\<rparr>, True)"
  using assms by (simp add: stop_signal_def savvy_lifecycle_stop_def case_prod_beta Let_def)

lemma cancelled_pop:
  "savvy_queue_pop (snd (savvy_queue_cancel q)) = Some (SAVVY_ERR_CLOSED, None, snd (savvy_queue_cancel q))"
  by (simp add: savvy_queue_pop_def savvy_queue_cancel_def)

lemma worker_exit_ok:
  assumes "tcp_ok ch"
  shows "tcp_ok (fst (worker_exit ch)) \<and> same_shared ch (fst (worker_exit ch)) \<and> sockfd (fst (worker_exit ch)) = -1
     \<and> fd_run (held ch) (snd (worker_exit ch)) = Some [] \<and> completions (snd (worker_exit ch)) = []"
  using assms by (auto simp: worker_exit_def tcp_ok_def same_shared_def held_def)

text \<open>The channel after the first part of \<^verbatim>\<open>stop\<close>, and what the rest of the worker's run leaves of it.\<close>

definition stopping :: "'c sensor_tcp_channel \<Rightarrow> 'c sensor_tcp_channel" where
  "stopping ch = ch\<lparr>tc_lifecycle := (tc_lifecycle ch)\<lparr>lc_state := SAVVY_LIFECYCLE_STOPPED\<rparr>,
     stop_requested := True, tc_queue := snd (savvy_queue_cancel (tc_queue ch))\<rparr>"

lemma stopping_ok: "tcp_ok ch \<Longrightarrow> tcp_ok (stopping ch) \<and> held (stopping ch) = held ch"
  by (simp add: stopping_def tcp_ok_def held_def)

lemma busy_effect:
  assumes "(case busy of None \<Rightarrow> Some (ch, []) | Some (env, item) \<Rightarrow> process_item env ch item) = Some (ch', evs)"
    and "tcp_ok ch"
  shows "tcp_ok ch' \<and> same_shared ch ch' \<and> fd_run (held ch) evs = Some (held ch')
     \<and> map fst (completions evs) = (case busy of None \<Rightarrow> [] | Some (_, item) \<Rightarrow> [it_on_complete item])"
proof (cases busy)
  case None
  then show ?thesis using assms by (auto simp: same_shared_def)
next
  case (Some b)
  obtain env item where b: "b = (env, item)" by (cases b)
  then have run: "process_item env ch item = Some (ch', evs)" using assms(1) Some by simp
  from process_item_effect [OF run assms(2)] have "map fst (completions evs) = [it_on_complete item]" by force
  with process_item_effect [OF run assms(2)] Some b show ?thesis by simp
qed

lemma stopping_pop:
  assumes "same_shared (stopping ch) ch'"
  shows "savvy_queue_pop (tc_queue ch') = Some (SAVVY_ERR_CLOSED, None, tc_queue ch')"
  using assms cancelled_pop [of "tc_queue ch"] by (simp add: same_shared_def stopping_def)

text \<open>
  C12: \<^verbatim>\<open>stop\<close> returns. However the peer behaves, once a waiting loop of the worker finds the stop flag
  set in some turn, a running channel is stopped: the request at work gets its one completion, the
  queued ones are freed without any, all sockets are closed and the channel is left disconnected.
\<close>

theorem tcp_stop_returns:
  assumes "tcp_ok ch" and "lc_state (tc_lifecycle ch) = SAVVY_LIFECYCLE_RUNNING"
    and "queue_inv (tc_queue ch)" and "has_destroy_fn (tc_queue ch)"
    and "case busy of None \<Rightarrow> True | Some (env, item) \<Rightarrow> tt_stop (te_turn env n)"
  shows "\<exists>ch' evs. sensor_tcp_channel_stop busy (Some ch) = Some (queue_items (tc_queue ch), Some ch', evs)
     \<and> map fst (completions evs) = (case busy of None \<Rightarrow> [] | Some (_, item) \<Rightarrow> [it_on_complete item])
     \<and> fd_run (held ch) evs = Some [] \<and> sockfd ch' = -1 \<and> \<not> connected ch' \<and> queue_items (tc_queue ch') = []
     \<and> lc_state (tc_lifecycle ch') = SAVVY_LIFECYCLE_STOPPED"
proof -
  have sig: "stop_signal ch = (queue_items (tc_queue ch), stopping ch, True)"
    using stop_signal_running [OF assms(2)] queue_destroyed_items [OF assms(3,4)]
    by (simp add: stopping_def savvy_queue_cancel_def)
  obtain ch2 ev2 where w: "(case busy of None \<Rightarrow> Some (stopping ch, [])
      | Some (env, item) \<Rightarrow> process_item env (stopping ch) item) = Some (ch2, ev2)"
    using assms(5) process_item_stops [of _ n "stopping ch"] by (cases busy) fastforce+
  note ch2 = busy_effect [OF w] stopping_ok [OF assms(1)]
  then have pop: "savvy_queue_pop (tc_queue ch2) = Some (SAVVY_ERR_CLOSED, None, tc_queue ch2)"
    using stopping_pop by blast
  have "sensor_tcp_channel_stop busy (Some ch)
      = Some (queue_items (tc_queue ch), Some (fst (worker_exit ch2)), ev2 @ snd (worker_exit ch2))"
    using sig w pop by (simp add: sensor_tcp_channel_stop_def split: prod.split)
  moreover have "queue_items (tc_queue (fst (worker_exit ch2))) = []"
    "lc_state (tc_lifecycle (fst (worker_exit ch2))) = SAVVY_LIFECYCLE_STOPPED"
    using ch2 worker_exit_ok [of ch2]
    by (auto simp: same_shared_def stopping_def savvy_queue_cancel_def queue_items_def)
  ultimately show ?thesis
    using ch2 worker_exit_ok [of ch2] by (auto simp: tcp_ok_def)
qed

theorem tcp_stop_returns_witness:
  "\<exists>ch' evs. sensor_tcp_channel_stop (Some (demo_env\<lparr>te_turn := (\<lambda>_. demo_turn\<lparr>tt_stop := True\<rparr>)\<rparr>, demo_item)) (Some demo_channel)
       = Some ([], Some ch', evs) \<and> map fst (completions evs) = [7] \<and> sockfd ch' = -1"
  using tcp_stop_returns [OF demo_channel_ok,
      where busy = "Some (demo_env\<lparr>te_turn := (\<lambda>_. demo_turn\<lparr>tt_stop := True\<rparr>)\<rparr>, demo_item)"]
  by (auto simp: demo_channel_def queue_inv_def queue_items_def SIZE_MAX_def)

text \<open>
  C16: a stopped channel cannot be used again. After \<^verbatim>\<open>stop\<close>, \<^verbatim>\<open>start\<close> reports success, but the queue stays
  closed: the new worker ends at once, every \<^verbatim>\<open>submit\<close> and \<^verbatim>\<open>submit_final\<close> with well-formed arguments is
  refused with \<^verbatim>\<open>SAVVY_ERR_CLOSED\<close>, and every relay with \<^verbatim>\<open>SAVVY_ERR_NOT_CONNECTED\<close>; nothing is queued.
\<close>

theorem tcp_stop_is_final:
  assumes "lc_state (tc_lifecycle ch) = SAVVY_LIFECYCLE_RUNNING" and "tcp_ok ch"
    and "sensor_tcp_channel_stop busy (Some ch) = Some (dropped, Some ch', evs)"
    and "packet \<noteq> None" and "0 < len" and "len \<le> max_packet_size ch" and "cb \<noteq> None" and "timeout \<noteq> 0"
  shows "\<exists>ch''. sensor_tcp_channel_start True (Some ch') = (SAVVY_OK, Some ch'', True)
     \<and> worker_main envs ch'' = Some (ch'', [], True)
     \<and> sensor_tcp_channel_submit True (Some ch'') packet len timeout cb = (SAVVY_ERR_CLOSED, Some ch'')
     \<and> sensor_tcp_channel_submit_final True (Some ch'') packet len cb = (SAVVY_ERR_CLOSED, Some ch'')
     \<and> sensor_tcp_channel_try_relay True (Some ch'') packet len cb = (SAVVY_ERR_NOT_CONNECTED, Some ch'')"
proof -
  obtain ch2 ev2 ch3 ev3 where r: "(case busy of None \<Rightarrow> Some (stopping ch, [])
      | Some (env, item) \<Rightarrow> process_item env (stopping ch) item) = Some (ch2, ev2)"
      "worker_main [] ch2 = Some (ch3, ev3, True)" "ch' = ch3"
    using assms(3) stop_signal_running [OF assms(1)]
    by (auto simp: sensor_tcp_channel_stop_def stopping_def [symmetric] split: option.splits if_splits)
  note ch2 = busy_effect [OF r(1)] stopping_ok [OF assms(2)]
  then have pop: "savvy_queue_pop (tc_queue ch2) = Some (SAVVY_ERR_CLOSED, None, tc_queue ch2)"
    using stopping_pop by blast
  then have ch': "ch' = fst (worker_exit ch2)" using r(2,3) by (simp add: case_prod_beta)
  then have s: "same_shared (stopping ch) ch'" "sockfd ch' = -1"
    using ch2 worker_exit_ok [of ch2] same_shared_trans by blast+
  have off: "\<not> connected ch'" using ch' ch2 worker_exit_ok [of ch2] by (auto simp: tcp_ok_def)
  let ?c = "ch'\<lparr>tc_lifecycle := (tc_lifecycle ch')\<lparr>lc_state := SAVVY_LIFECYCLE_RUNNING\<rparr>, stop_requested := False\<rparr>"
  have start: "sensor_tcp_channel_start True (Some ch') = (SAVVY_OK, Some ?c, True)"
    using s by (simp add: sensor_tcp_channel_start_def savvy_lifecycle_start_def same_shared_def stopping_def Let_def)
  have q: "tc_queue ?c = snd (savvy_queue_cancel (tc_queue ch))" "max_packet_size ?c = max_packet_size ch"
    using s(1) by (simp_all add: same_shared_def stopping_def)
  have "worker_main envs ?c = Some (?c, [], True)"
    using s(2) cancelled_pop [of "tc_queue ch"] q(1) by (cases envs) (simp_all add: worker_exit_def)
  moreover have "enqueue_common True ?c packet len tmo kind cb = (SAVVY_ERR_CLOSED, ?c)" for tmo kind
    using assms(4-7) q
    by (auto simp: enqueue_common_def savvy_lifecycle_get_def savvy_queue_try_push_def savvy_queue_cancel_def Let_def)
  ultimately show ?thesis
    using start assms(8) off
    by (simp add: sensor_tcp_channel_submit_def sensor_tcp_channel_submit_final_def sensor_tcp_channel_try_relay_def)
qed

theorem tcp_stop_is_final_witness:
  "\<exists>ch' ch''. sensor_tcp_channel_stop None (Some demo_channel) = Some ([], Some ch', [Tcp_Close 5])
     \<and> sensor_tcp_channel_start True (Some ch') = (SAVVY_OK, Some ch'', True)
     \<and> sensor_tcp_channel_submit True (Some ch'') (Some [1, 2, 3]) 3 3000 (Some 7) = (SAVVY_ERR_CLOSED, Some ch'')"
proof -
  have run: "lc_state (tc_lifecycle demo_channel) = SAVVY_LIFECYCLE_RUNNING" by (simp add: demo_channel_def)
  have "sensor_tcp_channel_stop None (Some demo_channel)
      = Some ([], Some (fst (worker_exit (stopping demo_channel))), [Tcp_Close 5])"
    by (simp add: sensor_tcp_channel_stop_def stop_signal_running [OF run] stopping_def cancelled_pop worker_exit_def)
      (simp add: demo_channel_def savvy_queue_cancel_def queue_destroyed_def)
  moreover from tcp_stop_is_final [OF run demo_channel_ok this, of "Some [1, 2, 3]" 3 "Some 7" 3000]
  have "\<exists>ch''. sensor_tcp_channel_start True (Some (fst (worker_exit (stopping demo_channel)))) = (SAVVY_OK, Some ch'', True)
     \<and> sensor_tcp_channel_submit True (Some ch'') (Some [1, 2, 3]) 3 3000 (Some 7) = (SAVVY_ERR_CLOSED, Some ch'')"
    by (auto simp: demo_channel_def)
  ultimately show ?thesis by blast
qed

end
