(* ===== verification/Tcp_System.thy ===== *)
theory Tcp_System
  imports Tcp_Channel
begin

text \<open>
  The channel of \<^verbatim>\<open>tcp_channel.c\<close> with its threads: callers that enqueue requests and stop or start
  the channel, and workers that take requests, work on them and end. A step is the critical
  sections of one call, or the whole handling of a request, which touches only fields that belong
  to the worker as long as there is one worker. Callers read the atomic \<^verbatim>\<open>connected\<close> flag at any
  time, so a relay request may be enqueued in every state. A callback may close the session.

  \<^verbatim>\<open>stop\<close> waits for the worker after it has left the lifecycle in the stopped state, so a \<^verbatim>\<open>start\<close> of another
  thread can overtake the wait and create a second worker. The steps allow that; what it does
  is shown at the end. The main result is about runs in which it does not happen.
\<close>

section \<open>Threads and steps\<close>

datatype 'c worker = No_Worker | In_Pop | At_Item "'c sensor_tcp_queue_item" | Ended

text \<open>
  The workers by thread number, \<open>No_Worker\<close> for a thread that does not exist. The last four fields
  record history: requests accepted, taken, dropped, and all events.
\<close>

record 'c tcp_sys =
  sy_chan :: "'c sensor_tcp_channel"
  sy_workers :: "nat \<Rightarrow> 'c worker"
  sy_accepted :: "'c sensor_tcp_queue_item list"
  sy_taken :: "'c sensor_tcp_queue_item list"
  sy_dropped :: "'c sensor_tcp_queue_item list"
  sy_trace :: "'c tcp_event list"

inductive tcp_step :: "'c tcp_sys \<Rightarrow> 'c tcp_sys \<Rightarrow> bool" where
  enqueue: "enqueue_common ok (sy_chan s) packet len timeout kind cb = (st, ch') \<Longrightarrow>
     tcp_step s (s\<lparr>sy_chan := ch', sy_accepted := sy_accepted s @ (if st = SAVVY_OK then
        [\<lparr>it_packet = mem_read (the packet) 0 len, it_packet_len = len, it_response_timeout_ms = timeout,
          it_kind = kind, it_on_complete = the cb\<rparr>] else [])\<rparr>)"
| take: "sy_workers s i = In_Pop \<Longrightarrow> savvy_queue_pop (tc_queue (sy_chan s)) = Some (SAVVY_OK, Some item, q) \<Longrightarrow>
     tcp_step s (s\<lparr>sy_chan := (sy_chan s)\<lparr>tc_queue := q\<rparr>, sy_workers := (sy_workers s)(i := At_Item item),
       sy_taken := sy_taken s @ [item]\<rparr>)"
| finish: "sy_workers s i = At_Item item \<Longrightarrow> process_item env (sy_chan s) item = Some (ch', evs) \<Longrightarrow>
     (if closes then close_session_internal ch' else (ch', [])) = (ch'', evs') \<Longrightarrow>
     tcp_step s (s\<lparr>sy_chan := ch'', sy_workers := (sy_workers s)(i := In_Pop), sy_trace := sy_trace s @ evs @ evs'\<rparr>)"
| leave: "sy_workers s i = In_Pop \<Longrightarrow> savvy_queue_pop (tc_queue (sy_chan s)) = Some (st, None, q) \<Longrightarrow>
     worker_exit (sy_chan s) = (ch', evs) \<Longrightarrow>
     tcp_step s (s\<lparr>sy_chan := ch', sy_workers := (sy_workers s)(i := Ended), sy_trace := sy_trace s @ evs\<rparr>)"
| stop: "stop_signal (sy_chan s) = (dropped, ch', joins) \<Longrightarrow>
     tcp_step s (s\<lparr>sy_chan := ch', sy_dropped := sy_dropped s @ dropped\<rparr>)"
| join: "sy_workers s i = Ended \<Longrightarrow> tcp_step s (s\<lparr>sy_workers := (sy_workers s)(i := No_Worker)\<rparr>)"
| start: "sensor_tcp_channel_start ok (Some (sy_chan s)) = (st, Some ch', created) \<Longrightarrow>
     sy_workers s i = No_Worker \<Longrightarrow>
     tcp_step s (s\<lparr>sy_chan := ch', sy_workers := (sy_workers s)(i := (if created then In_Pop else No_Worker))\<rparr>)"

inductive tcp_reach :: "'c tcp_sys \<Rightarrow> 'c tcp_sys \<Rightarrow> bool" where
  reach_refl: "tcp_reach s s"
| reach_step: "tcp_reach s t \<Longrightarrow> tcp_step t u \<Longrightarrow> tcp_reach s u"

text \<open>Runs in which every \<^verbatim>\<open>start\<close> that creates a worker finds the previous one joined.\<close>

definition one_worker :: "'c tcp_sys \<Rightarrow> bool" where
  "one_worker s \<longleftrightarrow> (\<forall>i j. sy_workers s i \<noteq> No_Worker \<and> sy_workers s j \<noteq> No_Worker \<longrightarrow> i = j)"

inductive tcp_run :: "'c tcp_sys \<Rightarrow> 'c tcp_sys \<Rightarrow> bool" where
  run_refl: "tcp_run s s"
| run_step: "tcp_run s t \<Longrightarrow> tcp_step t u \<Longrightarrow> one_worker u \<Longrightarrow> tcp_run s u"

definition tcp_sys_init :: "'c sensor_tcp_channel \<Rightarrow> 'c tcp_sys" where
  "tcp_sys_init ch = \<lparr>sy_chan = ch, sy_workers = (\<lambda>_. No_Worker), sy_accepted = [], sy_taken = [], sy_dropped = [], sy_trace = []\<rparr>"

section \<open>The invariant\<close>

fun at_work :: "'c worker \<Rightarrow> 'c list" where
  "at_work (At_Item item) = [it_on_complete item]"
| "at_work _ = []"

text \<open>The callback of the request at work is counted with the thread \<open>i\<close>, the only one that may exist.\<close>

definition settled :: "'c tcp_sys \<Rightarrow> nat \<Rightarrow> bool" where
  "settled s i \<longleftrightarrow> (\<forall>j. j \<noteq> i \<longrightarrow> sy_workers s j = No_Worker)
     \<and> map fst (completions (sy_trace s)) @ at_work (sy_workers s i) = map it_on_complete (sy_taken s)"

definition tcp_sys_inv :: "'c tcp_sys \<Rightarrow> bool" where
  "tcp_sys_inv s \<longleftrightarrow> tcp_ok (sy_chan s)
     \<and> queue_inv (tc_queue (sy_chan s)) \<and> has_destroy_fn (tc_queue (sy_chan s))
     \<and> (savvy_queue.closed (tc_queue (sy_chan s)) \<longrightarrow> queue_items (tc_queue (sy_chan s)) = [])
     \<and> (sy_dropped s \<noteq> [] \<longrightarrow> savvy_queue.closed (tc_queue (sy_chan s)))
     \<and> sy_accepted s = sy_taken s @ sy_dropped s @ queue_items (tc_queue (sy_chan s))
     \<and> (\<exists>i. settled s i)
     \<and> fd_run [] (sy_trace s) = Some (held (sy_chan s))"

text \<open>A thread that exists is the one.\<close>

lemma settled_thread: "settled s i \<Longrightarrow> sy_workers s j \<noteq> No_Worker \<Longrightarrow> i = j"
  by (auto simp: settled_def)

lemma inv_settled: "tcp_sys_inv s \<Longrightarrow> sy_workers s i \<noteq> No_Worker \<Longrightarrow> settled s i"
  using settled_thread by (auto simp: tcp_sys_inv_def)

lemma tcp_ok_shared:
  "sockfd ch' = sockfd ch \<Longrightarrow> connected ch' = connected ch \<Longrightarrow> tc_parser ch' = tc_parser ch \<Longrightarrow>
     max_packet_size ch' = max_packet_size ch \<Longrightarrow> tcp_ok ch' = tcp_ok ch \<and> held ch' = held ch"
  by (simp add: tcp_ok_def held_def)

lemma enqueue_common_cases:
  assumes "enqueue_common ok ch packet len timeout kind cb = (st, ch')" and "queue_inv (tc_queue ch)"
  shows "st \<noteq> SAVVY_OK \<and> ch' = ch \<or> st = SAVVY_OK \<and> \<not> savvy_queue.closed (tc_queue ch)
     \<and> (\<exists>q. ch' = ch\<lparr>tc_queue := q\<rparr> \<and> queue_inv q \<and> savvy_queue.closed q = savvy_queue.closed (tc_queue ch)
          \<and> has_destroy_fn q = has_destroy_fn (tc_queue ch) \<and> capacity q = capacity (tc_queue ch)
          \<and> queue_items q = queue_items (tc_queue ch) @
              [\<lparr>it_packet = mem_read (the packet) 0 len, it_packet_len = len, it_response_timeout_ms = timeout,
                it_kind = kind, it_on_complete = the cb\<rparr>])"
proof -
  have "q_count (tc_queue ch) \<le> capacity (tc_queue ch)" using assms(2) by (simp add: queue_inv_def)
  then show ?thesis
    using assms queue_store_props [OF assms(2)]
    by (auto simp: enqueue_common_def savvy_queue_try_push_def Let_def queue_store_def split: if_splits)
qed

lemma step_enqueue:
  assumes "tcp_sys_inv s" and "enqueue_common ok (sy_chan s) packet len timeout kind cb = (st, ch')"
  shows "tcp_sys_inv (s\<lparr>sy_chan := ch', sy_accepted := sy_accepted s @ (if st = SAVVY_OK then
        [\<lparr>it_packet = mem_read (the packet) 0 len, it_packet_len = len, it_response_timeout_ms = timeout,
          it_kind = kind, it_on_complete = the cb\<rparr>] else [])\<rparr>)"
proof -
  have "queue_inv (tc_queue (sy_chan s))" using assms(1) by (simp add: tcp_sys_inv_def)
  from enqueue_common_cases [OF assms(2) this] show ?thesis
    using assms(1) by (auto simp: tcp_sys_inv_def settled_def tcp_ok_def held_def)
qed

lemma step_take:
  assumes "tcp_sys_inv s" and "sy_workers s i = In_Pop"
    and "savvy_queue_pop (tc_queue (sy_chan s)) = Some (SAVVY_OK, Some item, q)"
  shows "tcp_sys_inv (s\<lparr>sy_chan := (sy_chan s)\<lparr>tc_queue := q\<rparr>, sy_workers := (sy_workers s)(i := At_Item item),
    sy_taken := sy_taken s @ [item]\<rparr>)"
  (is "tcp_sys_inv ?t")
proof -
  have inv: "queue_inv (tc_queue (sy_chan s))" using assms(1) by (simp add: tcp_sys_inv_def)
  have items: "queue_items (tc_queue (sy_chan s)) = item # queue_items q" and q: "queue_inv q"
    using queue_pop_props [OF inv assms(3)] by auto
  have same: "savvy_queue.closed q = savvy_queue.closed (tc_queue (sy_chan s))" "has_destroy_fn q = has_destroy_fn (tc_queue (sy_chan s))"
    using assms(3) by (auto simp: savvy_queue_pop_def split: if_splits)
  have "sy_dropped s = []" "\<not> savvy_queue.closed (tc_queue (sy_chan s))" using assms(1) items by (auto simp: tcp_sys_inv_def)
  moreover have "settled ?t i" using inv_settled [OF assms(1), of i] assms(2) by (simp add: settled_def)
  then have "\<exists>i. settled ?t i" ..
  ultimately show ?thesis using assms(1) items q same by (auto simp: tcp_sys_inv_def tcp_ok_def held_def)
qed

lemma step_finish:
  assumes "tcp_sys_inv s" and "sy_workers s i = At_Item item" and "process_item env (sy_chan s) item = Some (ch', evs)"
    and "(if closes then close_session_internal ch' else (ch', [])) = (ch'', evs')"
  shows "tcp_sys_inv (s\<lparr>sy_chan := ch'', sy_workers := (sy_workers s)(i := In_Pop), sy_trace := sy_trace s @ evs @ evs'\<rparr>)"
  (is "tcp_sys_inv ?t")
proof -
  have ok: "tcp_ok (sy_chan s)" using assms(1) by (simp add: tcp_sys_inv_def)
  note eff = busy_effect [where busy = "Some (env, item)", simplified, OF assms(3) ok]
  have c: "tcp_ok ch'' \<and> same_shared ch' ch'' \<and> fd_run (held ch') evs' = Some (held ch'') \<and> completions evs' = []"
    using assms(4) eff close_session_ok [of ch']
    by (auto simp: close_session_internal_def tcp_ok_def same_shared_def held_def split: if_splits)
  have "settled ?t i" using inv_settled [OF assms(1), of i] assms(2) eff c by (simp add: settled_def)
  then have "\<exists>i. settled ?t i" ..
  then show ?thesis
    using assms(1,2) eff c by (auto simp: tcp_sys_inv_def same_shared_def)
qed

lemma step_leave:
  assumes "tcp_sys_inv s" and "sy_workers s i = In_Pop" and "worker_exit (sy_chan s) = (ch', evs)"
  shows "tcp_sys_inv (s\<lparr>sy_chan := ch', sy_workers := (sy_workers s)(i := Ended), sy_trace := sy_trace s @ evs\<rparr>)"
  (is "tcp_sys_inv ?t")
proof -
  have w: "tcp_ok (sy_chan s)" using assms(1) by (simp add: tcp_sys_inv_def)
  have "settled ?t i"
    using inv_settled [OF assms(1), of i] assms(2,3) worker_exit_ok [OF w] by (simp add: settled_def)
  then have "\<exists>i. settled ?t i" ..
  then show ?thesis
    using assms worker_exit_ok [OF w] by (auto simp: tcp_sys_inv_def same_shared_def held_def)
qed

lemma step_stop:
  assumes "tcp_sys_inv s" and "stop_signal (sy_chan s) = (dropped, ch', joins)"
  shows "tcp_sys_inv (s\<lparr>sy_chan := ch', sy_dropped := sy_dropped s @ dropped\<rparr>)"
proof (cases "lc_state (tc_lifecycle (sy_chan s)) = SAVVY_LIFECYCLE_RUNNING")
  case True
  have q: "queue_inv (tc_queue (sy_chan s))" "has_destroy_fn (tc_queue (sy_chan s))"
    using assms(1) by (simp_all add: tcp_sys_inv_def)
  have "dropped = queue_items (tc_queue (sy_chan s))" "ch' = stopping (sy_chan s)"
    using assms(2) stop_signal_running [OF True] queue_destroyed_items [OF q]
    by (auto simp: stopping_def savvy_queue_cancel_def)
  moreover have "queue_inv (snd (savvy_queue_cancel (tc_queue (sy_chan s))))"
    using q(1) by (auto simp: savvy_queue_cancel_def queue_inv_def)
  ultimately show ?thesis
    using assms(1) stopping_ok [of "sy_chan s"]
    by (auto simp: tcp_sys_inv_def settled_def stopping_def savvy_queue_cancel_def queue_items_def)
next
  case False
  then have "dropped = []" "ch' = (sy_chan s)\<lparr>tc_lifecycle := tc_lifecycle ch'\<rparr>"
    using assms(2) by (auto simp: stop_signal_def savvy_lifecycle_stop_def Let_def)
  with assms(1) show ?thesis
    by (cases ch') (auto simp: tcp_sys_inv_def settled_def tcp_ok_def held_def)
qed

lemma step_join:
  assumes "tcp_sys_inv s" and "sy_workers s i = Ended"
  shows "tcp_sys_inv (s\<lparr>sy_workers := (sy_workers s)(i := No_Worker)\<rparr>)" (is "tcp_sys_inv ?t")
proof -
  have "settled ?t i" using inv_settled [OF assms(1), of i] assms(2) by (simp add: settled_def)
  then have "\<exists>i. settled ?t i" ..
  then show ?thesis using assms(1) by (auto simp: tcp_sys_inv_def)
qed

text \<open>A start that leaves one worker found none, or created none.\<close>

lemma step_start:
  assumes "tcp_sys_inv s" and "sensor_tcp_channel_start ok (Some (sy_chan s)) = (st, Some ch', created)"
    and "sy_workers s i = No_Worker"
    and "one_worker (s\<lparr>sy_chan := ch', sy_workers := (sy_workers s)(i := (if created then In_Pop else No_Worker))\<rparr>)"
  shows "tcp_sys_inv (s\<lparr>sy_chan := ch', sy_workers := (sy_workers s)(i := (if created then In_Pop else No_Worker))\<rparr>)"
  (is "tcp_sys_inv ?t")
proof -
  obtain n where n: "settled s n" using assms(1) by (auto simp: tcp_sys_inv_def)
  have "settled ?t (if created then i else n)"
  proof (cases created)
    case True
    have "sy_workers s j = No_Worker" for j
    proof (cases "j = i")
      case False
      with assms(4) True show ?thesis unfolding one_worker_def
        by (elim allE [of _ i] allE [of _ j]) simp
    qed (use assms(3) in simp)
    with n True show ?thesis by (simp add: settled_def)
  next
    case False
    with n assms(3) show ?thesis by (auto simp: settled_def)
  qed
  then have "\<exists>i. settled ?t i" ..
  then show ?thesis
    using assms(1,2)
    by (auto simp: sensor_tcp_channel_start_def savvy_lifecycle_start_def tcp_sys_inv_def tcp_ok_def held_def Let_def
        split: if_splits)
qed

lemma tcp_step_inv: "tcp_step s t \<Longrightarrow> tcp_sys_inv s \<Longrightarrow> one_worker t \<Longrightarrow> tcp_sys_inv t"
proof (induction rule: tcp_step.induct)
  case (start ok s st ch' created i)
  then show ?case using step_start by blast
qed (rule step_enqueue step_take step_finish step_leave step_stop step_join; assumption)+

lemma tcp_run_inv: "tcp_run s t \<Longrightarrow> tcp_sys_inv s \<Longrightarrow> tcp_sys_inv t"
  by (induction rule: tcp_run.induct) (auto intro: tcp_step_inv)

lemma tcp_create_inv:
  assumes "sensor_tcp_channel_create False host port max_size cap calloc_ok dup_ok (Some mem) lc_ok (Some cells) m e f
      = (st, Some ch)"
    and "length mem = max_size" and "length cells = cap"
  shows "tcp_sys_inv (tcp_sys_init ch)"
proof -
  obtain lc q where q: "savvy_queue_init False cap TCP_ITEM_SIZE True (Some cells) m e f = (SAVVY_OK, Some q)"
      and ch: "tc_queue ch = q" "sockfd ch = -1" "\<not> connected ch" "sp_buf (tc_parser ch) = mem" "max_packet_size ch = max_size"
    using assms(1)
    by (auto simp: sensor_tcp_channel_create_def savvy_lifecycle_init_def savvy_queue_init_def split: if_splits)
  have "queue_inv q" "queue_items q = []" "\<not> savvy_queue.closed q"
    using queue_init_inv [OF q _ refl assms(3)] by (simp_all add: TCP_ITEM_SIZE_def)
  moreover have "has_destroy_fn q" using q by (auto simp: savvy_queue_init_def split: if_splits)
  ultimately show ?thesis
    using ch assms(2) by (auto simp: tcp_sys_inv_def settled_def tcp_sys_init_def tcp_ok_def held_def)
qed

section \<open>Properties of the whole channel\<close>

text \<open>
  C6: every accepted request is settled exactly once, in order. In every state that callers and the
  worker of a freshly created channel can reach, as long as no \<^verbatim>\<open>start\<close> overtakes a \<^verbatim>\<open>stop\<close> that still waits
  for the worker, the requests accepted so far are, in order, those the worker took, those
  \<^verbatim>\<open>stop\<close> dropped and those still queued; the callbacks run so far, plus that of the request at work,
  are exactly those of the requests taken, in order, and no dropped request's callback has
  run. Over the whole history no socket is leaked, closed twice or used after it was closed: the
  only one open is the channel's. (What an overtaking \<^verbatim>\<open>start\<close> does: \<open>tcp_start_overtakes_stop\<close>.)
\<close>

theorem tcp_requests_settled_once:
  assumes "sensor_tcp_channel_create False host port max_size cap calloc_ok dup_ok (Some mem) lc_ok (Some cells) m e f
      = (st, Some ch)"
    and "length mem = max_size" and "length cells = cap"
    and "tcp_run (tcp_sys_init ch) s"
  shows "sy_accepted s = sy_taken s @ sy_dropped s @ queue_items (tc_queue (sy_chan s))
     \<and> (\<exists>i. (\<forall>j. j \<noteq> i \<longrightarrow> sy_workers s j = No_Worker)
          \<and> map fst (completions (sy_trace s)) @ at_work (sy_workers s i) = map it_on_complete (sy_taken s))
     \<and> (sy_dropped s \<noteq> [] \<longrightarrow> savvy_queue.closed (tc_queue (sy_chan s)) \<and> queue_items (tc_queue (sy_chan s)) = [])
     \<and> fd_run [] (sy_trace s) = Some (if connected (sy_chan s) then [sockfd (sy_chan s)] else [])"
proof -
  have "tcp_sys_inv s" using tcp_run_inv [OF assms(4) tcp_create_inv [OF assms(1-3)]] .
  then show ?thesis by (auto simp: tcp_sys_inv_def settled_def held_def tcp_ok_def)
qed

definition demo_fresh :: "nat sensor_tcp_channel" where
  "demo_fresh = \<lparr>tc_host = ''h'', tc_port = 8141, max_packet_size = 26,
     tc_lifecycle = \<lparr>lc_state = SAVVY_LIFECYCLE_STOPPED\<rparr>,
     tc_queue = \<lparr>storage = replicate 4 demo_item, item_size = TCP_ITEM_SIZE, capacity = 4, q_count = 0, head = 0,
       closed = False, has_destroy_fn = True\<rparr>,
     sockfd = -1, tc_parser = \<lparr>sp_buf = replicate 26 0, buf_cap = 0, sp_head = 0, sp_tail = 0\<rparr>,
     connected = False, stop_requested = False\<rparr>"

theorem tcp_requests_settled_once_witness:
  "\<exists>s. tcp_run (tcp_sys_init demo_fresh) s \<and> sy_workers s 0 = In_Pop \<and> sy_accepted s = [demo_item]
     \<and> queue_items (tc_queue (sy_chan s)) = [demo_item]"
proof -
  have create: "sensor_tcp_channel_create False (Some ''h'') 8141 26 4 True True (Some (replicate 26 0)) True
      (Some (replicate 4 demo_item)) True True True = (SAVVY_OK, Some demo_fresh)"
    by (simp add: sensor_tcp_channel_create_def savvy_lifecycle_init_def savvy_queue_init_def packet_lens
        TCP_ITEM_SIZE_def SIZE_MAX_def demo_fresh_def)
  define run where "run = demo_fresh\<lparr>tc_lifecycle := \<lparr>lc_state = SAVVY_LIFECYCLE_RUNNING\<rparr>\<rparr>"
  define full where "full = run\<lparr>tc_queue := queue_store (tc_queue run) demo_item\<rparr>"
  let ?s0 = "tcp_sys_init demo_fresh"
  let ?s1 = "?s0\<lparr>sy_chan := run, sy_workers := (\<lambda>_. No_Worker)(0 := In_Pop)\<rparr>"
  let ?s2 = "?s1\<lparr>sy_chan := full, sy_accepted := [demo_item]\<rparr>"
  have "sensor_tcp_channel_start True (Some demo_fresh) = (SAVVY_OK, Some run, True)"
    by (simp add: run_def demo_fresh_def sensor_tcp_channel_start_def savvy_lifecycle_start_def)
  then have 1: "tcp_step ?s0 ?s1"
    using tcp_step.start [of True ?s0 SAVVY_OK run True 0] by (simp add: tcp_sys_init_def)
  have item: "\<lparr>it_packet = mem_read [1, 2, 3] 0 3, it_packet_len = 3, it_response_timeout_ms = 3000,
      it_kind = SENSOR_TCP_ITEM_NORMAL, it_on_complete = 7\<rparr> = demo_item"
    by (simp add: demo_item_def mem_read_def)
  have "enqueue_common True run (Some [1, 2, 3]) 3 3000 SENSOR_TCP_ITEM_NORMAL (Some 7) = (SAVVY_OK, full)"
    by (simp add: enqueue_common_def item savvy_lifecycle_get_def savvy_queue_try_push_def full_def)
      (simp add: run_def demo_fresh_def)
  then have 2: "tcp_step ?s1 ?s2"
    using tcp_step.enqueue [of True ?s1 "Some [1, 2, 3]" 3 3000 SENSOR_TCP_ITEM_NORMAL "Some 7" SAVVY_OK full] item
    by (simp add: tcp_sys_init_def)
  have r: "tcp_run ?s0 ?s2"
    by (rule run_step [OF run_step [OF run_refl 1] 2]) (simp_all add: one_worker_def)
  then show ?thesis
    using tcp_requests_settled_once [OF create _ _ r] by (intro exI [of _ ?s2]) (simp add: tcp_sys_init_def)
qed

text \<open>
  A \<^verbatim>\<open>start\<close> that overtakes the wait of \<^verbatim>\<open>stop\<close> takes the socket away from the worker. While a worker of a
  running, connected channel is at a request, another thread calls \<^verbatim>\<open>stop\<close> and, before the worker has
  ended, a third one calls \<^verbatim>\<open>start\<close>: the stop flag is cleared again, a second worker is created, finds
  the queue closed and, on its way out, closes the descriptor the first worker is still using.
\<close>

theorem tcp_start_overtakes_stop:
  assumes "sy_workers s i = At_Item item" and "sy_workers s j = No_Worker" and "0 \<le> sockfd (sy_chan s)"
    and "lc_state (tc_lifecycle (sy_chan s)) = SAVVY_LIFECYCLE_RUNNING"
  shows "\<exists>t. tcp_reach s t \<and> sy_workers t i = At_Item item \<and> sy_workers t j = Ended
     \<and> sy_trace t = sy_trace s @ [Tcp_Close (sockfd (sy_chan s))] \<and> sockfd (sy_chan t) = -1
     \<and> \<not> stop_requested (sy_chan t) \<and> lc_state (tc_lifecycle (sy_chan t)) = SAVVY_LIFECYCLE_RUNNING"
proof -
  let ?ch = "sy_chan s"
  define dropped where "dropped = fst (savvy_queue_cancel (tc_queue ?ch))"
  define ch2 where "ch2 = (stopping ?ch)\<lparr>tc_lifecycle := tc_lifecycle ?ch, stop_requested := False\<rparr>"
  define ch3 where "ch3 = ch2\<lparr>sockfd := -1, connected := False\<rparr>"
  let ?s1 = "s\<lparr>sy_chan := stopping ?ch, sy_dropped := sy_dropped s @ dropped\<rparr>"
  let ?s2 = "?s1\<lparr>sy_chan := ch2, sy_workers := (sy_workers s)(j := In_Pop)\<rparr>"
  let ?s3 = "?s2\<lparr>sy_chan := ch3, sy_workers := (sy_workers s)(j := Ended), sy_trace := sy_trace s @ [Tcp_Close (sockfd ?ch)]\<rparr>"
  have "stop_signal ?ch = (dropped, stopping ?ch, True)"
    using stop_signal_running [OF assms(4)] by (simp add: stopping_def dropped_def)
  from tcp_step.stop [OF this] have 1: "tcp_step s ?s1" .
  have "sensor_tcp_channel_start True (Some (sy_chan ?s1)) = (SAVVY_OK, Some ch2, True)"
    using assms(4) by (simp add: sensor_tcp_channel_start_def savvy_lifecycle_start_def stopping_def ch2_def Let_def)
  from tcp_step.start [OF this, of j] assms(2) have 2: "tcp_step ?s1 ?s2" by simp
  have "savvy_queue_pop (tc_queue (sy_chan ?s2)) = Some (SAVVY_ERR_CLOSED, None, tc_queue ch2)"
    using cancelled_pop [of "tc_queue ?ch"] by (simp add: ch2_def stopping_def)
  moreover have "worker_exit (sy_chan ?s2) = (ch3, [Tcp_Close (sockfd ?ch)])"
    using assms(3) by (simp add: worker_exit_def ch2_def ch3_def stopping_def)
  ultimately have 3: "tcp_step ?s2 ?s3"
    using tcp_step.leave [of ?s2 j SAVVY_ERR_CLOSED "tc_queue ch2" ch3 "[Tcp_Close (sockfd ?ch)]"] by simp
  have "tcp_reach s ?s3" by (rule reach_step [OF reach_step [OF reach_step [OF reach_refl 1] 2] 3])
  moreover have "i \<noteq> j" using assms(1,2) by auto
  ultimately show ?thesis
    using assms(1,4) by (intro exI [of _ ?s3]) (simp add: ch3_def ch2_def)
qed

end
