(* ===== verification/Stream_Session.thy ===== *)
theory Stream_Session
  imports Tcp_System Result_Policy Wav_Encoder Bzip_Codec
begin

text \<open>
  \<^verbatim>\<open>src/features/stream/session.c\<close>: one logical channel to the streaming server (frames or voice). A
  session encodes each request into its scratch buffer, hands the packet to its TCP channel with
  one of four completion handlers, and a handler feeds the result policy. A handler with its
  pending-send record is a value of \<open>session_callback\<close>; the caller's own callback (which may be
  \<^verbatim>\<open>NULL\<close>) is a value of type \<open>'u\<close>. libbz2 is a parameter, the success of each allocation an argument.
  The role is one of the two enumerators.
\<close>

unbundle bit_operations_syntax

section \<open>Data\<close>

datatype sensor_stream_role = SENSOR_STREAM_ROLE_STREAM | SENSOR_STREAM_ROLE_VOICE

definition WIRE_START_STREAM :: u8 where "WIRE_START_STREAM = of_char (CHR ''S'')"
definition WIRE_START_VOICE :: u8 where "WIRE_START_VOICE = of_char (CHR ''V'')"
definition WIRE_START_RKNN_RESULT :: u8 where "WIRE_START_RKNN_RESULT = of_char (CHR ''T'')"
definition WIRE_CMD_PIRIN :: u8 where "WIRE_CMD_PIRIN = of_char (CHR ''I'')"
definition WIRE_CMD_STREAM :: u8 where "WIRE_CMD_STREAM = of_char (CHR ''S'')"
definition WIRE_CMD_STREAM_BZIP :: u8 where "WIRE_CMD_STREAM_BZIP = of_char (CHR ''Z'')"
definition WIRE_CMD_VOICE :: u8 where "WIRE_CMD_VOICE = of_char (CHR ''V'')"
definition WIRE_CMD_PIROUT :: u8 where "WIRE_CMD_PIROUT = of_char (CHR ''O'')"
definition WIRE_CMD_RESPONSE :: u8 where "WIRE_CMD_RESPONSE = of_char (CHR ''R'')"

definition SENSOR_BZIP_BOUND_DIVISOR :: nat where "SENSOR_BZIP_BOUND_DIVISOR = 100"
definition SENSOR_BZIP_BOUND_EXTRA :: nat where "SENSOR_BZIP_BOUND_EXTRA = 600"

record sensor_stream_config =
  cfg_server_ip :: "string option"
  cfg_server_port :: u16
  cfg_compress :: int
  cfg_danger_count_threshold :: u32
  cfg_device_serial :: "bytes option"
  cfg_max_payload_size :: nat

text \<open>The completion handlers, each with the caller's callback from \<^verbatim>\<open>pending_send_t\<close>.\<close>

datatype 'u session_callback =
    On_Pirin "'u option"
  | On_Data "'u option"
  | On_Pirout "'u option"
  | Relay_Noop

record 'u sensor_stream_session =
  ss_role :: sensor_stream_role
  ss_channel :: "'u session_callback sensor_tcp_channel"
  ss_policy :: sensor_result_policy
  ss_compress :: int
  ss_max_payload_size :: nat
  ss_device_serial :: bytes
  ss_encode_buf :: bytes
  ss_encode_buf_cap :: nat

definition session_start_byte :: "'u sensor_stream_session \<Rightarrow> u8" where
  "session_start_byte s = (if ss_role s = SENSOR_STREAM_ROLE_STREAM then WIRE_START_STREAM else WIRE_START_VOICE)"

section \<open>Sizes\<close>

definition calculate_encoded_packet_capacity :: "sensor_stream_role \<Rightarrow> int \<Rightarrow> nat \<Rightarrow> nat result" where
  "calculate_encoded_packet_capacity role compress max_payload =
     (if role = SENSOR_STREAM_ROLE_VOICE \<and> max_payload > SIZE_MAX - SENSOR_WAV_HEADER_LEN then Inl SAVVY_ERR_OVERFLOW
      else
        let body1 = (if role = SENSOR_STREAM_ROLE_VOICE then max_payload + SENSOR_WAV_HEADER_LEN else max_payload);
            growth = body1 div SENSOR_BZIP_BOUND_DIVISOR
        in if compress = 1 \<and> body1 > UINT_MAX then Inl SAVVY_ERR_OVERFLOW
           else if compress = 1 \<and> body1 > SIZE_MAX - growth then Inl SAVVY_ERR_OVERFLOW
           else if compress = 1 \<and> body1 + growth > SIZE_MAX - SENSOR_BZIP_BOUND_EXTRA then Inl SAVVY_ERR_OVERFLOW
           else
             let body2 = (if compress = 1 then body1 + growth + SENSOR_BZIP_BOUND_EXTRA else body1)
             in if body2 > UINT32_MAX then Inl SAVVY_ERR_OVERFLOW
                else if body2 > SIZE_MAX - SAVVY_PACKET_HEADER_LEN then Inl SAVVY_ERR_OVERFLOW
                else Inr (SAVVY_PACKET_HEADER_LEN + body2))"

section \<open>Completion handlers\<close>

text \<open>What the caller is told: its callback, \<^verbatim>\<open>ok\<close> and the response command.\<close>

definition report :: "'u option \<Rightarrow> bool \<Rightarrow> u8 \<Rightarrow> ('u \<times> bool \<times> u8) list" where
  "report on_sent ok command = (case on_sent of None \<Rightarrow> [] | Some u \<Rightarrow> [(u, ok, command)])"

definition result_command :: "sensor_tcp_result \<Rightarrow> u8" where
  "result_command r = (if res_status r = SENSOR_TCP_OK then res_command r else 0)"

definition on_pirin_complete ::
  "sensor_result_policy \<Rightarrow> sensor_tcp_result \<Rightarrow> 'u option \<Rightarrow> sensor_result_policy \<times> ('u \<times> bool \<times> u8) list" where
  "on_pirin_complete policy r on_sent =
     (let ok = (res_status r = SENSOR_TCP_OK \<and> res_command r = WIRE_CMD_PIRIN)
      in (if ok then the (sensor_result_policy_reset (Some policy)) else policy,
          report on_sent ok (result_command r)))"

text \<open>The body as the characters the cast to \<^verbatim>\<open>char\<close> yields.\<close>

definition body_chars :: "bytes \<Rightarrow> string" where
  "body_chars data = map (char_of \<circ> unat) data"

definition on_data_complete ::
  "bool \<Rightarrow> sensor_result_policy \<Rightarrow> sensor_tcp_result \<Rightarrow> 'u option
     \<Rightarrow> sensor_result_policy \<times> char list \<times> ('u \<times> bool \<times> u8) list" where
  "on_data_complete malloc_ok policy r on_sent =
     (let ok = (res_status r = SENSOR_TCP_OK \<and> res_command r = WIRE_CMD_RESPONSE \<and> res_crc_valid r);
          (policy', alerts) =
            (if res_status r = SENSOR_TCP_OK \<and> res_command r = WIRE_CMD_RESPONSE
             then if res_crc_valid r
                  then sensor_result_policy_on_response (Some policy) (Some (body_chars (res_data r))) malloc_ok
                  else sensor_result_policy_on_response (Some policy) None malloc_ok
             else (Some policy, []))
      in (the policy', alerts, report on_sent ok (result_command r)))"

definition on_pirout_complete :: "sensor_tcp_result \<Rightarrow> 'u option \<Rightarrow> ('u \<times> bool \<times> u8) list" where
  "on_pirout_complete r on_sent = report on_sent (res_status r = SENSOR_TCP_SENT_NO_WAIT) 0"

definition relay_complete_noop :: "sensor_tcp_result \<Rightarrow> ('u \<times> bool \<times> u8) list" where
  "relay_complete_noop r = []"

text \<open>The call through the function pointer.\<close>

definition session_complete ::
  "bool \<Rightarrow> sensor_result_policy \<Rightarrow> 'u session_callback \<Rightarrow> sensor_tcp_result
     \<Rightarrow> sensor_result_policy \<times> char list \<times> ('u \<times> bool \<times> u8) list" where
  "session_complete malloc_ok policy cb r =
     (case cb of
        On_Pirin u \<Rightarrow> (case on_pirin_complete policy r u of (p, rep) \<Rightarrow> (p, [], rep))
      | On_Data u \<Rightarrow> on_data_complete malloc_ok policy r u
      | On_Pirout u \<Rightarrow> (policy, [], on_pirout_complete r u)
      | Relay_Noop \<Rightarrow> (policy, [], relay_complete_noop r))"

section \<open>Sending\<close>

text \<open>\<^verbatim>\<open>savvy_packet_encode\<close> into the scratch buffer: the packet's length, or the failure.\<close>

definition session_encode ::
  "'u sensor_stream_session \<Rightarrow> u8 \<Rightarrow> u8 \<Rightarrow> u8 \<Rightarrow> u8 \<Rightarrow> bytes option \<Rightarrow> nat
     \<Rightarrow> savvy_status \<times> 'u sensor_stream_session \<times> nat" where
  "session_encode s wire_start cmd device config data len =
     (case savvy_packet_encode wire_start cmd device config (Some (ss_device_serial s)) (length (ss_device_serial s)) data len
             (Some (ss_encode_buf s)) (ss_encode_buf_cap s) False of
        (st, buf, written) \<Rightarrow> (st, s\<lparr>ss_encode_buf := the buf\<rparr>, case written of None \<Rightarrow> 0 | Some n \<Rightarrow> n))"

text \<open>The tail the three waiting senders share: the pending-send record, then the channel.\<close>

definition session_submit ::
  "bool \<Rightarrow> bool \<Rightarrow> 'u sensor_stream_session \<Rightarrow> nat \<Rightarrow> 'u session_callback \<Rightarrow> bool
     \<Rightarrow> savvy_status \<times> 'u sensor_stream_session" where
  "session_submit pend_ok copy_ok s written cb final =
     (if \<not> pend_ok then (SAVVY_ERR_OUT_OF_MEMORY, s)
      else
        let (st, ch) =
              (if final
               then sensor_tcp_channel_submit_final copy_ok (Some (ss_channel s)) (Some (ss_encode_buf s)) written (Some cb)
               else sensor_tcp_channel_submit copy_ok (Some (ss_channel s)) (Some (ss_encode_buf s)) written
                      SENSOR_TCP_RESPONSE_TIMEOUT_MS (Some cb))
        in (st, s\<lparr>ss_channel := the ch\<rparr>))"

definition sensor_stream_session_send_pirin ::
  "bool \<Rightarrow> bool \<Rightarrow> 'u sensor_stream_session option \<Rightarrow> 'u option \<Rightarrow> savvy_status \<times> 'u sensor_stream_session option" where
  "sensor_stream_session_send_pirin pend_ok copy_ok session on_sent =
     (case session of
        None \<Rightarrow> (SAVVY_ERR_INVALID_ARGUMENT, None)
      | Some s \<Rightarrow>
          (case session_encode s (session_start_byte s) WIRE_CMD_PIRIN 0 0 None 0 of
             (st, s1, written) \<Rightarrow>
               if st \<noteq> SAVVY_OK then (st, Some s1)
               else apsnd Some (session_submit pend_ok copy_ok s1 written (On_Pirin on_sent) False)))"

definition sensor_stream_session_send_pirout ::
  "bool \<Rightarrow> bool \<Rightarrow> 'u sensor_stream_session option \<Rightarrow> 'u option \<Rightarrow> savvy_status \<times> 'u sensor_stream_session option" where
  "sensor_stream_session_send_pirout pend_ok copy_ok session on_sent =
     (case session of
        None \<Rightarrow> (SAVVY_ERR_INVALID_ARGUMENT, None)
      | Some s \<Rightarrow>
          (case session_encode s (session_start_byte s) WIRE_CMD_PIROUT 0 0 None 0 of
             (st, s1, written) \<Rightarrow>
               if st \<noteq> SAVVY_OK then (st, Some s1)
               else apsnd Some (session_submit pend_ok copy_ok s1 written (On_Pirout on_sent) True)))"

text \<open>libbz2 and the allocations of one \<^verbatim>\<open>send_data\<close>.\<close>

record 's data_env =
  de_compress :: "'s bz_compress"
  de_init :: "bz_code \<times> 's"
  de_realloc_ok :: "nat \<Rightarrow> bool"
  de_bz_malloc_ok :: bool
  de_wav_malloc_ok :: bool
  de_pend_ok :: bool
  de_copy_ok :: bool

text \<open>\<open>None\<close>: the compressor does not return.\<close>

definition sensor_stream_session_send_data ::
  "'s data_env \<Rightarrow> 'u sensor_stream_session option \<Rightarrow> bytes option \<Rightarrow> nat \<Rightarrow> 16 word \<Rightarrow> 'u option
     \<Rightarrow> (savvy_status \<times> 'u sensor_stream_session option) option" where
  "sensor_stream_session_send_data env session payload payload_len mic_value on_sent =
     (case session of
        None \<Rightarrow> Some (SAVVY_ERR_INVALID_ARGUMENT, None)
      | Some s \<Rightarrow>
          if payload = None \<and> payload_len > 0 then Some (SAVVY_ERR_INVALID_ARGUMENT, session)
          else if payload_len > ss_max_payload_size s then Some (SAVVY_ERR_OVERFLOW, session)
          else
            let voice = (ss_role s = SENSOR_STREAM_ROLE_VOICE);
                device = (if voice then ucast (drop_bit 8 mic_value) else 0);
                config = (if voice then ucast (mic_value AND 0xFF) else 0);
                wrapped = (if voice then map_sum id Some (sensor_wav_wrap payload payload_len False (de_wav_malloc_ok env))
                           else Inr payload)
            in case wrapped of
                 Inl st \<Rightarrow> Some (st, session)
               | Inr body \<Rightarrow>
                   let body_len = (if voice then length (the body) else payload_len);
                       packed = (if ss_compress s = 1
                                 then map_option (map_sum id Some)
                                        (sensor_bzip_compress (de_compress env) (de_init env) (de_realloc_ok env) body body_len False
                                           (de_bz_malloc_ok env))
                                 else Some (Inr body));
                       cmd = (if ss_compress s = 1 then WIRE_CMD_STREAM_BZIP
                              else if ss_role s = SENSOR_STREAM_ROLE_STREAM then WIRE_CMD_STREAM else WIRE_CMD_VOICE)
                   in case packed of
                        None \<Rightarrow> None
                      | Some (Inl st) \<Rightarrow> Some (st, session)
                      | Some (Inr final_body) \<Rightarrow>
                          let final_len = (if ss_compress s = 1 then length (the final_body) else body_len)
                          in (case session_encode s (session_start_byte s) cmd device config final_body final_len of
                                (st, s1, written) \<Rightarrow>
                                  if st \<noteq> SAVVY_OK then Some (st, Some s1)
                                  else Some (apsnd Some (session_submit (de_pend_ok env) (de_copy_ok env) s1 written
                                               (On_Data on_sent) False))))"

definition sensor_stream_session_relay_rknn_result ::
  "bool \<Rightarrow> 'u sensor_stream_session option \<Rightarrow> bytes option \<Rightarrow> nat \<Rightarrow> savvy_status \<times> 'u sensor_stream_session option" where
  "sensor_stream_session_relay_rknn_result copy_ok session payload payload_len =
     (case session of
        None \<Rightarrow> (SAVVY_ERR_INVALID_ARGUMENT, None)
      | Some s \<Rightarrow>
          if ss_role s \<noteq> SENSOR_STREAM_ROLE_STREAM then (SAVVY_ERR_INVALID_ARGUMENT, session)
          else if payload_len > ss_max_payload_size s then (SAVVY_ERR_OVERFLOW, session)
          else case session_encode s WIRE_START_RKNN_RESULT WIRE_CMD_STREAM 0 0 payload payload_len of
            (st, s1, written) \<Rightarrow>
              if st \<noteq> SAVVY_OK then (st, Some s1)
              else case sensor_tcp_channel_try_relay copy_ok (Some (ss_channel s1)) (Some (ss_encode_buf s1)) written
                          (Some Relay_Noop) of
                (rst, ch) \<Rightarrow> (rst, Some (s1\<lparr>ss_channel := the ch\<rparr>)))"

section \<open>Creation and the operations passed on to the channel\<close>

text \<open>The allocations of \<^verbatim>\<open>create\<close>, in the order they happen.\<close>

record 'u create_env =
  ce_calloc_ok :: bool
  ce_encode_mem :: "bytes option"
  ce_ch_calloc_ok :: bool
  ce_ch_dup_ok :: bool
  ce_ch_parse_mem :: "bytes option"
  ce_lc_ok :: bool
  ce_queue_mem :: "'u session_callback sensor_tcp_queue_item list option"
  ce_mutex_ok :: bool
  ce_not_empty_ok :: bool
  ce_not_full_ok :: bool
  ce_policy_ok :: bool

definition sensor_stream_session_create ::
  "'u create_env \<Rightarrow> bool \<Rightarrow> sensor_stream_role \<Rightarrow> sensor_stream_config option \<Rightarrow> bool
     \<Rightarrow> savvy_status \<times> 'u sensor_stream_session option" where
  "sensor_stream_session_create env out_null role config on_alert =
     (if out_null then (SAVVY_ERR_INVALID_ARGUMENT, None)
      else case config of
        None \<Rightarrow> (SAVVY_ERR_INVALID_ARGUMENT, None)
      | Some cfg \<Rightarrow>
          if cfg_server_ip cfg = None \<or> cfg_device_serial cfg = None then (SAVVY_ERR_INVALID_ARGUMENT, None)
          else case calculate_encoded_packet_capacity role (cfg_compress cfg) (cfg_max_payload_size cfg) of
            Inl st \<Rightarrow> (st, None)
          | Inr cap \<Rightarrow>
              if \<not> ce_calloc_ok env then (SAVVY_ERR_OUT_OF_MEMORY, None)
              else case ce_encode_mem env of
                None \<Rightarrow> (SAVVY_ERR_OUT_OF_MEMORY, None)
              | Some buf \<Rightarrow>
                  (case sensor_tcp_channel_create False (cfg_server_ip cfg) (cfg_server_port cfg) cap 4 (ce_ch_calloc_ok env)
                          (ce_ch_dup_ok env) (ce_ch_parse_mem env) (ce_lc_ok env) (ce_queue_mem env) (ce_mutex_ok env)
                          (ce_not_empty_ok env) (ce_not_full_ok env) of
                     (st, None) \<Rightarrow> (st, None)
                   | (_, Some ch) \<Rightarrow>
                       (case sensor_result_policy_create False
                               (if role = SENSOR_STREAM_ROLE_STREAM then SENSOR_RESULT_ROLE_STREAM else SENSOR_RESULT_ROLE_VOICE)
                               (cfg_danger_count_threshold cfg) on_alert (ce_policy_ok env) of
                          Inl st \<Rightarrow> (st, None)
                        | Inr policy \<Rightarrow>
                            (SAVVY_OK, Some \<lparr>ss_role = role, ss_channel = ch, ss_policy = policy, ss_compress = cfg_compress cfg,
                               ss_max_payload_size = cfg_max_payload_size cfg,
                               ss_device_serial = mem_read (the (cfg_device_serial cfg)) 0 SAVVY_PACKET_SERIAL_LEN,
                               ss_encode_buf = buf, ss_encode_buf_cap = cap\<rparr>))))"

definition sensor_stream_session_start ::
  "bool \<Rightarrow> 'u sensor_stream_session option \<Rightarrow> savvy_status \<times> 'u sensor_stream_session option \<times> bool" where
  "sensor_stream_session_start thread_ok session =
     (case session of
        None \<Rightarrow> (SAVVY_ERR_INVALID_ARGUMENT, None, False)
      | Some s \<Rightarrow> (case sensor_tcp_channel_start thread_ok (Some (ss_channel s)) of
                    (st, ch, created) \<Rightarrow> (st, Some (s\<lparr>ss_channel := the ch\<rparr>), created)))"

definition sensor_stream_session_is_connected :: "'u sensor_stream_session option \<Rightarrow> bool" where
  "sensor_stream_session_is_connected session =
     (case session of None \<Rightarrow> False | Some s \<Rightarrow> sensor_tcp_channel_is_connected (Some (ss_channel s)))"

definition sensor_stream_session_stop ::
  "(tcp_env \<times> 'u session_callback sensor_tcp_queue_item) option \<Rightarrow> 'u sensor_stream_session option
     \<Rightarrow> ('u session_callback sensor_tcp_queue_item list \<times> 'u sensor_stream_session option \<times> 'u session_callback tcp_event list) option" where
  "sensor_stream_session_stop busy session =
     (case session of
        None \<Rightarrow> Some ([], None, [])
      | Some s \<Rightarrow> map_option (\<lambda>(dropped, ch, evs). (dropped, Some (s\<lparr>ss_channel := the ch\<rparr>), evs))
                    (sensor_tcp_channel_stop busy (Some (ss_channel s))))"

definition sensor_stream_session_destroy ::
  "(tcp_env \<times> 'u session_callback sensor_tcp_queue_item) option \<Rightarrow> 'u sensor_stream_session option
     \<Rightarrow> ('u session_callback sensor_tcp_queue_item list \<times> 'u session_callback tcp_event list) option" where
  "sensor_stream_session_destroy busy session =
     (case session of None \<Rightarrow> Some ([], []) | Some s \<Rightarrow> sensor_tcp_channel_destroy busy (Some (ss_channel s)))"

section \<open>The scratch buffer is large enough\<close>

definition session_ok :: "'u sensor_stream_session \<Rightarrow> bool" where
  "session_ok s \<longleftrightarrow>
     calculate_encoded_packet_capacity (ss_role s) (ss_compress s) (ss_max_payload_size s) = Inr (ss_encode_buf_cap s)
     \<and> length (ss_encode_buf s) = ss_encode_buf_cap s \<and> length (ss_device_serial s) = SAVVY_PACKET_SERIAL_LEN
     \<and> max_packet_size (ss_channel s) = ss_encode_buf_cap s"

text \<open>The channel takes another request.\<close>

definition accepting :: "'c sensor_tcp_channel \<Rightarrow> bool" where
  "accepting ch \<longleftrightarrow> lc_state (tc_lifecycle ch) = SAVVY_LIFECYCLE_RUNNING \<and> queue_inv (tc_queue ch)
     \<and> \<not> savvy_queue.closed (tc_queue ch) \<and> q_count (tc_queue ch) < capacity (tc_queue ch)"

definition wav_extra :: "sensor_stream_role \<Rightarrow> nat" where
  "wav_extra role = (if role = SENSOR_STREAM_ROLE_VOICE then SENSOR_WAV_HEADER_LEN else 0)"

lemma capacity_bound:
  assumes "calculate_encoded_packet_capacity role compress m = Inr cap"
  shows "cap \<le> SAVVY_PACKET_HEADER_LEN + UINT32_MAX"
    and "cap = SAVVY_PACKET_HEADER_LEN + (m + wav_extra role
           + (if compress = 1 then (m + wav_extra role) div 100 + 600 else 0))"
  using assms
  by (auto simp: calculate_encoded_packet_capacity_def wav_extra_def SENSOR_BZIP_BOUND_DIVISOR_def
      SENSOR_BZIP_BOUND_EXTRA_def Let_def split: if_splits)

lemma session_create_ok:
  assumes "sensor_stream_session_create env False role (Some cfg) on_alert = (st, Some s)"
    and "ce_encode_mem env = Some buf" and "ce_ch_parse_mem env = Some pbuf"
    and "calculate_encoded_packet_capacity role (cfg_compress cfg) (cfg_max_payload_size cfg) = Inr (length buf)"
    and "cfg_device_serial cfg = Some ser" and "SAVVY_PACKET_SERIAL_LEN \<le> length ser"
  shows "session_ok s"
  using assms
  by (auto simp: sensor_stream_session_create_def session_ok_def mem_read_def sensor_tcp_channel_create_def
      split: if_splits option.splits sum.splits prod.splits)

section \<open>A request reaches the queue\<close>

text \<open>Encoding and submitting, for a body that fits.\<close>

lemma session_encode_fits:
  assumes "session_ok s" and "SAVVY_PACKET_HEADER_LEN + length data \<le> ss_encode_buf_cap s"
  shows "session_encode s b c d cf (Some data) (length data)
     = (SAVVY_OK, s\<lparr>ss_encode_buf := packet_image b c d cf (ss_device_serial s) data
          @ drop (SAVVY_PACKET_HEADER_LEN + length data) (ss_encode_buf s)\<rparr>, SAVVY_PACKET_HEADER_LEN + length data)"
proof -
  have "ss_encode_buf_cap s \<le> SAVVY_PACKET_HEADER_LEN + UINT32_MAX"
    using assms(1) capacity_bound(1) by (auto simp: session_ok_def)
  with assms have "length (ss_device_serial s) = SAVVY_PACKET_SERIAL_LEN" "length data \<le> UINT32_MAX"
      "SAVVY_PACKET_HEADER_LEN + length data \<le> length (ss_encode_buf s)" "ss_encode_buf_cap s = length (ss_encode_buf s)"
    by (auto simp: session_ok_def)
  with savvy_packet_encode_ok [OF this(1-3), of b c d cf] show ?thesis
    unfolding session_encode_def by simp
qed

lemma encode_nothing:
  "savvy_packet_encode b c d cf ser n None 0 out cap w = savvy_packet_encode b c d cf ser n (Some []) (length ([] :: bytes)) out cap w"
  by (simp add: savvy_packet_encode_def mem_read_def)

lemma session_encode_nothing:
  "session_encode s b c d cf None 0 = session_encode s b c d cf (Some []) (length ([] :: bytes))"
  by (simp add: session_encode_def encode_nothing)

lemma session_submit_accepted:
  assumes "accepting (ss_channel s)" and "0 < n" and "n \<le> max_packet_size (ss_channel s)"
  shows "\<exists>q. session_submit True True s n cb final = (SAVVY_OK, s\<lparr>ss_channel := (ss_channel s)\<lparr>tc_queue := q\<rparr>\<rparr>)
     \<and> queue_inv q \<and> queue_items q = queue_items (tc_queue (ss_channel s)) @
         [\<lparr>it_packet = mem_read (ss_encode_buf s) 0 n, it_packet_len = n,
           it_response_timeout_ms = (if final then 0 else SENSOR_TCP_RESPONSE_TIMEOUT_MS),
           it_kind = (if final then SENSOR_TCP_ITEM_FINAL else SENSOR_TCP_ITEM_NORMAL), it_on_complete = cb\<rparr>]"
proof -
  have t: "SENSOR_TCP_RESPONSE_TIMEOUT_MS \<noteq> 0" by (simp add: SENSOR_TCP_RESPONSE_TIMEOUT_MS_def)
  show ?thesis
    using assms t queue_store_props [of "tc_queue (ss_channel s)"]
    by (auto simp: session_submit_def sensor_tcp_channel_submit_def sensor_tcp_channel_submit_final_def
        enqueue_common_def accepting_def savvy_lifecycle_get_def savvy_queue_try_push_def Let_def)
qed

text \<open>What the peer's parser makes of a packet image.\<close>

lemma frame_packet_image:
  assumes "length ser = SAVVY_PACKET_SERIAL_LEN" and "length data \<le> UINT32_MAX"
  shows "frame (packet_image b c d cf ser data)"
    and "unframe (packet_image b c d cf ser data) = (\<lparr>hdr_start = b, hdr_command = c, hdr_device = d, hdr_config = cf,
           hdr_length = of_nat (length data), hdr_serial = ser, hdr_crc32 = savvy_crc32 data\<rparr>, data)"
proof -
  let ?img = "packet_image b c d cf ser data"
  have h: "decode_header ?img = \<lparr>hdr_start = b, hdr_command = c, hdr_device = d, hdr_config = cf,
           hdr_length = of_nat (length data), hdr_serial = ser, hdr_crc32 = savvy_crc32 data\<rparr>"
    using decode_header_image [OF assms(1), of b c d cf data "[]"] by simp
  have "be32_load ?img 4 = hdr_length (decode_header ?img)" by (simp add: decode_header_def)
  then have "be32_load ?img 4 = of_nat (length data)" by (simp add: h)
  then show "frame ?img"
    using length_packet_image [OF assms(1)] unat_of_nat_u32 [OF assms(2)] by (simp add: frame_def packet_size_def)
  have "drop SAVVY_PACKET_HEADER_LEN ?img = data"
    using assms(1) by (simp add: packet_image_def packet_lens)
  then show "unframe ?img = (\<lparr>hdr_start = b, hdr_command = c, hdr_device = d, hdr_config = cf,
           hdr_length = of_nat (length data), hdr_serial = ser, hdr_crc32 = savvy_crc32 data\<rparr>, data)"
    by (simp add: unframe_def h)
qed

text \<open>The request a session has put at the end of its channel's queue.\<close>

definition posted ::
  "'u sensor_stream_session \<Rightarrow> 'u sensor_stream_session \<Rightarrow> u8 \<Rightarrow> u8 \<Rightarrow> u8 \<Rightarrow> u8 \<Rightarrow> bytes \<Rightarrow> sensor_tcp_item_kind
     \<Rightarrow> 'u session_callback \<Rightarrow> bool" where
  "posted s s' b c d cf data kind cb \<longleftrightarrow> session_ok s' \<and> queue_inv (tc_queue (ss_channel s')) \<and>
     (\<exists>item. queue_items (tc_queue (ss_channel s')) = queue_items (tc_queue (ss_channel s)) @ [item]
       \<and> it_packet_len item = length (it_packet item) \<and> it_kind item = kind \<and> it_on_complete item = cb
       \<and> frame (it_packet item)
       \<and> unframe (it_packet item) = (\<lparr>hdr_start = b, hdr_command = c, hdr_device = d, hdr_config = cf,
           hdr_length = of_nat (length data), hdr_serial = ss_device_serial s, hdr_crc32 = savvy_crc32 data\<rparr>, data))"

lemma session_posts:
  assumes "session_ok s" and "accepting (ss_channel s)" and "SAVVY_PACKET_HEADER_LEN + length data \<le> ss_encode_buf_cap s"
  shows "\<exists>s1 n s'. session_encode s b c d cf (Some data) (length data) = (SAVVY_OK, s1, n)
     \<and> session_submit True True s1 n cb final = (SAVVY_OK, s')
     \<and> posted s s' b c d cf data (if final then SENSOR_TCP_ITEM_FINAL else SENSOR_TCP_ITEM_NORMAL) cb"
proof -
  let ?img = "packet_image b c d cf (ss_device_serial s) data"
  let ?n = "SAVVY_PACKET_HEADER_LEN + length data"
  let ?s1 = "s\<lparr>ss_encode_buf := ?img @ drop ?n (ss_encode_buf s)\<rparr>"
  have ser: "length (ss_device_serial s) = SAVVY_PACKET_SERIAL_LEN" and ml: "max_packet_size (ss_channel s) = ss_encode_buf_cap s"
    and bl: "length (ss_encode_buf s) = ss_encode_buf_cap s" using assms(1) by (simp_all add: session_ok_def)
  have n: "length data \<le> UINT32_MAX"
    using assms(1,3) capacity_bound(1) [of "ss_role s" "ss_compress s"] by (fastforce simp: session_ok_def)
  have img: "length ?img = ?n" using ser by (rule length_packet_image)
  then have rd: "mem_read (?img @ drop ?n (ss_encode_buf s)) 0 ?n = ?img" by (simp add: mem_read_def)
  have pos: "0 < ?n" by (simp add: packet_lens)
  from session_submit_accepted [of ?s1 ?n cb final] assms(2,3) ml pos
  obtain q where q: "session_submit True True ?s1 ?n cb final = (SAVVY_OK, ?s1\<lparr>ss_channel := (ss_channel s)\<lparr>tc_queue := q\<rparr>\<rparr>)"
      "queue_inv q" "queue_items q = queue_items (tc_queue (ss_channel s)) @
         [\<lparr>it_packet = mem_read (?img @ drop ?n (ss_encode_buf s)) 0 ?n, it_packet_len = ?n,
           it_response_timeout_ms = (if final then 0 else SENSOR_TCP_RESPONSE_TIMEOUT_MS),
           it_kind = (if final then SENSOR_TCP_ITEM_FINAL else SENSOR_TCP_ITEM_NORMAL), it_on_complete = cb\<rparr>]"
    by auto
  have "session_ok (?s1\<lparr>ss_channel := (ss_channel s)\<lparr>tc_queue := q\<rparr>\<rparr>)"
    using assms(1,3) img bl by (simp add: session_ok_def)
  then have "posted s (?s1\<lparr>ss_channel := (ss_channel s)\<lparr>tc_queue := q\<rparr>\<rparr>) b c d cf data
      (if final then SENSOR_TCP_ITEM_FINAL else SENSOR_TCP_ITEM_NORMAL) cb"
    using q(2,3) rd img frame_packet_image [OF ser n] by (simp add: posted_def)
  with session_encode_fits [OF assms(1,3)] q(1) show ?thesis by blast
qed

section \<open>Sending data\<close>

lemma wav_wrap_fits:
  assumes "length payload + SENSOR_WAV_HEADER_LEN \<le> UINT32_MAX"
  shows "\<exists>file. sensor_wav_wrap (Some payload) (length payload) False True = Inr file
     \<and> length file = length payload + SENSOR_WAV_HEADER_LEN"
  using assms by (simp add: sensor_wav_wrap_def limits SENSOR_WAV_HEADER_LEN_def)

lemma bzip_compress_fits:
  assumes "bz_encodes lib encodes" and "length b + length (encodes strm b) < SENSOR_BZIP_MAX_LOOP_ITERATIONS"
  shows "sensor_bzip_compress lib (BZ_OK, strm) (\<lambda>_. True) (Some b) (length b) False True = Some (Inr (encodes strm b))"
proof -
  let ?cap = "length b + length b div 100 + 600"
  have len: "length b \<le> 10000000" using assms(2) by (simp add: SENSOR_BZIP_MAX_LOOP_ITERATIONS_def)
  have "length ([] :: bytes) \<le> ?cap" "?cap \<le> SIZE_MAX"
    "length ([] :: bytes) + SENSOR_BZIP_MAX_LOOP_ITERATIONS * UINT_MAX < SIZE_MAX"
    using len by (simp_all add: limits SENSOR_BZIP_MAX_LOOP_ITERATIONS_def)
  from compress_loop_exact [OF assms(1) this, of "\<lambda>_. True" strm b] assms(2)
  have "compress_loop lib (\<lambda>_. True) SENSOR_BZIP_MAX_LOOP_ITERATIONS strm b [] ?cap = Some (SAVVY_OK, encodes strm b)"
    by auto
  moreover have "\<not> length b > SENSOR_BZIP_MAX_INPUT" using len by (simp add: SENSOR_BZIP_MAX_INPUT_def limits)
  ultimately show ?thesis by (simp add: sensor_bzip_compress_def loop_result_def Let_def)
qed

definition good_env :: "'s bz_compress \<Rightarrow> 's \<Rightarrow> 's data_env" where
  "good_env lib strm = \<lparr>de_compress = lib, de_init = (BZ_OK, strm), de_realloc_ok = (\<lambda>_. True), de_bz_malloc_ok = True,
     de_wav_malloc_ok = True, de_pend_ok = True, de_copy_ok = True\<rparr>"

lemma good_env_fields [simp]:
  "de_compress (good_env lib strm) = lib" "de_init (good_env lib strm) = (BZ_OK, strm)"
  "de_realloc_ok (good_env lib strm) = (\<lambda>_. True)" "de_bz_malloc_ok (good_env lib strm)"
  "de_wav_malloc_ok (good_env lib strm)" "de_pend_ok (good_env lib strm)" "de_copy_ok (good_env lib strm)"
  by (simp_all add: good_env_def)

text \<open>The body a payload becomes, and the command byte it travels under.\<close>

definition wire_body :: "('s \<Rightarrow> bytes \<Rightarrow> bytes) \<Rightarrow> 's \<Rightarrow> 'u sensor_stream_session \<Rightarrow> bytes \<Rightarrow> bytes" where
  "wire_body encodes strm s payload =
     (let b = (if ss_role s = SENSOR_STREAM_ROLE_VOICE
               then projr (sensor_wav_wrap (Some payload) (length payload) False True) else payload)
      in if ss_compress s = 1 then encodes strm b else b)"

definition wire_command :: "'u sensor_stream_session \<Rightarrow> u8" where
  "wire_command s = (if ss_compress s = 1 then WIRE_CMD_STREAM_BZIP
     else if ss_role s = SENSOR_STREAM_ROLE_STREAM then WIRE_CMD_STREAM else WIRE_CMD_VOICE)"

lemma mic_bytes:
  fixes m :: "16 word"
  shows "unat (ucast (drop_bit 8 m) :: u8) * 256 + unat (ucast (m AND 0xFF) :: u8) = unat m"
proof -
  have lo: "unat (ucast (m AND 0xFF) :: u8) = unat m mod 256"
    using unat_low_byte [of 0 m] by simp
  have "unat m < 65536" using unsigned_less [of m] by simp
  then have hi: "unat (ucast (drop_bit 8 m) :: u8) = unat m div 256"
    unfolding unsigned_ucast_eq unsigned_drop_bit_eq by (simp add: take_bit_eq_mod drop_bit_eq_div)
  show ?thesis unfolding lo hi by simp
qed

lemma send_data_body:
  assumes "length payload \<le> ss_max_payload_size s"
    and "ss_role s = SENSOR_STREAM_ROLE_VOICE \<Longrightarrow> sensor_wav_wrap (Some payload) (length payload) False True = Inr b"
    and "ss_role s \<noteq> SENSOR_STREAM_ROLE_VOICE \<Longrightarrow> b = payload"
    and "ss_compress s = 1 \<Longrightarrow>
      sensor_bzip_compress lib (BZ_OK, strm) (\<lambda>_. True) (Some b) (length b) False True = Some (Inr body)"
    and "ss_compress s \<noteq> 1 \<Longrightarrow> body = b"
  shows "sensor_stream_session_send_data (good_env lib strm) (Some s) (Some payload) (length payload) mic on_sent =
     (case session_encode s (session_start_byte s) (wire_command s)
             (if ss_role s = SENSOR_STREAM_ROLE_VOICE then ucast (drop_bit 8 mic) else 0)
             (if ss_role s = SENSOR_STREAM_ROLE_VOICE then ucast (mic AND 0xFF) else 0) (Some body) (length body) of
        (st, s1, n) \<Rightarrow> if st \<noteq> SAVVY_OK then Some (st, Some s1)
          else Some (apsnd Some (session_submit True True s1 n (On_Data on_sent) False)))"
  using assms(1) assms(2-5)
  by (cases "ss_role s"; cases "ss_compress s = 1")
    (simp_all add: sensor_stream_session_send_data_def wire_command_def Let_def split: prod.split)

text \<open>
  C11: data reaches the queue whole. Take a session whose channel is running with room in its queue,
  a libbz2 that keeps its contract and its documented bound of \<^verbatim>\<open>n + n/100 + 600\<close> bytes, allocations that
  succeed, and a scratch buffer of at most half of \<^verbatim>\<open>SENSOR_BZIP_MAX_LOOP_ITERATIONS\<close> bytes (5 MB), so that
  the loop limit of the compressor is not reached. Then every payload up to the configured
  maximum is accepted, whatever the role and the compression: the scratch buffer and the
  channel are always large enough for the WAV header and for the worst case the compressor
  documents. What is queued is one packet from which the peer's parser gets the
  session's start byte, the command of the format, the device serial, the checksum and exactly
  the payload (wrapped and compressed as configured); for voice the device and config bytes
  are the loudness. The request waits for its response with the data handler.
\<close>

theorem session_data_is_queued:
  assumes "session_ok s" and "accepting (ss_channel s)" and "length payload \<le> ss_max_payload_size s"
    and "bz_encodes lib encodes" and "\<forall>b. length (encodes strm b) \<le> length b + length b div 100 + 600"
    and "2 * ss_encode_buf_cap s \<le> SENSOR_BZIP_MAX_LOOP_ITERATIONS"
  shows "\<exists>s' d cf. sensor_stream_session_send_data (good_env lib strm) (Some s) (Some payload) (length payload) mic on_sent
         = Some (SAVVY_OK, Some s')
     \<and> posted s s' (session_start_byte s) (wire_command s) d cf (wire_body encodes strm s payload)
         SENSOR_TCP_ITEM_NORMAL (On_Data on_sent)
     \<and> unat d * 256 + unat cf = (if ss_role s = SENSOR_STREAM_ROLE_VOICE then unat mic else 0)"
proof -
  define voice where "voice \<longleftrightarrow> ss_role s = SENSOR_STREAM_ROLE_VOICE"
  have cap: "ss_encode_buf_cap s = SAVVY_PACKET_HEADER_LEN + (ss_max_payload_size s + wav_extra (ss_role s)
      + (if ss_compress s = 1 then (ss_max_payload_size s + wav_extra (ss_role s)) div 100 + 600 else 0))"
    using assms(1) capacity_bound(2) by (auto simp: session_ok_def)
  define b where "b = (if voice then projr (sensor_wav_wrap (Some payload) (length payload) False True) else payload)"
  have "length payload + SENSOR_WAV_HEADER_LEN \<le> UINT32_MAX" if voice
    using that cap assms(3,6) by (simp add: wav_extra_def voice_def SENSOR_BZIP_MAX_LOOP_ITERATIONS_def limits)
  then have b: "voice \<Longrightarrow> sensor_wav_wrap (Some payload) (length payload) False True = Inr b"
      "length b = length payload + wav_extra (ss_role s)"
    using wav_wrap_fits [of payload] by (auto simp: b_def wav_extra_def voice_def)
  have body: "wire_body encodes strm s payload = (if ss_compress s = 1 then encodes strm b else b)"
    by (simp add: wire_body_def b_def voice_def)
  have bl: "length b \<le> ss_max_payload_size s + wav_extra (ss_role s)" using b(2) assms(3) by simp
  moreover have "length b div 100 \<le> (ss_max_payload_size s + wav_extra (ss_role s)) div 100"
    using bl by (rule div_le_mono)
  ultimately have fits: "SAVVY_PACKET_HEADER_LEN + length (wire_body encodes strm s payload) \<le> ss_encode_buf_cap s"
    using assms(5) [rule_format, of b] by (simp add: body cap)
  have bz: "sensor_bzip_compress lib (BZ_OK, strm) (\<lambda>_. True) (Some b) (length b) False True = Some (Inr (encodes strm b))"
    if "ss_compress s = 1"
    using that fits bl cap assms(6) by (intro bzip_compress_fits [OF assms(4)]) (simp add: body packet_lens)
  let ?d = "if voice then ucast (drop_bit 8 mic) else 0" and ?cf = "if voice then ucast (mic AND 0xFF) else 0"
  obtain s1 n s' where e: "session_encode s (session_start_byte s) (wire_command s) ?d ?cf
        (Some (wire_body encodes strm s payload)) (length (wire_body encodes strm s payload)) = (SAVVY_OK, s1, n)"
      "session_submit True True s1 n (On_Data on_sent) False = (SAVVY_OK, s')"
      "posted s s' (session_start_byte s) (wire_command s) ?d ?cf (wire_body encodes strm s payload)
         SENSOR_TCP_ITEM_NORMAL (On_Data on_sent)"
    using session_posts [OF assms(1,2) fits, where final = False] by fastforce
  have "sensor_stream_session_send_data (good_env lib strm) (Some s) (Some payload) (length payload) mic on_sent
      = Some (SAVVY_OK, Some s')"
    using e(1,2) by (subst send_data_body [OF assms(3), of b _ _ "wire_body encodes strm s payload"])
      (use b(1) bz body in \<open>simp_all add: voice_def b_def split: if_splits\<close>)
  then show ?thesis
    using e(3) mic_bytes [of mic] by (intro exI [of _ s'] exI [of _ ?d] exI [of _ ?cf]) (simp add: voice_def)
qed

definition demo_session :: "nat sensor_stream_session" where
  "demo_session = \<lparr>ss_role = SENSOR_STREAM_ROLE_STREAM,
     ss_channel = \<lparr>tc_host = ''h'', tc_port = 8141, max_packet_size = 627,
       tc_lifecycle = \<lparr>lc_state = SAVVY_LIFECYCLE_RUNNING\<rparr>,
       tc_queue = \<lparr>storage = replicate 4 \<lparr>it_packet = [], it_packet_len = 0, it_response_timeout_ms = 0,
           it_kind = SENSOR_TCP_ITEM_NORMAL, it_on_complete = Relay_Noop\<rparr>,
         item_size = TCP_ITEM_SIZE, capacity = 4, q_count = 0, head = 0, closed = False, has_destroy_fn = True\<rparr>,
       sockfd = -1, tc_parser = \<lparr>sp_buf = replicate 627 0, buf_cap = 0, sp_head = 0, sp_tail = 0\<rparr>,
       connected = False, stop_requested = False\<rparr>,
     ss_policy = \<lparr>rp_role = SENSOR_RESULT_ROLE_STREAM, rp_danger_count_threshold = 3, rp_danger_count = 0, rp_on_alert = True\<rparr>,
     ss_compress = 1, ss_max_payload_size = 1, ss_device_serial = replicate 14 7, ss_encode_buf = replicate 627 0,
     ss_encode_buf_cap = 627\<rparr>"

lemma demo_session_ok: "session_ok demo_session" "accepting (ss_channel demo_session)"
  by (simp_all add: session_ok_def accepting_def demo_session_def calculate_encoded_packet_capacity_def packet_lens limits
      SENSOR_BZIP_BOUND_DIVISOR_def SENSOR_BZIP_BOUND_EXTRA_def queue_inv_def)

theorem session_data_is_queued_witness:
  "\<exists>s' d cf. sensor_stream_session_send_data (good_env stored_compress []) (Some demo_session) (Some [9]) 1 0 (Some 5)
         = Some (SAVVY_OK, Some s')
     \<and> posted demo_session s' (session_start_byte demo_session) (wire_command demo_session) d cf [9]
         SENSOR_TCP_ITEM_NORMAL (On_Data (Some 5))"
  using session_data_is_queued [OF demo_session_ok, of "[9]" stored_compress "\<lambda>strm inp. strm @ inp" "[]" 0 "Some 5"]
    stored_compress_ok
  by (auto simp: wire_body_def demo_session_def SENSOR_BZIP_MAX_LOOP_ITERATIONS_def)

text \<open>The two requests without a body, which announce a visitor and end the session.\<close>

lemma session_pirin_is_queued:
  assumes "session_ok s" and "accepting (ss_channel s)"
  shows "\<exists>s'. sensor_stream_session_send_pirin True True (Some s) on_sent = (SAVVY_OK, Some s')
     \<and> posted s s' (session_start_byte s) WIRE_CMD_PIRIN 0 0 [] SENSOR_TCP_ITEM_NORMAL (On_Pirin on_sent)"
    and "\<exists>s'. sensor_stream_session_send_pirout True True (Some s) on_sent = (SAVVY_OK, Some s')
     \<and> posted s s' (session_start_byte s) WIRE_CMD_PIROUT 0 0 [] SENSOR_TCP_ITEM_FINAL (On_Pirout on_sent)"
proof -
  have "SAVVY_PACKET_HEADER_LEN + length ([] :: bytes) \<le> ss_encode_buf_cap s"
    using assms(1) capacity_bound(2) by (fastforce simp: session_ok_def)
  note p = session_posts [OF assms this]
  from p [of "session_start_byte s" WIRE_CMD_PIRIN 0 0 "On_Pirin on_sent" False]
  show "\<exists>s'. sensor_stream_session_send_pirin True True (Some s) on_sent = (SAVVY_OK, Some s')
     \<and> posted s s' (session_start_byte s) WIRE_CMD_PIRIN 0 0 [] SENSOR_TCP_ITEM_NORMAL (On_Pirin on_sent)"
    by (auto simp: sensor_stream_session_send_pirin_def session_encode_nothing)
  from p [of "session_start_byte s" WIRE_CMD_PIROUT 0 0 "On_Pirout on_sent" True]
  show "\<exists>s'. sensor_stream_session_send_pirout True True (Some s) on_sent = (SAVVY_OK, Some s')
     \<and> posted s s' (session_start_byte s) WIRE_CMD_PIROUT 0 0 [] SENSOR_TCP_ITEM_FINAL (On_Pirout on_sent)"
    by (auto simp: sensor_stream_session_send_pirout_def session_encode_nothing)
qed

section \<open>What responses do\<close>

lemma response_policy_role:
  "\<exists>p' alerts. sensor_result_policy_on_response (Some p) body m = (Some p', alerts)"
  by (auto simp: sensor_result_policy_on_response_def Let_def split: option.splits sum.splits prod.splits savvy_status.splits)

text \<open>The packet \<open>w\<close> that comes next in the byte stream of the connection is what the callback is given.\<close>

definition answered_by ::
  "tcp_env \<Rightarrow> 'c sensor_tcp_channel \<Rightarrow> 'c sensor_tcp_queue_item \<Rightarrow> 'c sensor_tcp_channel \<Rightarrow> sensor_tcp_result \<Rightarrow> bytes \<Rightarrow> bool" where
  "answered_by env ch item ch' r w \<longleftrightarrow> frame w \<and> r = tcp_response (unframe w)
     \<and> (\<exists>k k'. response_turns env ch item k k' \<and> k \<le> k'
          \<and> unread ch @ received (te_turn env) (savvy_deadline_arm (te_response_at env) (it_response_timeout_ms item)) k k'
              = w @ unread ch')"

text \<open>The checksum in the header is that of the body; an empty body needs none.\<close>

definition crc_matches :: "bytes \<Rightarrow> bool" where
  "crc_matches w \<longleftrightarrow> length w = SAVVY_PACKET_HEADER_LEN \<or> be32_load w 22 = savvy_crc32 (drop SAVVY_PACKET_HEADER_LEN w)"

lemma answered_fields:
  assumes "answered_by env ch item ch' r w"
  shows "res_data r = drop SAVVY_PACKET_HEADER_LEN w" "res_command r = w ! 1" "res_crc_valid r \<longleftrightarrow> crc_matches w"
proof -
  have w: "frame w" "r = tcp_response (unframe w)" using assms by (simp_all add: answered_by_def)
  then show "res_data r = drop SAVVY_PACKET_HEADER_LEN w" "res_command r = w ! 1"
    by (simp_all add: tcp_response_def unframe_def decode_header_def)
  have "length (drop SAVVY_PACKET_HEADER_LEN w) = 0 \<longleftrightarrow> length w = SAVVY_PACKET_HEADER_LEN"
    using w(1) by (auto simp: frame_def)
  then show "res_crc_valid r \<longleftrightarrow> crc_matches w"
    by (simp add: w(2) tcp_response_def unframe_def decode_header_def crc_matches_def)
qed

lemma ok_is_answered:
  assumes "process_item env ch item = Some (ch', evs)" and "tcp_ok ch"
    and "completions evs = [(it_on_complete item, r)]" and "res_status r = SENSOR_TCP_OK"
  shows "\<exists>w. answered_by env ch item ch' r w"
  using process_item_response [OF assms(1,2), of "it_on_complete item" r] assms(3,4)
  by (fastforce simp: answered_by_def)

text \<open>
  C13: only the server moves the policy. When a data request has been handled, the counter changes
  or an alert is raised only if it was answered, the packet that comes next in the connection's byte
  stream is a response packet (command \<^verbatim>\<open>R\<close>) and the checksum in its header is that of its body; then
  the policy moves exactly as it decides from the body, and the caller is told success exactly in
  that case. When an announcement has been handled, the counter restarts exactly if the next packet
  echoes its command \<^verbatim>\<open>I\<close>, whatever checksum the packet carries, and no alert is raised. A final request
  and a relay never touch the policy.
\<close>

theorem session_policy_follows_server:
  assumes "process_item env ch item = Some (ch', evs)" and "tcp_ok ch"
    and "completions evs = [(it_on_complete item, r)]"
    and "session_complete malloc_ok policy (it_on_complete item) r = (policy', alerts, reports)"
  shows "(case it_on_complete item of
       On_Data u \<Rightarrow>
         (if res_status r = SENSOR_TCP_OK
          then \<exists>w. answered_by env ch item ch' r w
            \<and> (if w ! 1 = WIRE_CMD_RESPONSE \<and> crc_matches w
               then (Some policy', alerts) = sensor_result_policy_on_response (Some policy)
                      (Some (body_chars (drop SAVVY_PACKET_HEADER_LEN w))) malloc_ok
                    \<and> reports = report u True WIRE_CMD_RESPONSE
               else policy' = policy \<and> alerts = [] \<and> reports = report u False (w ! 1))
          else policy' = policy \<and> alerts = [] \<and> reports = report u False 0)
     | On_Pirin u \<Rightarrow> alerts = []
         \<and> (if res_status r = SENSOR_TCP_OK
            then \<exists>w. answered_by env ch item ch' r w
              \<and> policy' = (if w ! 1 = WIRE_CMD_PIRIN then policy\<lparr>rp_danger_count := 0\<rparr> else policy)
              \<and> reports = report u (w ! 1 = WIRE_CMD_PIRIN) (w ! 1)
            else policy' = policy \<and> reports = report u False 0)
     | _ \<Rightarrow> policy' = policy \<and> alerts = [])"
proof (cases "it_on_complete item")
  case (On_Data u)
  show ?thesis
  proof (cases "res_status r = SENSOR_TCP_OK")
    case ok: True
    obtain w where w: "answered_by env ch item ch' r w" using ok_is_answered [OF assms(1-3) ok] by blast
    note f = answered_fields [OF w]
    obtain p' al where p': "sensor_result_policy_on_response (Some policy) (Some (body_chars (drop SAVVY_PACKET_HEADER_LEN w))) malloc_ok
        = (Some p', al)"
      using response_policy_role by blast
    have "if w ! 1 = WIRE_CMD_RESPONSE \<and> crc_matches w
        then (Some policy', alerts) = sensor_result_policy_on_response (Some policy)
               (Some (body_chars (drop SAVVY_PACKET_HEADER_LEN w))) malloc_ok
             \<and> reports = report u True WIRE_CMD_RESPONSE
        else policy' = policy \<and> alerts = [] \<and> reports = report u False (w ! 1)"
      using assms(4) On_Data ok f p'
      by (auto simp: session_complete_def on_data_complete_def result_command_def Let_def
          sensor_result_policy_on_response_def [of _ None] split: if_splits)
    with w ok On_Data show ?thesis by auto
  next
    case False
    then show ?thesis
      using assms(4) On_Data
      by (auto simp: session_complete_def on_data_complete_def result_command_def Let_def split: if_splits)
  qed
next
  case (On_Pirin u)
  show ?thesis
  proof (cases "res_status r = SENSOR_TCP_OK")
    case ok: True
    obtain w where w: "answered_by env ch item ch' r w" using ok_is_answered [OF assms(1-3) ok] by blast
    then show ?thesis
      using assms(4) On_Pirin ok answered_fields(2) [OF w]
      by (auto simp: session_complete_def on_pirin_complete_def sensor_result_policy_reset_def result_command_def Let_def
          split: if_splits)
  next
    case False
    then show ?thesis
      using assms(4) On_Pirin
      by (auto simp: session_complete_def on_pirin_complete_def result_command_def Let_def split: if_splits)
  qed
qed (use assms(4) in \<open>auto simp: session_complete_def\<close>)

lemma unat_of_char: "unat (of_char c :: u8) = of_char c"
proof -
  have "unat (of_nat (of_char c) :: u8) = of_char c" by (simp only: unat_of_nat) simp
  then show ?thesis by (cases c) simp
qed

lemma body_chars_ascii: "body_chars (ascii_bytes s) = s"
  by (induction s) (simp_all add: body_chars_def ascii_bytes_def unat_of_char)

text \<open>A channel that has already read the response \<open>w\<close> when its request goes out.\<close>

definition answered_channel :: "bytes \<Rightarrow> nat session_callback sensor_tcp_channel" where
  "answered_channel w = (ss_channel demo_session)\<lparr>sockfd := 5, connected := True, max_packet_size := length w,
     tc_parser := \<lparr>sp_buf = w, buf_cap = length w, sp_head = 0, sp_tail = length w\<rparr>\<rparr>"

definition data_item :: "nat session_callback sensor_tcp_queue_item" where
  "data_item = \<lparr>it_packet = [1, 2, 3], it_packet_len = 3, it_response_timeout_ms = 3000,
      it_kind = SENSOR_TCP_ITEM_NORMAL, it_on_complete = On_Data (Some 5)\<rparr>"

lemma answered_channel_ok: "tcp_ok (answered_channel w)"
  by (simp add: tcp_ok_def answered_channel_def sp_inv_def)

lemma answered_run:
  assumes "frame w"
  shows "\<exists>ch' evs. process_item demo_env (answered_channel w) data_item = Some (ch', evs)
     \<and> completions evs = [(On_Data (Some 5), tcp_response (unframe w))]"
proof -
  let ?p = "\<lparr>sp_buf = w, buf_cap = length w, sp_head = 0, sp_tail = length w\<rparr>"
  have inv: "sp_inv ?p" and content: "sp_content ?p = w @ []" by (simp_all add: sp_inv_def sp_content_def mem_read_def)
  have "next_packet (buf_cap ?p) (w @ []) = Packet (fst (unframe w)) (snd (unframe w)) []"
    using assms by (intro next_packet_whole) (simp_all add: frame_def)
  then obtain p' where t: "sp_take ?p = (SAVVY_STREAM_PACKET_READY, p', Some (unframe w))"
    using sp_take_content [OF inv] unfolding content by auto
  then show ?thesis
    using demo_send
    by (simp add: process_item_def demo_env_def answered_channel_def data_item_def wait_for_response_def
        close_session_internal_def)
qed

theorem session_policy_follows_server_witness:
  "\<exists>r. session_complete True
     \<lparr>rp_role = SENSOR_RESULT_ROLE_STREAM, rp_danger_count_threshold = 3, rp_danger_count = 2, rp_on_alert = True\<rparr>
     (On_Data (Some (5 :: nat))) r
   = (\<lparr>rp_role = SENSOR_RESULT_ROLE_STREAM, rp_danger_count_threshold = 3, rp_danger_count = 3, rp_on_alert = True\<rparr>,
      [CHR ''S''], [(5, True, WIRE_CMD_RESPONSE)])"
proof -
  let ?policy = "\<lparr>rp_role = SENSOR_RESULT_ROLE_STREAM, rp_danger_count_threshold = 3, rp_danger_count = 2, rp_on_alert = True\<rparr>"
  define body where "body = server_body False [] [] [] ([] @ string_of_int 7 @ [] @ CHR ''}'' # [])"
  have r7: "int32_range 7" by (simp add: int32_range_def limits)
  have len: "length body \<le> 100" using length_string_of_int [OF r7] by (simp add: body_def server_body_def)
  then have "length body + 3 \<le> SIZE_MAX" by (simp add: limits)
  note moves = result_policy_reads_server_bodies [OF _ _ _ _ _ _ r7 body_def this, of ?policy, simplified]
  define w where "w = packet_image 0 WIRE_CMD_RESPONSE 0 0 (replicate 14 7) (ascii_bytes body)"
  have "length (ascii_bytes body) \<le> UINT32_MAX" using len by (simp add: ascii_bytes_def limits)
  note image = frame_packet_image [of "replicate 14 7", OF _ this, of 0 WIRE_CMD_RESPONSE 0 0, folded w_def]
  have f: "frame w" using image(1) by (simp add: packet_lens)
  have r: "tcp_response (unframe w) = \<lparr>res_status = SENSOR_TCP_OK, res_start = 0, res_command = WIRE_CMD_RESPONSE,
      res_crc_valid = True, res_data = ascii_bytes body\<rparr>"
    using image(2) by (simp add: packet_lens tcp_response_def)
  obtain ch' evs where run: "process_item demo_env (answered_channel w) data_item = Some (ch', evs)"
      and done_once: "completions evs = [(it_on_complete data_item, tcp_response (unframe w))]"
    using answered_run [OF f] by (auto simp: data_item_def)
  obtain p al rep where c: "session_complete True ?policy (it_on_complete data_item) (tcp_response (unframe w)) = (p, al, rep)"
    by (metis prod_cases3)
  from session_policy_follows_server [OF run answered_channel_ok done_once c] r
  obtain w' where w': "answered_by demo_env (answered_channel w) data_item ch' (tcp_response (unframe w)) w'"
      "if w' ! 1 = WIRE_CMD_RESPONSE \<and> crc_matches w'
       then (Some p, al) = sensor_result_policy_on_response (Some ?policy) (Some (body_chars (drop SAVVY_PACKET_HEADER_LEN w'))) True
            \<and> rep = report (Some 5) True WIRE_CMD_RESPONSE
       else p = ?policy \<and> al = [] \<and> rep = report (Some 5) False (w' ! 1)"
    by (auto simp: data_item_def)
  have "w' ! 1 = WIRE_CMD_RESPONSE" "crc_matches w'" "drop SAVVY_PACKET_HEADER_LEN w' = ascii_bytes body"
    using answered_fields [OF w'(1)] unfolding r by simp_all
  with w'(2) moves have "p = ?policy\<lparr>rp_danger_count := 3\<rparr>" "al = [CHR ''S'']" "rep = [(5, True, WIRE_CMD_RESPONSE)]"
    by (simp_all add: body_chars_ascii report_def)
  with c show ?thesis by (intro exI [of _ "tcp_response (unframe w)"]) (simp add: data_item_def)
qed

text \<open>The echo of an announcement is accepted whatever body it carries and whatever its checksum is.\<close>

lemma pirin_echo_body_ignored:
  "on_pirin_complete policy \<lparr>res_status = SENSOR_TCP_OK, res_start = b, res_command = WIRE_CMD_PIRIN,
      res_crc_valid = v, res_data = d\<rparr> (Some u)
     = (policy\<lparr>rp_danger_count := 0\<rparr>, [(u, True, WIRE_CMD_PIRIN)])"
  by (simp add: on_pirin_complete_def sensor_result_policy_reset_def report_def result_command_def)

end
