(* ===== verification/Mgr_Ipc_Client.thy ===== *)
theory Mgr_Ipc_Client
  imports Ipc_Transport Sensor_Core
begin

text \<open>
  \<^verbatim>\<open>src/features/mgr_ipc/mgr_ipc_client.c\<close>, the connection side: sending a message, dispatching a received
  one and the worker that connects, performs the handshake, receives and reconnects. Each section
  under \<^verbatim>\<open>state_lock\<close> is one function; what other threads do in between (a \<^verbatim>\<open>stop\<close> that requests the
  shutdown or marks the transport) and what the connector and the transport answer is the
  environment of the turn. What the worker does to the outside is a list of events. The client
  record has all members of the C struct; the members of the lifecycle are used by
  \<open>Mgr_Ipc_System\<close>.
\<close>

section \<open>Data\<close>

datatype sensor_mgr_ipc_connection_state =
    SENSOR_MGR_IPC_DISCONNECTED
  | SENSOR_MGR_IPC_TRANSPORT_CONNECTED
  | SENSOR_MGR_IPC_HANDSHAKING
  | SENSOR_MGR_IPC_CONNECTED
  | SENSOR_MGR_IPC_STOPPING

text \<open>Whether each callback is set.\<close>

record sensor_mgr_ipc_callbacks =
  cb_on_envelope :: bool
  cb_on_connected :: bool
  cb_on_disconnected :: bool

record sensor_mgr_ipc_config =
  mg_connector :: bool
  mg_connect_timeout_ms :: u32
  mg_send_timeout_ms :: u32
  mg_recv_poll_timeout_ms :: u32
  mg_reconnect_backoff_ms :: u32
  mg_callbacks :: sensor_mgr_ipc_callbacks

text \<open>Threads are numbers. \<^verbatim>\<open>registry_next\<close> is kept in the registry of \<open>Mgr_Ipc_System\<close>.\<close>

record sensor_mgr_ipc_client =
  mc_config :: sensor_mgr_ipc_config
  mc_cancel_source :: savvy_ipc_cancel_source
  mc_reconnect_tracker :: savvy_ipc_reconnect_tracker
  mc_transport :: savvy_ipc_transport
  mc_connection_state :: sensor_mgr_ipc_connection_state
  mc_started :: bool
  mc_shutdown_requested :: bool
  mc_stop_complete :: bool
  mc_terminal_cleanup_complete :: bool
  mc_cancel_initialized :: bool
  mc_worker_detached :: bool
  mc_join_in_progress :: bool
  mc_worker_thread :: nat
  mc_destroy_requested :: bool
  mc_destroy_from_worker :: bool
  mc_api_callers :: nat

definition SENSOR_MGR_IPC_ACTION_CONNECT :: string where
  "SENSOR_MGR_IPC_ACTION_CONNECT = ''com.uniuni.savvymgr.ipc.connect''"

datatype mgr_event =
    Ev_Transport int
  | Ev_Send string savvy_status
  | Ev_Fd fd_call
  | Ev_On_Connected bool
  | Ev_On_Envelope string string
  | Ev_On_Disconnected
  | Ev_Backoff u32

section \<open>The connector\<close>

text \<open>\<^verbatim>\<open>real_connector.c\<close>; the answers of the system are those of \<^const>\<open>savvy_ipc_client_connect_cancelable\<close>.\<close>

record sensor_mgr_ipc_real_connector_ctx =
  socket_path :: "string option"

type_synonym connect_answers = "savvy_time \<times> (nat \<Rightarrow> poll_turn) \<times> connect_os \<times> int \<times> poll_events"

definition sensor_mgr_ipc_real_connector ::
  "sensor_mgr_ipc_real_connector_ctx option \<Rightarrow> u32 \<Rightarrow> savvy_ipc_cancel_source option \<Rightarrow> connect_answers
     \<Rightarrow> (savvy_status \<times> savvy_ipc_transport option \<times> fd_call list) option" where
  "sensor_mgr_ipc_real_connector ctx timeout cancel answers =
     (case ctx of
        None \<Rightarrow> Some (SAVVY_ERR_INVALID_ARGUMENT, None, [])
      | Some x \<Rightarrow>
          if socket_path x = None then Some (SAVVY_ERR_INVALID_ARGUMENT, None, [])
          else case answers of
            (now, os, sys, poll) \<Rightarrow> savvy_ipc_client_connect_cancelable now os sys poll (socket_path x) timeout cancel False)"

section \<open>Sections under the state lock\<close>

definition close_transport :: "sensor_mgr_ipc_client \<Rightarrow> sensor_mgr_ipc_client \<times> mgr_event list" where
  "close_transport c =
     (if mc_connection_state c \<noteq> SENSOR_MGR_IPC_DISCONNECTED
      then (c\<lparr>mc_transport := \<lparr>tr_impl = 0\<rparr>, mc_connection_state := SENSOR_MGR_IPC_DISCONNECTED\<rparr>,
            map Ev_Fd (snd (fd_transport_close (mc_transport c))))
      else (c, []))"

definition mark_transport_stopping :: "sensor_mgr_ipc_client \<Rightarrow> sensor_mgr_ipc_client" where
  "mark_transport_stopping c =
     (if mc_connection_state c \<noteq> SENSOR_MGR_IPC_DISCONNECTED
      then c\<lparr>mc_connection_state := SENSOR_MGR_IPC_STOPPING\<rparr> else c)"

definition set_transport_connected :: "sensor_mgr_ipc_client \<Rightarrow> savvy_ipc_transport \<Rightarrow> sensor_mgr_ipc_client" where
  "set_transport_connected c transport =
     c\<lparr>mc_transport := transport, mc_connection_state := SENSOR_MGR_IPC_TRANSPORT_CONNECTED\<rparr>"

definition sensor_mgr_ipc_client_is_connected_impl :: "sensor_mgr_ipc_client \<Rightarrow> bool" where
  "sensor_mgr_ipc_client_is_connected_impl c \<longleftrightarrow> mc_connection_state c = SENSOR_MGR_IPC_CONNECTED"

section \<open>Sending and dispatching\<close>

text \<open>\<open>sent\<close> is what the transport answers; the events are the calls of the transport.\<close>

definition send_impl ::
  "sensor_mgr_ipc_client \<Rightarrow> string option \<Rightarrow> string option \<Rightarrow> savvy_status \<Rightarrow> savvy_status \<times> mgr_event list" where
  "send_impl c action payload_json sent =
     (let payload = (case payload_json of Some p \<Rightarrow> p | None \<Rightarrow> ''{}'')
      in if \<not> savvy_ipc_action_known action \<or> savvy_ipc_action_direction action \<noteq> SAVVY_IPC_SENSOR_TO_MGR
         then (SAVVY_ERR_INVALID_ARGUMENT, [])
         else if savvy_ipc_action_validate_payload action (Some payload) \<noteq> SAVVY_OK then (SAVVY_ERR_PROTOCOL, [])
         else case savvy_ipc_envelope_build action (Some payload) False of
           Inl st \<Rightarrow> (st, [])
         | Inr envelope \<Rightarrow>
             if mc_connection_state c \<noteq> SENSOR_MGR_IPC_CONNECTED then (SAVVY_ERR_NOT_CONNECTED, [])
             else (sent, [Ev_Send envelope sent]))"

text \<open>\<open>buf\<close> is the whole receive buffer, whose first \<open>len\<close> bytes are the message.\<close>

definition dispatch_envelope :: "sensor_mgr_ipc_client \<Rightarrow> string \<Rightarrow> nat \<Rightarrow> mgr_event list" where
  "dispatch_envelope c buf len =
     (case savvy_ipc_envelope_parse (Some buf) len (Some \<lparr>env_action = None, env_payload_json = None\<rparr>) of
        (st, env) \<Rightarrow>
          if st \<noteq> SAVVY_OK then []
          else
            let action = env_action (the env); payload = env_payload_json (the env)
            in if savvy_ipc_action_known action \<and> savvy_ipc_action_direction action = SAVVY_IPC_MGR_TO_SENSOR
                  \<and> savvy_ipc_action_validate_payload action payload = SAVVY_OK
                  \<and> cb_on_envelope (mg_callbacks (mc_config c))
               then [Ev_On_Envelope (the action) (the payload)] else [])"

definition notify_disconnected :: "sensor_mgr_ipc_client \<Rightarrow> mgr_event list" where
  "notify_disconnected c = (if cb_on_disconnected (mg_callbacks (mc_config c)) then [Ev_On_Disconnected] else [])"

section \<open>The worker\<close>

text \<open>The sections before and after the blocking send of the handshake.\<close>

definition handshake_begin :: "sensor_mgr_ipc_client \<Rightarrow> bool \<times> sensor_mgr_ipc_client" where
  "handshake_begin c =
     (if mc_connection_state c \<noteq> SENSOR_MGR_IPC_TRANSPORT_CONNECTED then (False, c)
      else (True, c\<lparr>mc_connection_state := SENSOR_MGR_IPC_HANDSHAKING\<rparr>))"

definition handshake_end :: "savvy_status \<Rightarrow> sensor_mgr_ipc_client \<Rightarrow> savvy_status \<times> sensor_mgr_ipc_client" where
  "handshake_end sent c =
     (if sent = SAVVY_OK \<and> mc_connection_state c = SENSOR_MGR_IPC_HANDSHAKING
      then (SAVVY_OK, c\<lparr>mc_connection_state := SENSOR_MGR_IPC_CONNECTED\<rparr>)
      else if sent = SAVVY_OK then (SAVVY_ERR_CANCELLED, c)
      else (sent, c))"

text \<open>
  \<open>stopping1\<close> and \<open>stopping2\<close> tell whether a \<^verbatim>\<open>stop\<close> marks the transport before the first section and
  during the blocking send.
\<close>

definition send_connect_handshake ::
  "sensor_mgr_ipc_client \<Rightarrow> bool \<Rightarrow> savvy_status \<Rightarrow> bool \<Rightarrow> savvy_status \<times> sensor_mgr_ipc_client \<times> mgr_event list" where
  "send_connect_handshake c stopping1 sent stopping2 =
     (case savvy_ipc_envelope_build (Some SENSOR_MGR_IPC_ACTION_CONNECT) (Some ''{}'') False of
        Inl st \<Rightarrow> (st, c, [])
      | Inr envelope \<Rightarrow>
          (case handshake_begin (if stopping1 then mark_transport_stopping c else c) of
             (False, c1) \<Rightarrow> (SAVVY_ERR_CANCELLED, c1, [])
           | (True, c1) \<Rightarrow>
               (case handshake_end sent (if stopping2 then mark_transport_stopping c1 else c1) of
                  (st, c2) \<Rightarrow> (st, c2, [Ev_Send envelope sent]))))"

text \<open>
  The back-off: the absolute time to wait until, as seconds and nanoseconds, and the loop around
  \<^verbatim>\<open>pthread_cond_timedwait\<close>, given the shutdown flag and the result of each turn; whether it has returned.
\<close>

definition backoff_deadline :: "nat \<times> nat \<Rightarrow> u32 \<Rightarrow> nat \<times> nat" where
  "backoff_deadline now ms =
     (let tv_sec = fst now + unat (ms div 1000); tv_nsec = snd now + unat (ms mod 1000) * 1000000
      in if tv_nsec \<ge> 1000000000 then (tv_sec + 1, tv_nsec - 1000000000) else (tv_sec, tv_nsec))"

fun interruptible_backoff_sleep :: "(bool \<times> int) list \<Rightarrow> bool" where
  "interruptible_backoff_sleep [] = False"
| "interruptible_backoff_sleep ((shutdown, rc) # turns) = (shutdown \<or> rc \<noteq> 0 \<or> interruptible_backoff_sleep turns)"

text \<open>
  One turn of the receive loop: the shutdown flag, whether a \<^verbatim>\<open>stop\<close> has marked the transport, the
  answer of \<^verbatim>\<open>recv\<close> and the message, and what the rest of the buffer held before.
\<close>

record recv_turn =
  rt_shutdown :: bool
  rt_stopping :: bool
  rt_status :: savvy_status
  rt_message :: string
  rt_rest :: string

text \<open>The flag tells whether the loop has been left.\<close>

fun receive_loop :: "recv_turn list \<Rightarrow> sensor_mgr_ipc_client \<Rightarrow> sensor_mgr_ipc_client \<times> mgr_event list \<times> bool" where
  "receive_loop [] c = (c, [], False)"
| "receive_loop (t # ts) c =
     (if rt_shutdown t then (c, [], True)
      else
        let c1 = (if rt_stopping t then mark_transport_stopping c else c)
        in if mc_connection_state c1 \<noteq> SENSOR_MGR_IPC_CONNECTED then (c1, [], True)
           else if rt_status t = SAVVY_ERR_TIMEOUT \<or> rt_status t = SAVVY_ERR_OVERFLOW then receive_loop ts c1
           else if rt_status t = SAVVY_OK \<and> length (rt_message t) > 0
           then (case receive_loop ts c1 of
                   (c2, evs, left) \<Rightarrow>
                     (c2, dispatch_envelope c1 (rt_message t @ rt_rest t) (length (rt_message t)) @ evs, left))
           else (c1, [], True))"

text \<open>One turn of the outer loop.\<close>

record mgr_cycle =
  cy_shutdown :: bool
  cy_connect :: "savvy_status \<times> savvy_ipc_transport"
  cy_shutdown_after :: bool
  cy_stopping1 :: bool
  cy_sent :: savvy_status
  cy_stopping2 :: bool
  cy_turns :: "recv_turn list"

text \<open>What \<^verbatim>\<open>mark_reconnect\<close> leaves in \<^verbatim>\<open>was_reconnect\<close> after the hooks have run.\<close>

definition mark_reconnect :: "reconnect_call list \<Rightarrow> bool" where
  "mark_reconnect calls \<longleftrightarrow> calls \<noteq> []"

text \<open>The worker up to \<^verbatim>\<open>worker_mark_finished\<close>; the flag tells whether it has got there.\<close>

fun mgr_worker_main ::
  "mgr_cycle list \<Rightarrow> sensor_mgr_ipc_client \<Rightarrow> sensor_mgr_ipc_client \<times> mgr_event list \<times> bool" where
  "mgr_worker_main [] c = (c, [], False)"
| "mgr_worker_main (cy # cys) c =
     (let finish = (\<lambda>c. case close_transport c of (c', evs) \<Rightarrow> (c', evs, True));
          emit = (\<lambda>evs r. case r of (c', evs', left) \<Rightarrow> (c', evs @ evs', left));
          backoff = [Ev_Backoff (mg_reconnect_backoff_ms (mc_config c))]
      in if cy_shutdown cy then finish c
         else if fst (cy_connect cy) = SAVVY_ERR_CANCELLED then finish c
         else if fst (cy_connect cy) \<noteq> SAVVY_OK then emit backoff (mgr_worker_main cys c)
         else
           let c1 = set_transport_connected c (snd (cy_connect cy)); opened = [Ev_Transport (tr_impl (snd (cy_connect cy)))]
           in if cy_shutdown_after cy
              then emit opened (case close_transport c1 of (c2, evs) \<Rightarrow> emit evs (finish c2))
              else case send_connect_handshake c1 (cy_stopping1 cy) (cy_sent cy) (cy_stopping2 cy) of
                (st, c2, ev2) \<Rightarrow>
                  if st \<noteq> SAVVY_OK
                  then (case close_transport c2 of
                          (c3, ev3) \<Rightarrow> emit (opened @ ev2 @ ev3 @ notify_disconnected c3 @ backoff) (mgr_worker_main cys c3))
                  else
                    let (tracker, calls) = savvy_ipc_reconnect_tracker_on_connected (mc_reconnect_tracker c2)
                          (Some \<lparr>request_config = True, request_device = True, rc_user_data = 0\<rparr>);
                        c3 = c2\<lparr>mc_reconnect_tracker := tracker\<rparr>;
                        ev3 = (if cb_on_connected (mg_callbacks (mc_config c)) then [Ev_On_Connected (mark_reconnect calls)] else [])
                    in case receive_loop (cy_turns cy) c3 of
                         (c4, ev4, left) \<Rightarrow>
                           if \<not> left then (c4, opened @ ev2 @ ev3 @ ev4, False)
                           else case close_transport c4 of
                             (c5, ev5) \<Rightarrow>
                               emit (opened @ ev2 @ ev3 @ ev4 @ ev5 @ notify_disconnected c5) (mgr_worker_main cys c5))"

section \<open>The back-off\<close>

text \<open>The deadline is a valid time, exactly \<open>ms\<close> milliseconds ahead.\<close>

lemma backoff_deadline_exact:
  assumes "snd now < 1000000000"
  shows "snd (backoff_deadline now ms) < 1000000000"
    and "fst (backoff_deadline now ms) * 1000000000 + snd (backoff_deadline now ms)
           = fst now * 1000000000 + snd now + unat ms * 1000000"
proof -
  have q: "unat (ms div 1000) = unat ms div 1000" "unat (ms mod 1000) = unat ms mod 1000"
    by (simp_all add: unat_div unat_mod)
  have ms: "unat ms mod 1000 * 1000000 + unat ms div 1000 * 1000000000 = unat ms * 1000000"
    using div_mult_mod_eq [of "unat ms" 1000] by linarith
  show "snd (backoff_deadline now ms) < 1000000000"
    using assms by (auto simp: backoff_deadline_def q Let_def)
  show "fst (backoff_deadline now ms) * 1000000000 + snd (backoff_deadline now ms)
           = fst now * 1000000000 + snd now + unat ms * 1000000"
    using ms by (auto simp: backoff_deadline_def q Let_def algebra_simps)
qed

section \<open>Delivery\<close>

text \<open>What the catalog accepts from the manager.\<close>

definition mgr_accepts :: "string \<Rightarrow> cJSON \<Rightarrow> bool" where
  "mgr_accepts a tree \<longleftrightarrow>
     (case find_entry (Some a) of
        None \<Rightarrow> False
      | Some e \<Rightarrow> entry_direction e = SAVVY_IPC_MGR_TO_SENSOR \<and> list_all (key_satisfied tree) (payload_keys e))"

lemma accepted_iff:
  assumes "savvy_json_parse (Some (body @ [CHR 0x00])) (length body) False = Inr (cJSON_Object ms)"
  shows "savvy_ipc_action_known (Some a) \<and> savvy_ipc_action_direction (Some a) = SAVVY_IPC_MGR_TO_SENSOR
     \<and> savvy_ipc_action_validate_payload (Some a) (Some body) = SAVVY_OK \<longleftrightarrow> mgr_accepts a (cJSON_Object ms)"
  using assms by (auto simp: savvy_ipc_action_known_def savvy_ipc_action_direction_def
      savvy_ipc_action_validate_payload_def mgr_accepts_def validate_keys_iff split: option.splits)

text \<open>No buffer, whatever it holds, makes more than one callback or one the catalog does not accept.\<close>

lemma dispatch_sound:
  "dispatch_envelope c buf len = [] \<or>
   (\<exists>a p ms. dispatch_envelope c buf len = [Ev_On_Envelope a p]
      \<and> savvy_json_parse (Some (p @ [CHR 0x00])) (length p) False = Inr (cJSON_Object ms)
      \<and> mgr_accepts a (cJSON_Object ms))"
proof -
  obtain st env where parse: "savvy_ipc_envelope_parse (Some buf) len (Some \<lparr>env_action = None, env_payload_json = None\<rparr>) = (st, env)"
    by fastforce
  show ?thesis
  proof (cases "dispatch_envelope c buf len = []")
    case False
    then have st: "st = SAVVY_OK" by (auto simp: dispatch_envelope_def parse split: if_splits)
    then obtain a p where env: "env = Some \<lparr>env_action = Some a, env_payload_json = Some p\<rparr>"
      using parse by (auto simp: savvy_ipc_envelope_parse_def Let_def dest: json_parse_error split: sum.splits option.splits cJSON.splits if_splits)
    have ok: "savvy_ipc_action_known (Some a)" "savvy_ipc_action_direction (Some a) = SAVVY_IPC_MGR_TO_SENSOR"
      "savvy_ipc_action_validate_payload (Some a) (Some p) = SAVVY_OK"
      and ev: "dispatch_envelope c buf len = [Ev_On_Envelope a p]"
      using False by (auto simp: dispatch_envelope_def parse st env Let_def split: if_splits)
    obtain ms where ms: "savvy_json_parse (Some (p @ [CHR 0x00])) (length p) False = Inr (cJSON_Object ms)"
      using ok(3) by (auto simp: savvy_ipc_action_validate_payload_def dest: json_parse_error elim!: cJSON_IsObject.elims(2)
          split: option.splits sum.splits if_splits)
    with ok ev show ?thesis using accepted_iff [OF ms, of a] by blast
  qed simp
qed

text \<open>A built message that is followed by NUL in the receive buffer.\<close>

lemma dispatch_terminated:
  assumes "CHR 0x00 \<notin> set a" and "valid_utf8 a"
    and "savvy_json_parse (Some (p @ [CHR 0x00])) (length p) False = Inr (cJSON_Object ms)"
    and "json_ok (CJSON_NESTING_LIMIT - 1) (cJSON_Object ms)"
    and "savvy_ipc_envelope_build (Some a) (Some p) False = Inr msg"
  shows "dispatch_envelope c (msg @ CHR 0x00 # rest) (length msg) =
     (if mgr_accepts a (cJSON_Object ms) \<and> cb_on_envelope (mg_callbacks (mc_config c))
      then [Ev_On_Envelope a (the (cJSON_PrintUnformatted (cJSON_Object ms)))] else [])"
proof (rule envelope_built [OF assms])
  fix body
  assume body: "cJSON_PrintUnformatted (cJSON_Object ms) = Some body"
    and parse: "\<And>junk old. savvy_ipc_envelope_parse (Some (msg @ CHR 0x00 # junk)) (length msg) (Some old)
       = (SAVVY_OK, Some \<lparr>env_action = Some a, env_payload_json = Some body\<rparr>)"
    and again: "savvy_json_parse (Some (body @ [CHR 0x00])) (length body) False = Inr (cJSON_Object ms)"
  show ?thesis using accepted_iff [OF again, of a] by (auto simp: dispatch_envelope_def parse body Let_def)
qed

text \<open>
  C9: which message reaches the application. A message the peer built with
  \<^verbatim>\<open>savvy_ipc_envelope_build\<close> from a UTF-8 action and a payload object is handed to \<^verbatim>\<open>on_envelope\<close>, once
  and with the payload in unformatted form, exactly when the catalog lists the action for the direction
  manager to sensor, the payload satisfies the keys of the entry, a callback is set, and the
  byte of the receive buffer that follows the message happens to be NUL; else it is dropped. The
  last condition is not the peer's to meet: the buffer is an uninitialised array and the
  message carries no terminator.
\<close>

theorem mgr_dispatch_delivers:
  assumes "CHR 0x00 \<notin> set a" and "valid_utf8 a"
    and "savvy_json_parse (Some (p @ [CHR 0x00])) (length p) False = Inr (cJSON_Object ms)"
    and "json_ok (CJSON_NESTING_LIMIT - 1) (cJSON_Object ms)"
    and "savvy_ipc_envelope_build (Some a) (Some p) False = Inr msg"
  shows "dispatch_envelope c (msg @ stale # rest) (length msg) =
     (if stale = CHR 0x00 \<and> mgr_accepts a (cJSON_Object ms) \<and> cb_on_envelope (mg_callbacks (mc_config c))
      then [Ev_On_Envelope a (the (cJSON_PrintUnformatted (cJSON_Object ms)))] else [])"
proof (cases "stale = CHR 0x00")
  case True
  then show ?thesis using dispatch_terminated [OF assms] by simp
next
  case False
  then show ?thesis by (simp add: dispatch_envelope_def savvy_ipc_envelope_parse_def savvy_json_parse_def nth_append)
qed

text \<open>The envelope of an action with an empty payload.\<close>

definition bare_envelope :: "string \<Rightarrow> string" where
  "bare_envelope a = CHR ''{'' # CHR 0x22 # ''action'' @ [CHR 0x22, CHR '':''] @ print_string_ptr a @
      CHR '','' # CHR 0x22 # ''payload'' @ [CHR 0x22, CHR '':''] @ ''{}}''"

lemma empty_object_json:
  "json_ok (CJSON_NESTING_LIMIT - 1) (cJSON_Object [])"
  "cJSON_PrintUnformatted (cJSON_Object []) = Some ''{}''"
  "savvy_json_parse (Some (''{}'' @ [CHR 0x00])) (length ''{}'') False = Inr (cJSON_Object [])"
proof -
  show ok: "json_ok (CJSON_NESTING_LIMIT - 1) (cJSON_Object [])" by (simp add: CJSON_NESTING_LIMIT_def numeral_eq_Suc)
  show print: "cJSON_PrintUnformatted (cJSON_Object []) = Some ''{}''" by (rule print_empty_object)
  then show "savvy_json_parse (Some (''{}'' @ [CHR 0x00])) (length ''{}'') False = Inr (cJSON_Object [])"
    by (intro json_parse_printed(2)) (simp_all add: strict_tree_def json_ok_mono [OF ok])
qed

lemma bare_envelope_built:
  assumes "a \<noteq> []" and "ascii a" and "length (bare_envelope a) \<le> SAVVY_IPC_MAX_MESSAGE"
  shows "savvy_ipc_envelope_build (Some a) (Some ''{}'') False = Inr (bare_envelope a)"
  using assms(3)
  by (intro envelope_build_short [OF assms(1) ascii_nul_free [OF assms(2)] ascii_valid_utf8 [OF assms(2)]
        empty_object_json(3,1,2)]) (simp_all add: bare_envelope_def)

lemma connect_envelope_built:
  "savvy_ipc_envelope_build (Some SENSOR_MGR_IPC_ACTION_CONNECT) (Some ''{}'') False
     = Inr (bare_envelope SENSOR_MGR_IPC_ACTION_CONNECT)"
  by (rule bare_envelope_built) (simp_all add: SENSOR_MGR_IPC_ACTION_CONNECT_def ascii_def bare_envelope_def
      print_string_ptr_def escape_char_def SAVVY_IPC_MAX_MESSAGE_def)

text \<open>A client with all callbacks set.\<close>

definition sample_mgr_client :: sensor_mgr_ipc_client where
  "sample_mgr_client =
     \<lparr>mc_config = \<lparr>mg_connector = True, mg_connect_timeout_ms = 1000, mg_send_timeout_ms = 1000, mg_recv_poll_timeout_ms = 100,
        mg_reconnect_backoff_ms = 500, mg_callbacks = \<lparr>cb_on_envelope = True, cb_on_connected = True, cb_on_disconnected = True\<rparr>\<rparr>,
      mc_cancel_source = \<lparr>cancel_read_fd = 4, cancel_write_fd = 5\<rparr>, mc_reconnect_tracker = savvy_ipc_reconnect_tracker_init,
      mc_transport = \<lparr>tr_impl = 0\<rparr>, mc_connection_state = SENSOR_MGR_IPC_DISCONNECTED, mc_started = True,
      mc_shutdown_requested = False, mc_stop_complete = False, mc_terminal_cleanup_complete = False,
      mc_cancel_initialized = True, mc_worker_detached = False, mc_join_in_progress = False, mc_worker_thread = 1,
      mc_destroy_requested = False, mc_destroy_from_worker = False, mc_api_callers = 0\<rparr>"

theorem mgr_dispatch_delivers_witness:
  "\<exists>c msg. savvy_ipc_envelope_build (Some ''com.uniuni.savvysensor.serverip'') (Some ''{}'') False = Inr msg
     \<and> dispatch_envelope c (msg @ [CHR 0x00]) (length msg) = [Ev_On_Envelope ''com.uniuni.savvysensor.serverip'' ''{}'']
     \<and> dispatch_envelope c (msg @ ''x'') (length msg) = []"
proof -
  let ?a = "''com.uniuni.savvysensor.serverip''"
  have a: "ascii ?a" by (simp add: ascii_def)
  have built: "savvy_ipc_envelope_build (Some ?a) (Some ''{}'') False = Inr (bare_envelope ?a)"
    by (rule bare_envelope_built [OF _ a]) (simp_all add: bare_envelope_def print_string_ptr_def escape_char_def SAVVY_IPC_MAX_MESSAGE_def)
  have acc: "mgr_accepts ?a (cJSON_Object [])"
    by (simp add: mgr_accepts_def find_entry_def CATALOG_def catalog_entry_of_def NO_KEYS_def)
  note deliver = mgr_dispatch_delivers [OF ascii_nul_free [OF a] ascii_valid_utf8 [OF a] empty_object_json(3,1) built,
      of sample_mgr_client _ "[]", unfolded empty_object_json(2) option.sel]
  show ?thesis
    using built deliver [of "CHR 0x00"] deliver [of "CHR ''x''"] acc
    by (intro exI [of _ sample_mgr_client] exI [of _ "bare_envelope ?a"]) (simp add: sample_mgr_client_def)
qed

section \<open>Sending\<close>

text \<open>
  What a report puts on the wire. For a UTF-8 action that the catalog lists for the direction
  sensor to manager and a payload that satisfies the keys of its entry, \<^verbatim>\<open>send\<close> calls the transport only in the
  connected state and then once, with a message of at most \<^verbatim>\<open>SAVVY_IPC_MAX_MESSAGE\<close> bytes from which the
  manager reads back the action and the payload, and it returns what the transport returned;
  otherwise nothing is sent and the status is \<^verbatim>\<open>SAVVY_ERR_OVERFLOW\<close> (\<^verbatim>\<open>SAVVY_ERR_OUT_OF_MEMORY\<close> above
  the limit of cJSON's printer) or \<^verbatim>\<open>SAVVY_ERR_NOT_CONNECTED\<close>. An absent payload counts as \<^verbatim>\<open>{}\<close>.
\<close>

theorem mgr_send_roundtrip:
  assumes "CHR 0x00 \<notin> set a" and "valid_utf8 a"
    and p: "p = (case payload of Some p \<Rightarrow> p | None \<Rightarrow> ''{}'')"
    and parse: "savvy_json_parse (Some (p @ [CHR 0x00])) (length p) False = Inr (cJSON_Object ms)"
    and ok: "json_ok (CJSON_NESTING_LIMIT - 1) (cJSON_Object ms)"
    and e: "find_entry (Some a) = Some e" "entry_direction e = SAVVY_IPC_SENSOR_TO_MGR" "list_all (key_satisfied (cJSON_Object ms)) (payload_keys e)"
  shows "\<exists>msg body. json_text False 0 (cJSON_Object ms) = Some body
     \<and> msg = CHR ''{'' # CHR 0x22 # ''action'' @ [CHR 0x22, CHR '':''] @ print_string_ptr a @
            CHR '','' # CHR 0x22 # ''payload'' @ [CHR 0x22, CHR '':''] @ body @ ''}''
     \<and> (length msg \<le> SAVVY_IPC_MAX_MESSAGE \<longrightarrow>
          savvy_ipc_envelope_parse (Some (msg @ [CHR 0x00])) (length msg) (Some old)
          = (SAVVY_OK, Some \<lparr>env_action = Some a, env_payload_json = Some body\<rparr>))
     \<and> send_impl c (Some a) payload sent =
         (if length msg + 2 > nat INT32_MAX then (SAVVY_ERR_OUT_OF_MEMORY, [])
          else if length msg > SAVVY_IPC_MAX_MESSAGE then (SAVVY_ERR_OVERFLOW, [])
          else if sensor_mgr_ipc_client_is_connected_impl c then (sent, [Ev_Send msg sent])
          else (SAVVY_ERR_NOT_CONNECTED, []))"
proof -
  have "a \<noteq> []" using e(1) by (auto simp: find_entry_iff CATALOG_def catalog_entry_of_def)
  then obtain body msg where body: "json_text False 0 (cJSON_Object ms) = Some body"
    and form: "msg = CHR ''{'' # CHR 0x22 # ''action'' @ [CHR 0x22, CHR '':''] @ print_string_ptr a @
            CHR '','' # CHR 0x22 # ''payload'' @ [CHR 0x22, CHR '':''] @ body @ ''}''"
    and msg: "savvy_ipc_envelope_build (Some a) (Some p) False =
         (if length msg + 2 > nat INT32_MAX then Inl SAVVY_ERR_OUT_OF_MEMORY
          else if length msg > SAVVY_IPC_MAX_MESSAGE then Inl SAVVY_ERR_OVERFLOW else Inr msg)"
    and "length body + 2 \<le> nat INT32_MAX \<Longrightarrow> cJSON_PrintUnformatted (cJSON_Object ms) = Some body"
    and reread: "\<And>junk old. savvy_ipc_envelope_parse (Some (msg @ CHR 0x00 # junk)) (length msg) (Some old)
       = (if length body + 2 \<le> nat INT32_MAX
          then (SAVVY_OK, Some \<lparr>env_action = Some a, env_payload_json = Some body\<rparr>)
          else (SAVVY_ERR_OUT_OF_MEMORY, Some \<lparr>env_action = None, env_payload_json = None\<rparr>))"
    and "savvy_json_parse (Some (body @ [CHR 0x00])) (length body) False = Inr (cJSON_Object ms)"
    by (rule envelope_wire [OF _ assms(1,2) parse ok]) (rule that; assumption)
  have valid: "savvy_ipc_action_known (Some a)" "savvy_ipc_action_direction (Some a) = SAVVY_IPC_SENSOR_TO_MGR"
    "savvy_ipc_action_validate_payload (Some a) (Some p) = SAVVY_OK"
    using e parse by (simp_all add: savvy_ipc_action_known_def savvy_ipc_action_direction_def savvy_ipc_action_validate_payload_def validate_keys_iff)
  have "send_impl c (Some a) payload sent =
         (if length msg + 2 > nat INT32_MAX then (SAVVY_ERR_OUT_OF_MEMORY, [])
          else if length msg > SAVVY_IPC_MAX_MESSAGE then (SAVVY_ERR_OVERFLOW, [])
          else if sensor_mgr_ipc_client_is_connected_impl c then (sent, [Ev_Send msg sent])
          else (SAVVY_ERR_NOT_CONNECTED, []))"
    using valid msg by (simp add: send_impl_def Let_def sensor_mgr_ipc_client_is_connected_impl_def flip: p)
  moreover have "length body + 2 \<le> nat INT32_MAX" if "length msg \<le> SAVVY_IPC_MAX_MESSAGE"
    using that by (simp add: form INT32_MAX_room SAVVY_IPC_MAX_MESSAGE_def)
  ultimately show ?thesis using body form reread [of "[]"] by auto
qed

theorem mgr_send_roundtrip_witness:
  "send_impl (sample_mgr_client\<lparr>mc_connection_state := SENSOR_MGR_IPC_CONNECTED\<rparr>) (Some ''com.uniuni.savvymgr.tof.property'') None SAVVY_ERR_IO
     = (SAVVY_ERR_IO, [Ev_Send (bare_envelope ''com.uniuni.savvymgr.tof.property'') SAVVY_ERR_IO])"
proof -
  let ?a = "''com.uniuni.savvymgr.tof.property''" and ?c = "sample_mgr_client\<lparr>mc_connection_state := SENSOR_MGR_IPC_CONNECTED\<rparr>"
  have a: "ascii ?a" by (simp add: ascii_def)
  have e: "find_entry (Some ?a) = Some (catalog_entry_of ?a SAVVY_IPC_SENSOR_TO_MGR TOF_PROP_KEYS)"
    by (simp add: find_entry_def CATALOG_def catalog_entry_of_def)
  have keys: "list_all (key_satisfied (cJSON_Object [])) TOF_PROP_KEYS" by (simp add: TOF_PROP_KEYS_def key_satisfied_def)
  have short: "length (bare_envelope ?a) \<le> SAVVY_IPC_MAX_MESSAGE"
    by (simp add: bare_envelope_def print_string_ptr_def escape_char_def SAVVY_IPC_MAX_MESSAGE_def)
  have printed: "json_text False 0 (cJSON_Object []) = Some ''{}''" by simp
  have "send_impl ?c (Some ?a) None SAVVY_ERR_IO =
     (if length (bare_envelope ?a) + 2 > nat INT32_MAX then (SAVVY_ERR_OUT_OF_MEMORY, [])
      else if length (bare_envelope ?a) > SAVVY_IPC_MAX_MESSAGE then (SAVVY_ERR_OVERFLOW, [])
      else if sensor_mgr_ipc_client_is_connected_impl ?c then (SAVVY_ERR_IO, [Ev_Send (bare_envelope ?a) SAVVY_ERR_IO])
      else (SAVVY_ERR_NOT_CONNECTED, []))"
    using mgr_send_roundtrip [OF ascii_nul_free [OF a] ascii_valid_utf8 [OF a] _ empty_object_json(3,1) e, of None _ ?c SAVVY_ERR_IO] keys
    unfolding printed option.inject by (auto simp: catalog_entry_of_def bare_envelope_def)
  then show ?thesis using short by (simp add: sensor_mgr_ipc_client_is_connected_impl_def INT32_MAX_room SAVVY_IPC_MAX_MESSAGE_def)
qed

section \<open>What the worker does to the outside\<close>

text \<open>
  A monitor for the events of the worker: between two rests it opens one transport, may send
  CONNECT on it, then may report the connection, then the messages, and it shuts down and
  closes that transport before it reports the end. The flag tells whether a connection has been reported
  since \<^verbatim>\<open>start\<close>.
\<close>

datatype mgr_phase = Resting | Opened int | Refused_Connect int | Shaken int | Online int | Closing int | Closed

definition mgr_acceptable :: "string \<Rightarrow> string \<Rightarrow> bool" where
  "mgr_acceptable a p \<longleftrightarrow>
     (case savvy_json_parse (Some (p @ [CHR 0x00])) (length p) False of
        Inl _ \<Rightarrow> False
      | Inr tree \<Rightarrow> cJSON_IsObject tree \<and> mgr_accepts a tree)"

fun mgr_monitor_step :: "bool \<times> mgr_phase \<Rightarrow> mgr_event \<Rightarrow> (bool \<times> mgr_phase) option" where
  "mgr_monitor_step (r, Resting) (Ev_Backoff ms) = Some (r, Resting)"
| "mgr_monitor_step (r, Resting) (Ev_Transport fd) = Some (r, Opened fd)"
| "mgr_monitor_step (r, Opened fd) (Ev_Send msg st) =
     (if msg = bare_envelope SENSOR_MGR_IPC_ACTION_CONNECT
      then Some (r, if st = SAVVY_OK then Shaken fd else Refused_Connect fd) else None)"
| "mgr_monitor_step (r, Shaken fd) (Ev_On_Connected again) = (if again = r then Some (True, Online fd) else None)"
| "mgr_monitor_step (r, Online fd) (Ev_On_Envelope a p) = (if mgr_acceptable a p then Some (r, Online fd) else None)"
| "mgr_monitor_step (r, Opened fd) (Ev_Fd (Sys_shutdown fd')) = (if fd' = fd then Some (r, Closing fd) else None)"
| "mgr_monitor_step (r, Refused_Connect fd) (Ev_Fd (Sys_shutdown fd')) = (if fd' = fd then Some (r, Closing fd) else None)"
| "mgr_monitor_step (r, Shaken fd) (Ev_Fd (Sys_shutdown fd')) = (if fd' = fd then Some (r, Closing fd) else None)"
| "mgr_monitor_step (r, Online fd) (Ev_Fd (Sys_shutdown fd')) = (if fd' = fd then Some (r, Closing fd) else None)"
| "mgr_monitor_step (r, Closing fd) (Ev_Fd (Sys_close fd')) = (if fd' = fd then Some (r, Closed) else None)"
| "mgr_monitor_step (r, Closed) Ev_On_Disconnected = Some (r, Resting)"
| "mgr_monitor_step _ _ = None"

fun mgr_monitor :: "bool \<times> mgr_phase \<Rightarrow> mgr_event list \<Rightarrow> (bool \<times> mgr_phase) option" where
  "mgr_monitor s [] = Some s"
| "mgr_monitor s (e # es) = (case mgr_monitor_step s e of None \<Rightarrow> None | Some s' \<Rightarrow> mgr_monitor s' es)"

lemma monitor_append: "mgr_monitor s xs = Some s' \<Longrightarrow> mgr_monitor s (xs @ ys) = mgr_monitor s' ys"
  by (induction xs arbitrary: s) (auto split: option.splits)

lemma close_transport_open:
  assumes "mc_connection_state c \<noteq> SENSOR_MGR_IPC_DISCONNECTED" and "0 \<le> tr_impl (mc_transport c)"
  shows "close_transport c =
     (c\<lparr>mc_transport := \<lparr>tr_impl = 0\<rparr>, mc_connection_state := SENSOR_MGR_IPC_DISCONNECTED\<rparr>,
      [Ev_Fd (Sys_shutdown (tr_impl (mc_transport c))), Ev_Fd (Sys_close (tr_impl (mc_transport c)))])"
  using assms by (simp add: close_transport_def fd_transport_close_def)

lemma close_transport_closed [simp]:
  "mc_connection_state c = SENSOR_MGR_IPC_DISCONNECTED \<Longrightarrow> close_transport c = (c, [])"
  by (simp add: close_transport_def)

text \<open>Marking changes nothing but the connection state, and never ends a connection.\<close>

lemma mark_transport_stopping_keeps [simp]:
  "mc_transport (mark_transport_stopping c) = mc_transport c"
  "mc_reconnect_tracker (mark_transport_stopping c) = mc_reconnect_tracker c"
  "mc_config (mark_transport_stopping c) = mc_config c"
  "mc_connection_state (mark_transport_stopping c) = SENSOR_MGR_IPC_DISCONNECTED
     \<longleftrightarrow> mc_connection_state c = SENSOR_MGR_IPC_DISCONNECTED"
  by (simp_all add: mark_transport_stopping_def)

lemma dispatch_monitor: "mgr_monitor (r, Online fd) (dispatch_envelope c buf len) = Some (r, Online fd)"
  using dispatch_sound [of c buf len] by (auto simp: mgr_acceptable_def)

lemma receive_loop_monitor:
  assumes "receive_loop ts c = (c', evs, left)" and "mc_connection_state c \<noteq> SENSOR_MGR_IPC_DISCONNECTED"
  shows "mgr_monitor (r, Online fd) evs = Some (r, Online fd) \<and> mc_transport c' = mc_transport c
     \<and> mc_reconnect_tracker c' = mc_reconnect_tracker c \<and> mc_config c' = mc_config c
     \<and> mc_connection_state c' \<noteq> SENSOR_MGR_IPC_DISCONNECTED"
  using assms
proof (induction ts arbitrary: c c' evs left)
  case (Cons t ts)
  define c1 where "c1 = (if rt_stopping t then mark_transport_stopping c else c)"
  have c1: "mc_transport c1 = mc_transport c" "mc_reconnect_tracker c1 = mc_reconnect_tracker c" "mc_config c1 = mc_config c"
    "mc_connection_state c1 \<noteq> SENSOR_MGR_IPC_DISCONNECTED" using Cons.prems(2) by (simp_all add: c1_def)
  obtain c2 evs2 left2 where more: "receive_loop ts c1 = (c2, evs2, left2)" by (metis prod_cases3)
  show ?case
    using Cons.prems(1) Cons.IH [OF more c1(4)] c1 Cons.prems(2) monitor_append [OF dispatch_monitor]
    by (auto simp: c1_def [symmetric] more Let_def split: if_splits)
qed simp

lemma handshake_cases:
  assumes "send_connect_handshake c stopping1 sent stopping2 = (st, c', evs)"
    and "mc_connection_state c = SENSOR_MGR_IPC_TRANSPORT_CONNECTED"
  shows "mc_transport c' = mc_transport c \<and> mc_reconnect_tracker c' = mc_reconnect_tracker c \<and> mc_config c' = mc_config c
     \<and> mc_connection_state c' \<noteq> SENSOR_MGR_IPC_DISCONNECTED
     \<and> (evs = [] \<and> st \<noteq> SAVVY_OK
        \<or> evs = [Ev_Send (bare_envelope SENSOR_MGR_IPC_ACTION_CONNECT) sent] \<and> (st = SAVVY_OK \<longrightarrow> sent = SAVVY_OK))"
  using assms by (auto simp: send_connect_handshake_def handshake_begin_def handshake_end_def connect_envelope_built split: if_splits)

text \<open>One successful turn of the outer loop, from the transport to the end of the receive loop.\<close>

definition mgr_online :: "mgr_cycle \<Rightarrow> sensor_mgr_ipc_client \<Rightarrow> sensor_mgr_ipc_client \<Rightarrow> mgr_event list \<Rightarrow> bool \<Rightarrow> bool" where
  "mgr_online cy c c' evs left \<longleftrightarrow>
     (\<exists>c2 ev2 ev4. send_connect_handshake (set_transport_connected c (snd (cy_connect cy))) (cy_stopping1 cy) (cy_sent cy) (cy_stopping2 cy)
          = (SAVVY_OK, c2, ev2)
        \<and> receive_loop (cy_turns cy) (c2\<lparr>mc_reconnect_tracker := \<lparr>has_connected_before = True\<rparr>\<rparr>) = (c', ev4, left)
        \<and> evs = [Ev_Transport (tr_impl (snd (cy_connect cy)))] @ ev2
            @ [Ev_On_Connected (has_connected_before (mc_reconnect_tracker c2))] @ ev4)"

lemma tracker_on_connected:
  "savvy_ipc_reconnect_tracker_on_connected t (Some \<lparr>request_config = True, request_device = True, rc_user_data = 0\<rparr>) = (t', calls)
   \<Longrightarrow> t' = \<lparr>has_connected_before = True\<rparr> \<and> (mark_reconnect calls \<longleftrightarrow> has_connected_before t)"
  by (cases t) (auto simp: savvy_ipc_reconnect_tracker_on_connected_def mark_reconnect_def split: if_splits)

lemma online_monitor:
  assumes "mgr_online cy c c' evs left" and "mc_connection_state c = SENSOR_MGR_IPC_DISCONNECTED"
  shows "mgr_monitor (has_connected_before (mc_reconnect_tracker c), Resting) evs = Some (True, Online (tr_impl (snd (cy_connect cy))))
     \<and> mc_transport c' = snd (cy_connect cy) \<and> has_connected_before (mc_reconnect_tracker c') \<and> mc_config c' = mc_config c
     \<and> mc_connection_state c' \<noteq> SENSOR_MGR_IPC_DISCONNECTED"
proof -
  let ?c1 = "set_transport_connected c (snd (cy_connect cy))"
  obtain c2 ev2 ev4 where shake: "send_connect_handshake ?c1 (cy_stopping1 cy) (cy_sent cy) (cy_stopping2 cy) = (SAVVY_OK, c2, ev2)"
    and loop: "receive_loop (cy_turns cy) (c2\<lparr>mc_reconnect_tracker := \<lparr>has_connected_before = True\<rparr>\<rparr>) = (c', ev4, left)"
    and evs: "evs = [Ev_Transport (tr_impl (snd (cy_connect cy)))] @ ev2
            @ [Ev_On_Connected (has_connected_before (mc_reconnect_tracker c2))] @ ev4"
    using assms(1) by (auto simp: mgr_online_def)
  note h = handshake_cases [OF shake, simplified set_transport_connected_def, simplified]
  have "mc_connection_state (c2\<lparr>mc_reconnect_tracker := \<lparr>has_connected_before = True\<rparr>\<rparr>) \<noteq> SENSOR_MGR_IPC_DISCONNECTED" using h by simp
  from receive_loop_monitor [OF loop this, of True "tr_impl (snd (cy_connect cy))"] h show ?thesis
    by (auto simp: evs)
qed

lemma receive_loop_waits: "receive_loop ts c = (c', evs, False) \<Longrightarrow> \<forall>t\<in>set ts. \<not> rt_shutdown t"
  by (induction ts arbitrary: c c' evs) (auto simp: Let_def split: if_splits prod.splits)

text \<open>The ways one turn of the outer loop can go.\<close>

lemma worker_turn_cases:
  fixes fin :: bool
  assumes "mgr_worker_main (cy # cys) c = (c', evs, fin)"
  obtains (stop) "close_transport c = (c', evs)" and "fin"
    | (backoff) evs' where "fst (cy_connect cy) \<noteq> SAVVY_OK" "mgr_worker_main cys c = (c', evs', fin)"
        "evs = Ev_Backoff (mg_reconnect_backoff_ms (mc_config c)) # evs'" "\<not> cy_shutdown cy"
    | (late_stop) c1 c2 evs1 evs2 where "fst (cy_connect cy) = SAVVY_OK" "c1 = set_transport_connected c (snd (cy_connect cy))"
        "close_transport c1 = (c2, evs1)" "close_transport c2 = (c', evs2)"
        "evs = Ev_Transport (tr_impl (snd (cy_connect cy))) # evs1 @ evs2" "fin"
    | (refused) c1 c2 c3 st ev2 ev3 evs' where "fst (cy_connect cy) = SAVVY_OK" "c1 = set_transport_connected c (snd (cy_connect cy))"
        "send_connect_handshake c1 (cy_stopping1 cy) (cy_sent cy) (cy_stopping2 cy) = (st, c2, ev2)" "st \<noteq> SAVVY_OK"
        "close_transport c2 = (c3, ev3)" "mgr_worker_main cys c3 = (c', evs', fin)"
        "evs = Ev_Transport (tr_impl (snd (cy_connect cy))) # ev2 @ ev3 @ notify_disconnected c3
           @ Ev_Backoff (mg_reconnect_backoff_ms (mc_config c)) # evs'" "\<not> cy_shutdown cy"
    | (online) c4 c5 evs4 ev5 evs' where "fst (cy_connect cy) = SAVVY_OK"
        "cb_on_connected (mg_callbacks (mc_config c)) \<Longrightarrow> mgr_online cy c c4 evs4 True" "close_transport c4 = (c5, ev5)"
        "mgr_worker_main cys c5 = (c', evs', fin)" "evs = evs4 @ ev5 @ notify_disconnected c5 @ evs'" "\<not> cy_shutdown cy"
    | (busy) "fst (cy_connect cy) = SAVVY_OK" "cb_on_connected (mg_callbacks (mc_config c)) \<Longrightarrow> mgr_online cy c c' evs False" "\<not> fin"
        "\<forall>t\<in>set (cy_turns cy). \<not> rt_shutdown t"
proof (cases "cy_shutdown cy \<or> fst (cy_connect cy) = SAVVY_ERR_CANCELLED")
  case True
  obtain c1 evs1 where close: "close_transport c = (c1, evs1)" by fastforce
  show thesis by (intro stop; use assms True in \<open>auto simp: Let_def close split: if_splits\<close>)
next
  case go: False
  let ?c1 = "set_transport_connected c (snd (cy_connect cy))"
  obtain st c2 ev2 where shake: "send_connect_handshake ?c1 (cy_stopping1 cy) (cy_sent cy) (cy_stopping2 cy) = (st, c2, ev2)"
    by (metis prod_cases3)
  consider (failed) "fst (cy_connect cy) \<noteq> SAVVY_OK" | (late) "fst (cy_connect cy) = SAVVY_OK" "cy_shutdown_after cy"
    | (no) "fst (cy_connect cy) = SAVVY_OK" "\<not> cy_shutdown_after cy" "st \<noteq> SAVVY_OK"
    | (yes) "fst (cy_connect cy) = SAVVY_OK" "\<not> cy_shutdown_after cy" "st = SAVVY_OK" by blast
  then show thesis
  proof cases
    case failed
    obtain c4 evs4 fin4 where more: "mgr_worker_main cys c = (c4, evs4, fin4)" by (metis prod_cases3)
    show thesis by (intro backoff [of "tl evs"]; use assms go failed in \<open>auto simp: Let_def more\<close>)
  next
    case late
    obtain c3 evs1 where close1: "close_transport ?c1 = (c3, evs1)" by fastforce
    obtain c4 evs2 where close2: "close_transport c3 = (c4, evs2)" by fastforce
    show thesis
      by (rule late_stop [OF late(1) refl close1]; use assms go late in \<open>auto simp: Let_def close1 close2\<close>)
  next
    case no
    obtain c3 ev3 where close: "close_transport c2 = (c3, ev3)" by fastforce
    obtain c4 evs4 fin4 where more: "mgr_worker_main cys c3 = (c4, evs4, fin4)" by (metis prod_cases3)
    show thesis
      by (rule refused [OF no(1) refl shake no(3) close]; use assms go no in \<open>auto simp: Let_def shake close more\<close>)
  next
    case yes
    obtain tr calls where tr: "savvy_ipc_reconnect_tracker_on_connected (mc_reconnect_tracker c2)
        (Some \<lparr>request_config = True, request_device = True, rc_user_data = 0\<rparr>) = (tr, calls)" by fastforce
    note t = tracker_on_connected [OF tr]
    obtain c4 ev4 left where loop: "receive_loop (cy_turns cy) (c2\<lparr>mc_reconnect_tracker := \<lparr>has_connected_before = True\<rparr>\<rparr>) = (c4, ev4, left)"
      by (metis prod_cases3)
    obtain c5 ev5 where close: "close_transport c4 = (c5, ev5)" by fastforce
    obtain c6 evs6 fin6 where more: "mgr_worker_main cys c5 = (c6, evs6, fin6)" by (metis prod_cases3)
    let ?evs = "\<lambda>e. [Ev_Transport (tr_impl (snd (cy_connect cy)))] @ ev2 @ e @ ev4"
    let ?on = "if cb_on_connected (mg_callbacks (mc_config c)) then [Ev_On_Connected (has_connected_before (mc_reconnect_tracker c2))] else []"
    show thesis
    proof (cases left)
      case True
      show thesis
        by (rule online [OF yes(1) _ close, of "?evs ?on"];
            use assms go yes True t in \<open>auto simp: Let_def shake tr loop close more mgr_online_def\<close>)
    next
      case False
      have "evs = ?evs ?on" "c' = c4" "\<not> fin" using assms go yes False t by (auto simp: Let_def shake tr loop)
      moreover have "mgr_online cy c c4 (?evs ?on) False" if "cb_on_connected (mg_callbacks (mc_config c))"
        using that shake loop yes False by (auto simp: mgr_online_def)
      moreover have "\<forall>t\<in>set (cy_turns cy). \<not> rt_shutdown t" by (rule receive_loop_waits) (use loop False in simp)
      ultimately show thesis by (intro busy [OF yes(1)]) simp_all
    qed
  qed
qed

lemma notify_disconnected_set:
  "cb_on_disconnected (mg_callbacks (mc_config c)) \<Longrightarrow> notify_disconnected c = [Ev_On_Disconnected]"
  by (simp add: notify_disconnected_def)

text \<open>The transport of a turn, once opened, ends closed in every branch.\<close>

lemma close_monitor:
  assumes "close_transport c = (c', evs)" and "mc_connection_state c \<noteq> SENSOR_MGR_IPC_DISCONNECTED"
    and "0 \<le> tr_impl (mc_transport c)"
    and "ph \<in> {Opened (tr_impl (mc_transport c)), Refused_Connect (tr_impl (mc_transport c)),
           Shaken (tr_impl (mc_transport c)), Online (tr_impl (mc_transport c))}"
  shows "mgr_monitor (r, ph) evs = Some (r, Closed)" and "mc_connection_state c' = SENSOR_MGR_IPC_DISCONNECTED"
    and "mc_config c' = mc_config c" and "mc_reconnect_tracker c' = mc_reconnect_tracker c"
  using assms close_transport_open [OF assms(2,3)] by auto

text \<open>The worker, on any connector whose transports are open.\<close>

lemma worker_monitor:
  assumes "cb_on_connected (mg_callbacks (mc_config c))" and "cb_on_disconnected (mg_callbacks (mc_config c))"
    and "mc_connection_state c = SENSOR_MGR_IPC_DISCONNECTED"
    and "\<forall>cy\<in>set cys. fst (cy_connect cy) = SAVVY_OK \<longrightarrow> 0 \<le> tr_impl (snd (cy_connect cy))"
    and "mgr_worker_main cys c = (c', evs, fin)"
  shows "\<exists>ph. mgr_monitor (has_connected_before (mc_reconnect_tracker c), Resting) evs
           = Some (has_connected_before (mc_reconnect_tracker c'), ph)
       \<and> (fin \<longrightarrow> ph \<in> {Resting, Closed} \<and> mc_connection_state c' = SENSOR_MGR_IPC_DISCONNECTED)
       \<and> ((\<exists>cy\<in>set cys. cy_shutdown cy) \<and> (\<forall>cy\<in>set cys. \<exists>t\<in>set (cy_turns cy). rt_shutdown t) \<longrightarrow> fin)"
  using assms
proof (induction cys arbitrary: c c' evs fin)
  case (Cons cy cys)
  let ?fd = "tr_impl (snd (cy_connect cy))" and ?r = "has_connected_before (mc_reconnect_tracker c)"
  have fds: "\<forall>cy\<in>set cys. fst (cy_connect cy) = SAVVY_OK \<longrightarrow> 0 \<le> tr_impl (snd (cy_connect cy))"
    and fd: "fst (cy_connect cy) = SAVVY_OK \<Longrightarrow> 0 \<le> ?fd" using Cons.prems(4) by simp_all
  from Cons.prems(5) show ?case
  proof (cases rule: worker_turn_cases)
    case stop
    with Cons.prems(3) show ?thesis by simp
  next
    case (backoff evs')
    with Cons.IH [OF Cons.prems(1-3) fds backoff(2)] show ?thesis by auto
  next
    case (late_stop c1 c2 evs1 evs2)
    have c1: "mc_connection_state c1 \<noteq> SENSOR_MGR_IPC_DISCONNECTED" "tr_impl (mc_transport c1) = ?fd"
      "mc_reconnect_tracker c1 = mc_reconnect_tracker c" by (simp_all add: late_stop(2) set_transport_connected_def)
    note close = close_monitor [OF late_stop(3) c1(1), where ph = "Opened ?fd", unfolded c1(2), OF fd [OF late_stop(1)]]
    from close(2) late_stop(4) have "evs2 = []" "c' = c2" by simp_all
    with close late_stop c1 show ?thesis by simp
  next
    case (refused c1 c2 c3 st ev2 ev3 evs')
    have c1: "mc_connection_state c1 = SENSOR_MGR_IPC_TRANSPORT_CONNECTED" "mc_transport c1 = snd (cy_connect cy)"
      "mc_reconnect_tracker c1 = mc_reconnect_tracker c" "mc_config c1 = mc_config c"
      by (simp_all add: refused(2) set_transport_connected_def)
    note h = handshake_cases [OF refused(3) c1(1)]
    obtain ph where ph: "mgr_monitor (?r, Opened ?fd) ev2 = Some (?r, ph)" "ph \<in> {Opened ?fd, Refused_Connect ?fd, Shaken ?fd, Online ?fd}"
      using h by (cases "cy_sent cy = SAVVY_OK") auto
    have t2: "mc_transport c2 = snd (cy_connect cy)" using h c1 by simp
    note close = close_monitor [OF refused(5), where ph = ph, unfolded t2, OF _ fd [OF refused(1)] ph(2)]
    have c2: "mc_connection_state c2 \<noteq> SENSOR_MGR_IPC_DISCONNECTED" using h by simp
    have same: "mc_config c3 = mc_config c" "mc_reconnect_tracker c3 = mc_reconnect_tracker c"
      using close(3,4) [OF c2] h c1 by simp_all
    show ?thesis
      using Cons.IH [of c3, unfolded same, OF Cons.prems(1,2) close(2) [OF c2] fds refused(6)] Cons.prems(2) same refused(8)
      by (auto simp: refused(7) monitor_append [OF ph(1)] monitor_append [OF close(1) [OF c2]] notify_disconnected_set)
  next
    case (online c4 c5 evs4 ev5 evs')
    note on = online_monitor [OF online(2) [OF Cons.prems(1)] Cons.prems(3)]
    then have t4: "mc_transport c4 = snd (cy_connect cy)" and c4: "mc_connection_state c4 \<noteq> SENSOR_MGR_IPC_DISCONNECTED" by simp_all
    note close = close_monitor [OF online(3) c4, where ph = "Online ?fd", unfolded t4, OF fd [OF online(1)]]
    have same: "mc_config c5 = mc_config c" "has_connected_before (mc_reconnect_tracker c5)" using close(3,4) on by simp_all
    have go: "mgr_monitor (?r, Resting) (evs4 @ ev5 @ notify_disconnected c5 @ evs') = mgr_monitor (True, Resting) evs'"
      using on Cons.prems(2) same close(1) by (simp add: monitor_append notify_disconnected_set)
    show ?thesis
      using Cons.IH [of c5, OF _ _ close(2) fds online(4)] Cons.prems(1,2) same online(6) by (auto simp: online(5) go)
  next
    case busy
    from online_monitor [OF busy(2) [OF Cons.prems(1)] Cons.prems(3)] busy(3,4) show ?thesis by auto
  qed
qed simp

text \<open>
  What the worker relies on: a connector that reports success has opened a transport. \<open>answers\<close> is
  what the system answers during one call.
\<close>

definition connects_by :: "('e \<Rightarrow> (savvy_status \<times> savvy_ipc_transport option \<times> fd_call list) option) \<Rightarrow> mgr_cycle \<Rightarrow> bool" where
  "connects_by connector cy \<longleftrightarrow>
     (\<exists>answers tr calls. connector answers = Some (fst (cy_connect cy), tr, calls) \<and> (\<forall>t. tr = Some t \<longrightarrow> snd (cy_connect cy) = t))"

lemma connects_byI:
  "connector answers = Some (st, Some t, calls) \<Longrightarrow> cy_connect cy = (st, t) \<Longrightarrow> connects_by connector cy"
  by (auto simp: connects_by_def)

locale ipc_connector =
  fixes connector :: "'e \<Rightarrow> (savvy_status \<times> savvy_ipc_transport option \<times> fd_call list) option"
  assumes opened: "connector answers = Some (SAVVY_OK, tr, calls) \<Longrightarrow> \<exists>t. tr = Some t \<and> 0 \<le> tr_impl t"
begin

lemma cycle_open:
  assumes "connects_by connector cy" and "fst (cy_connect cy) = SAVVY_OK"
  shows "0 \<le> tr_impl (snd (cy_connect cy))"
  using assms opened unfolding connects_by_def by fastforce

lemma worker_protocol:
  assumes "cb_on_connected (mg_callbacks (mc_config c))" and "cb_on_disconnected (mg_callbacks (mc_config c))"
    and "mc_connection_state c = SENSOR_MGR_IPC_DISCONNECTED"
    and "\<forall>cy\<in>set cys. connects_by connector cy"
    and "mgr_worker_main cys c = (c', evs, fin)"
  shows "\<exists>ph. mgr_monitor (has_connected_before (mc_reconnect_tracker c), Resting) evs
           = Some (has_connected_before (mc_reconnect_tracker c'), ph)
       \<and> (fin \<longrightarrow> ph \<in> {Resting, Closed} \<and> mc_connection_state c' = SENSOR_MGR_IPC_DISCONNECTED)
       \<and> ((\<exists>cy\<in>set cys. cy_shutdown cy) \<and> (\<forall>cy\<in>set cys. \<exists>t\<in>set (cy_turns cy). rt_shutdown t) \<longrightarrow> fin)"
  by (rule worker_monitor [OF assms(1-3) _ assms(5)]) (use assms(4) cycle_open in blast)

end

interpretation real: ipc_connector "sensor_mgr_ipc_real_connector ctx timeout cancel"
  by unfold_locales
    (auto simp: sensor_mgr_ipc_real_connector_def savvy_ipc_client_connect_cancelable_def savvy_ipc_fd_transport_init_def Let_def
      split: option.splits prod.splits if_splits connect_result.splits)

text \<open>
  C8: the worker keeps the connection protocol. With the real connector,
  whatever the system answers and whatever the transport and a concurrent \<^verbatim>\<open>stop\<close> do, the events of the worker are accepted by the monitor: it holds one
  transport at a time, sends CONNECT before anything else on it, reports \<^verbatim>\<open>on_connected\<close> only after
  CONNECT was sent and with \<^verbatim>\<open>was_reconnect\<close> false exactly the first time since the tracker was
  initialised, delivers messages only between \<^verbatim>\<open>on_connected\<close> and the close and only ones the catalog
  accepts, and shuts down and closes each transport exactly once before it reports
  \<^verbatim>\<open>on_disconnected\<close>. When it finishes no transport is open, and it does finish once it sees the
  shutdown request, at the latest in the receive loop.
\<close>

theorem mgr_worker_protocol:
  assumes "cb_on_connected (mg_callbacks (mc_config c))" and "cb_on_disconnected (mg_callbacks (mc_config c))"
    and "mc_connection_state c = SENSOR_MGR_IPC_DISCONNECTED"
    and "\<forall>cy\<in>set cys. connects_by (sensor_mgr_ipc_real_connector ctx timeout cancel) cy"
    and "mgr_worker_main cys c = (c', evs, fin)"
  shows "\<exists>ph. mgr_monitor (has_connected_before (mc_reconnect_tracker c), Resting) evs
           = Some (has_connected_before (mc_reconnect_tracker c'), ph)
       \<and> (fin \<longrightarrow> ph \<in> {Resting, Closed} \<and> mc_connection_state c' = SENSOR_MGR_IPC_DISCONNECTED)
       \<and> ((\<exists>cy\<in>set cys. cy_shutdown cy) \<and> (\<forall>cy\<in>set cys. \<exists>t\<in>set (cy_turns cy). rt_shutdown t) \<longrightarrow> fin)"
  by (rule real.worker_protocol [OF assms])

text \<open>One connection, and the shutdown seen in its receive loop.\<close>

definition sample_cycle :: "bool \<Rightarrow> mgr_cycle" where
  "sample_cycle shutdown = \<lparr>cy_shutdown = shutdown, cy_connect = (SAVVY_OK, \<lparr>tr_impl = 3\<rparr>), cy_shutdown_after = False,
     cy_stopping1 = False, cy_sent = SAVVY_OK, cy_stopping2 = False,
     cy_turns = [\<lparr>rt_shutdown = True, rt_stopping = False, rt_status = SAVVY_OK, rt_message = [], rt_rest = []\<rparr>]\<rparr>"

theorem mgr_worker_protocol_witness:
  "\<exists>c' evs. mgr_worker_main [sample_cycle False, sample_cycle True] sample_mgr_client = (c', evs, True)
     \<and> mgr_monitor (False, Resting) evs = Some (True, Resting)
     \<and> Ev_Transport 3 \<in> set evs \<and> mc_connection_state c' = SENSOR_MGR_IPC_DISCONNECTED"
proof -
  let ?evs = "[Ev_Transport 3, Ev_Send (bare_envelope SENSOR_MGR_IPC_ACTION_CONNECT) SAVVY_OK, Ev_On_Connected False,
     Ev_Fd (Sys_shutdown 3), Ev_Fd (Sys_close 3), Ev_On_Disconnected]"
  let ?c = "sample_mgr_client\<lparr>mc_reconnect_tracker := \<lparr>has_connected_before = True\<rparr>\<rparr>"
  obtain fin where run: "mgr_worker_main [sample_cycle False, sample_cycle True] sample_mgr_client = (?c, ?evs, fin)"
    by (simp add: sample_mgr_client_def sample_cycle_def send_connect_handshake_def handshake_begin_def handshake_end_def connect_envelope_built set_transport_connected_def
        close_transport_def fd_transport_close_def notify_disconnected_def savvy_ipc_reconnect_tracker_on_connected_def
        savvy_ipc_reconnect_tracker_init_def mark_reconnect_def)
  let ?connect = "sensor_mgr_ipc_real_connector (Some \<lparr>socket_path = Some ''/run/savvy.sock''\<rparr>) 1000 None"
  have answer: "?connect (\<lparr>monotonic_ns = 0\<rparr>, \<lambda>_. \<lparr>turn_check = \<lparr>monotonic_ns = 0\<rparr>, turn_now = \<lparr>monotonic_ns = 0\<rparr>, turn_poll = \<lambda>_. Poll_Timeout\<rparr>,
      \<lparr>os_socket = 3, os_getfl = 2, os_set_nonblock_ok = True, os_connect = Connected,
      os_getsockopt_ok = True, os_so_error = 0, os_restore_ok = True\<rparr>, 0, 0) = Some (SAVVY_OK, Some \<lparr>tr_impl = 3\<rparr>, [])"
    by (simp add: sensor_mgr_ipc_real_connector_def savvy_ipc_client_connect_cancelable_def
        savvy_ipc_cancel_source_is_cancelled_def savvy_ipc_fd_transport_init_def SUN_PATH_SIZE_def)
  have conn: "\<forall>cy\<in>set [sample_cycle False, sample_cycle True]. connects_by ?connect cy"
    by (auto intro: connects_byI [where connector = ?connect, OF answer] simp: sample_cycle_def)
  have "\<exists>ph. mgr_monitor (False, Resting) ?evs = Some (True, ph) \<and> fin"
    using mgr_worker_protocol [OF _ _ _ conn run]
    by (auto simp: sample_mgr_client_def sample_cycle_def savvy_ipc_reconnect_tracker_init_def)
  with run show ?thesis
    by (intro exI [of _ ?c] exI [of _ ?evs]) (simp add: sample_mgr_client_def)
qed

end
