(* ===== verification/Mgr_Ipc_System.thy ===== *)
theory Mgr_Ipc_System
  imports Mgr_Ipc_Client
begin

text \<open>
  \<^verbatim>\<open>src/features/mgr_ipc/mgr_ipc_client.c\<close>, the lifecycle side: the registry of live clients, the pins of
  the public functions, \<^verbatim>\<open>start\<close>, \<^verbatim>\<open>stop\<close>, \<^verbatim>\<open>destroy\<close> and the end of the worker, run by any number of
  threads on any number of clients. A client lives at an address of a heap that is reused after
  \<^verbatim>\<open>free\<close>; each section under the lifecycle or registry lock is one function, and the threads interleave
  between sections. Every access to a client that is not allocated, every transport call on a
  transport that is not open and every use of a cancel source that is not initialised is the
  outcome \<open>Crash\<close>.
\<close>

section \<open>The registry\<close>

text \<open>
  An address is a number, NULL is 0; the list is \<^verbatim>\<open>g_registry_clients\<close> followed along \<^verbatim>\<open>registry_next\<close>.
  Following the list reads each client passed; \<open>None\<close> is an access to freed storage.
\<close>

type_synonym mgr_heap = "nat \<Rightarrow> sensor_mgr_ipc_client option"

definition registry_add :: "nat \<Rightarrow> nat list \<Rightarrow> nat list" where
  "registry_add client registry = client # registry"

fun registry_enter :: "mgr_heap \<Rightarrow> nat list \<Rightarrow> nat \<Rightarrow> (bool \<times> mgr_heap) option" where
  "registry_enter h [] candidate = Some (False, h)"
| "registry_enter h (current # rest) candidate =
     (case h current of
        None \<Rightarrow> None
      | Some c \<Rightarrow>
          if current = candidate then
            (if mc_destroy_requested c then Some (False, h)
             else Some (True, h(current \<mapsto> c\<lparr>mc_api_callers := mc_api_callers c + 1\<rparr>)))
          else registry_enter h rest candidate)"

definition client_enter :: "mgr_heap \<Rightarrow> nat list \<Rightarrow> nat \<Rightarrow> (bool \<times> mgr_heap) option" where
  "client_enter h registry candidate = (if candidate = 0 then Some (False, h) else registry_enter h registry candidate)"

definition client_leave :: "sensor_mgr_ipc_client \<Rightarrow> sensor_mgr_ipc_client" where
  "client_leave c = c\<lparr>mc_api_callers := mc_api_callers c - 1\<rparr>"

text \<open>Whether the wait is over.\<close>

definition wait_for_other_api_callers :: "sensor_mgr_ipc_client \<Rightarrow> nat \<Rightarrow> bool" where
  "wait_for_other_api_callers c self_count \<longleftrightarrow> \<not> mc_api_callers c > self_count"

text \<open>The unlinking after the wait.\<close>

fun registry_unlink :: "mgr_heap \<Rightarrow> nat list \<Rightarrow> nat \<Rightarrow> nat list option" where
  "registry_unlink h [] client = Some []"
| "registry_unlink h (current # rest) client =
     (case h current of
        None \<Rightarrow> None
      | Some c \<Rightarrow> if current = client then Some rest else map_option ((#) current) (registry_unlink h rest client))"

text \<open>\<open>None\<close> while it waits; then the new list, or a fault.\<close>

definition registry_remove_and_wait :: "mgr_heap \<Rightarrow> nat list \<Rightarrow> nat \<Rightarrow> sensor_mgr_ipc_client \<Rightarrow> nat list option option" where
  "registry_remove_and_wait h registry client c =
     (if mc_api_callers c \<noteq> 0 then None else Some (registry_unlink h registry client))"

section \<open>Sections under the lifecycle lock\<close>

text \<open>\<open>self\<close> is the calling thread; the flags are the result and \<^verbatim>\<open>out_from_worker\<close>.\<close>

definition client_claim_destroy :: "nat \<Rightarrow> sensor_mgr_ipc_client \<Rightarrow> bool \<times> bool \<times> sensor_mgr_ipc_client" where
  "client_claim_destroy self c =
     (let from_worker = (mc_started c \<and> self = mc_worker_thread c)
      in if mc_destroy_requested c then (False, False, c)
         else (True, from_worker, c\<lparr>mc_destroy_requested := True, mc_destroy_from_worker := from_worker\<rparr>))"

definition client_unclaim_destroy :: "sensor_mgr_ipc_client \<Rightarrow> sensor_mgr_ipc_client" where
  "client_unclaim_destroy c = c\<lparr>mc_destroy_requested := False, mc_destroy_from_worker := False\<rparr>"

definition client_destroy_is_requested :: "sensor_mgr_ipc_client \<Rightarrow> bool" where
  "client_destroy_is_requested c = mc_destroy_requested c"

definition is_shutdown_requested :: "sensor_mgr_ipc_client \<Rightarrow> bool" where
  "is_shutdown_requested c = mc_shutdown_requested c"

text \<open>Whether the cancel source is to be destroyed.\<close>

definition worker_finish_claim :: "sensor_mgr_ipc_client \<Rightarrow> bool \<times> sensor_mgr_ipc_client" where
  "worker_finish_claim c =
     (if mc_cancel_initialized c then (True, c\<lparr>mc_cancel_initialized := False\<rparr>) else (False, c))"

text \<open>Whether the worker has to finalize.\<close>

definition worker_finish_publish :: "sensor_mgr_ipc_client \<Rightarrow> bool \<times> sensor_mgr_ipc_client" where
  "worker_finish_publish c =
     (let c1 = c\<lparr>mc_terminal_cleanup_complete := True\<rparr>;
          c2 = (if mc_worker_detached c1 then c1\<lparr>mc_started := False, mc_stop_complete := True\<rparr> else c1)
      in (mc_destroy_from_worker c2, c2))"

text \<open>
  The first section of \<^verbatim>\<open>stop_impl\<close>: how it goes on, the client, and the cancel source it cancels.
  Both waits for \<^verbatim>\<open>stop_complete\<close> are the same.
\<close>

datatype stop_next = Stop_Not_Started | Stop_Self | Stop_Wait_Complete | Stop_Join_Worker nat

definition stop_request ::
  "nat \<Rightarrow> sensor_mgr_ipc_client \<Rightarrow> stop_next \<times> sensor_mgr_ipc_client \<times> savvy_ipc_cancel_source option" where
  "stop_request self c =
     (if \<not> mc_started c then (Stop_Not_Started, c, None)
      else
        let cancel = (if \<not> mc_shutdown_requested c \<and> mc_cancel_initialized c then Some (mc_cancel_source c) else None);
            c1 = c\<lparr>mc_shutdown_requested := True\<rparr>
        in if self = mc_worker_thread c1 then (Stop_Self, c1, cancel)
           else if mc_worker_detached c1 then (Stop_Wait_Complete, c1, cancel)
           else if mc_join_in_progress c1 then (Stop_Wait_Complete, c1, cancel)
           else (Stop_Join_Worker (mc_worker_thread c1), c1\<lparr>mc_join_in_progress := True\<rparr>, cancel))"

text \<open>The last section, after the join.\<close>

definition stop_joined :: "sensor_mgr_ipc_client \<Rightarrow> savvy_status \<times> sensor_mgr_ipc_client" where
  "stop_joined c =
     (if \<not> mc_terminal_cleanup_complete c then (SAVVY_ERR_UNKNOWN, c)
      else (SAVVY_OK, c\<lparr>mc_started := False, mc_stop_complete := True, mc_join_in_progress := False\<rparr>))"

datatype start_next = Start_Running | Start_Stopped | Start_Self | Start_Reap

definition start_check :: "nat \<Rightarrow> sensor_mgr_ipc_client \<Rightarrow> start_next" where
  "start_check self c =
     (if mc_started c \<and> \<not> mc_shutdown_requested c then Start_Running
      else if \<not> mc_started c then Start_Stopped
      else if self = mc_worker_thread c then Start_Self else Start_Reap)"

text \<open>
  The second section of \<^verbatim>\<open>start\<close>: \<open>Inl None\<close> goes round the loop again, \<open>Inl (Some st)\<close> returns \<open>st\<close>;
  else the new worker. \<open>init\<close> is the result of initialising the cancel source, \<open>created\<close> the thread
  \<^verbatim>\<open>pthread_create\<close> made.
\<close>

definition start_commit ::
  "savvy_status \<times> savvy_ipc_cancel_source \<Rightarrow> nat option \<Rightarrow> sensor_mgr_ipc_client
     \<Rightarrow> (savvy_status option + nat) \<times> sensor_mgr_ipc_client" where
  "start_commit init created c =
     (if mc_started c then (Inl None, c)
      else if client_destroy_is_requested c then (Inl (Some SAVVY_ERR_INVALID_ARGUMENT), c)
      else if fst init \<noteq> SAVVY_OK then (Inl (Some (fst init)), c\<lparr>mc_cancel_source := snd init\<rparr>)
      else
        let c1 = c\<lparr>mc_cancel_source := snd init, mc_cancel_initialized := True,
                   mc_reconnect_tracker := savvy_ipc_reconnect_tracker_init, mc_shutdown_requested := False,
                   mc_stop_complete := False, mc_terminal_cleanup_complete := False, mc_worker_detached := False,
                   mc_join_in_progress := False\<rparr>
        in case created of
             None \<Rightarrow> (Inl (Some SAVVY_ERR_UNKNOWN),
                 c1\<lparr>mc_cancel_initialized := False, mc_stop_complete := True,
                    mc_cancel_source := fst (savvy_ipc_cancel_source_destroy (mc_cancel_source c1))\<rparr>)
           | Some w \<Rightarrow> (Inr w, c1\<lparr>mc_worker_thread := w, mc_started := True\<rparr>))"

text \<open>The section of a \<^verbatim>\<open>destroy\<close> made by the worker: whether a join is in progress, and the thread it detaches.\<close>

definition destroy_self :: "sensor_mgr_ipc_client \<Rightarrow> bool \<times> sensor_mgr_ipc_client \<times> nat option" where
  "destroy_self c =
     (if mc_join_in_progress c then (True, c, None)
      else if \<not> mc_worker_detached c then (False, c\<lparr>mc_worker_detached := True\<rparr>, Some (mc_worker_thread c))
      else (False, c, None))"

text \<open>
  \<open>inits\<close> tells which of the four locks and condition variables can be initialised; the result
  counts the ones destroyed again.
\<close>

definition sensor_mgr_ipc_client_create ::
  "bool \<Rightarrow> sensor_mgr_ipc_config option \<Rightarrow> bool \<Rightarrow> (nat \<Rightarrow> bool) \<Rightarrow> savvy_status \<times> sensor_mgr_ipc_client option \<times> nat" where
  "sensor_mgr_ipc_client_create out_null config alloc_ok inits =
     (case config of
        None \<Rightarrow> (SAVVY_ERR_INVALID_ARGUMENT, None, 0)
      | Some cfg \<Rightarrow>
          if out_null \<or> \<not> mg_connector cfg then (SAVVY_ERR_INVALID_ARGUMENT, None, 0)
          else if \<not> alloc_ok then (SAVVY_ERR_OUT_OF_MEMORY, None, 0)
          else if \<not> inits 0 then (SAVVY_ERR_UNKNOWN, None, 0)
          else if \<not> inits 1 then (SAVVY_ERR_UNKNOWN, None, 1)
          else if \<not> inits 2 then (SAVVY_ERR_UNKNOWN, None, 2)
          else if \<not> inits 3 then (SAVVY_ERR_UNKNOWN, None, 3)
          else (SAVVY_OK,
            Some \<lparr>mc_config = cfg, mc_cancel_source = \<lparr>cancel_read_fd = 0, cancel_write_fd = 0\<rparr>,
              mc_reconnect_tracker = \<lparr>has_connected_before = False\<rparr>, mc_transport = \<lparr>tr_impl = 0\<rparr>,
              mc_connection_state = SENSOR_MGR_IPC_DISCONNECTED, mc_started = False, mc_shutdown_requested = False,
              mc_stop_complete = True, mc_terminal_cleanup_complete = True, mc_cancel_initialized = False,
              mc_worker_detached = False, mc_join_in_progress = False, mc_worker_thread = 0,
              mc_destroy_requested = False, mc_destroy_from_worker = False, mc_api_callers = 0\<rparr>, 0))"

section \<open>Threads\<close>

text \<open>What \<^verbatim>\<open>stop_impl\<close> returns to.\<close>

datatype stop_caller = By_Stop | By_Start | By_Destroy | By_Destroy_Self

datatype api_pc =
    At_Start nat
  | At_Start_Recheck nat
  | At_Start_Commit nat
  | At_Send nat
  | At_Send_Io nat
  | At_Query nat
  | At_Stop nat stop_caller
  | At_Stop_Mark_Self nat stop_caller
  | At_Stop_Wait nat stop_caller
  | At_Stop_Mark nat stop_caller nat
  | At_Stop_Join nat stop_caller nat
  | At_Stop_Joined nat stop_caller
  | At_Claim nat
  | At_Self nat
  | At_Unclaim nat
  | At_Wait nat
  | At_Leave nat
  | At_Leave_Destroy nat
  | At_Remove nat
  | At_Free nat

datatype close_next = Close_Exit | Close_Backoff | Close_Again

datatype worker_pc =
    W_Top | W_Connect | W_Connected savvy_ipc_transport | W_Check | W_Shake_Begin | W_Shake_Send | W_Shake_End savvy_status
  | W_On_Connected | W_Recv_Check | W_Recv_Lock | W_Recv_Io | W_On_Envelope | W_Close close_next
  | W_On_Disconnected bool | W_Backoff | W_Exit | W_Finish | W_Finish_Cancel | W_Publish | W_Remove | W_Free | W_Ended

datatype mgr_api = Api_Start | Api_Send | Api_Is_Connected | Api_Stop | Api_Destroy

text \<open>Answers of the system, the connector and the transport for one step.\<close>

record mgr_env =
  en_status :: savvy_status
  en_transport :: savvy_ipc_transport
  en_message :: bool
  en_pipe :: "(int \<times> int) option"
  en_fcntl :: "nat \<Rightarrow> bool"
  en_thread :: "nat option"

record mgr_sys =
  sy_heap :: mgr_heap
  sy_registry :: "nat list"
  sy_call :: "nat \<Rightarrow> api_pc option"
  sy_work :: "nat \<Rightarrow> (nat \<times> worker_pc) option"
  sy_io :: "nat \<Rightarrow> nat option"  \<comment> \<open>the thread that holds \<^verbatim>\<open>io_lock\<close> of a client\<close>

datatype outcome = Blocked | Crash | Next mgr_sys

definition api_go :: "mgr_sys \<Rightarrow> nat \<Rightarrow> nat \<Rightarrow> sensor_mgr_ipc_client \<Rightarrow> api_pc option \<Rightarrow> mgr_sys" where
  "api_go s t p c pc = s\<lparr>sy_heap := (sy_heap s)(p \<mapsto> c), sy_call := (sy_call s)(t := pc)\<rparr>"

definition work_go :: "mgr_sys \<Rightarrow> nat \<Rightarrow> nat \<Rightarrow> sensor_mgr_ipc_client \<Rightarrow> worker_pc \<Rightarrow> mgr_sys" where
  "work_go s t p c w = s\<lparr>sy_heap := (sy_heap s)(p \<mapsto> c), sy_work := (sy_work s)(t \<mapsto> (p, w))\<rparr>"

definition io_set :: "nat \<Rightarrow> nat option \<Rightarrow> mgr_sys \<Rightarrow> mgr_sys" where
  "io_set p holder s = s\<lparr>sy_io := (sy_io s)(p := holder)\<rparr>"

fun api_client :: "api_pc \<Rightarrow> nat" where
  "api_client (At_Start p) = p"
| "api_client (At_Start_Recheck p) = p"
| "api_client (At_Start_Commit p) = p"
| "api_client (At_Send p) = p"
| "api_client (At_Send_Io p) = p"
| "api_client (At_Query p) = p"
| "api_client (At_Stop p k) = p"
| "api_client (At_Stop_Mark_Self p k) = p"
| "api_client (At_Stop_Wait p k) = p"
| "api_client (At_Stop_Mark p k w) = p"
| "api_client (At_Stop_Join p k w) = p"
| "api_client (At_Stop_Joined p k) = p"
| "api_client (At_Claim p) = p"
| "api_client (At_Self p) = p"
| "api_client (At_Unclaim p) = p"
| "api_client (At_Wait p) = p"
| "api_client (At_Leave p) = p"
| "api_client (At_Leave_Destroy p) = p"
| "api_client (At_Remove p) = p"
| "api_client (At_Free p) = p"

fun api_entry :: "mgr_api \<Rightarrow> nat \<Rightarrow> api_pc" where
  "api_entry Api_Start p = At_Start p"
| "api_entry Api_Send p = At_Send p"
| "api_entry Api_Is_Connected p = At_Query p"
| "api_entry Api_Stop p = At_Stop p By_Stop"
| "api_entry Api_Destroy p = At_Claim p"

fun stop_return :: "stop_caller \<Rightarrow> nat \<Rightarrow> api_pc" where
  "stop_return By_Stop p = At_Leave p"
| "stop_return By_Start p = At_Start p"
| "stop_return By_Destroy p = At_Wait p"
| "stop_return By_Destroy_Self p = At_Leave p"

text \<open>\<^verbatim>\<open>start\<close> gives up when the reap fails; the other callers ignore the status.\<close>

definition stop_return_status :: "stop_caller \<Rightarrow> savvy_status \<Rightarrow> nat \<Rightarrow> api_pc" where
  "stop_return_status k st p = (if k = By_Start \<and> st \<noteq> SAVVY_OK then At_Leave p else stop_return k p)"

definition start_return :: "start_next \<Rightarrow> nat \<Rightarrow> api_pc" where
  "start_return n p =
     (case n of Start_Running \<Rightarrow> At_Leave p | Start_Stopped \<Rightarrow> At_Start_Recheck p
      | Start_Self \<Rightarrow> At_Leave p | Start_Reap \<Rightarrow> At_Stop p By_Start)"

definition stop_continue :: "stop_next \<Rightarrow> nat \<Rightarrow> stop_caller \<Rightarrow> api_pc" where
  "stop_continue n p k =
     (case n of Stop_Not_Started \<Rightarrow> stop_return k p | Stop_Self \<Rightarrow> At_Stop_Mark_Self p k
      | Stop_Wait_Complete \<Rightarrow> At_Stop_Wait p k | Stop_Join_Worker w \<Rightarrow> At_Stop_Mark p k w)"

section \<open>Steps\<close>

text \<open>One section of a public function, run by thread \<open>t\<close> on the client \<open>c\<close>.\<close>

fun api_step :: "mgr_env \<Rightarrow> nat \<Rightarrow> mgr_sys \<Rightarrow> sensor_mgr_ipc_client \<Rightarrow> api_pc \<Rightarrow> outcome" where
  "api_step e t s c (At_Start p) = Next (api_go s t p c (Some (start_return (start_check t c) p)))"
| "api_step e t s c (At_Start_Recheck p) =
     Next (api_go s t p c (Some (if client_destroy_is_requested c then At_Leave p else At_Start_Commit p)))"
| "api_step e t s c (At_Start_Commit p) =
     (case savvy_ipc_cancel_source_init (en_pipe e) (en_fcntl e) of
        (st, source, _) \<Rightarrow>
          (case start_commit (st, source) (en_thread e) c of
             (Inl None, c') \<Rightarrow> Next (api_go s t p c' (Some (At_Start p)))
           | (Inl (Some _), c') \<Rightarrow> Next (api_go s t p c' (Some (At_Leave p)))
           | (Inr w, c') \<Rightarrow> Next ((api_go s t p c' (Some (At_Leave p)))\<lparr>sy_work := (sy_work s)(w \<mapsto> (p, W_Top))\<rparr>)))"
| "api_step e t s c (At_Send p) =
     (if mc_connection_state c \<noteq> SENSOR_MGR_IPC_CONNECTED then Next (api_go s t p c (Some (At_Leave p)))
      else if sy_io s p \<noteq> None then Blocked
      else Next (io_set p (Some t) (api_go s t p c (Some (At_Send_Io p)))))"
| "api_step e t s c (At_Send_Io p) =
     (if mc_connection_state c = SENSOR_MGR_IPC_DISCONNECTED then Crash
      else Next (io_set p None (api_go s t p c (Some (At_Leave p)))))"
| "api_step e t s c (At_Query p) = Next (api_go s t p c (Some (At_Leave p)))"
| "api_step e t s c (At_Stop p k) =
     (case stop_request t c of
        (n, c', cancel) \<Rightarrow>
          if (case cancel of None \<Rightarrow> False | Some source \<Rightarrow> cancel_write_fd source < 0) then Crash
          else Next (api_go s t p c' (Some (stop_continue n p k))))"
| "api_step e t s c (At_Stop_Mark_Self p k) = Next (api_go s t p (mark_transport_stopping c) (Some (stop_return k p)))"
| "api_step e t s c (At_Stop_Wait p k) = (if mc_stop_complete c then Next (api_go s t p c (Some (stop_return k p))) else Blocked)"
| "api_step e t s c (At_Stop_Mark p k w) = Next (api_go s t p (mark_transport_stopping c) (Some (At_Stop_Join p k w)))"
| "api_step e t s c (At_Stop_Join p k w) =
     (case sy_work s w of
        None \<Rightarrow> Crash
      | Some (q, pc) \<Rightarrow>
          if q \<noteq> p \<or> mc_worker_detached c then Crash
          else if pc \<noteq> W_Ended then Blocked
          else Next ((api_go s t p c (Some (At_Stop_Joined p k)))\<lparr>sy_work := (sy_work s)(w := None)\<rparr>))"
| "api_step e t s c (At_Stop_Joined p k) =
     (case stop_joined c of (st, c') \<Rightarrow> Next (api_go s t p c' (Some (stop_return_status k st p))))"
| "api_step e t s c (At_Claim p) =
     (case client_claim_destroy t c of
        (claimed, self_worker, c') \<Rightarrow>
          Next (api_go s t p c' (Some (if \<not> claimed then At_Leave p else if self_worker then At_Self p else At_Stop p By_Destroy))))"
| "api_step e t s c (At_Self p) =
     (case destroy_self c of
        (joining, c', _) \<Rightarrow> Next (api_go s t p c' (Some (if joining then At_Unclaim p else At_Stop p By_Destroy_Self))))"
| "api_step e t s c (At_Unclaim p) = Next (api_go s t p (client_unclaim_destroy c) (Some (At_Stop p By_Destroy_Self)))"
| "api_step e t s c (At_Wait p) =
     (if \<not> wait_for_other_api_callers c 1 then Blocked else Next (api_go s t p c (Some (At_Leave_Destroy p))))"
| "api_step e t s c (At_Leave p) = Next (api_go s t p (client_leave c) None)"
| "api_step e t s c (At_Leave_Destroy p) = Next (api_go s t p (client_leave c) (Some (At_Remove p)))"
| "api_step e t s c (At_Remove p) =
     (case registry_remove_and_wait (sy_heap s) (sy_registry s) p c of
        None \<Rightarrow> Blocked
      | Some None \<Rightarrow> Crash
      | Some (Some registry) \<Rightarrow> Next ((api_go s t p c (Some (At_Free p)))\<lparr>sy_registry := registry\<rparr>))"
| "api_step e t s c (At_Free p) = Next (s\<lparr>sy_heap := (sy_heap s)(p := None), sy_call := (sy_call s)(t := None)\<rparr>)"

text \<open>One section of the worker of client \<open>p\<close>.\<close>

fun worker_step :: "mgr_env \<Rightarrow> nat \<Rightarrow> mgr_sys \<Rightarrow> nat \<Rightarrow> sensor_mgr_ipc_client \<Rightarrow> worker_pc \<Rightarrow> outcome" where
  "worker_step e t s p c W_Top = Next (work_go s t p c (if is_shutdown_requested c then W_Exit else W_Connect))"
| "worker_step e t s p c W_Connect =
     (if \<not> mc_cancel_initialized c then Crash
      else Next (work_go s t p c
        (if en_status e = SAVVY_ERR_CANCELLED then W_Exit
         else if en_status e \<noteq> SAVVY_OK then W_Backoff else W_Connected (en_transport e))))"
| "worker_step e t s p c (W_Connected tr) = Next (work_go s t p (set_transport_connected c tr) W_Check)"
| "worker_step e t s p c W_Check = Next (work_go s t p c (if is_shutdown_requested c then W_Close Close_Exit else W_Shake_Begin))"
| "worker_step e t s p c W_Shake_Begin =
     (case handshake_begin c of (ok, c') \<Rightarrow> Next (work_go s t p c' (if ok then W_Shake_Send else W_Close Close_Backoff)))"
| "worker_step e t s p c W_Shake_Send =
     (if mc_connection_state c = SENSOR_MGR_IPC_DISCONNECTED then Crash else Next (work_go s t p c (W_Shake_End (en_status e))))"
| "worker_step e t s p c (W_Shake_End sent) =
     (case handshake_end sent c of
        (st, c') \<Rightarrow>
          if st \<noteq> SAVVY_OK then Next (work_go s t p c' (W_Close Close_Backoff))
          else Next (work_go s t p (c'\<lparr>mc_reconnect_tracker := fst (savvy_ipc_reconnect_tracker_on_connected (mc_reconnect_tracker c')
                 (Some \<lparr>request_config = True, request_device = True, rc_user_data = 0\<rparr>))\<rparr>) W_On_Connected))"
| "worker_step e t s p c W_On_Connected = Next (work_go s t p c W_Recv_Check)"
| "worker_step e t s p c W_Recv_Check = Next (work_go s t p c (if is_shutdown_requested c then W_Close Close_Again else W_Recv_Lock))"
| "worker_step e t s p c W_Recv_Lock =
     (if mc_connection_state c \<noteq> SENSOR_MGR_IPC_CONNECTED then Next (work_go s t p c (W_Close Close_Again))
      else if sy_io s p \<noteq> None then Blocked
      else Next (io_set p (Some t) (work_go s t p c W_Recv_Io)))"
| "worker_step e t s p c W_Recv_Io =
     (if mc_connection_state c = SENSOR_MGR_IPC_DISCONNECTED then Crash
      else Next (io_set p None (work_go s t p c
        (if en_status e = SAVVY_ERR_TIMEOUT \<or> en_status e = SAVVY_ERR_OVERFLOW then W_Recv_Check
         else if en_status e = SAVVY_OK \<and> en_message e then W_On_Envelope else W_Close Close_Again))))"
| "worker_step e t s p c W_On_Envelope = Next (work_go s t p c W_Recv_Check)"
| "worker_step e t s p c (W_Close n) =
     (if sy_io s p \<noteq> None then Blocked
      else Next (work_go s t p (fst (close_transport c))
        (if n = Close_Exit then W_Exit else W_On_Disconnected (n = Close_Backoff))))"
| "worker_step e t s p c (W_On_Disconnected backoff) = Next (work_go s t p c (if backoff then W_Backoff else W_Top))"
| "worker_step e t s p c W_Backoff = Next (work_go s t p c W_Top)"
| "worker_step e t s p c W_Exit =
     (if sy_io s p \<noteq> None then Blocked else Next (work_go s t p (fst (close_transport c)) W_Finish))"
| "worker_step e t s p c W_Finish =
     (case worker_finish_claim c of (destroy_cancel, c') \<Rightarrow> Next (work_go s t p c' (if destroy_cancel then W_Finish_Cancel else W_Publish)))"
| "worker_step e t s p c W_Finish_Cancel =
     Next (work_go s t p (c\<lparr>mc_cancel_source := fst (savvy_ipc_cancel_source_destroy (mc_cancel_source c))\<rparr>) W_Publish)"
| "worker_step e t s p c W_Publish =
     (case worker_finish_publish c of
        (destroy_after_cleanup, c') \<Rightarrow>
          if destroy_after_cleanup then Next (work_go s t p c' W_Remove)
          else if mc_worker_detached c' then Next ((work_go s t p c' W_Ended)\<lparr>sy_work := (sy_work s)(t := None)\<rparr>)
          else Next (work_go s t p c' W_Ended))"
| "worker_step e t s p c W_Remove =
     (case registry_remove_and_wait (sy_heap s) (sy_registry s) p c of
        None \<Rightarrow> Blocked
      | Some None \<Rightarrow> Crash
      | Some (Some registry) \<Rightarrow> Next ((work_go s t p c W_Free)\<lparr>sy_registry := registry\<rparr>))"
| "worker_step e t s p c W_Free = Next (s\<lparr>sy_heap := (sy_heap s)(p := None), sy_work := (sy_work s)(t := None)\<rparr>)"
| "worker_step e t s p c W_Ended = Blocked"

fun in_callback :: "worker_pc \<Rightarrow> bool" where
  "in_callback W_On_Connected = True"
| "in_callback W_On_Envelope = True"
| "in_callback (W_On_Disconnected _) = True"
| "in_callback _ = False"

text \<open>A thread is free to call the public functions when it is no worker, or inside a callback.\<close>

definition may_call :: "mgr_sys \<Rightarrow> nat \<Rightarrow> bool" where
  "may_call s t \<longleftrightarrow> sy_call s t = None \<and> (case sy_work s t of None \<Rightarrow> True | Some (p, w) \<Rightarrow> in_callback w)"

text \<open>
  What the system promises: a pipe has valid descriptors, and a new thread has an identifier no
  thread that runs or waits to be joined has. The identifier of a joined thread may come back.
\<close>

definition mgr_env_ok :: "mgr_sys \<Rightarrow> mgr_env \<Rightarrow> bool" where
  "mgr_env_ok s e \<longleftrightarrow>
     (case en_pipe e of None \<Rightarrow> True | Some (r, w) \<Rightarrow> 0 \<le> r \<and> 0 \<le> w)
     \<and> (case en_thread e of None \<Rightarrow> True | Some w \<Rightarrow> sy_call s w = None \<and> sy_work s w = None)"

datatype mgr_action = Create nat sensor_mgr_ipc_config | Call mgr_api nat | Go

fun mgr_step :: "mgr_env \<Rightarrow> nat \<Rightarrow> mgr_action \<Rightarrow> mgr_sys \<Rightarrow> outcome" where
  "mgr_step e t (Create p cfg) s =
     (if \<not> may_call s t \<or> p = 0 \<or> sy_heap s p \<noteq> None then Blocked
      else case sensor_mgr_ipc_client_create False (Some cfg) True (\<lambda>_. True) of
        (st, Some c, _) \<Rightarrow> Next (s\<lparr>sy_heap := (sy_heap s)(p \<mapsto> c), sy_registry := registry_add p (sy_registry s)\<rparr>)
      | _ \<Rightarrow> Next s)"
| "mgr_step e t (Call api p) s =
     (if \<not> may_call s t then Blocked
      else case client_enter (sy_heap s) (sy_registry s) p of
        None \<Rightarrow> Crash
      | Some (entered, h) \<Rightarrow>
          Next (s\<lparr>sy_heap := h, sy_call := (if entered then (sy_call s)(t \<mapsto> api_entry api p) else sy_call s)\<rparr>))"
| "mgr_step e t Go s =
     (if \<not> mgr_env_ok s e then Blocked
      else case sy_call s t of
        Some pc \<Rightarrow> (case sy_heap s (api_client pc) of None \<Rightarrow> Crash | Some c \<Rightarrow> api_step e t s c pc)
      | None \<Rightarrow>
          (case sy_work s t of
             None \<Rightarrow> Blocked
           | Some (p, w) \<Rightarrow>
               if w = W_Ended then Blocked
               else case sy_heap s p of None \<Rightarrow> Crash | Some c \<Rightarrow> worker_step e t s p c w))"

definition mgr_initial :: mgr_sys where
  "mgr_initial = \<lparr>sy_heap = \<lambda>_. None, sy_registry = [], sy_call = \<lambda>_. None, sy_work = \<lambda>_. None, sy_io = \<lambda>_. None\<rparr>"

inductive mgr_reachable :: "mgr_sys \<Rightarrow> bool" where
  initial: "mgr_reachable mgr_initial"
| step: "mgr_reachable s \<Longrightarrow> mgr_step e t a s = Next s' \<Longrightarrow> mgr_reachable s'"

end
