(* ===== verification/Mgr_Ipc_Safety.thy ===== *)
theory Mgr_Ipc_Safety
  imports Mgr_Ipc_System
begin

text \<open>
  Safety of the lifecycle of \<^verbatim>\<open>mgr_ipc_client.c\<close>. The invariant is stated for one client and the threads
  that are at it: a step of one thread on one client keeps it there, and the view of every other
  client is the same before and after.
\<close>

section \<open>The invariant of one client\<close>

text \<open>The public function holds a pin.\<close>

fun pinned :: "api_pc \<Rightarrow> bool" where
  "pinned (At_Remove p) = False"
| "pinned (At_Free p) = False"
| "pinned _ = True"

text \<open>The thread owns the join of the worker.\<close>

fun joining :: "api_pc \<Rightarrow> bool" where
  "joining (At_Stop_Mark p k w) = True"
| "joining (At_Stop_Join p k w) = True"
| "joining (At_Stop_Joined p k) = True"
| "joining _ = False"

text \<open>The thread owns the destruction, from outside the worker.\<close>

fun destroying :: "api_pc \<Rightarrow> bool" where
  "destroying (At_Stop p k) = (k = By_Destroy)"
| "destroying (At_Stop_Mark_Self p k) = (k = By_Destroy)"
| "destroying (At_Stop_Wait p k) = (k = By_Destroy)"
| "destroying (At_Stop_Mark p k w) = (k = By_Destroy)"
| "destroying (At_Stop_Join p k w) = (k = By_Destroy)"
| "destroying (At_Stop_Joined p k) = (k = By_Destroy)"
| "destroying (At_Wait p) = True"
| "destroying (At_Leave_Destroy p) = True"
| "destroying (At_Remove p) = True"
| "destroying (At_Free p) = True"
| "destroying _ = False"

text \<open>What a thread at a place may rely on, whatever the others do.\<close>

fun api_place_ok :: "nat \<Rightarrow> sensor_mgr_ipc_client \<Rightarrow> api_pc \<Rightarrow> bool" where
  "api_place_ok t c (At_Send_Io p) \<longleftrightarrow> mc_connection_state c \<noteq> SENSOR_MGR_IPC_DISCONNECTED"
| "api_place_ok t c (At_Stop p k) \<longleftrightarrow> (k = By_Destroy \<longrightarrow> \<not> mc_started c \<or> t \<noteq> mc_worker_thread c)"
| "api_place_ok t c (At_Stop_Mark_Self p k) \<longleftrightarrow> k \<noteq> By_Destroy"
| "api_place_ok t c (At_Stop_Mark p k w) \<longleftrightarrow> w = mc_worker_thread c \<and> t \<noteq> w"
| "api_place_ok t c (At_Stop_Join p k w) \<longleftrightarrow> w = mc_worker_thread c \<and> t \<noteq> w"
| "api_place_ok t c (At_Stop_Joined p k) \<longleftrightarrow> mc_terminal_cleanup_complete c"
| "api_place_ok t c (At_Self p) \<longleftrightarrow>
     mc_destroy_requested c \<and> mc_destroy_from_worker c \<and> t = mc_worker_thread c \<and> \<not> mc_worker_detached c"
| "api_place_ok t c (At_Unclaim p) \<longleftrightarrow>
     mc_destroy_requested c \<and> mc_destroy_from_worker c \<and> t = mc_worker_thread c \<and> \<not> mc_worker_detached c"
| "api_place_ok t c (At_Wait p) \<longleftrightarrow> \<not> mc_started c"
| "api_place_ok t c (At_Leave_Destroy p) \<longleftrightarrow> \<not> mc_started c"
| "api_place_ok t c (At_Remove p) \<longleftrightarrow> \<not> mc_started c"
| "api_place_ok t c (At_Free p) \<longleftrightarrow> \<not> mc_started c \<and> mc_api_callers c = 0"
| "api_place_ok t c _ \<longleftrightarrow> True"

definition api_ok :: "nat \<Rightarrow> sensor_mgr_ipc_client \<Rightarrow> api_pc \<Rightarrow> bool" where
  "api_ok t c pc \<longleftrightarrow> api_place_ok t c pc
     \<and> (joining pc \<longrightarrow> mc_join_in_progress c \<and> mc_started c \<and> \<not> mc_worker_detached c)
     \<and> (destroying pc \<longrightarrow> mc_destroy_requested c \<and> \<not> mc_destroy_from_worker c)"

text \<open>The worker holds a transport.\<close>

fun online :: "worker_pc \<Rightarrow> bool" where
  "online W_Check = True"
| "online W_Shake_Begin = True"
| "online W_Shake_Send = True"
| "online (W_Shake_End st) = True"
| "online W_On_Connected = True"
| "online W_Recv_Check = True"
| "online W_Recv_Lock = True"
| "online W_Recv_Io = True"
| "online W_On_Envelope = True"
| "online (W_Close n) = True"
| "online _ = False"

definition work_ok :: "nat \<Rightarrow> sensor_mgr_ipc_client \<Rightarrow> worker_pc \<Rightarrow> bool" where
  "work_ok t c w \<longleftrightarrow> t = mc_worker_thread c
     \<and> (online w \<longleftrightarrow> mc_connection_state c \<noteq> SENSOR_MGR_IPC_DISCONNECTED)
     \<and> (if w = W_Remove \<or> w = W_Free
        then \<not> mc_started c \<and> mc_destroy_from_worker c \<and> (w = W_Free \<longrightarrow> mc_api_callers c = 0)
        else mc_started c
          \<and> (mc_terminal_cleanup_complete c \<longleftrightarrow> w = W_Ended)
          \<and> (mc_cancel_initialized c \<longleftrightarrow> w \<notin> {W_Finish_Cancel, W_Publish, W_Ended}))"

definition client_ok :: "sensor_mgr_ipc_client \<Rightarrow> bool" where
  "client_ok c \<longleftrightarrow> (mc_stop_complete c \<longleftrightarrow> \<not> mc_started c)
     \<and> (mc_terminal_cleanup_complete c \<or> \<not> mc_started c \<longrightarrow>
          \<not> mc_cancel_initialized c \<and> mc_connection_state c = SENSOR_MGR_IPC_DISCONNECTED)
     \<and> (mc_cancel_initialized c \<longrightarrow> 0 \<le> cancel_write_fd (mc_cancel_source c))
     \<and> (mc_worker_detached c \<longrightarrow> mc_destroy_from_worker c)
     \<and> (mc_destroy_from_worker c \<longrightarrow> mc_destroy_requested c)"

text \<open>
  One client with the calls and workers that are at it (\<open>cs\<close>, \<open>ws\<close>), the holder of its I/O lock and
  whether it is in the registry.
\<close>


definition pinners :: "(nat \<Rightarrow> api_pc option) \<Rightarrow> nat set" where
  "pinners cs = {t. \<exists>pc. cs t = Some pc \<and> pinned pc}"

definition at_most_one :: "(api_pc \<Rightarrow> bool) \<Rightarrow> (nat \<Rightarrow> api_pc option) \<Rightarrow> bool" where
  "at_most_one P cs \<longleftrightarrow> (\<forall>t t' pc pc'. cs t = Some pc \<and> P pc \<and> cs t' = Some pc' \<and> P pc' \<longrightarrow> t = t')"

definition view_inv :: "nat \<Rightarrow> sensor_mgr_ipc_client \<Rightarrow> (nat \<Rightarrow> api_pc option) \<Rightarrow> (nat \<Rightarrow> worker_pc option) \<Rightarrow> nat option \<Rightarrow> bool \<Rightarrow> bool" where
  "view_inv p c cs ws io listed \<longleftrightarrow> client_ok c
     \<and> (\<forall>t pc. cs t = Some pc \<longrightarrow> api_ok t c pc)
     \<and> (\<forall>t w. ws t = Some w \<longrightarrow> work_ok t c w)
     \<and> finite (pinners cs) \<and> mc_api_callers c = card (pinners cs)
     \<and> at_most_one joining cs \<and> at_most_one destroying cs
     \<and> (mc_started c \<longrightarrow> ws (mc_worker_thread c) \<noteq> None \<or> (\<exists>t k. cs t = Some (At_Stop_Joined p k)))
     \<and> (mc_destroy_from_worker c \<and> mc_started c \<longrightarrow>
          mc_worker_detached c \<or> cs (mc_worker_thread c) \<in> {Some (At_Self p), Some (At_Unclaim p)})
     \<and> (\<forall>t. cs t = Some (At_Send_Io p) \<or> ws t = Some W_Recv_Io \<longleftrightarrow> io = Some t)
     \<and> (\<forall>t. cs t = Some (At_Free p) \<or> ws t = Some W_Free \<longrightarrow> \<not> listed)
     \<and> (\<forall>t k. cs t = Some (At_Stop_Joined p k) \<longrightarrow> ws = (\<lambda>_. None))"

section \<open>Steps at one client\<close>

definition pin_of :: "api_pc option \<Rightarrow> nat" where
  "pin_of x = (case x of Some pc \<Rightarrow> if pinned pc then 1 else 0 | None \<Rightarrow> 0)"

lemma pin_of_simps [simp]:
  "pin_of None = 0" "pin_of (Some pc) = (if pinned pc then 1 else 0)"
  by (simp_all add: pin_of_def)

lemma pinners_update:
  assumes "finite (pinners cs)"
  shows "finite (pinners (cs(t := x)))" and "card (pinners (cs(t := x))) + pin_of (cs t) = card (pinners cs) + pin_of x"
proof -
  have eq: "pinners (cs(t := x)) = (if pin_of x = 1 then insert t (pinners cs - {t}) else pinners cs - {t})"
    by (auto simp: pinners_def split: option.splits if_splits) (auto simp: pin_of_def split: option.splits if_splits)
  then show "finite (pinners (cs(t := x)))" using assms by simp
  have "t \<in> pinners cs \<longleftrightarrow> pin_of (cs t) = 1" by (auto simp: pinners_def pin_of_def split: option.splits)
  moreover have "pin_of (cs t) \<le> 1" "pin_of x \<le> 1" by (auto simp: pin_of_def split: option.splits)
  ultimately show "card (pinners (cs(t := x))) + pin_of (cs t) = card (pinners cs) + pin_of x"
    unfolding eq using assms card_Suc_Diff1 [OF assms, of t] by (auto simp: card_insert_if)
qed

lemma at_most_one_update:
  assumes "at_most_one P cs"
    and "\<And>pc. new = Some pc \<Longrightarrow> P pc \<Longrightarrow> (\<exists>pc. cs t = Some pc \<and> P pc) \<or> (\<forall>t' pc. cs t' = Some pc \<longrightarrow> \<not> P pc)"
  shows "at_most_one P (cs(t := new))"
proof -
  have one: "u = u'" if "cs u = Some pc" "P pc" "cs u' = Some pc'" "P pc'" for u u' pc pc'
    using assms(1) that unfolding at_most_one_def by blast
  have new: "u = t" if "cs u = Some pc" "P pc" "new = Some pc'" "P pc'" for u pc pc'
    using assms(2) [OF that(3,4)] one that by blast
  show ?thesis
    unfolding at_most_one_def
  proof (intro allI impI, elim conjE)
    fix u u' pc pc'
    assume "(cs(t := new)) u = Some pc" "P pc" "(cs(t := new)) u' = Some pc'" "P pc'"
    then show "u = u'" using one new by (cases "u = t"; cases "u' = t"; simp; metis)
  qed
qed

lemma view_parts:
  assumes "view_inv p c cs ws io listed"
  shows "client_ok c" and "cs t = Some pc \<Longrightarrow> api_ok t c pc" and "ws t = Some w \<Longrightarrow> work_ok t c w"
    and "cs t = Some (At_Send_Io p) \<or> ws t = Some W_Recv_Io \<longleftrightarrow> io = Some t"
    and "cs t = Some (At_Stop_Joined p k) \<Longrightarrow> ws = (\<lambda>_. None)"
    and "ws t = Some W_Free \<Longrightarrow> \<not> listed"
    and "mc_started c \<Longrightarrow> ws (mc_worker_thread c) \<noteq> None \<or> (\<exists>t k. cs t = Some (At_Stop_Joined p k))"
    and "mc_destroy_from_worker c \<Longrightarrow> mc_started c \<Longrightarrow>
          mc_worker_detached c \<or> cs (mc_worker_thread c) \<in> {Some (At_Self p), Some (At_Unclaim p)}"
    and "at_most_one joining cs" and "mc_api_callers c = card (pinners cs)" and "finite (pinners cs)"
  using assms unfolding view_inv_def by blast+

lemma view_link:
  assumes "view_inv p c cs ws io listed" and "mc_started c" and "\<And>k. cs t \<noteq> Some (At_Stop_Joined p k)"
  shows "ws (mc_worker_thread c) \<noteq> None \<or> (\<exists>t' k. (cs(t := new)) t' = Some (At_Stop_Joined p k))"
  using view_parts(7) [OF assms(1,2)] assms(3) by (metis fun_upd_other)

lemma view_io:
  assumes "view_inv p c cs ws io listed" and "cs t \<noteq> Some (At_Send_Io p)" and "new \<noteq> Some (At_Send_Io p)"
  shows "(cs(t := new)) t' = Some (At_Send_Io p) \<or> ws t' = Some W_Recv_Io \<longleftrightarrow> io = Some t'"
  using view_parts(4) [OF assms(1), of t'] assms(2,3) by (cases "t' = t") auto

lemma view_no_worker:
  assumes "view_inv p c cs ws io listed" and "\<And>k. new \<noteq> Some (At_Stop_Joined p k)"
    and "(cs(t := new)) t' = Some (At_Stop_Joined p k)"
  shows "ws = (\<lambda>_. None)"
  using view_parts(5) [OF assms(1), of t' k] assms(2,3) by (cases "t' = t") auto

text \<open>A call moves from one place to the next.\<close>

lemma view_call:
  assumes inv: "view_inv p c cs ws io listed"
    and "client_ok c'"
    and "\<And>pc. new = Some pc \<Longrightarrow> api_ok t c' pc"
    and "\<And>t' pc. t' \<noteq> t \<Longrightarrow> cs t' = Some pc \<Longrightarrow> api_ok t' c pc \<Longrightarrow> api_ok t' c' pc"
    and "\<And>t' w. ws' t' = Some w \<Longrightarrow> work_ok t' c' w"
    and callers: "mc_api_callers c' + pin_of (cs t) = mc_api_callers c + pin_of new"
    and join: "\<And>pc. new = Some pc \<Longrightarrow> joining pc \<Longrightarrow> (\<exists>pc. cs t = Some pc \<and> joining pc) \<or> \<not> mc_join_in_progress c"
    and destr: "\<And>pc. new = Some pc \<Longrightarrow> destroying pc \<Longrightarrow> (\<exists>pc. cs t = Some pc \<and> destroying pc) \<or> \<not> mc_destroy_requested c"
    and "mc_started c' \<Longrightarrow> ws' (mc_worker_thread c') \<noteq> None \<or> (\<exists>t' k. (cs(t := new)) t' = Some (At_Stop_Joined p k))"
    and "mc_destroy_from_worker c' \<Longrightarrow> mc_started c' \<Longrightarrow>
          mc_worker_detached c' \<or> (cs(t := new)) (mc_worker_thread c') \<in> {Some (At_Self p), Some (At_Unclaim p)}"
    and io: "\<And>t'. (cs(t := new)) t' = Some (At_Send_Io p) \<or> ws' t' = Some W_Recv_Io \<longleftrightarrow> io' = Some t'"
    and "new = Some (At_Free p) \<Longrightarrow> \<not> listed'" and "listed' \<Longrightarrow> listed" and "\<And>t'. ws' t' = Some W_Free \<Longrightarrow> \<not> listed'"
    and "\<And>t' k. (cs(t := new)) t' = Some (At_Stop_Joined p k) \<Longrightarrow> ws' = (\<lambda>_. None)"
  shows "view_inv p c' (cs(t := new)) ws' io' listed'"
proof -
  note pins = pinners_update [of cs t new]
  have none: "\<not> joining pc" if "\<not> mc_join_in_progress c" "cs t' = Some pc" for t' pc
    using inv that unfolding view_inv_def api_ok_def by meson
  have none': "\<not> destroying pc" if "\<not> mc_destroy_requested c" "cs t' = Some pc" for t' pc
    using inv that unfolding view_inv_def api_ok_def by meson
  have one: "at_most_one joining (cs(t := new))"
    using inv join none by (intro at_most_one_update) (auto simp: view_inv_def)
  have one': "at_most_one destroying (cs(t := new))"
    using inv destr none' by (intro at_most_one_update) (auto simp: view_inv_def)
  show ?thesis
    unfolding view_inv_def
  proof (intro conjI allI impI)
    show "mc_api_callers c' = card (pinners (cs(t := new)))" "finite (pinners (cs(t := new)))"
      using pins callers inv by (auto simp: view_inv_def)
    show "api_ok t' c' pc" if "(cs(t := new)) t' = Some pc" for t' pc
      using that assms(3,4) inv by (cases "t' = t") (auto simp: view_inv_def)
    show "\<not> listed'" if "(cs(t := new)) t' = Some (At_Free p) \<or> ws' t' = Some W_Free" for t'
      using that assms(12,13,14) inv by (cases "t' = t") (auto simp: view_inv_def)
  qed (use assms(2,5,9,10,15) io one one' in blast)+
qed

text \<open>Nothing a thread relies on differs between the two clients.\<close>

definition same_phase :: "sensor_mgr_ipc_client \<Rightarrow> sensor_mgr_ipc_client \<Rightarrow> bool" where
  "same_phase c c' \<longleftrightarrow> mc_started c' = mc_started c \<and> mc_worker_thread c' = mc_worker_thread c
     \<and> mc_join_in_progress c' = mc_join_in_progress c \<and> mc_worker_detached c' = mc_worker_detached c
     \<and> mc_terminal_cleanup_complete c' = mc_terminal_cleanup_complete c \<and> mc_stop_complete c' = mc_stop_complete c
     \<and> mc_destroy_requested c' = mc_destroy_requested c \<and> mc_destroy_from_worker c' = mc_destroy_from_worker c
     \<and> mc_cancel_initialized c' = mc_cancel_initialized c \<and> (mc_cancel_initialized c \<longrightarrow> mc_cancel_source c' = mc_cancel_source c)
     \<and> (mc_connection_state c' = SENSOR_MGR_IPC_DISCONNECTED \<longleftrightarrow> mc_connection_state c = SENSOR_MGR_IPC_DISCONNECTED)"

lemma same_phase_refl [simp]: "same_phase c c"
  by (simp add: same_phase_def)

lemma same_phase_api:
  "same_phase c c' \<Longrightarrow> mc_api_callers c' \<le> mc_api_callers c \<Longrightarrow> api_ok t c pc \<Longrightarrow> api_ok t c' pc"
  by (cases pc) (simp_all add: same_phase_def api_ok_def)

lemma same_phase_work:
  "same_phase c c' \<Longrightarrow> mc_api_callers c' \<le> mc_api_callers c \<Longrightarrow> work_ok t c w \<Longrightarrow> work_ok t c' w"
  by (cases w) (simp_all add: same_phase_def work_ok_def)

lemma same_phase_client: "same_phase c c' \<Longrightarrow> client_ok c \<Longrightarrow> client_ok c'"
  by (simp add: same_phase_def client_ok_def)

lemma view_call_same:
  assumes inv: "view_inv p c cs ws io listed" and old: "cs t = Some old" and same: "same_phase c c'"
    and "mc_api_callers c' \<le> mc_api_callers c"
    and "\<And>pc. new = Some pc \<Longrightarrow> api_ok t c' pc"
    and "mc_api_callers c' + pin_of (Some old) = mc_api_callers c + pin_of new"
    and "\<And>pc. new = Some pc \<Longrightarrow> joining pc \<Longrightarrow> joining old"
    and "\<And>pc. new = Some pc \<Longrightarrow> destroying pc \<Longrightarrow> destroying old"
    and "\<And>k. old \<noteq> At_Stop_Joined p k" and "old \<noteq> At_Send_Io p" and "old \<noteq> At_Unclaim p"
    and "old = At_Self p \<Longrightarrow> new = Some (At_Unclaim p)"
    and "new \<noteq> Some (At_Send_Io p)" and "new = Some (At_Free p) \<Longrightarrow> \<not> listed'" and "listed' \<Longrightarrow> listed"
    and "\<And>k. new \<noteq> Some (At_Stop_Joined p k)"
  shows "view_inv p c' (cs(t := new)) ws io listed'"
proof (rule view_call [OF inv])
  show "client_ok c'" using inv same_phase_client [OF same] by (simp add: view_inv_def)
  show "api_ok t' c' pc" if "api_ok t' c pc" for t' pc by (rule same_phase_api [OF same assms(4) that])
  show "work_ok t' c' w" if "ws t' = Some w" for t' w
    by (rule same_phase_work [OF same assms(4)]) (use inv that in \<open>simp add: view_inv_def\<close>)
  show "\<not> listed'" if "ws t' = Some W_Free" for t' using inv that assms(15) by (auto simp: view_inv_def)
  show "ws = (\<lambda>_. None)" if "(cs(t := new)) t' = Some (At_Stop_Joined p k)" for t' k
    by (rule view_no_worker [OF inv assms(16) that])
  show "mc_api_callers c' + pin_of (cs t) = mc_api_callers c + pin_of new" using assms(6) old by simp
  have eq: "mc_started c' = mc_started c" "mc_worker_thread c' = mc_worker_thread c"
    "mc_worker_detached c' = mc_worker_detached c" "mc_destroy_from_worker c' = mc_destroy_from_worker c"
    using same by (simp_all add: same_phase_def)
  show "ws (mc_worker_thread c') \<noteq> None \<or> (\<exists>t' k. (cs(t := new)) t' = Some (At_Stop_Joined p k))" if "mc_started c'"
    unfolding eq(2) by (rule view_link [OF inv]) (use that eq old assms(9) in auto)
  show "mc_worker_detached c' \<or> (cs(t := new)) (mc_worker_thread c') \<in> {Some (At_Self p), Some (At_Unclaim p)}"
    if "mc_destroy_from_worker c'" "mc_started c'"
  proof -
    have "mc_worker_detached c \<or> cs (mc_worker_thread c) \<in> {Some (At_Self p), Some (At_Unclaim p)}"
      using inv that eq unfolding view_inv_def by blast
    then show ?thesis using eq old assms(11,12) by (cases "mc_worker_thread c = t") auto
  qed
  show "(cs(t := new)) t' = Some (At_Send_Io p) \<or> ws t' = Some W_Recv_Io \<longleftrightarrow> io = Some t'" for t'
    by (rule view_io [OF inv]) (use old assms(10,13) in auto)
qed (use assms old in blast)+

text \<open>The worker moves on. A client has no worker but its own.\<close>

lemma view_work:
  assumes inv: "view_inv p c cs ws io listed" and at: "ws t = Some w"
    and "client_ok c'" and new: "\<And>w'. new = Some w' \<Longrightarrow> work_ok t c' w'"
    and "\<And>t' pc. cs t' = Some pc \<Longrightarrow> api_ok t' c pc \<Longrightarrow> api_ok t' c' pc"
    and same: "mc_api_callers c' = mc_api_callers c" "mc_worker_thread c' = mc_worker_thread c"
    and "mc_started c' \<Longrightarrow> new \<noteq> None"
    and "mc_destroy_from_worker c' \<Longrightarrow> mc_started c' \<Longrightarrow>
          mc_worker_detached c' \<or> cs t \<in> {Some (At_Self p), Some (At_Unclaim p)}"
    and io: "\<And>t'. cs t' = Some (At_Send_Io p) \<or> (ws(t := new)) t' = Some W_Recv_Io \<longleftrightarrow> io' = Some t'"
    and free: "new = Some W_Free \<Longrightarrow> \<not> listed'" and listed: "listed' \<Longrightarrow> listed"
  shows "view_inv p c' cs (ws(t := new)) io' listed'"
proof -
  have tw: "mc_worker_thread c' = t" using inv at same unfolding view_inv_def work_ok_def by metis
  have only: "t' = t" if "ws t' = Some w'" for t' w'
    using inv at that unfolding view_inv_def work_ok_def by metis
  have no_join: "cs t' \<noteq> Some (At_Stop_Joined p k)" for t' k
    using inv at unfolding view_inv_def by (metis option.distinct(1))
  show ?thesis
    unfolding view_inv_def
  proof (intro conjI allI impI)
    show "work_ok t' c' w'" if "(ws(t := new)) t' = Some w'" for t' w'
      using that new only by (cases "t' = t") auto
    show "\<not> listed'" if "cs t' = Some (At_Free p) \<or> (ws(t := new)) t' = Some W_Free" for t'
      using that free listed inv by (cases "t' = t") (auto simp: view_inv_def)
    show "ws(t := new) = (\<lambda>_. None)" if "cs t' = Some (At_Stop_Joined p k)" for t' k
      using that no_join by blast
    show "(ws(t := new)) (mc_worker_thread c') \<noteq> None \<or> (\<exists>t k. cs t = Some (At_Stop_Joined p k))" if "mc_started c'"
      using assms(8) [OF that] by (simp add: tw)
    show "mc_worker_detached c' \<or> cs (mc_worker_thread c') \<in> {Some (At_Self p), Some (At_Unclaim p)}"
      if "mc_destroy_from_worker c' \<and> mc_started c'"
      using that assms(9) by (simp add: tw)
    show "api_ok t' c' pc" if "cs t' = Some pc" for t' pc using that assms(5) inv unfolding view_inv_def by blast
    show "cs t' = Some (At_Send_Io p) \<or> (ws(t := new)) t' = Some W_Recv_Io \<longleftrightarrow> io' = Some t'" for t' by (rule io)
  qed (use assms(3) inv same in \<open>simp_all add: view_inv_def\<close>)
qed

text \<open>Entering: nobody destroys the client.\<close>

lemma view_enter:
  assumes inv: "view_inv p c cs ws io listed" and "cs t = None" and no: "\<not> mc_destroy_requested c"
  shows "view_inv p (c\<lparr>mc_api_callers := mc_api_callers c + 1\<rparr>) (cs(t \<mapsto> api_entry api p)) ws io listed"
proof (rule view_call [OF inv])
  let ?c = "c\<lparr>mc_api_callers := mc_api_callers c + 1\<rparr>"
  note parts = view_parts [OF inv]
  show "client_ok ?c" using parts(1) by (simp add: client_ok_def)
  then have fw: "\<not> mc_destroy_from_worker c" using no by (simp add: client_ok_def)
  show "api_ok t ?c pc" if "Some (api_entry api p) = Some pc" for pc using that by (cases api) (auto simp: api_ok_def)
  show "api_ok t' ?c pc" if "api_ok t' c pc" for t' pc using that no by (cases pc) (simp_all add: api_ok_def)
  show "work_ok t' ?c w" if "ws t' = Some w" for t' w using parts(3) [OF that] fw by (cases w) (simp_all add: work_ok_def)
  show "mc_api_callers ?c + pin_of (cs t) = mc_api_callers c + pin_of (Some (api_entry api p))"
    using assms(2) by (cases api) simp_all
  show "(\<exists>pc. cs t = Some pc \<and> joining pc) \<or> \<not> mc_join_in_progress c" if "Some (api_entry api p) = Some pc" "joining pc" for pc
    using that by (cases api) auto
  show "ws (mc_worker_thread ?c) \<noteq> None \<or> (\<exists>t' k. (cs(t \<mapsto> api_entry api p)) t' = Some (At_Stop_Joined p k))" if "mc_started ?c"
    using view_link [OF inv, of t] that assms(2) by simp
  show "(cs(t \<mapsto> api_entry api p)) t' = Some (At_Send_Io p) \<or> ws t' = Some W_Recv_Io \<longleftrightarrow> io = Some t'" for t'
    by (rule view_io [OF inv]) (use assms(2) in \<open>cases api; auto\<close>)+
  show "ws = (\<lambda>_. None)" if "(cs(t \<mapsto> api_entry api p)) t' = Some (At_Stop_Joined p k)" for t' k
    by (rule view_no_worker [OF inv _ that]) (cases api; simp)
qed (use assms(3) view_parts(1,6,8) [OF inv] in \<open>cases api; auto simp: client_ok_def\<close>)+

text \<open>The lock of the transport is taken and given back.\<close>

lemma view_send:
  assumes inv: "view_inv p c cs ws io listed" and at: "cs t = Some (At_Send p)"
    and "mc_connection_state c \<noteq> SENSOR_MGR_IPC_DISCONNECTED" and "io = None"
  shows "view_inv p c (cs(t \<mapsto> At_Send_Io p)) ws (Some t) listed"
proof (rule view_call [OF inv])
  show "(cs(t \<mapsto> At_Send_Io p)) t' = Some (At_Send_Io p) \<or> ws t' = Some W_Recv_Io \<longleftrightarrow> Some t = Some t'" for t'
    using view_parts(4) [OF inv, of t'] assms(4) by (cases "t' = t") auto
  show "ws (mc_worker_thread c) \<noteq> None \<or> (\<exists>t' k. (cs(t \<mapsto> At_Send_Io p)) t' = Some (At_Stop_Joined p k))" if "mc_started c"
    by (rule view_link [OF inv that]) (simp add: at)
qed (use view_parts [OF inv] at assms(3) view_no_worker [OF inv] in \<open>auto simp: api_ok_def split: if_splits\<close>)

lemma view_sent:
  assumes inv: "view_inv p c cs ws io listed" and at: "cs t = Some (At_Send_Io p)" and "ws t \<noteq> Some W_Recv_Io"
  shows "view_inv p c (cs(t \<mapsto> At_Leave p)) ws None listed"
proof (rule view_call [OF inv])
  show "(cs(t \<mapsto> At_Leave p)) t' = Some (At_Send_Io p) \<or> ws t' = Some W_Recv_Io \<longleftrightarrow> None = Some t'" for t'
    using view_parts(4) [OF inv, of t'] view_parts(4) [OF inv, of t] at assms(3) by (cases "t' = t") auto
  show "ws (mc_worker_thread c) \<noteq> None \<or> (\<exists>t' k. (cs(t \<mapsto> At_Leave p)) t' = Some (At_Stop_Joined p k))" if "mc_started c"
    by (rule view_link [OF inv that]) (simp add: at)
qed (use view_parts [OF inv] at view_no_worker [OF inv] in \<open>auto simp: api_ok_def split: if_splits\<close>)

text \<open>The join is claimed, made and recorded.\<close>

lemma view_claim_join:
  assumes inv: "view_inv p c cs ws io listed" and at: "cs t = Some (At_Stop p k)"
    and free: "mc_started c" "\<not> mc_worker_detached c" "\<not> mc_join_in_progress c" "t \<noteq> mc_worker_thread c"
    and c': "c' = c\<lparr>mc_shutdown_requested := True, mc_join_in_progress := True\<rparr>"
  shows "view_inv p c' (cs(t \<mapsto> At_Stop_Mark p k (mc_worker_thread c))) ws io listed"
proof (rule view_call [OF inv])
  show "client_ok c'" using view_parts(1) [OF inv] by (simp add: c' client_ok_def)
  show "api_ok t c' pc" if "Some (At_Stop_Mark p k (mc_worker_thread c)) = Some pc" for pc
    using that view_parts(2) [OF inv at] free by (auto simp: c' api_ok_def)
  show "api_ok t' c' pc" if "api_ok t' c pc" for t' pc using that free(3) by (cases pc) (simp_all add: c' api_ok_def)
  show "work_ok t' c' w" if "ws t' = Some w" for t' w using view_parts(3) [OF inv that] by (simp add: c' work_ok_def)
  show "ws (mc_worker_thread c') \<noteq> None \<or> (\<exists>t' ka. (cs(t \<mapsto> At_Stop_Mark p k (mc_worker_thread c))) t' = Some (At_Stop_Joined p ka))"
    using view_link [OF inv free(1), of t] by (simp add: c' at)
  show "(cs(t \<mapsto> At_Stop_Mark p k (mc_worker_thread c))) t' = Some (At_Send_Io p) \<or> ws t' = Some W_Recv_Io \<longleftrightarrow> io = Some t'" for t'
    by (rule view_io [OF inv]) (simp_all add: at)
  show "ws = (\<lambda>_. None)" if "(cs(t \<mapsto> At_Stop_Mark p k (mc_worker_thread c))) t' = Some (At_Stop_Joined p ka)" for t' ka
    by (rule view_no_worker [OF inv _ that]) simp
qed (use view_parts(6,8) [OF inv] at free in \<open>auto simp: c'\<close>)

lemma view_join:
  assumes inv: "view_inv p c cs ws io listed" and at: "cs t = Some (At_Stop_Join p k w)" and ended: "ws w = Some W_Ended"
  shows "view_inv p c (cs(t \<mapsto> At_Stop_Joined p k)) (ws(w := None)) io listed"
proof -
  have api: "api_ok t c (At_Stop_Join p k w)" by (rule view_parts(2) [OF inv at])
  have none: "ws(w := None) = (\<lambda>_. None)"
  proof
    fix t'
    show "(ws(w := None)) t' = None"
      using view_parts(3) [OF inv, of t'] api by (cases "ws t'") (auto simp: work_ok_def api_ok_def)
  qed
  have cleaned: "mc_terminal_cleanup_complete c" using view_parts(3) [OF inv ended] by (simp add: work_ok_def)
  show ?thesis
  proof (rule view_call [OF inv])
    show "api_ok t c pc" if "Some (At_Stop_Joined p k) = Some pc" for pc using that api cleaned by (auto simp: api_ok_def)
    show "(cs(t \<mapsto> At_Stop_Joined p k)) t' = Some (At_Send_Io p) \<or> (ws(w := None)) t' = Some W_Recv_Io \<longleftrightarrow> io = Some t'" for t'
      using view_parts(4) [OF inv, of t'] ended fun_cong [OF none, of t'] at by (cases "t' = t"; cases "t' = w") auto
    show "\<not> listed" if "(ws(w := None)) t' = Some W_Free" for t' using that none by (metis option.distinct(1))
  qed (use view_parts(1,6,8) [OF inv] at none in \<open>auto dest: fun_cong split: if_splits\<close>)
qed

lemma view_joined:
  assumes inv: "view_inv p c cs ws io listed" and at: "cs t = Some (At_Stop_Joined p k)"
    and c': "c' = c\<lparr>mc_started := False, mc_stop_complete := True, mc_join_in_progress := False\<rparr>"
  shows "view_inv p c' (cs(t \<mapsto> stop_return k p)) ws io listed"
proof -
  have api: "api_ok t c (At_Stop_Joined p k)" by (rule view_parts(2) [OF inv at])
  have none: "ws = (\<lambda>_. None)" by (rule view_parts(5) [OF inv at])
  show ?thesis
  proof (rule view_call [OF inv])
    show "client_ok c'" using view_parts(1) [OF inv] api by (simp add: c' client_ok_def api_ok_def)
    show "api_ok t c' pc" if "Some (stop_return k p) = Some pc" for pc
      using that api by (cases k) (auto simp: c' api_ok_def)
    show "api_ok t' c' pc" if "t' \<noteq> t" "cs t' = Some pc" "api_ok t' c pc" for t' pc
    proof -
      have "\<not> joining pc" using view_parts(9) [OF inv] that(1,2) at unfolding at_most_one_def by fastforce
      with that(3) show ?thesis by (cases pc) (simp_all add: c' api_ok_def)
    qed
    show "(cs(t \<mapsto> stop_return k p)) t' = Some (At_Send_Io p) \<or> ws t' = Some W_Recv_Io \<longleftrightarrow> io = Some t'" for t'
      by (rule view_io [OF inv]) (use at in \<open>cases k; simp\<close>)+
  qed (use at none api in \<open>cases k; auto simp: c' api_ok_def\<close>)+
qed

text \<open>Destruction is claimed, and given up or handed to the worker.\<close>

lemma view_claim:
  assumes inv: "view_inv p c cs ws io listed" and at: "cs t = Some (At_Claim p)" and no: "\<not> mc_destroy_requested c"
    and fw: "fw \<longleftrightarrow> mc_started c \<and> t = mc_worker_thread c"
    and c': "c' = c\<lparr>mc_destroy_requested := True, mc_destroy_from_worker := fw\<rparr>"
  shows "view_inv p c' (cs(t \<mapsto> if fw then At_Self p else At_Stop p By_Destroy)) ws io listed" (is "view_inv p c' (cs(t \<mapsto> ?new)) ws io listed")
proof -
  have client: "client_ok c" by (rule view_parts(1) [OF inv])
  then have nofw: "\<not> mc_destroy_from_worker c" "\<not> mc_worker_detached c" using no by (auto simp: client_ok_def)
  show ?thesis
  proof (rule view_call [OF inv])
    show "client_ok c'" using client nofw by (simp add: c' client_ok_def)
    show "api_ok t c' pc" if "Some ?new = Some pc" for pc using that fw nofw by (auto simp: c' api_ok_def)
    show "api_ok t' c' pc" if "api_ok t' c pc" for t' pc using that no by (cases pc) (simp_all add: c' api_ok_def)
    show "work_ok t' c' w" if "ws t' = Some w" for t' w
      using view_parts(3) [OF inv that] nofw by (simp add: c' work_ok_def split: if_splits)
    show "ws (mc_worker_thread c') \<noteq> None \<or> (\<exists>t' k. (cs(t \<mapsto> ?new)) t' = Some (At_Stop_Joined p k))" if "mc_started c'"
      using view_link [OF inv, of t] that by (simp add: c' at)
    show "(cs(t \<mapsto> ?new)) t' = Some (At_Send_Io p) \<or> ws t' = Some W_Recv_Io \<longleftrightarrow> io = Some t'" for t'
      by (rule view_io [OF inv]) (simp_all add: at)
    show "ws = (\<lambda>_. None)" if "(cs(t \<mapsto> ?new)) t' = Some (At_Stop_Joined p k)" for t' k
      by (rule view_no_worker [OF inv _ that]) simp
  qed (use view_parts(6) [OF inv] at no fw in \<open>auto simp: c' split: if_splits\<close>)
qed

lemma view_detach:
  assumes inv: "view_inv p c cs ws io listed" and at: "cs t = Some (At_Self p)" and no: "\<not> mc_join_in_progress c"
    and c': "c' = c\<lparr>mc_worker_detached := True\<rparr>"
  shows "view_inv p c' (cs(t \<mapsto> At_Stop p By_Destroy_Self)) ws io listed"
proof -
  have api: "api_ok t c (At_Self p)" by (rule view_parts(2) [OF inv at])
  show ?thesis
  proof (rule view_call [OF inv])
    show "client_ok c'" using view_parts(1) [OF inv] api by (simp add: c' client_ok_def api_ok_def)
    show "api_ok t' c' pc" if "t' \<noteq> t" "api_ok t' c pc" for t' pc
      using that api no by (cases pc) (auto simp: c' api_ok_def)
    show "work_ok t' c' w" if "ws t' = Some w" for t' w using view_parts(3) [OF inv that] by (simp add: c' work_ok_def)
    show "ws (mc_worker_thread c') \<noteq> None \<or> (\<exists>t' k. (cs(t \<mapsto> At_Stop p By_Destroy_Self)) t' = Some (At_Stop_Joined p k))" if "mc_started c'"
      using view_link [OF inv, of t] that by (simp add: c' at)
    show "(cs(t \<mapsto> At_Stop p By_Destroy_Self)) t' = Some (At_Send_Io p) \<or> ws t' = Some W_Recv_Io \<longleftrightarrow> io = Some t'" for t'
      by (rule view_io [OF inv]) (simp_all add: at)
    show "ws = (\<lambda>_. None)" if "(cs(t \<mapsto> At_Stop p By_Destroy_Self)) t' = Some (At_Stop_Joined p k)" for t' k
      by (rule view_no_worker [OF inv _ that]) simp
  qed (use view_parts(6) [OF inv] at in \<open>auto simp: c' api_ok_def\<close>)
qed

lemma view_unclaim:
  assumes inv: "view_inv p c cs ws io listed" and at: "cs t = Some (At_Unclaim p)"
    and cb: "\<And>w. ws t = Some w \<Longrightarrow> in_callback w"
    and c': "c' = c\<lparr>mc_destroy_requested := False, mc_destroy_from_worker := False\<rparr>"
  shows "view_inv p c' (cs(t \<mapsto> At_Stop p By_Destroy_Self)) ws io listed"
proof -
  have api: "api_ok t c (At_Unclaim p)" by (rule view_parts(2) [OF inv at])
  show ?thesis
  proof (rule view_call [OF inv])
    show "client_ok c'" using view_parts(1) [OF inv] api by (simp add: c' client_ok_def api_ok_def)
    show "api_ok t' c' pc" if "t' \<noteq> t" "api_ok t' c pc" for t' pc
      using that api by (cases pc) (auto simp: c' api_ok_def)
    show "work_ok t' c' w" if "ws t' = Some w" for t' w
    proof -
      have ok: "work_ok t' c w" by (rule view_parts(3) [OF inv that])
      then have "t' = t" using api by (simp add: work_ok_def api_ok_def)
      then have "in_callback w" using cb that by simp
      then show ?thesis using ok by (cases w) (simp_all add: c' work_ok_def)
    qed
    show "ws (mc_worker_thread c') \<noteq> None \<or> (\<exists>t' k. (cs(t \<mapsto> At_Stop p By_Destroy_Self)) t' = Some (At_Stop_Joined p k))" if "mc_started c'"
      using view_link [OF inv, of t] that by (simp add: c' at)
    show "(cs(t \<mapsto> At_Stop p By_Destroy_Self)) t' = Some (At_Send_Io p) \<or> ws t' = Some W_Recv_Io \<longleftrightarrow> io = Some t'" for t'
      by (rule view_io [OF inv]) (simp_all add: at)
    show "ws = (\<lambda>_. None)" if "(cs(t \<mapsto> At_Stop p By_Destroy_Self)) t' = Some (At_Stop_Joined p k)" for t' k
      by (rule view_no_worker [OF inv _ that]) simp
  qed (use view_parts(6) [OF inv] at in \<open>auto simp: c' api_ok_def\<close>)
qed

text \<open>On a client that is neither started nor being destroyed nobody relies on anything.\<close>

lemma idle_api:
  assumes "client_ok c" and "\<not> mc_started c" and "\<not> mc_destroy_requested c" and "api_ok t c pc"
  shows "api_ok t c' pc"
  using assms by (cases pc) (auto simp: api_ok_def client_ok_def)

lemma idle_no_worker:
  assumes inv: "view_inv p c cs ws io listed" and "\<not> mc_started c" and "\<not> mc_destroy_requested c"
  shows "ws = (\<lambda>_. None)"
proof
  fix t
  show "ws t = None"
    using view_parts(1) [OF inv] view_parts(3) [OF inv, of t] assms(2,3)
    by (cases "ws t") (auto simp: work_ok_def client_ok_def split: if_splits)
qed

lemma view_commit:
  assumes inv: "view_inv p c cs ws io listed" and at: "cs t = Some (At_Start_Commit p)"
    and idle: "\<not> mc_started c" "\<not> mc_destroy_requested c"
    and new: "client_ok c'" "\<not> mc_destroy_from_worker c'" "mc_api_callers c' = mc_api_callers c"
    and ws': "\<And>t' w. ws' t' = Some w \<Longrightarrow> w = W_Top \<and> work_ok t' c' w" "mc_started c' \<Longrightarrow> ws' (mc_worker_thread c') \<noteq> None"
  shows "view_inv p c' (cs(t \<mapsto> At_Leave p)) ws' io listed"
proof (rule view_call [OF inv])
  note client = view_parts(1) [OF inv] and none = idle_no_worker [OF inv idle]
  show "api_ok t' c' pc" if "api_ok t' c pc" for t' pc by (rule idle_api [OF client idle that])
  have off: "cs t' \<noteq> Some (At_Send_Io p)" "cs t' \<noteq> Some (At_Stop_Joined p k)" for t' k
    using view_parts(2) [OF inv, of t'] client idle by (auto simp: client_ok_def api_ok_def)
  show "(cs(t \<mapsto> At_Leave p)) t' = Some (At_Send_Io p) \<or> ws' t' = Some W_Recv_Io \<longleftrightarrow> io = Some t'" for t'
    using view_parts(4) [OF inv, of t'] off none ws'(1) [of t'] by auto
  show "ws' = (\<lambda>_. None)" if "(cs(t \<mapsto> At_Leave p)) t' = Some (At_Stop_Joined p k)" for t' k
    using that off by (cases "t' = t") auto
qed (use assms in \<open>auto simp: api_ok_def\<close>)

section \<open>Steps of the worker at one client\<close>

lemma view_work_same:
  assumes inv: "view_inv p c cs ws io listed" and at: "ws t = Some w" and same: "same_phase c c'"
    and callers: "mc_api_callers c' = mc_api_callers c" and new: "work_ok t c' w'"
    and "w \<noteq> W_Recv_Io" and "w' \<noteq> W_Recv_Io" and "w' = W_Free \<Longrightarrow> \<not> listed'" and "listed' \<Longrightarrow> listed"
  shows "view_inv p c' cs (ws(t \<mapsto> w')) io listed'"
proof (rule view_work [OF inv at])
  have tw: "mc_worker_thread c = t" using view_parts(3) [OF inv at] by (simp add: work_ok_def)
  show "client_ok c'" by (rule same_phase_client [OF same view_parts(1) [OF inv]])
  show "api_ok t' c' pc" if "api_ok t' c pc" for t' pc by (rule same_phase_api [OF same _ that]) (simp add: callers)
  show "mc_worker_detached c' \<or> cs t \<in> {Some (At_Self p), Some (At_Unclaim p)}" if "mc_destroy_from_worker c'" "mc_started c'"
    using view_parts(8) [OF inv] same that by (simp add: same_phase_def tw)
  show "cs t' = Some (At_Send_Io p) \<or> (ws(t \<mapsto> w')) t' = Some W_Recv_Io \<longleftrightarrow> io = Some t'" for t'
    using view_parts(4) [OF inv, of t'] at assms(6,7) by (cases "t' = t") auto
qed (use assms in \<open>auto simp: same_phase_def\<close>)

text \<open>The worker opens, closes and uses the transport.\<close>

lemma view_work_state:
  assumes inv: "view_inv p c cs ws io listed" and at: "ws t = Some w" and here: "\<And>t' pc. cs t' = Some pc \<Longrightarrow> api_client pc = p"
    and phase: "mc_started c" "\<not> mc_terminal_cleanup_complete c"
    and c': "c' = c\<lparr>mc_transport := tr, mc_connection_state := st\<rparr>" and new: "work_ok t c' w'"
    and closing: "st = SENSOR_MGR_IPC_DISCONNECTED \<Longrightarrow> io = None" and "w \<noteq> W_Recv_Io" and "w' \<noteq> W_Recv_Io" and "w' \<noteq> W_Free"
  shows "view_inv p c' cs (ws(t \<mapsto> w')) io listed"
proof (rule view_work [OF inv at])
  have tw: "mc_worker_thread c = t" using view_parts(3) [OF inv at] by (simp add: work_ok_def)
  show "client_ok c'" using view_parts(1) [OF inv] phase by (simp add: c' client_ok_def)
  show "api_ok t' c' pc" if "cs t' = Some pc" "api_ok t' c pc" for t' pc
  proof (cases pc)
    case (At_Send_Io q)
    then have "io = Some t'" using view_parts(4) [OF inv, of t'] here [OF that(1)] that(1) by simp
    then show ?thesis using closing At_Send_Io by (auto simp: c' api_ok_def)
  qed (use that in \<open>simp_all add: c' api_ok_def\<close>)
  show "mc_worker_detached c' \<or> cs t \<in> {Some (At_Self p), Some (At_Unclaim p)}" if "mc_destroy_from_worker c'" "mc_started c'"
    using view_parts(8) [OF inv] that by (simp add: c' tw)
  show "cs t' = Some (At_Send_Io p) \<or> (ws(t \<mapsto> w')) t' = Some W_Recv_Io \<longleftrightarrow> io = Some t'" for t'
    using view_parts(4) [OF inv, of t'] at assms(9,10) by (cases "t' = t") auto
qed (use assms in \<open>auto simp: c'\<close>)

lemma view_work_io:
  assumes inv: "view_inv p c cs ws io listed" and at: "ws t = Some w" and new: "work_ok t c w'"
    and io: "\<And>t'. cs t' = Some (At_Send_Io p) \<or> (ws(t \<mapsto> w')) t' = Some W_Recv_Io \<longleftrightarrow> io' = Some t'"
    and "w' \<noteq> W_Free"
  shows "view_inv p c cs (ws(t \<mapsto> w')) io' listed"
proof (rule view_work [OF inv at])
  have "mc_worker_thread c = t" using view_parts(3) [OF inv at] by (simp add: work_ok_def)
  then show "mc_worker_detached c \<or> cs t \<in> {Some (At_Self p), Some (At_Unclaim p)}" if "mc_destroy_from_worker c" "mc_started c"
    using view_parts(8) [OF inv] that by simp
qed (use assms view_parts(1) [OF inv] in auto)

text \<open>The end of the worker; it runs no call of its own.\<close>

lemma view_finish:
  assumes inv: "view_inv p c cs ws io listed" and at: "ws t = Some W_Finish" and c': "c' = c\<lparr>mc_cancel_initialized := False\<rparr>"
  shows "view_inv p c' cs (ws(t \<mapsto> W_Finish_Cancel)) io listed"
proof (rule view_work [OF inv at])
  have ok: "work_ok t c W_Finish" by (rule view_parts(3) [OF inv at])
  show "client_ok c'" using view_parts(1) [OF inv] by (simp add: c' client_ok_def)
  show "work_ok t c' w" if "Some W_Finish_Cancel = Some w" for w using that ok by (auto simp: c' work_ok_def)
  show "api_ok t' c' pc" if "api_ok t' c pc" for t' pc using that by (cases pc) (simp_all add: c' api_ok_def)
  show "mc_worker_detached c' \<or> cs t \<in> {Some (At_Self p), Some (At_Unclaim p)}" if "mc_destroy_from_worker c'" "mc_started c'"
    using view_parts(8) [OF inv] that ok by (simp add: c' work_ok_def)
  show "cs t' = Some (At_Send_Io p) \<or> (ws(t \<mapsto> W_Finish_Cancel)) t' = Some W_Recv_Io \<longleftrightarrow> io = Some t'" for t'
    using view_parts(4) [OF inv, of t'] at by (cases "t' = t") auto
qed (simp_all add: c')

lemma view_publish:
  assumes inv: "view_inv p c cs ws io listed" and at: "ws t = Some W_Publish" and idle: "cs t = None"
    and pub: "worker_finish_publish c = (after, c')"
  shows "after \<longleftrightarrow> mc_worker_detached c'"
    and "view_inv p c' cs (ws(t \<mapsto> if after then W_Remove else W_Ended)) io listed"
proof -
  have ok: "work_ok t c W_Publish" by (rule view_parts(3) [OF inv at])
  have client: "client_ok c" by (rule view_parts(1) [OF inv])
  have det: "mc_destroy_from_worker c \<longleftrightarrow> mc_worker_detached c"
    using view_parts(8) [OF inv] ok idle client by (auto simp: work_ok_def client_ok_def)
  have c': "c' = (if mc_worker_detached c
      then c\<lparr>mc_terminal_cleanup_complete := True, mc_started := False, mc_stop_complete := True\<rparr>
      else c\<lparr>mc_terminal_cleanup_complete := True\<rparr>)" and after: "after \<longleftrightarrow> mc_worker_detached c"
    using pub det by (auto simp: worker_finish_publish_def Let_def split: if_splits)
  show "after \<longleftrightarrow> mc_worker_detached c'" using after c' by simp
  show "view_inv p c' cs (ws(t \<mapsto> if after then W_Remove else W_Ended)) io listed"
  proof (rule view_work [OF inv at])
    show "client_ok c'" using client ok by (auto simp: c' client_ok_def work_ok_def)
    show "work_ok t c' w" if "Some (if after then W_Remove else W_Ended) = Some w" for w
      using that ok det by (auto simp: c' after work_ok_def)
    show "api_ok t' c' pc" if "cs t' = Some pc" "api_ok t' c pc" for t' pc
      using that(2) by (cases pc) (auto simp: c' api_ok_def)
    show "cs t' = Some (At_Send_Io p) \<or> (ws(t \<mapsto> if after then W_Remove else W_Ended)) t' = Some W_Recv_Io \<longleftrightarrow> io = Some t'" for t'
      using view_parts(4) [OF inv, of t'] at by (cases "t' = t") auto
  qed (use det in \<open>auto simp: c' split: if_splits\<close>)
qed

section \<open>The invariant of the system\<close>

definition calls_at :: "mgr_sys \<Rightarrow> nat \<Rightarrow> nat \<Rightarrow> api_pc option" where
  "calls_at s p t = (case sy_call s t of Some pc \<Rightarrow> if api_client pc = p then Some pc else None | None \<Rightarrow> None)"

definition works_at :: "mgr_sys \<Rightarrow> nat \<Rightarrow> nat \<Rightarrow> worker_pc option" where
  "works_at s p t = (case sy_work s t of Some (q, w) \<Rightarrow> if q = p then Some w else None | None \<Rightarrow> None)"

definition client_inv :: "mgr_sys \<Rightarrow> nat \<Rightarrow> bool" where
  "client_inv s p \<longleftrightarrow>
     (case sy_heap s p of
        None \<Rightarrow> calls_at s p = (\<lambda>_. None) \<and> works_at s p = (\<lambda>_. None) \<and> sy_io s p = None \<and> p \<notin> set (sy_registry s)
      | Some c \<Rightarrow> p \<noteq> 0 \<and> view_inv p c (calls_at s p) (works_at s p) (sy_io s p) (p \<in> set (sy_registry s)))"

definition mgr_inv :: "mgr_sys \<Rightarrow> bool" where
  "mgr_inv s \<longleftrightarrow> distinct (sy_registry s) \<and> (\<forall>p. client_inv s p)
     \<and> (\<forall>t p w. sy_work s t = Some (p, w) \<and> sy_call s t \<noteq> None \<longrightarrow> in_callback w)"

lemma calls_at_update:
  "sy_call s' = (sy_call s)(t := new) \<Longrightarrow>
   calls_at s' q = (calls_at s q)(t := case new of Some pc \<Rightarrow> if api_client pc = q then Some pc else None | None \<Rightarrow> None)"
  by (rule ext) (simp add: calls_at_def)

lemma works_at_update:
  "sy_work s' = (sy_work s)(t := new) \<Longrightarrow>
   works_at s' q = (works_at s q)(t := case new of Some (r, w) \<Rightarrow> if r = q then Some w else None | None \<Rightarrow> None)"
  by (rule ext) (simp add: works_at_def)

lemma calls_at_iff [simp]: "calls_at s p t = Some pc \<longleftrightarrow> sy_call s t = Some pc \<and> api_client pc = p"
  by (auto simp: calls_at_def split: option.splits)

lemma works_at_iff [simp]: "works_at s p t = Some w \<longleftrightarrow> sy_work s t = Some (p, w)"
  by (auto simp: works_at_def split: option.splits)

lemma at_unaffected [simp]:
  "calls_at (s\<lparr>sy_heap := h\<rparr>) = calls_at s" "calls_at (s\<lparr>sy_registry := r\<rparr>) = calls_at s"
  "works_at (s\<lparr>sy_heap := h\<rparr>) = works_at s" "works_at (s\<lparr>sy_registry := r\<rparr>) = works_at s"
  "works_at (s\<lparr>sy_call := f\<rparr>) = works_at s"
  by (intro ext, simp add: calls_at_def works_at_def)+

text \<open>What a step on client \<open>p\<close> leaves alone keeps its invariant.\<close>

lemma mgr_inv_at:
  assumes "mgr_inv s" and "client_inv s' p" and "distinct (sy_registry s')"
    and "\<And>q. q \<noteq> p \<Longrightarrow> sy_heap s' q = sy_heap s q \<and> calls_at s' q = calls_at s q \<and> works_at s' q = works_at s q
           \<and> sy_io s' q = sy_io s q \<and> (q \<in> set (sy_registry s') \<longleftrightarrow> q \<in> set (sy_registry s))"
    and "\<And>t p w. sy_work s' t = Some (p, w) \<Longrightarrow> sy_call s' t \<noteq> None \<Longrightarrow> in_callback w"
  shows "mgr_inv s'"
proof -
  have "client_inv s' q" for q
  proof (cases "q = p")
    case False
    have "client_inv s q" using assms(1) by (simp add: mgr_inv_def)
    then show ?thesis using assms(4) [OF False] by (cases "sy_heap s q") (simp_all add: client_inv_def)
  qed (use assms(2) in simp)
  with assms(3,5) show ?thesis by (auto simp: mgr_inv_def)
qed

lemma other_client:
  assumes "sy_call s t = Some pc" and "api_client pc = p" and "\<And>pc'. new = Some pc' \<Longrightarrow> api_client pc' = p"
    and "sy_call s' = (sy_call s)(t := new)"
  shows "calls_at s' p = (calls_at s p)(t := new)" and "q \<noteq> p \<Longrightarrow> calls_at s' q = calls_at s q"
proof -
  show "calls_at s' p = (calls_at s p)(t := new)"
    using assms(3) by (simp add: calls_at_update [OF assms(4)] split: option.split)
  show "calls_at s' q = calls_at s q" if "q \<noteq> p"
    using that assms(1-3) by (intro ext) (auto simp: calls_at_update [OF assms(4)] calls_at_def split: option.split)
qed

lemma other_worker:
  assumes "\<And>q w. sy_work s t = Some (q, w) \<Longrightarrow> q = p" and "\<And>q w. new = Some (q, w) \<Longrightarrow> q = p"
    and "sy_work s' = (sy_work s)(t := new)"
  shows "works_at s' p = (works_at s p)(t := map_option snd new)" and "q \<noteq> p \<Longrightarrow> works_at s' q = works_at s q"
proof -
  show "works_at s' p = (works_at s p)(t := map_option snd new)"
    using assms(2) by (auto simp: works_at_update [OF assms(3)] split: option.split prod.split)
  show "works_at s' q = works_at s q" if "q \<noteq> p"
    using that assms(1,2) by (intro ext) (auto simp: works_at_update [OF assms(3)] works_at_def split: option.split prod.split)
qed

text \<open>A section of a call, and a section of the worker.\<close>

lemma api_update_inv:
  assumes inv: "mgr_inv s" and at: "sy_call s t = Some pc" "api_client pc = p" and new: "\<And>pc'. new = Some pc' \<Longrightarrow> api_client pc' = p"
    and s': "sy_heap s' = (sy_heap s)(p \<mapsto> c')" "sy_call s' = (sy_call s)(t := new)" "sy_work s' = (sy_work s)(t' := work)"
      "sy_io s' = (sy_io s)(p := io)" "sy_registry s' = reg"
    and reg: "distinct reg" "\<And>q. q \<noteq> p \<Longrightarrow> q \<in> set reg \<longleftrightarrow> q \<in> set (sy_registry s)"
    and work: "\<And>q w. sy_work s t' = Some (q, w) \<Longrightarrow> q = p \<or> work = Some (q, w)"
      "\<And>q w. work = Some (q, w) \<Longrightarrow> q = p \<or> sy_work s t' = Some (q, w)"
      "sy_call s t' = None \<or> work = None \<or> work = sy_work s t'"
    and view: "p \<noteq> 0" "view_inv p c' ((calls_at s p)(t := new)) (works_at s' p) io (p \<in> set reg)"
    and own: "t' \<noteq> t \<or> work = sy_work s t'"
  shows "mgr_inv s'"
proof (rule mgr_inv_at [OF inv])
  show "client_inv s' p"
    using view s' by (simp add: client_inv_def other_client(1) [OF at new s'(2)])
  show "distinct (sy_registry s')" using reg s' by simp
  show "sy_heap s' q = sy_heap s q \<and> calls_at s' q = calls_at s q \<and> works_at s' q = works_at s q
           \<and> sy_io s' q = sy_io s q \<and> (q \<in> set (sy_registry s') \<longleftrightarrow> q \<in> set (sy_registry s))" if "q \<noteq> p" for q
  proof -
    have "works_at s' q = works_at s q"
      using that work(1,2) by (intro ext) (auto simp: works_at_def s' split: option.split)
    with that show ?thesis using s' reg by (simp add: other_client(2) [OF at new s'(2) that])
  qed
  show "in_callback w" if "sy_work s' u = Some (q, w)" "sy_call s' u \<noteq> None" for u q w
  proof -
    have old: "sy_work s u = Some (q, w) \<Longrightarrow> sy_call s u \<noteq> None \<Longrightarrow> in_callback w" using inv unfolding mgr_inv_def by blast
    show ?thesis
      using that old at(1) work(3) own unfolding s' by (cases "u = t'"; cases "u = t") auto
  qed
qed

lemma api_go_inv:
  assumes inv: "mgr_inv s" and at: "sy_call s t = Some pc" "api_client pc = p" and new: "\<And>pc'. new = Some pc' \<Longrightarrow> api_client pc' = p"
    and "p \<noteq> 0" and "view_inv p c' ((calls_at s p)(t := new)) (works_at s p) (sy_io s p) (p \<in> set (sy_registry s))"
  shows "mgr_inv (api_go s t p c' new)"
proof (rule api_update_inv [OF inv at new, where t' = t and work = "sy_work s t" and io = "sy_io s p"])
  have "works_at (api_go s t p c' new) p = works_at s p" by (rule ext) (simp add: works_at_def api_go_def)
  with assms(6) show "view_inv p c' ((calls_at s p)(t := new)) (works_at (api_go s t p c' new) p) (sy_io s p) (p \<in> set (sy_registry s))"
    by simp
qed (use inv assms(5) in \<open>simp_all add: api_go_def mgr_inv_def\<close>)

lemma client_view:
  assumes "mgr_inv s" and "sy_heap s p = Some c"
  shows "p \<noteq> 0" and "view_inv p c (calls_at s p) (works_at s p) (sy_io s p) (p \<in> set (sy_registry s))"
proof -
  have "client_inv s p" using assms(1) by (simp add: mgr_inv_def)
  then show "p \<noteq> 0" "view_inv p c (calls_at s p) (works_at s p) (sy_io s p) (p \<in> set (sy_registry s))"
    using assms(2) by (simp_all add: client_inv_def)
qed

lemma api_same_inv:
  assumes inv: "mgr_inv s" and at: "sy_call s t = Some pc" "api_client pc = p" and c: "sy_heap s p = Some c"
    and same: "same_phase c c'" "mc_api_callers c' \<le> mc_api_callers c" "mc_api_callers c' + pin_of (Some pc) = mc_api_callers c + pin_of new"
    and pc: "\<And>k. pc \<noteq> At_Stop_Joined p k" "pc \<noteq> At_Send_Io p" "pc \<noteq> At_Unclaim p" "pc = At_Self p \<Longrightarrow> new = Some (At_Unclaim p)"
    and new: "\<And>pc'. new = Some pc' \<Longrightarrow> api_client pc' = p \<and> api_ok t c' pc' \<and> (joining pc' \<longrightarrow> joining pc)
       \<and> (destroying pc' \<longrightarrow> destroying pc) \<and> pc' \<noteq> At_Send_Io p \<and> pc' \<noteq> At_Free p \<and> (\<forall>k. pc' \<noteq> At_Stop_Joined p k)"
  shows "mgr_inv (api_go s t p c' new)"
proof (rule api_go_inv [OF inv at])
  note view = client_view [OF inv c]
  show "p \<noteq> 0" by (rule view(1))
  show "api_client pc' = p" if "new = Some pc'" for pc' using new [OF that] by simp
  show "view_inv p c' ((calls_at s p)(t := new)) (works_at s p) (sy_io s p) (p \<in> set (sy_registry s))"
    by (rule view_call_same [OF view(2), where old = pc]) (use same pc at new in auto)
qed

lemma mark_same_phase [simp]: "same_phase c (mark_transport_stopping c)" "mc_api_callers (mark_transport_stopping c) = mc_api_callers c"
  by (simp_all add: same_phase_def mark_transport_stopping_def)

lemma leave_same_phase [simp]: "same_phase c (client_leave c)" "mc_api_callers (client_leave c) = mc_api_callers c - 1"
  by (simp_all add: same_phase_def client_leave_def)

lemma api_ok_leave [simp]: "api_ok t c (At_Leave p)" "api_ok t c (At_Start p)" "api_ok t c (At_Start_Recheck p)" "api_ok t c (At_Start_Commit p)"
  "api_ok t c (At_Stop p By_Start)"
  by (simp_all add: api_ok_def)

lemma stop_return_client [simp]: "api_client (stop_return k p) = p"
  by (cases k) simp_all

lemma stop_return_ok:
  assumes "api_ok t c pc" and "destroying pc \<longleftrightarrow> k = By_Destroy" and "k = By_Destroy \<Longrightarrow> \<not> mc_started c" and "same_phase c c'"
  shows "api_ok t c' (stop_return k p) \<and> \<not> joining (stop_return k p) \<and> (destroying (stop_return k p) \<longrightarrow> destroying pc)
     \<and> stop_return k p \<noteq> At_Send_Io p \<and> stop_return k p \<noteq> At_Free p \<and> (\<forall>k'. stop_return k p \<noteq> At_Stop_Joined p k') \<and> pinned (stop_return k p)"
  using assms by (cases k) (simp_all add: api_ok_def same_phase_def)

lemma pinned_positive:
  assumes "mgr_inv s" and "sy_heap s p = Some c" and "sy_call s t = Some pc" and "api_client pc = p" and "pinned pc"
  shows "0 < mc_api_callers c"
proof -
  note view = client_view(2) [OF assms(1,2)]
  have "t \<in> pinners (calls_at s p)" using assms(3-5) by (simp add: pinners_def)
  then show ?thesis using view_parts(10,11) [OF view] by (auto simp: card_gt_0_iff)
qed

lemma registry_unlink_removes:
  "\<forall>q\<in>set reg. h q \<noteq> None \<Longrightarrow> registry_unlink h reg p = Some (remove1 p reg)"
  by (induction reg) (auto split: option.splits)

lemma registry_allocated:
  assumes "mgr_inv s" and "q \<in> set (sy_registry s)"
  shows "sy_heap s q \<noteq> None"
proof
  assume "sy_heap s q = None"
  moreover have "client_inv s q" using assms(1) by (simp add: mgr_inv_def)
  ultimately show False using assms(2) by (simp add: client_inv_def)
qed

section \<open>Every section of a call keeps the invariant\<close>

text \<open>A step that neither faults nor breaks the invariant.\<close>

definition safe :: "outcome \<Rightarrow> bool" where
  "safe r \<longleftrightarrow> (case r of Blocked \<Rightarrow> True | Crash \<Rightarrow> False | Next s \<Rightarrow> mgr_inv s)"

lemma safe_simps [simp]: "safe Blocked" "\<not> safe Crash" "safe (Next s) \<longleftrightarrow> mgr_inv s"
  by (simp_all add: safe_def)

lemma safe_stop:
  assumes inv: "mgr_inv s" and at: "sy_call s t = Some (At_Stop p k)" and c: "sy_heap s p = Some c"
  shows "safe (api_step e t s c (At_Stop p k))"
proof -
  note view = client_view [OF inv c]
  have cs: "calls_at s p t = Some (At_Stop p k)" using at by simp
  have ok: "api_ok t c (At_Stop p k)" by (rule view_parts(2) [OF view(2) cs])
  obtain n c' cancel where req: "stop_request t c = (n, c', cancel)" by (metis prod_cases3)
  have "\<not> (case cancel of None \<Rightarrow> False | Some source \<Rightarrow> cancel_write_fd source < 0)"
    using view_parts(1) [OF view(2)] req by (auto simp: stop_request_def client_ok_def Let_def split: if_splits)
  moreover have "mgr_inv (api_go s t p c' (Some (stop_continue n p k)))"
  proof (cases "\<exists>w. n = Stop_Join_Worker w")
    case True
    then have j: "mc_started c" "\<not> mc_worker_detached c" "\<not> mc_join_in_progress c" "t \<noteq> mc_worker_thread c"
      and n: "n = Stop_Join_Worker (mc_worker_thread c)" and c': "c' = c\<lparr>mc_shutdown_requested := True, mc_join_in_progress := True\<rparr>"
      using req by (auto simp: stop_request_def Let_def split: if_splits)
    show ?thesis
      by (rule api_go_inv [OF inv at _ _ view(1)]) (use view_claim_join [OF view(2) cs j c'] in \<open>simp_all add: n stop_continue_def\<close>)
  next
    case False
    have same: "same_phase c c'" "mc_api_callers c' = mc_api_callers c"
      using req False by (auto simp: stop_request_def same_phase_def Let_def split: if_splits)
    have "api_client (stop_continue n p k) = p \<and> api_ok t c' (stop_continue n p k) \<and> \<not> joining (stop_continue n p k)
      \<and> (destroying (stop_continue n p k) \<longrightarrow> k = By_Destroy) \<and> stop_continue n p k \<noteq> At_Send_Io p \<and> stop_continue n p k \<noteq> At_Free p
      \<and> (\<forall>k'. stop_continue n p k \<noteq> At_Stop_Joined p k') \<and> pinned (stop_continue n p k)"
    proof (cases n)
      case Stop_Not_Started
      then have "\<not> mc_started c" using req by (auto simp: stop_request_def Let_def split: if_splits)
      then show ?thesis
        using stop_return_ok [OF ok, where k = k and c' = c' and p = p] same by (simp add: Stop_Not_Started stop_continue_def)
    next
      case Stop_Self
      then have "mc_started c" "t = mc_worker_thread c" using req by (auto simp: stop_request_def Let_def split: if_splits)
      then show ?thesis using ok by (simp add: Stop_Self stop_continue_def api_ok_def)
    next
      case Stop_Wait_Complete
      then show ?thesis using ok same by (simp add: stop_continue_def api_ok_def same_phase_def)
    next
      case (Stop_Join_Worker w)
      then show ?thesis using False by simp
    qed
    then show ?thesis by (intro api_same_inv [OF inv at _ c]) (use same in auto)
  qed
  ultimately show ?thesis by (simp add: req)
qed

lemma safe_join:
  assumes inv: "mgr_inv s" and at: "sy_call s t = Some (At_Stop_Join p k w)" and c: "sy_heap s p = Some c"
  shows "safe (api_step e t s c (At_Stop_Join p k w))"
proof -
  note view = client_view [OF inv c]
  have cs: "calls_at s p t = Some (At_Stop_Join p k w)" using at by simp
  have ok: "api_ok t c (At_Stop_Join p k w)" by (rule view_parts(2) [OF view(2) cs])
  have "\<not> (\<exists>t k. calls_at s p t = Some (At_Stop_Joined p k))"
    using view_parts(9) [OF view(2)] cs unfolding at_most_one_def
    by (metis api_pc.distinct joining.simps(2) joining.simps(3) option.inject)
  then have "works_at s p w \<noteq> None" using view_parts(7) [OF view(2)] ok by (auto simp: api_ok_def)
  then obtain pc where pc: "sy_work s w = Some (p, pc)" by auto
  have "mgr_inv ((api_go s t p c (Some (At_Stop_Joined p k)))\<lparr>sy_work := (sy_work s)(w := None)\<rparr>)" (is "mgr_inv ?s") if "pc = W_Ended"
  proof (rule api_update_inv [OF inv at, where t' = w and work = None and io = "sy_io s p" and reg = "sy_registry s"])
    have "works_at ?s p = (works_at s p)(w := None)" by (rule ext) (simp add: works_at_def)
    then show "view_inv p c ((calls_at s p)(t \<mapsto> At_Stop_Joined p k)) (works_at ?s p) (sy_io s p) (p \<in> set (sy_registry s))"
      using view_join [OF view(2) cs] pc that by simp
  qed (use inv view pc ok in \<open>auto simp: api_go_def mgr_inv_def api_ok_def\<close>)
  then show ?thesis using pc ok by (auto simp: api_ok_def)
qed

lemma safe_joined:
  assumes inv: "mgr_inv s" and at: "sy_call s t = Some (At_Stop_Joined p k)" and c: "sy_heap s p = Some c"
  shows "safe (api_step e t s c (At_Stop_Joined p k))"
proof -
  note view = client_view [OF inv c]
  have cs: "calls_at s p t = Some (At_Stop_Joined p k)" using at by simp
  have ok: "api_ok t c (At_Stop_Joined p k)" by (rule view_parts(2) [OF view(2) cs])
  have "mgr_inv (api_go s t p (c\<lparr>mc_started := False, mc_stop_complete := True, mc_join_in_progress := False\<rparr>) (Some (stop_return k p)))"
    by (rule api_go_inv [OF inv at _ _ view(1)]) (use view_joined [OF view(2) cs refl] in simp_all)
  then show ?thesis using ok by (simp add: stop_joined_def stop_return_status_def api_ok_def)
qed

text \<open>How a start ends.\<close>

lemma start_commit_cases:
  assumes "start_commit init created c = (r, c')"
  obtains (again) "mc_started c" "r = Inl None" "c' = c"
    | (refused) st where "\<not> mc_started c" "mc_destroy_requested c" "r = Inl (Some st)" "c' = c"
    | (failed) st where "\<not> mc_started c" "\<not> mc_destroy_requested c" "r = Inl (Some st)" "\<not> mc_started c'"
        "mc_stop_complete c \<Longrightarrow> mc_stop_complete c'" "\<not> mc_cancel_initialized c \<Longrightarrow> \<not> mc_cancel_initialized c'"
        "\<not> mc_worker_detached c \<Longrightarrow> \<not> mc_worker_detached c'" "mc_connection_state c' = mc_connection_state c"
        "mc_destroy_from_worker c' = mc_destroy_from_worker c" "mc_api_callers c' = mc_api_callers c"
    | (created) w where "\<not> mc_started c" "\<not> mc_destroy_requested c" "r = Inr w" "created = Some w" "fst init = SAVVY_OK"
        "c' = c\<lparr>mc_cancel_source := snd init, mc_cancel_initialized := True,
                   mc_reconnect_tracker := savvy_ipc_reconnect_tracker_init, mc_shutdown_requested := False,
                   mc_stop_complete := False, mc_terminal_cleanup_complete := False, mc_worker_detached := False,
                   mc_join_in_progress := False, mc_worker_thread := w, mc_started := True\<rparr>"
  using assms by (auto simp: start_commit_def client_destroy_is_requested_def Let_def split: if_splits option.splits)

lemma cancel_init_open:
  assumes "savvy_ipc_cancel_source_init pipe fcntl_ok = (SAVVY_OK, source, fds)"
    and "case pipe of None \<Rightarrow> True | Some (r, w) \<Rightarrow> 0 \<le> r \<and> 0 \<le> w"
  shows "0 \<le> cancel_write_fd source"
  using assms by (auto simp: savvy_ipc_cancel_source_init_def split: option.splits if_splits)

lemma safe_commit:
  assumes inv: "mgr_inv s" and at: "sy_call s t = Some (At_Start_Commit p)" and c: "sy_heap s p = Some c" and env: "mgr_env_ok s e"
  shows "safe (api_step e t s c (At_Start_Commit p))"
proof -
  note view = client_view [OF inv c]
  note client = view_parts(1) [OF view(2)]
  have cs: "calls_at s p t = Some (At_Start_Commit p)" using at by simp
  obtain st source fds where init: "savvy_ipc_cancel_source_init (en_pipe e) (en_fcntl e) = (st, source, fds)" by (metis prod_cases3)
  obtain r c' where commit: "start_commit (st, source) (en_thread e) c = (r, c')" by fastforce
  from commit show ?thesis
  proof (cases rule: start_commit_cases)
    case again
    have "mgr_inv (api_go s t p c (Some (At_Start p)))" by (rule api_same_inv [OF inv at _ c]) auto
    with again show ?thesis by (simp add: init commit)
  next
    case (refused st')
    have "mgr_inv (api_go s t p c (Some (At_Leave p)))" by (rule api_same_inv [OF inv at _ c]) auto
    with refused show ?thesis by (simp add: init commit)
  next
    case (failed st')
    have none: "works_at s p = (\<lambda>_. None)" by (rule idle_no_worker [OF view(2) failed(1,2)])
    have "client_ok c'" using client failed by (auto simp: client_ok_def)
    then have "view_inv p c' ((calls_at s p)(t \<mapsto> At_Leave p)) (works_at s p) (sy_io s p) (p \<in> set (sy_registry s))"
      using client failed by (intro view_commit [OF view(2) cs failed(1,2)]) (auto simp: client_ok_def fun_cong [OF none])
    then have "mgr_inv (api_go s t p c' (Some (At_Leave p)))" by (intro api_go_inv [OF inv at _ _ view(1)]) auto
    with failed show ?thesis by (simp add: init commit)
  next
    case (created w)
    let ?s = "(api_go s t p c' (Some (At_Leave p)))\<lparr>sy_work := (sy_work s)(w \<mapsto> (p, W_Top))\<rparr>"
    have w: "sy_call s w = None" "sy_work s w = None" using env created(4) by (simp_all add: mgr_env_ok_def)
    have none: "works_at s p = (\<lambda>_. None)" by (rule idle_no_worker [OF view(2) created(1,2)])
    have works: "works_at ?s p = [w \<mapsto> W_Top]" unfolding none [symmetric] by (rule ext) (simp add: works_at_def)
    have "0 \<le> cancel_write_fd source" using cancel_init_open [of "en_pipe e" "en_fcntl e"] env init created(5) by (simp add: mgr_env_ok_def)
    then have ok: "client_ok c'" using client created by (simp add: client_ok_def)
    have "work_ok w c' W_Top" using client created by (simp add: client_ok_def work_ok_def)
    then have "view_inv p c' ((calls_at s p)(t \<mapsto> At_Leave p)) (works_at ?s p) (sy_io s p) (p \<in> set (sy_registry s))"
      unfolding works using client created(2,6) ok
      by (intro view_commit [OF view(2) cs created(1,2)]) (auto simp: client_ok_def split: if_splits)
    then have "mgr_inv ?s"
      by (intro api_update_inv [OF inv at, where t' = w and work = "Some (p, W_Top)" and io = "sy_io s p" and reg = "sy_registry s"])
        (use inv view w at in \<open>auto simp: api_go_def mgr_inv_def\<close>)
    with created(3) show ?thesis by (simp add: init commit)
  qed
qed

lemma safe_send:
  assumes inv: "mgr_inv s" and c: "sy_heap s p = Some c"
  shows "sy_call s t = Some (At_Send p) \<Longrightarrow> safe (api_step e t s c (At_Send p))"
    and "sy_call s t = Some (At_Send_Io p) \<Longrightarrow> safe (api_step e t s c (At_Send_Io p))"
proof -
  note view = client_view [OF inv c]
  have works: "works_at (io_set p h (api_go s t p c new)) p = works_at s p" for h new
    by (rule ext) (simp add: works_at_def io_set_def api_go_def)
  show "safe (api_step e t s c (At_Send p))" if at: "sy_call s t = Some (At_Send p)"
  proof -
    have cs: "calls_at s p t = Some (At_Send p)" using at by simp
    have "mgr_inv (api_go s t p c (Some (At_Leave p)))" by (rule api_same_inv [OF inv at _ c]) auto
    moreover have "mgr_inv (io_set p (Some t) (api_go s t p c (Some (At_Send_Io p))))"
      if "mc_connection_state c = SENSOR_MGR_IPC_CONNECTED" "sy_io s p = None"
      by (rule api_update_inv [OF inv at, where t' = t and work = "sy_work s t" and io = "Some t" and reg = "sy_registry s"])
        (use inv view(1) view_send [OF view(2) cs] that works in \<open>auto simp: api_go_def io_set_def mgr_inv_def\<close>)
    ultimately show ?thesis by simp
  qed
  show "safe (api_step e t s c (At_Send_Io p))" if at: "sy_call s t = Some (At_Send_Io p)"
  proof -
    have cs: "calls_at s p t = Some (At_Send_Io p)" using at by simp
    have "sy_work s t \<noteq> Some (p, W_Recv_Io)" using inv at unfolding mgr_inv_def by (metis in_callback.simps option.distinct(1))
    then have "mgr_inv (io_set p None (api_go s t p c (Some (At_Leave p))))"
      by (intro api_update_inv [OF inv at, where t' = t and work = "sy_work s t" and io = None and reg = "sy_registry s"])
        (use inv view(1) view_sent [OF view(2) cs] works in \<open>auto simp: api_go_def io_set_def mgr_inv_def\<close>)
    then show ?thesis using view_parts(2) [OF view(2) cs] by (simp add: api_ok_def)
  qed
qed

lemma safe_destroy:
  assumes inv: "mgr_inv s" and c: "sy_heap s p = Some c"
  shows "sy_call s t = Some (At_Claim p) \<Longrightarrow> safe (api_step e t s c (At_Claim p))"
    and "sy_call s t = Some (At_Self p) \<Longrightarrow> safe (api_step e t s c (At_Self p))"
    and "sy_call s t = Some (At_Unclaim p) \<Longrightarrow> safe (api_step e t s c (At_Unclaim p))"
proof -
  note view = client_view [OF inv c]
  show "safe (api_step e t s c (At_Claim p))" if at: "sy_call s t = Some (At_Claim p)"
  proof -
    have cs: "calls_at s p t = Some (At_Claim p)" using at by simp
    have "mgr_inv (api_go s t p c (Some (At_Leave p)))" by (rule api_same_inv [OF inv at _ c]) auto
    moreover have "mgr_inv (api_go s t p (c\<lparr>mc_destroy_requested := True, mc_destroy_from_worker := fw\<rparr>)
        (Some (if fw then At_Self p else At_Stop p By_Destroy)))"
      if "\<not> mc_destroy_requested c" "fw \<longleftrightarrow> mc_started c \<and> t = mc_worker_thread c" for fw
      by (rule api_go_inv [OF inv at _ _ view(1)]) (use view_claim [OF view(2) cs that refl] in \<open>auto split: if_splits\<close>)
    ultimately show ?thesis by (cases "mc_destroy_requested c") (auto simp: client_claim_destroy_def Let_def)
  qed
  show "safe (api_step e t s c (At_Self p))" if at: "sy_call s t = Some (At_Self p)"
  proof -
    have cs: "calls_at s p t = Some (At_Self p)" using at by simp
    have ok: "api_ok t c (At_Self p)" by (rule view_parts(2) [OF view(2) cs])
    have "mgr_inv (api_go s t p c (Some (At_Unclaim p)))" by (rule api_same_inv [OF inv at _ c]) (use ok in \<open>auto simp: api_ok_def\<close>)
    moreover have "mgr_inv (api_go s t p (c\<lparr>mc_worker_detached := True\<rparr>) (Some (At_Stop p By_Destroy_Self)))" if "\<not> mc_join_in_progress c"
      by (rule api_go_inv [OF inv at _ _ view(1)]) (use view_detach [OF view(2) cs that refl] in auto)
    ultimately show ?thesis using ok by (simp add: destroy_self_def api_ok_def)
  qed
  show "safe (api_step e t s c (At_Unclaim p))" if at: "sy_call s t = Some (At_Unclaim p)"
  proof -
    have cs: "calls_at s p t = Some (At_Unclaim p)" using at by simp
    have cb: "in_callback w" if "works_at s p t = Some w" for w using inv that at unfolding mgr_inv_def by (metis option.distinct(1) works_at_iff)
    have "mgr_inv (api_go s t p (client_unclaim_destroy c) (Some (At_Stop p By_Destroy_Self)))"
      by (rule api_go_inv [OF inv at _ _ view(1)]) (use view_unclaim [OF view(2) cs cb client_unclaim_destroy_def] in auto)
    then show ?thesis by simp
  qed
qed

lemma unlink_step:
  assumes inv: "mgr_inv s"
  shows "registry_unlink (sy_heap s) (sy_registry s) p = Some (remove1 p (sy_registry s))"
    and "distinct (remove1 p (sy_registry s))" and "set (remove1 p (sy_registry s)) = set (sy_registry s) - {p}"
proof -
  show "registry_unlink (sy_heap s) (sy_registry s) p = Some (remove1 p (sy_registry s))"
    by (rule registry_unlink_removes) (use registry_allocated [OF inv] in blast)
  have "distinct (sy_registry s)" using inv by (simp add: mgr_inv_def)
  then show "distinct (remove1 p (sy_registry s))" "set (remove1 p (sy_registry s)) = set (sy_registry s) - {p}" by simp_all
qed

lemma safe_remove:
  assumes inv: "mgr_inv s" and at: "sy_call s t = Some (At_Remove p)" and c: "sy_heap s p = Some c"
  shows "safe (api_step e t s c (At_Remove p))"
proof -
  note view = client_view [OF inv c] and unlink = unlink_step [OF inv, of p]
  have cs: "calls_at s p t = Some (At_Remove p)" using at by simp
  have ok: "api_ok t c (At_Remove p)" by (rule view_parts(2) [OF view(2) cs])
  let ?s = "(api_go s t p c (Some (At_Free p)))\<lparr>sy_registry := remove1 p (sy_registry s)\<rparr>"
  have works: "works_at ?s p = works_at s p" by (rule ext) (simp add: works_at_def api_go_def)
  have "mgr_inv ?s" if zero: "mc_api_callers c = 0"
  proof (rule api_update_inv [OF inv at, where t' = t and work = "sy_work s t" and io = "sy_io s p" and reg = "remove1 p (sy_registry s)"])
    show "view_inv p c ((calls_at s p)(t \<mapsto> At_Free p)) (works_at ?s p) (sy_io s p) (p \<in> set (remove1 p (sy_registry s)))"
      unfolding works by (rule view_call_same [OF view(2) cs]) (use ok zero in \<open>auto simp: unlink(3) api_ok_def\<close>)
  qed (use view(1) unlink in \<open>auto simp: api_go_def\<close>)
  with unlink(1) show ?thesis by (simp add: registry_remove_and_wait_def)
qed

text \<open>When the storage is freed nobody else is at the client.\<close>

lemma free_inv:
  assumes inv: "mgr_inv s" and c: "sy_heap s p = Some c" and zero: "mc_api_callers c = 0"
    and gone: "\<And>u pc. sy_call s' u = Some pc \<Longrightarrow> api_client pc \<noteq> p" "\<And>u w. sy_work s' u \<noteq> Some (p, w)"
    and s': "sy_heap s' = (sy_heap s)(p := None)" "sy_io s' = sy_io s" "sy_registry s' = sy_registry s"
    and io: "sy_io s p = None" and reg: "p \<notin> set (sy_registry s)"
    and same: "\<And>u. sy_call s' u = sy_call s u \<or> sy_call s' u = None \<and> (\<exists>pc. sy_call s u = Some pc \<and> api_client pc = p)"
      "\<And>u. sy_work s' u = sy_work s u \<or> sy_work s' u = None \<and> (\<exists>w. sy_work s u = Some (p, w))"
  shows "mgr_inv s'"
proof (rule mgr_inv_at [OF inv])
  have "calls_at s' p = (\<lambda>_. None)" using gone(1) by (intro ext) (auto simp: calls_at_def split: option.split)
  moreover have "works_at s' p = (\<lambda>_. None)" using gone(2) by (intro ext) (auto simp: works_at_def split: option.split)
  ultimately show "client_inv s' p" using s' io reg by (simp add: client_inv_def)
  show "sy_heap s' q = sy_heap s q \<and> calls_at s' q = calls_at s q \<and> works_at s' q = works_at s q
           \<and> sy_io s' q = sy_io s q \<and> (q \<in> set (sy_registry s') \<longleftrightarrow> q \<in> set (sy_registry s))" if "q \<noteq> p" for q
  proof -
    have "calls_at s' q u = calls_at s q u" "works_at s' q u = works_at s q u" for u
      using same(1) [of u] same(2) [of u] that by (auto simp: calls_at_def works_at_def)
    then show ?thesis using that s' by (auto intro: ext)
  qed
  show "in_callback w" if "sy_work s' u = Some (q, w)" "sy_call s' u \<noteq> None" for u q w
    using inv that same [of u] unfolding mgr_inv_def by (metis option.distinct(1))
qed (use inv s' in \<open>simp add: mgr_inv_def\<close>)

lemma nobody_pinned:
  assumes "mgr_inv s" and "sy_heap s p = Some c" and "mc_api_callers c = 0" and "sy_call s u = Some pc" and "api_client pc = p"
  shows "destroying pc" and "\<not> mc_destroy_from_worker c"
proof -
  have "\<not> pinned pc" using pinned_positive [OF assms(1,2,4,5)] assms(3) by auto
  then show "destroying pc" by (cases pc) simp_all
  then show "\<not> mc_destroy_from_worker c"
    using view_parts(2) [OF client_view(2) [OF assms(1,2)], of u pc] assms(4,5) by (simp add: api_ok_def)
qed

lemma safe_free:
  assumes inv: "mgr_inv s" and at: "sy_call s t = Some (At_Free p)" and c: "sy_heap s p = Some c"
  shows "safe (api_step e t s c (At_Free p))"
proof -
  note view = client_view(2) [OF inv c]
  have cs: "calls_at s p t = Some (At_Free p)" using at by simp
  have ok: "api_ok t c (At_Free p)" by (rule view_parts(2) [OF view cs])
  then have zero: "mc_api_callers c = 0" by (simp add: api_ok_def)
  have only: "u = t" if "sy_call s u = Some pc" "api_client pc = p" for u pc
  proof -
    have "destroying pc" by (rule nobody_pinned [OF inv c zero that])
    moreover have "at_most_one destroying (calls_at s p)" using view by (simp add: view_inv_def)
    ultimately show ?thesis using cs that unfolding at_most_one_def by (metis calls_at_iff destroying.simps(10))
  qed
  have no_work: "sy_work s u \<noteq> Some (p, w)" for u w
    using view_parts(3) [OF view, of u w] ok by (auto simp: work_ok_def api_ok_def split: if_splits)
  have "sy_io s p = None"
  proof (cases "sy_io s p")
    case (Some u)
    then show ?thesis using view_parts(4) [OF view, of u] only [of u] no_work [of u] at by auto
  qed
  moreover have "p \<notin> set (sy_registry s)" using view cs unfolding view_inv_def by blast
  moreover have "api_client pc \<noteq> p" if "((sy_call s)(t := None)) u = Some pc" for u pc
    using that only [of u pc] by (cases "u = t") auto
  ultimately have "mgr_inv (s\<lparr>sy_heap := (sy_heap s)(p := None), sy_call := (sy_call s)(t := None)\<rparr>)"
    by (intro free_inv [OF inv c zero]) (use no_work at in simp_all)
  then show ?thesis by simp
qed

text \<open>The sections that change nothing a thread relies on.\<close>

lemma safe_plain:
  assumes inv: "mgr_inv s" and at: "sy_call s t = Some pc" and c: "sy_heap s (api_client pc) = Some c"
    and "pc \<in> {At_Start p, At_Start_Recheck p, At_Query p, At_Stop_Mark_Self p k, At_Stop_Wait p k, At_Stop_Mark p k w,
           At_Wait p, At_Leave p, At_Leave_Destroy p}"
  shows "safe (api_step e t s c pc)"
proof -
  have p: "api_client pc = p" using assms(4) by auto
  note go = api_same_inv [OF inv at p c [unfolded p]]
  note view = client_view(2) [OF inv c [unfolded p]]
  have ok: "api_ok t c pc" by (rule view_parts(2) [OF view]) (use at p in simp)
  have pos: "pinned pc \<Longrightarrow> 0 < mc_api_callers c" by (rule pinned_positive [OF inv c [unfolded p] at p])
  consider "pc = At_Start p" | "pc = At_Start_Recheck p" | "pc = At_Query p" | "pc = At_Stop_Mark_Self p k" | "pc = At_Stop_Wait p k"
    | "pc = At_Stop_Mark p k w" | "pc = At_Wait p" | "pc = At_Leave p" | "pc = At_Leave_Destroy p"
    using assms(4) by blast
  then show ?thesis
  proof cases
    case 1
    have "mgr_inv (api_go s t p c (Some (start_return (start_check t c) p)))"
      by (rule go) (auto simp: 1 start_return_def split: start_next.splits)
    then show ?thesis by (simp add: 1)
  next
    case 2
    have "mgr_inv (api_go s t p c (Some (if client_destroy_is_requested c then At_Leave p else At_Start_Commit p)))"
      by (rule go) (auto simp: 2 split: if_splits)
    then show ?thesis by (simp add: 2)
  next
    case 3
    have "mgr_inv (api_go s t p c (Some (At_Leave p)))" by (rule go) (auto simp: 3)
    then show ?thesis by (simp add: 3)
  next
    case 4
    then have "k \<noteq> By_Destroy" using ok by (simp add: api_ok_def)
    then have "mgr_inv (api_go s t p (mark_transport_stopping c) (Some (stop_return k p)))"
      using stop_return_ok [OF ok, where k = k and c' = "mark_transport_stopping c" and p = p] by (intro go) (auto simp: 4)
    then show ?thesis by (simp add: 4)
  next
    case 5
    have "mgr_inv (api_go s t p c (Some (stop_return k p)))" if "mc_stop_complete c"
    proof -
      have "\<not> mc_started c" using that view_parts(1) [OF view] by (simp add: client_ok_def)
      then show ?thesis using stop_return_ok [OF ok, where k = k and c' = c and p = p] by (intro go) (auto simp: 5)
    qed
    then show ?thesis by (simp add: 5)
  next
    case 6
    have "api_ok t (mark_transport_stopping c) (At_Stop_Join p k w)"
      using ok mark_same_phase(1) [of c] unfolding same_phase_def by (simp add: 6 api_ok_def)
    then have "mgr_inv (api_go s t p (mark_transport_stopping c) (Some (At_Stop_Join p k w)))" by (intro go) (auto simp: 6)
    then show ?thesis by (simp add: 6)
  next
    case 7
    have "mgr_inv (api_go s t p c (Some (At_Leave_Destroy p)))" by (rule go) (use ok in \<open>auto simp: 7 api_ok_def\<close>)
    then show ?thesis by (simp add: 7)
  next
    case 8
    have "mgr_inv (api_go s t p (client_leave c) None)" by (rule go) (use pos in \<open>auto simp: 8\<close>)
    then show ?thesis by (simp add: 8)
  next
    case 9
    have "api_ok t (client_leave c) (At_Remove p)" using ok by (simp add: 9 api_ok_def client_leave_def)
    then have "mgr_inv (api_go s t p (client_leave c) (Some (At_Remove p)))" by (intro go) (use pos in \<open>auto simp: 9\<close>)
    then show ?thesis by (simp add: 9)
  qed
qed

lemma safe_api_step:
  assumes inv: "mgr_inv s" and at: "sy_call s t = Some pc" and c: "sy_heap s (api_client pc) = Some c" and env: "mgr_env_ok s e"
  shows "safe (api_step e t s c pc)"
proof (cases pc)
  case (At_Start_Commit p)
  then show ?thesis using safe_commit [OF inv _ _ env, of t p c] at c by simp
next
  case (At_Send p)
  then show ?thesis using safe_send(1) [OF inv, of p c t e] at c by simp
next
  case (At_Send_Io p)
  then show ?thesis using safe_send(2) [OF inv, of p c t e] at c by simp
next
  case (At_Stop p k)
  then show ?thesis using safe_stop [OF inv, of t p k c e] at c by simp
next
  case (At_Stop_Join p k w)
  then show ?thesis using safe_join [OF inv, of t p k w c e] at c by simp
next
  case (At_Stop_Joined p k)
  then show ?thesis using safe_joined [OF inv, of t p k c e] at c by simp
next
  case (At_Claim p)
  then show ?thesis using safe_destroy(1) [OF inv, of p c t e] at c by simp
next
  case (At_Self p)
  then show ?thesis using safe_destroy(2) [OF inv, of p c t e] at c by simp
next
  case (At_Unclaim p)
  then show ?thesis using safe_destroy(3) [OF inv, of p c t e] at c by simp
next
  case (At_Remove p)
  then show ?thesis using safe_remove [OF inv, of t p c e] at c by simp
next
  case (At_Free p)
  then show ?thesis using safe_free [OF inv, of t p c e] at c by simp
qed (rule safe_plain [OF inv at c, where p = "api_client pc"], force)+

section \<open>Every section of the worker keeps the invariant\<close>

lemma work_update_inv:
  assumes inv: "mgr_inv s" and idle: "sy_call s t = None" and at: "sy_work s t = Some (p, w)"
    and s': "sy_heap s' = (sy_heap s)(p \<mapsto> c')" "sy_call s' = sy_call s" "sy_work s' = (sy_work s)(t \<mapsto> (p, w'))"
      "sy_io s' = (sy_io s)(p := io)" "sy_registry s' = reg"
    and reg: "distinct reg" "\<And>q. q \<noteq> p \<Longrightarrow> q \<in> set reg \<longleftrightarrow> q \<in> set (sy_registry s)"
    and view: "p \<noteq> 0" "view_inv p c' (calls_at s p) ((works_at s p)(t \<mapsto> w')) io (p \<in> set reg)"
  shows "mgr_inv s'"
proof (rule mgr_inv_at [OF inv])
  have calls: "calls_at s' q = calls_at s q" for q by (rule ext) (simp add: calls_at_def s')
  have works: "works_at s' p = (works_at s p)(t \<mapsto> w')" "q \<noteq> p \<Longrightarrow> works_at s' q = works_at s q" for q
    using other_worker [where s = s and s' = s' and t = t and p = p and new = "Some (p, w')"] at s' by auto
  show "client_inv s' p" using view s' by (simp add: client_inv_def calls works)
  show "distinct (sy_registry s')" using reg s' by simp
  show "sy_heap s' q = sy_heap s q \<and> calls_at s' q = calls_at s q \<and> works_at s' q = works_at s q
           \<and> sy_io s' q = sy_io s q \<and> (q \<in> set (sy_registry s') \<longleftrightarrow> q \<in> set (sy_registry s))" if "q \<noteq> p" for q
    using that s' reg by (simp add: calls works)
  show "in_callback w'" if "sy_work s' u = Some (q, w')" "sy_call s' u \<noteq> None" for u q w'
    using inv that idle unfolding s' mgr_inv_def by (cases "u = t") auto
qed

lemma work_go_inv:
  assumes inv: "mgr_inv s" and idle: "sy_call s t = None" and at: "sy_work s t = Some (p, w)" and "p \<noteq> 0"
    and "view_inv p c' (calls_at s p) ((works_at s p)(t \<mapsto> w')) (sy_io s p) (p \<in> set (sy_registry s))"
  shows "mgr_inv (work_go s t p c' w')"
  by (rule work_update_inv [OF inv idle at, where io = "sy_io s p" and reg = "sy_registry s"])
    (use assms in \<open>simp_all add: work_go_def mgr_inv_def\<close>)

text \<open>Sections that keep the phase.\<close>

lemma work_same_inv:
  assumes inv: "mgr_inv s" and idle: "sy_call s t = None" and at: "sy_work s t = Some (p, w)" and c: "sy_heap s p = Some c"
    and "same_phase c c'" and "mc_api_callers c' = mc_api_callers c"
    and "work_ok t c w \<Longrightarrow> work_ok t c' w'" and "w \<noteq> W_Recv_Io" and "w' \<noteq> W_Recv_Io" and "w' \<noteq> W_Free"
  shows "mgr_inv (work_go s t p c' w')"
proof -
  note view = client_view [OF inv c]
  have ws: "works_at s p t = Some w" using at by simp
  have "work_ok t c' w'" by (rule assms(7) [OF view_parts(3) [OF view(2) ws]])
  then show ?thesis by (intro work_go_inv [OF inv idle at view(1)] view_work_same [OF view(2) ws]) (use assms in auto)
qed

text \<open>The transport is put in place or closed.\<close>

lemma work_state_inv:
  assumes inv: "mgr_inv s" and idle: "sy_call s t = None" and at: "sy_work s t = Some (p, w)" and c: "sy_heap s p = Some c"
    and c': "c' = c\<lparr>mc_transport := tr, mc_connection_state := st\<rparr>"
    and run: "w \<notin> {W_Recv_Io, W_Remove, W_Free, W_Ended}" "w' \<notin> {W_Recv_Io, W_Free}"
    and "work_ok t c w \<Longrightarrow> work_ok t c' w'" and "st = SENSOR_MGR_IPC_DISCONNECTED \<Longrightarrow> sy_io s p = None"
  shows "mgr_inv (work_go s t p c' w')"
proof -
  note view = client_view [OF inv c]
  have ws: "works_at s p t = Some w" using at by simp
  have ok: "work_ok t c w" by (rule view_parts(3) [OF view(2) ws])
  have "view_inv p c' (calls_at s p) ((works_at s p)(t \<mapsto> w')) (sy_io s p) (p \<in> set (sy_registry s))"
    by (rule view_work_state [OF view(2) ws _ _ _ c' assms(8) [OF ok]]) (use ok run assms(9) in \<open>auto simp: work_ok_def\<close>)
  then show ?thesis by (rule work_go_inv [OF inv idle at view(1)])
qed

lemma close_transport_result:
  "\<exists>tr. fst (close_transport c) = c\<lparr>mc_transport := tr, mc_connection_state := SENSOR_MGR_IPC_DISCONNECTED\<rparr>"
  by (cases c) (auto simp: close_transport_def)

lemma safe_recv:
  assumes inv: "mgr_inv s" and idle: "sy_call s t = None" and c: "sy_heap s p = Some c"
  shows "sy_work s t = Some (p, W_Recv_Lock) \<Longrightarrow> safe (worker_step e t s p c W_Recv_Lock)"
    and "sy_work s t = Some (p, W_Recv_Io) \<Longrightarrow> safe (worker_step e t s p c W_Recv_Io)"
proof -
  note view = client_view [OF inv c]
  show "safe (worker_step e t s p c W_Recv_Lock)" if at: "sy_work s t = Some (p, W_Recv_Lock)"
  proof -
    have ws: "works_at s p t = Some W_Recv_Lock" using at by simp
    have ok: "work_ok t c W_Recv_Lock" by (rule view_parts(3) [OF view(2) ws])
    have "mgr_inv (work_go s t p c (W_Close Close_Again))"
      by (rule work_same_inv [OF inv idle at c]) (auto simp: work_ok_def)
    moreover have "mgr_inv (io_set p (Some t) (work_go s t p c W_Recv_Io))" if free: "sy_io s p = None"
    proof (rule work_update_inv [OF inv idle at, where io = "Some t" and reg = "sy_registry s"])
      show "view_inv p c (calls_at s p) ((works_at s p)(t \<mapsto> W_Recv_Io)) (Some t) (p \<in> set (sy_registry s))"
      proof (rule view_work_io [OF view(2) ws])
        show "calls_at s p t' = Some (At_Send_Io p) \<or> ((works_at s p)(t \<mapsto> W_Recv_Io)) t' = Some W_Recv_Io \<longleftrightarrow> Some t = Some t'" for t'
          using view_parts(4) [OF view(2), of t'] free by (cases "t' = t") auto
      qed (use ok in \<open>simp_all add: work_ok_def\<close>)
    qed (use inv view in \<open>simp_all add: io_set_def work_go_def mgr_inv_def\<close>)
    ultimately show ?thesis by simp
  qed
  show "safe (worker_step e t s p c W_Recv_Io)" if at: "sy_work s t = Some (p, W_Recv_Io)"
  proof -
    have ws: "works_at s p t = Some W_Recv_Io" using at by simp
    have ok: "work_ok t c W_Recv_Io" by (rule view_parts(3) [OF view(2) ws])
    have "mgr_inv (io_set p None (work_go s t p c w'))" if w': "w' \<in> {W_Recv_Check, W_On_Envelope, W_Close Close_Again}" for w'
    proof (rule work_update_inv [OF inv idle at, where io = None and reg = "sy_registry s"])
      show "view_inv p c (calls_at s p) ((works_at s p)(t \<mapsto> w')) None (p \<in> set (sy_registry s))"
      proof (rule view_work_io [OF view(2) ws])
        show "calls_at s p t' = Some (At_Send_Io p) \<or> ((works_at s p)(t \<mapsto> w')) t' = Some W_Recv_Io \<longleftrightarrow> None = Some t'" for t'
          using view_parts(4) [OF view(2), of t'] view_parts(4) [OF view(2), of t] w' ws idle by (cases "t' = t") auto
      qed (use ok w' in \<open>auto simp: work_ok_def\<close>)
    qed (use inv view in \<open>simp_all add: io_set_def work_go_def mgr_inv_def\<close>)
    then show ?thesis using ok by (simp add: work_ok_def)
  qed
qed

lemma safe_worker_end:
  assumes inv: "mgr_inv s" and idle: "sy_call s t = None" and c: "sy_heap s p = Some c"
  shows "sy_work s t = Some (p, W_Finish) \<Longrightarrow> safe (worker_step e t s p c W_Finish)"
    and "sy_work s t = Some (p, W_Publish) \<Longrightarrow> safe (worker_step e t s p c W_Publish)"
    and "sy_work s t = Some (p, W_Remove) \<Longrightarrow> safe (worker_step e t s p c W_Remove)"
proof -
  note view = client_view [OF inv c] and unlink = unlink_step [OF inv, of p]
  show "safe (worker_step e t s p c W_Finish)" if at: "sy_work s t = Some (p, W_Finish)"
  proof -
    have ws: "works_at s p t = Some W_Finish" using at by simp
    have "mgr_inv (work_go s t p (c\<lparr>mc_cancel_initialized := False\<rparr>) W_Finish_Cancel)"
      by (rule work_go_inv [OF inv idle at view(1) view_finish [OF view(2) ws refl]])
    then show ?thesis using view_parts(3) [OF view(2) ws] by (simp add: worker_finish_claim_def work_ok_def)
  qed
  show "safe (worker_step e t s p c W_Publish)" if at: "sy_work s t = Some (p, W_Publish)"
  proof -
    have ws: "works_at s p t = Some W_Publish" using at by simp
    have cs: "calls_at s p t = None" using idle by (simp add: calls_at_def)
    obtain after c' where pub: "worker_finish_publish c = (after, c')" by fastforce
    note pv = view_publish [OF view(2) ws cs pub]
    from work_go_inv [OF inv idle at view(1) pv(2)] pv(1) show ?thesis by (cases "mc_worker_detached c'") (simp_all add: pub)
  qed
  show "safe (worker_step e t s p c W_Remove)" if at: "sy_work s t = Some (p, W_Remove)"
  proof -
    have ws: "works_at s p t = Some W_Remove" using at by simp
    have ok: "work_ok t c W_Remove" by (rule view_parts(3) [OF view(2) ws])
    have "mgr_inv ((work_go s t p c W_Free)\<lparr>sy_registry := remove1 p (sy_registry s)\<rparr>)" if zero: "mc_api_callers c = 0"
    proof (rule work_update_inv [OF inv idle at, where io = "sy_io s p" and reg = "remove1 p (sy_registry s)"])
      show "view_inv p c (calls_at s p) ((works_at s p)(t \<mapsto> W_Free)) (sy_io s p) (p \<in> set (remove1 p (sy_registry s)))"
        by (rule view_work_same [OF view(2) ws]) (use ok zero in \<open>simp_all add: unlink(3) work_ok_def\<close>)
    qed (use view(1) unlink in \<open>simp_all add: work_go_def\<close>)
    with unlink(1) show ?thesis by (simp add: registry_remove_and_wait_def)
  qed
qed

lemma safe_worker_free:
  assumes inv: "mgr_inv s" and idle: "sy_call s t = None" and at: "sy_work s t = Some (p, W_Free)" and c: "sy_heap s p = Some c"
  shows "safe (worker_step e t s p c W_Free)"
proof -
  note view = client_view(2) [OF inv c]
  have ws: "works_at s p t = Some W_Free" using at by simp
  have ok: "work_ok t c W_Free" by (rule view_parts(3) [OF view ws])
  then have zero: "mc_api_callers c = 0" and fw: "mc_destroy_from_worker c" by (simp_all add: work_ok_def)
  have no_call: "api_client pc \<noteq> p" if "sy_call s u = Some pc" for u pc
    using nobody_pinned(2) [OF inv c zero that] fw by blast
  have only: "sy_work s u \<noteq> Some (p, w)" if "u \<noteq> t" for u w
    using view_parts(3) [OF view, of u w] ok that by (auto simp: work_ok_def)
  have "sy_io s p = None"
  proof (cases "sy_io s p")
    case (Some u)
    then show ?thesis using view_parts(4) [OF view, of u] no_call [of u] only [of u] at by (cases "u = t") auto
  qed
  moreover have "p \<notin> set (sy_registry s)" by (rule view_parts(6) [OF view ws])
  ultimately have "mgr_inv (s\<lparr>sy_heap := (sy_heap s)(p := None), sy_work := (sy_work s)(t := None)\<rparr>)"
    by (intro free_inv [OF inv c zero]) (use no_call only at in simp_all)
  then show ?thesis by simp
qed

lemma safe_worker_step:
  assumes inv: "mgr_inv s" and idle: "sy_call s t = None" and at: "sy_work s t = Some (p, w)" and c: "sy_heap s p = Some c"
  shows "safe (worker_step e t s p c w)"
proof -
  note go = work_same_inv [OF inv idle at c]
  note view = client_view(2) [OF inv c]
  have ok: "work_ok t c w" by (rule view_parts(3) [OF view]) (use at in simp)
  let ?special = "{W_Recv_Io, W_Finish_Cancel, W_Publish, W_Ended, W_Remove, W_Free}"
  have plain: "mgr_inv (work_go s t p c w')" if "online w' \<longleftrightarrow> online w" "w \<notin> ?special" "w' \<notin> ?special" for w'
    by (rule go) (use that in \<open>simp_all add: work_ok_def\<close>)
  have calls: "w = W_Connect \<Longrightarrow> mc_cancel_initialized c" "w = W_Shake_Send \<Longrightarrow> mc_connection_state c \<noteq> SENSOR_MGR_IPC_DISCONNECTED"
    using ok by (simp_all add: work_ok_def)
  have close: "mgr_inv (work_go s t p (fst (close_transport c)) w')"
    if w: "w \<in> {W_Close Close_Exit, W_Close Close_Backoff, W_Close Close_Again, W_Exit}" "sy_io s p = None"
      "w' = W_Exit \<or> w' = W_Finish \<or> (\<exists>b. w' = W_On_Disconnected b)" for w'
  proof -
    obtain tr where eq: "fst (close_transport c) = c\<lparr>mc_transport := tr, mc_connection_state := SENSOR_MGR_IPC_DISCONNECTED\<rparr>"
      using close_transport_result by blast
    have live: "w \<notin> ?special" "w' \<notin> ?special" "\<not> online w'" using w by auto
    show ?thesis
      by (rule work_state_inv [OF inv idle at c eq]) (use w(2) live in \<open>simp_all add: eq work_ok_def\<close>)
  qed
  show ?thesis
  proof (cases w)
    case (W_Connected tr)
    have "mgr_inv (work_go s t p (set_transport_connected c tr) W_Check)"
      by (rule work_state_inv [OF inv idle at c set_transport_connected_def]) (auto simp: W_Connected work_ok_def set_transport_connected_def)
    then show ?thesis by (simp add: W_Connected)
  next
    case W_Shake_Begin
    obtain b c' where b: "handshake_begin c = (b, c')" by fastforce
    then have "same_phase c c'" "mc_api_callers c' = mc_api_callers c" "mc_worker_thread c' = mc_worker_thread c"
      by (auto simp: handshake_begin_def same_phase_def split: if_splits)
    then have "mgr_inv (work_go s t p c' (if b then W_Shake_Send else W_Close Close_Backoff))"
      by (intro go) (auto simp: W_Shake_Begin work_ok_def same_phase_def)
    then show ?thesis by (simp add: W_Shake_Begin b)
  next
    case (W_Shake_End sent)
    obtain st c' where st: "handshake_end sent c = (st, c')" by fastforce
    then have "same_phase c c'" "mc_api_callers c' = mc_api_callers c"
      by (auto simp: handshake_end_def same_phase_def split: if_splits)
    then have "mgr_inv (work_go s t p c' (W_Close Close_Backoff))" "mgr_inv (work_go s t p (c'\<lparr>mc_reconnect_tracker := r\<rparr>) W_On_Connected)" for r
      by (intro go; auto simp: W_Shake_End work_ok_def same_phase_def)+
    then show ?thesis by (simp add: W_Shake_End st)
  next
    case W_Finish_Cancel
    have "mgr_inv (work_go s t p (c\<lparr>mc_cancel_source := source\<rparr>) W_Publish)" for source
      by (rule go) (use ok in \<open>auto simp: W_Finish_Cancel work_ok_def same_phase_def\<close>)
    then show ?thesis by (simp add: W_Finish_Cancel)
  next
    case (W_Close n)
    then show ?thesis using close by (cases n) auto
  next
    case W_Exit
    then show ?thesis using close by auto
  next
    case W_Recv_Lock
    then show ?thesis using safe_recv(1) [OF inv idle c, of e] at by simp
  next
    case W_Recv_Io
    then show ?thesis using safe_recv(2) [OF inv idle c, of e] at by simp
  next
    case W_Finish
    then show ?thesis using safe_worker_end(1) [OF inv idle c, of e] at by simp
  next
    case W_Publish
    then show ?thesis using safe_worker_end(2) [OF inv idle c, of e] at by simp
  next
    case W_Remove
    then show ?thesis using safe_worker_end(3) [OF inv idle c, of e] at by simp
  next
    case W_Free
    then show ?thesis using safe_worker_free [OF inv idle _ c, of e] at by simp
  qed (use plain calls in simp_all)
qed

section \<open>Reachable states\<close>

lemma registry_enter_result:
  assumes "\<forall>q\<in>set reg. h q \<noteq> None"
  shows "registry_enter h reg p = Some (if p \<in> set reg \<and> \<not> mc_destroy_requested (the (h p))
     then (True, h(p \<mapsto> (the (h p))\<lparr>mc_api_callers := mc_api_callers (the (h p)) + 1\<rparr>)) else (False, h))"
  using assms by (induction reg) (auto split: option.splits)

lemma may_callD: "may_call s t \<Longrightarrow> sy_call s t = None \<and> (sy_work s t = Some (p, w) \<longrightarrow> in_callback w)"
  by (auto simp: may_call_def split: option.splits)

lemma api_entry_client [simp]: "api_client (api_entry api p) = p"
  by (cases api) simp_all

lemma safe_call:
  assumes inv: "mgr_inv s"
  shows "safe (mgr_step e t (Call api p) s)"
proof (cases "may_call s t")
  case True
  note idle = may_callD [OF True]
  have enter: "client_enter (sy_heap s) (sy_registry s) p =
    (if p = 0 then Some (False, sy_heap s)
     else Some (if p \<in> set (sy_registry s) \<and> \<not> mc_destroy_requested (the (sy_heap s p))
       then (True, (sy_heap s)(p \<mapsto> (the (sy_heap s p))\<lparr>mc_api_callers := mc_api_callers (the (sy_heap s p)) + 1\<rparr>)) else (False, sy_heap s)))"
    unfolding client_enter_def by (subst registry_enter_result) (use registry_allocated [OF inv] in auto)
  have "mgr_inv (s\<lparr>sy_heap := (sy_heap s)(p \<mapsto> c\<lparr>mc_api_callers := mc_api_callers c + 1\<rparr>), sy_call := (sy_call s)(t \<mapsto> api_entry api p)\<rparr>)"
    (is "mgr_inv ?s") if c: "sy_heap s p = Some c" and no: "\<not> mc_destroy_requested c" for c
  proof (rule mgr_inv_at [OF inv])
    note view = client_view [OF inv c]
    have calls: "calls_at (z\<lparr>sy_call := (sy_call s)(t \<mapsto> api_entry api p)\<rparr>) q = (if q = p then (calls_at s p)(t \<mapsto> api_entry api p) else calls_at s q)" for q z
      by (rule ext) (use idle in \<open>auto simp: calls_at_def\<close>)
    have "calls_at s p t = None" using idle by (simp add: calls_at_def)
    from view_enter [OF view(2) this no] view(1) show "client_inv ?s p" by (simp add: client_inv_def calls)
    show "sy_heap ?s q = sy_heap s q \<and> calls_at ?s q = calls_at s q \<and> works_at ?s q = works_at s q
           \<and> sy_io ?s q = sy_io s q \<and> (q \<in> set (sy_registry ?s) \<longleftrightarrow> q \<in> set (sy_registry s))" if "q \<noteq> p" for q
      using that by (simp add: calls)
    show "in_callback w" if "sy_work ?s u = Some (q, w)" "sy_call ?s u \<noteq> None" for u q w
      using inv that idle unfolding mgr_inv_def by (cases "u = t") auto
  qed (use inv in \<open>simp add: mgr_inv_def\<close>)
  moreover have "sy_heap s p = Some (the (sy_heap s p))" if "p \<in> set (sy_registry s)" using registry_allocated [OF inv that] by simp
  ultimately show ?thesis using True inv by (simp add: enter)
qed simp

lemma safe_create:
  assumes inv: "mgr_inv s"
  shows "safe (mgr_step e t (Create p cfg) s)"
proof -
  have "mgr_inv (s\<lparr>sy_heap := (sy_heap s)(p \<mapsto> c), sy_registry := registry_add p (sy_registry s)\<rparr>)" (is "mgr_inv ?s")
    if new: "sensor_mgr_ipc_client_create False (Some cfg) True (\<lambda>_. True) = (st, Some c, n)" and p: "p \<noteq> 0" "sy_heap s p = None" for st c n
  proof (rule mgr_inv_at [OF inv])
    have "client_inv s p" using inv by (simp add: mgr_inv_def)
    then have empty: "calls_at s p = (\<lambda>_. None)" "works_at s p = (\<lambda>_. None)" "sy_io s p = None" "p \<notin> set (sy_registry s)"
      using p(2) by (simp_all add: client_inv_def)
    have "view_inv p c (\<lambda>_. None) (\<lambda>_. None) None True"
      using new by (auto simp: sensor_mgr_ipc_client_create_def view_inv_def client_ok_def pinners_def at_most_one_def split: if_splits)
    then show "client_inv ?s p" using p(1) empty by (simp add: client_inv_def registry_add_def)
    show "distinct (sy_registry ?s)" using inv empty by (simp add: mgr_inv_def registry_add_def)
    show "sy_heap ?s q = sy_heap s q \<and> calls_at ?s q = calls_at s q \<and> works_at ?s q = works_at s q
           \<and> sy_io ?s q = sy_io s q \<and> (q \<in> set (sy_registry ?s) \<longleftrightarrow> q \<in> set (sy_registry s))" if "q \<noteq> p" for q
      using that by (simp add: registry_add_def)
    show "in_callback w" if "sy_work ?s u = Some (q, w)" "sy_call ?s u \<noteq> None" for u q w
      using inv that unfolding mgr_inv_def by auto
  qed
  then show ?thesis using inv by (auto split: prod.splits option.splits)
qed

lemma safe_step:
  assumes inv: "mgr_inv s"
  shows "safe (mgr_step e t a s)"
proof (cases a)
  case (Create p cfg)
  then show ?thesis using safe_create [OF inv] by simp
next
  case (Call api p)
  then show ?thesis using safe_call [OF inv] by simp
next
  case Go
  show ?thesis
  proof (cases "sy_call s t")
    case (Some pc)
    have "client_inv s (api_client pc)" using inv by (simp add: mgr_inv_def)
    moreover have "calls_at s (api_client pc) t = Some pc" using Some by simp
    ultimately obtain c where c: "sy_heap s (api_client pc) = Some c"
      by (cases "sy_heap s (api_client pc)") (auto simp: client_inv_def dest: fun_cong)
    show ?thesis using safe_api_step [OF inv Some c] c by (simp add: Go Some)
  next
    case None
    show ?thesis
    proof (cases "sy_work s t")
      case (Some pw)
      obtain p w where pw: "pw = (p, w)" by fastforce
      have "client_inv s p" using inv by (simp add: mgr_inv_def)
      moreover have "works_at s p t = Some w" using Some pw by simp
      ultimately obtain c where c: "sy_heap s p = Some c" by (cases "sy_heap s p") (auto simp: client_inv_def dest: fun_cong)
      show ?thesis using safe_worker_step [OF inv None _ c] c Some by (simp add: Go None pw)
    qed (simp add: Go None)
  qed
qed

lemma reachable_inv: "mgr_reachable s \<Longrightarrow> mgr_inv s"
proof (induction rule: mgr_reachable.induct)
  case initial
  show ?case by (auto simp: mgr_inv_def client_inv_def mgr_initial_def calls_at_def works_at_def)
next
  case (step s e t a s')
  from safe_step [OF step.IH, of e t a] step.hyps(2) show ?case by simp
qed

section \<open>Runs\<close>

text \<open>A run is a list of steps: the thread, the action and the identifier a thread created in the step gets.\<close>

definition sample_env :: "nat option \<Rightarrow> mgr_env" where
  "sample_env w = \<lparr>en_status = SAVVY_OK, en_transport = \<lparr>tr_impl = 3\<rparr>, en_message = True, en_pipe = Some (4, 5),
     en_fcntl = \<lambda>_. True, en_thread = w\<rparr>"

fun mgr_run :: "(nat \<times> mgr_action \<times> nat option) list \<Rightarrow> mgr_sys \<Rightarrow> mgr_sys option" where
  "mgr_run [] s = Some s"
| "mgr_run ((t, a, w) # rest) s = (case mgr_step (sample_env w) t a s of Next s' \<Rightarrow> mgr_run rest s' | _ \<Rightarrow> None)"

lemma run_reachable: "mgr_run xs s = Some s' \<Longrightarrow> mgr_reachable s \<Longrightarrow> mgr_reachable s'"
  by (induction xs s rule: mgr_run.induct) (auto split: outcome.splits intro: mgr_reachable.step)

definition sample_mgr_config :: sensor_mgr_ipc_config where
  "sample_mgr_config = mc_config sample_mgr_client"

text \<open>Thread 1 creates client 7 and starts it; its worker is thread 9.\<close>

definition started_run :: "(nat \<times> mgr_action \<times> nat option) list" where
  "started_run = [(1, Create 7 sample_mgr_config, None), (1, Call Api_Start 7, None), (1, Go, None), (1, Go, None), (1, Go, Some 9), (1, Go, None)]"

text \<open>Thread 1 stops it while thread 2 waits for the same stop; the worker ends and is joined.\<close>

definition stopped_run :: "(nat \<times> mgr_action \<times> nat option) list" where
  "stopped_run = started_run @
     [(1, Call Api_Stop 7, None), (1, Go, None), (2, Call Api_Stop 7, None), (2, Go, None), (1, Go, None),
      (9, Go, None), (9, Go, None), (9, Go, None), (9, Go, None), (9, Go, None), (1, Go, None)]"

text \<open>Thread 1 returns, and thread 3 starts the client again before thread 2 has run.\<close>

definition restarted_run :: "(nat \<times> mgr_action \<times> nat option) list" where
  "restarted_run = stopped_run @ [(1, Go, None), (1, Go, None), (3, Call Api_Start 7, None), (3, Go, None), (3, Go, None), (3, Go, Some 9), (3, Go, None)]"

lemmas run_defs = started_run_def stopped_run_def sample_env_def sample_mgr_config_def sample_mgr_client_def mgr_initial_def may_call_def
  mgr_env_ok_def sensor_mgr_ipc_client_create_def registry_add_def client_enter_def api_go_def work_go_def start_return_def start_check_def
  client_destroy_is_requested_def savvy_ipc_cancel_source_init_def start_commit_def client_leave_def stop_request_def stop_continue_def
  mark_transport_stopping_def is_shutdown_requested_def close_transport_def worker_finish_claim_def savvy_ipc_cancel_source_destroy_def
  worker_finish_publish_def stop_joined_def stop_return_status_def client_claim_destroy_def destroy_self_def
  wait_for_other_api_callers_def registry_remove_and_wait_def

section \<open>A client that runs and is not stopped\<close>

text \<open>The places of \<^verbatim>\<open>start\<close>, \<^verbatim>\<open>send\<close> and \<^verbatim>\<open>is_connected\<close> outside a stop.\<close>

fun plain_call :: "api_pc \<Rightarrow> bool" where
  "plain_call (At_Start p) = True"
| "plain_call (At_Start_Recheck p) = True"
| "plain_call (At_Start_Commit p) = True"
| "plain_call (At_Send p) = True"
| "plain_call (At_Send_Io p) = True"
| "plain_call (At_Query p) = True"
| "plain_call (At_Leave p) = True"
| "plain_call _ = False"

definition running :: "sensor_mgr_ipc_client \<Rightarrow> bool" where
  "running c \<longleftrightarrow> mc_started c \<and> \<not> mc_shutdown_requested c \<and> \<not> mc_stop_complete c \<and> \<not> mc_worker_detached c
     \<and> \<not> mc_join_in_progress c \<and> \<not> mc_destroy_from_worker c"

text \<open>Thread \<open>u\<close> waits in \<^verbatim>\<open>stop\<close> for a client that runs and that nobody else stops.\<close>

definition overtaken :: "nat \<Rightarrow> nat \<Rightarrow> mgr_sys \<Rightarrow> bool" where
  "overtaken p u s \<longleftrightarrow> (\<exists>c. sy_heap s p = Some c \<and> running c) \<and> sy_call s u = Some (At_Stop_Wait p By_Stop)
     \<and> (\<forall>t pc. t \<noteq> u \<longrightarrow> sy_call s t = Some pc \<longrightarrow> api_client pc = p \<longrightarrow> plain_call pc)
     \<and> (\<forall>t w. sy_work s t = Some (p, w) \<longrightarrow> w \<noteq> W_Remove \<and> w \<noteq> W_Free)"

text \<open>What the steps of the threads do to other clients, and to one that runs.\<close>

lemma api_step_elsewhere:
  "api_step e t s c pc = Next s' \<Longrightarrow>
     (\<forall>p. p \<noteq> api_client pc \<longrightarrow> sy_heap s' p = sy_heap s p) \<and> (\<forall>v. v \<noteq> t \<longrightarrow> sy_call s' v = sy_call s v)
     \<and> (\<forall>pc'. sy_call s' t = Some pc' \<longrightarrow> api_client pc' = api_client pc)
     \<and> (\<forall>u p w. sy_work s' u = Some (p, w) \<longrightarrow> sy_work s u = Some (p, w) \<or> w = W_Top)"
  by (cases pc) (auto simp: api_go_def io_set_def start_return_def stop_continue_def stop_return_status_def 
     split: if_splits prod.splits option.splits sum.splits start_next.splits stop_next.splits stop_caller.splits)

lemma plain_step:
  "api_step e t s c pc = Next s' \<Longrightarrow> plain_call pc \<Longrightarrow> running c \<Longrightarrow>
     (\<exists>c'. sy_heap s' = (sy_heap s)(api_client pc \<mapsto> c') \<and> running c') \<and> (\<forall>pc'. sy_call s' t = Some pc' \<longrightarrow> plain_call pc')"
  by (cases pc) (auto simp: running_def api_go_def io_set_def start_return_def start_check_def start_commit_def client_leave_def Let_def
     split: if_splits prod.splits option.splits sum.splits start_next.splits)

lemma worker_step_running:
  "worker_step e t s p c w = Next s' \<Longrightarrow> running c \<Longrightarrow> w \<noteq> W_Remove \<Longrightarrow> w \<noteq> W_Free \<Longrightarrow>
     (\<exists>c'. sy_heap s' = (sy_heap s)(p \<mapsto> c') \<and> running c') \<and> sy_call s' = sy_call s
     \<and> (\<exists>x. sy_work s' = (sy_work s)(t := x) \<and> x \<noteq> Some (p, W_Remove) \<and> x \<noteq> Some (p, W_Free))"
  by (cases w) (auto simp: running_def work_go_def io_set_def set_transport_connected_def handshake_begin_def handshake_end_def
      close_transport_def worker_finish_claim_def worker_finish_publish_def Let_def
     split: if_splits prod.splits option.splits)

lemma worker_step_elsewhere:
  "worker_step e t s p c w = Next s' \<Longrightarrow>
     (\<forall>q. q \<noteq> p \<longrightarrow> sy_heap s' q = sy_heap s q) \<and> sy_call s' = sy_call s
     \<and> (\<forall>u q v. q \<noteq> p \<longrightarrow> sy_work s' u = Some (q, v) \<longrightarrow> sy_work s u = Some (q, v))"
  by (cases w) (auto simp: work_go_def io_set_def split: if_splits prod.splits option.splits)

lemma registry_enter_running:
  "registry_enter h reg q = Some (b, h') \<Longrightarrow> h p = Some c \<Longrightarrow> running c \<Longrightarrow> \<exists>c'. h' p = Some c' \<and> running c'"
  by (induction reg) (auto simp: running_def split: option.splits if_splits)

lemma overtaken_api:
  assumes "overtaken p u s" and "sy_call s t = Some pc" and "sy_heap s (api_client pc) = Some c" and "api_step e t s c pc = Next s'"
  shows "overtaken p u s'"
proof -
  have t: "t \<noteq> u" using assms by (auto simp: overtaken_def running_def split: if_splits)
  note there = api_step_elsewhere [OF assms(4)]
  have "(\<exists>c'. sy_heap s' p = Some c' \<and> running c') \<and> (\<forall>pc'. sy_call s' t = Some pc' \<longrightarrow> api_client pc' = p \<longrightarrow> plain_call pc')"
  proof (cases "api_client pc = p")
    case True
    then have "plain_call pc" "running c" using assms t by (auto simp: overtaken_def)
    from plain_step [OF assms(4) this] True show ?thesis by auto
  qed (use there assms(1) in \<open>auto simp: overtaken_def\<close>)
  moreover have "plain_call pc'" if "v \<noteq> u" "v \<noteq> t" "sy_call s' v = Some pc'" "api_client pc' = p" for v pc'
    using that there assms(1) by (simp add: overtaken_def)
  moreover have "sy_call s' u = Some (At_Stop_Wait p By_Stop)" using there assms(1) t by (simp add: overtaken_def)
  moreover have "w \<noteq> W_Remove \<and> w \<noteq> W_Free" if "sy_work s' v = Some (p, w)" for v w
  proof -
    have "sy_work s v = Some (p, w) \<or> w = W_Top" using there that by blast
    then show ?thesis using assms(1) unfolding overtaken_def by blast
  qed
  ultimately show ?thesis unfolding overtaken_def by blast
qed

lemma overtaken_worker:
  assumes "overtaken p u s" and "sy_work s t = Some (q, w)" and "sy_heap s q = Some c" and "worker_step e t s q c w = Next s'"
  shows "overtaken p u s'"
proof (cases "q = p")
  case True
  then have "running c" "w \<noteq> W_Remove" "w \<noteq> W_Free" using assms by (auto simp: overtaken_def)
  from worker_step_running [OF assms(4) this] assms(1) True show ?thesis
    unfolding overtaken_def by (fastforce split: if_splits)
next
  case False
  then show ?thesis using worker_step_elsewhere [OF assms(4)] assms(1) unfolding overtaken_def by fastforce
qed

lemma overtaken_step:
  assumes "overtaken p u s" and "mgr_step e t a s = Next s'" and "a \<noteq> Call Api_Stop p" and "a \<noteq> Call Api_Destroy p"
  shows "overtaken p u s'"
proof (cases a)
  case (Create q cfg)
  then show ?thesis using assms(1,2) by (fastforce simp: overtaken_def split: if_splits prod.splits option.splits)
next
  case (Call api q)
  with assms(2) obtain b h where may: "may_call s t" and enter: "client_enter (sy_heap s) (sy_registry s) q = Some (b, h)"
    and s': "s' = s\<lparr>sy_heap := h, sy_call := (if b then (sy_call s)(t \<mapsto> api_entry api q) else sy_call s)\<rparr>"
    by (auto split: if_splits option.splits)
  have "\<exists>c. h p = Some c \<and> running c"
    using enter assms(1) registry_enter_running unfolding client_enter_def overtaken_def by (metis option.inject prod.inject)
  moreover have "q = p \<Longrightarrow> plain_call (api_entry api q)" using assms(3,4) Call by (cases api) auto
  moreover have "api_client (api_entry api q) = q" by (cases api) simp_all
  moreover have "t \<noteq> u" using may assms(1) by (auto simp: may_call_def overtaken_def)
  ultimately show ?thesis using assms(1) unfolding s' overtaken_def by auto
next
  case Go
  then show ?thesis
    using assms(1,2) by (auto split: if_splits option.splits intro: overtaken_api overtaken_worker)
qed

text \<open>Any continuation in which neither \<^verbatim>\<open>stop\<close> nor \<^verbatim>\<open>destroy\<close> is called on the client again.\<close>

inductive goes_on :: "nat \<Rightarrow> mgr_sys \<Rightarrow> mgr_sys \<Rightarrow> bool" for p where
  here: "goes_on p s s"
| step: "goes_on p s s' \<Longrightarrow> mgr_step e t a s' = Next s'' \<Longrightarrow> a \<noteq> Call Api_Stop p \<Longrightarrow> a \<noteq> Call Api_Destroy p \<Longrightarrow> goes_on p s s''"

lemma overtaken_stays: "goes_on p s s' \<Longrightarrow> overtaken p u s \<Longrightarrow> overtaken p u s'"
  by (induction rule: goes_on.induct) (auto intro: overtaken_step)

lemma overtaken_blocked: "overtaken p u s \<Longrightarrow> mgr_step e u Go s = Blocked"
  by (auto simp: overtaken_def running_def)

lemma run_goes_on:
  assumes "mgr_run xs s = Some s'" and "\<And>t a w. (t, a, w) \<in> set xs \<Longrightarrow> a \<noteq> Call Api_Stop p \<and> a \<noteq> Call Api_Destroy p"
  shows "goes_on p s s'"
proof -
  have "goes_on p z s'" if "goes_on p z s" for z
    using assms that
    by (induction xs s rule: mgr_run.induct) (fastforce split: outcome.splits intro: goes_on.step)+
  then show ?thesis by (blast intro: goes_on.here)
qed

section \<open>Properties\<close>

text \<open>
  C4: no use after free. Whatever the threads, the connector and the transport do, and however
  calls of \<^verbatim>\<open>start\<close>, \<^verbatim>\<open>send\<close>, \<^verbatim>\<open>is_connected\<close>, \<^verbatim>\<open>stop\<close> and \<^verbatim>\<open>destroy\<close>, from any thread and from callbacks, with
  valid or stale pointers, interleave with the workers: no step reads or writes a client that
  has been freed or frees it twice, follows the registry through freed storage, calls a transport that is closed, hands
  the connector or \<^verbatim>\<open>cancel\<close> a cancel source that is not open, or joins a thread that cannot be joined.
\<close>

theorem mgr_no_use_after_free:
  assumes "mgr_reachable s"
  shows "mgr_step e t a s \<noteq> Crash"
  using safe_step [OF reachable_inv [OF assms], of e t a] by auto

theorem mgr_no_use_after_free_witness:
  "\<exists>s. mgr_run started_run mgr_initial = Some s \<and> sy_work s 9 = Some (7, W_Top)
     \<and> (\<forall>e. mgr_step e 9 Go s \<noteq> Crash \<and> mgr_step e 2 (Call Api_Destroy 7) s \<noteq> Crash)"
proof -
  obtain s where run: "mgr_run started_run mgr_initial = Some s" "sy_work s 9 = Some (7, W_Top)"
    by (simp add: run_defs)
  have "mgr_reachable s" by (rule run_reachable [OF run(1) mgr_reachable.initial])
  from mgr_no_use_after_free [OF this] run show ?thesis by blast
qed

text \<open>Only the free steps take a client off the heap.\<close>

lemma api_step_heap:
  "api_step e t s c pc = Next s' \<Longrightarrow>
     (\<exists>c'. sy_heap s' = (sy_heap s)(api_client pc \<mapsto> c')) \<or> pc = At_Free (api_client pc) \<and> sy_heap s' = (sy_heap s)(api_client pc := None)"
  by (cases pc) (auto simp: api_go_def io_set_def split: if_splits prod.splits option.splits sum.splits)

lemma worker_step_heap:
  "worker_step e t s p c w = Next s' \<Longrightarrow>
     (\<exists>c'. sy_heap s' = (sy_heap s)(p \<mapsto> c')) \<or> w = W_Free \<and> sy_heap s' = (sy_heap s)(p := None)"
  by (cases w) (auto simp: work_go_def io_set_def split: if_splits prod.splits option.splits)

lemma registry_enter_keeps: "registry_enter h reg q = Some (b, h') \<Longrightarrow> h p = Some c \<Longrightarrow> h' p \<noteq> None"
  by (induction reg) (auto split: option.splits if_splits)

lemma freed_by:
  assumes step: "mgr_step e t a s = Next s'" and "sy_heap s p = Some c" and "sy_heap s' p = None"
  shows "sy_call s t = Some (At_Free p) \<or> sy_work s t = Some (p, W_Free)"
proof (cases a)
  case (Call api q)
  then show ?thesis
    using assms by (auto simp: client_enter_def split: if_splits option.splits dest: registry_enter_keeps [where h = "sy_heap s" and p = p and c = c])
next
  case Go
  then show ?thesis
    using assms(1-3) by (auto split: if_splits option.splits dest!: api_step_heap worker_step_heap)
qed (use assms(1-3) in \<open>auto split: if_splits prod.splits option.splits\<close>)

text \<open>
  C10: what a freed client leaves behind. A step that frees a client is the last step of a
  destruction that was claimed: the worker has finished, the transport is closed, the cancel source is destroyed, no
  call pins the client, and afterwards no thread is inside a call on it or runs as its worker
  and the registry does not list it.
\<close>

theorem mgr_free_is_final:
  assumes "mgr_reachable s" and "mgr_step e t a s = Next s'" and "sy_heap s p = Some c" and "sy_heap s' p = None"
  shows "mc_destroy_requested c \<and> \<not> mc_started c \<and> mc_connection_state c = SENSOR_MGR_IPC_DISCONNECTED
     \<and> \<not> mc_cancel_initialized c \<and> mc_api_callers c = 0
     \<and> (\<forall>u pc. sy_call s' u = Some pc \<longrightarrow> api_client pc \<noteq> p) \<and> (\<forall>u w. sy_work s' u \<noteq> Some (p, w)) \<and> p \<notin> set (sy_registry s')"
proof -
  have inv: "mgr_inv s" by (rule reachable_inv [OF assms(1)])
  have inv': "mgr_inv s'" by (rule reachable_inv [OF mgr_reachable.step [OF assms(1,2)]])
  note view = client_view(2) [OF inv assms(3)]
  have client: "client_ok c" by (rule view_parts(1) [OF view])
  from freed_by [OF assms(2-4)] have "mc_destroy_requested c \<and> \<not> mc_started c \<and> mc_api_callers c = 0"
  proof
    assume "sy_call s t = Some (At_Free p)"
    then show ?thesis using view_parts(2) [OF view, of t "At_Free p"] by (simp add: api_ok_def)
  next
    assume "sy_work s t = Some (p, W_Free)"
    then show ?thesis using view_parts(3) [OF view, of t W_Free] client by (simp add: work_ok_def client_ok_def)
  qed
  moreover have "client_inv s' p" using inv' by (simp add: mgr_inv_def)
  then have none: "calls_at s' p = (\<lambda>_. None)" "works_at s' p = (\<lambda>_. None)" "p \<notin> set (sy_registry s')"
    using assms(4) by (simp_all add: client_inv_def)
  have "api_client pc \<noteq> p" if "sy_call s' u = Some pc" for u pc
    using that fun_cong [OF none(1), of u] by (auto simp: calls_at_def)
  moreover have "sy_work s' u \<noteq> Some (p, w)" for u w using fun_cong [OF none(2), of u] by (auto simp: works_at_def)
  ultimately show ?thesis using client none(3) by (simp add: client_ok_def)
qed

theorem mgr_free_is_final_witness:
  "\<exists>s s' c. mgr_run [(1, Create 7 sample_mgr_config, None), (2, Call Api_Destroy 7, None), (2, Go, None), (2, Go, None), (2, Go, None),
       (2, Go, None), (2, Go, None)] mgr_initial = Some s
     \<and> mgr_step (sample_env None) 2 Go s = Next s' \<and> sy_heap s 7 = Some c \<and> sy_heap s' 7 = None \<and> mc_destroy_requested c"
proof -
  obtain s s' c where run: "mgr_run [(1, Create 7 sample_mgr_config, None), (2, Call Api_Destroy 7, None), (2, Go, None), (2, Go, None),
       (2, Go, None), (2, Go, None), (2, Go, None)] mgr_initial = Some s"
    and step: "mgr_step (sample_env None) 2 Go s = Next s'" "sy_heap s 7 = Some c" "sy_heap s' 7 = None"
    by (simp add: run_defs)
  have "mgr_reachable s" by (rule run_reachable [OF run mgr_reachable.initial])
  from mgr_free_is_final [OF this step] run step show ?thesis by blast
qed

text \<open>
  C38: the worker is joined once. While a thread is between claiming the join of a worker and
  recording it, no other thread is; the thread it joins is not itself, and it is the worker of this client, not joined
  yet; and once the join has returned the terminal cleanup is complete, so \<^verbatim>\<open>stop\<close> reports
  \<^verbatim>\<open>SAVVY_OK\<close> and never \<^verbatim>\<open>SAVVY_ERR_UNKNOWN\<close>.
\<close>

theorem mgr_worker_joined_once:
  assumes "mgr_reachable s" and "sy_call s t = Some pc" and "joining pc"
  shows "\<exists>c. sy_heap s (api_client pc) = Some c
     \<and> (\<forall>u pc'. sy_call s u = Some pc' \<and> api_client pc' = api_client pc \<and> joining pc' \<longrightarrow> u = t)
     \<and> (\<forall>p k w. pc = At_Stop_Join p k w \<longrightarrow> w \<noteq> t \<and> (\<exists>v. sy_work s w = Some (p, v)))
     \<and> (\<forall>p k. pc = At_Stop_Joined p k \<longrightarrow> fst (stop_joined c) = SAVVY_OK)"
proof -
  have inv: "mgr_inv s" by (rule reachable_inv [OF assms(1)])
  have "client_inv s (api_client pc)" using inv by (simp add: mgr_inv_def)
  moreover have cs: "calls_at s (api_client pc) t = Some pc" using assms(2) by simp
  ultimately obtain c where c: "sy_heap s (api_client pc) = Some c"
    by (cases "sy_heap s (api_client pc)") (auto simp: client_inv_def dest: fun_cong)
  note view = client_view(2) [OF inv c]
  have ok: "api_ok t c pc" by (rule view_parts(2) [OF view cs])
  have one: "u = t" if "sy_call s u = Some pc'" "api_client pc' = api_client pc" "joining pc'" for u pc'
    using view_parts(9) [OF view] that cs assms(3) unfolding at_most_one_def by (metis calls_at_iff)
  moreover have "w \<noteq> t \<and> (\<exists>v. sy_work s w = Some (p, v))" if "pc = At_Stop_Join p k w" for p k w
  proof -
    have "\<not> (\<exists>u k'. calls_at s p u = Some (At_Stop_Joined p k'))" using one that assms(2) by auto
    then have "works_at s p w \<noteq> None" using view_parts(7) [OF view] ok that by (auto simp: api_ok_def)
    then show ?thesis using ok that by (auto simp: api_ok_def)
  qed
  moreover have "fst (stop_joined c) = SAVVY_OK" if "pc = At_Stop_Joined p k" for p k
    using ok that by (simp add: api_ok_def stop_joined_def)
  ultimately show ?thesis using c by blast
qed

theorem mgr_worker_joined_once_witness:
  "\<exists>s c. mgr_run stopped_run mgr_initial = Some s \<and> sy_heap s 7 = Some c \<and> sy_call s 1 = Some (At_Stop_Joined 7 By_Stop)
     \<and> fst (stop_joined c) = SAVVY_OK"
proof -
  obtain s where run: "mgr_run stopped_run mgr_initial = Some s" and at: "sy_call s 1 = Some (At_Stop_Joined 7 By_Stop)"
    by (simp add: run_defs)
  have "mgr_reachable s" by (rule run_reachable [OF run mgr_reachable.initial])
  from mgr_worker_joined_once [OF this at] run at show ?thesis by auto
qed

text \<open>
  C39: a restart overtakes a waiting \<^verbatim>\<open>stop\<close>. A thread that calls \<^verbatim>\<open>stop\<close> while another one joins the
  worker waits for \<^verbatim>\<open>stop_complete\<close>, which \<^verbatim>\<open>start\<close> sets back; if the client is started again before the waiting
  thread has run, its \<^verbatim>\<open>stop\<close> does not return although the stop it waited for is complete. In the state reached here the
  client runs, no shutdown is requested, no join is in progress and no other thread is inside
  a call; and in every continuation, whatever the worker and any threads do, the call of thread 2 is blocked
  until somebody calls \<^verbatim>\<open>stop\<close> or \<^verbatim>\<open>destroy\<close> on the client once more.
\<close>

theorem mgr_stop_overtaken_by_restart:
  "\<exists>s c. mgr_run restarted_run mgr_initial = Some s \<and> mgr_reachable s \<and> sy_heap s 7 = Some c
     \<and> sy_call s = [2 \<mapsto> At_Stop_Wait 7 By_Stop] \<and> mc_started c \<and> \<not> mc_shutdown_requested c \<and> \<not> mc_join_in_progress c
     \<and> (\<forall>s' e. goes_on 7 s s' \<longrightarrow> sy_call s' 2 = Some (At_Stop_Wait 7 By_Stop) \<and> mgr_step e 2 Go s' = Blocked)"
proof -
  obtain s c where run: "mgr_run restarted_run mgr_initial = Some s"
    and c: "sy_heap s 7 = Some c" and call: "sy_call s = [2 \<mapsto> At_Stop_Wait 7 By_Stop]" and work: "sy_work s = [9 \<mapsto> (7, W_Top)]"
    and c_runs: "running c"
    by (simp add: run_defs restarted_run_def running_def fun_upd_def fun_eq_iff)
  have "mgr_reachable s" by (rule run_reachable [OF run mgr_reachable.initial])
  moreover have "overtaken 7 2 s" using c call work c_runs by (simp add: overtaken_def)
  then have later: "overtaken 7 2 s'" if "goes_on 7 s s'" for s' using overtaken_stays that by blast
  have "sy_call s' 2 = Some (At_Stop_Wait 7 By_Stop) \<and> mgr_step e 2 Go s' = Blocked" if "goes_on 7 s s'" for s' e
    using later [OF that] overtaken_blocked [of 7 2 s' e] unfolding overtaken_def by blast
  ultimately show ?thesis using run c call c_runs unfolding running_def by blast
qed

theorem mgr_stop_overtaken_by_restart_witness:
  "\<exists>s s'. mgr_run restarted_run mgr_initial = Some s
     \<and> mgr_run [(9, Go, None), (4, Call Api_Is_Connected 7, None), (9, Go, None), (4, Go, None)] s = Some s'
     \<and> sy_call s' 4 = Some (At_Leave 7) \<and> (\<forall>e. mgr_step e 2 Go s' = Blocked)"
proof -
  obtain s where run: "mgr_run restarted_run mgr_initial = Some s"
    and blocked: "\<And>s' e. goes_on 7 s s' \<Longrightarrow> mgr_step e 2 Go s' = Blocked"
    using mgr_stop_overtaken_by_restart by blast
  obtain s' where run': "mgr_run [(9, Go, None), (4, Call Api_Is_Connected 7, None), (9, Go, None), (4, Go, None)] s = Some s'"
    and leave: "sy_call s' 4 = Some (At_Leave 7)"
    using run by (auto simp: run_defs restarted_run_def)
  have "goes_on 7 s s'" by (rule run_goes_on [OF run']) auto
  with run run' leave blocked show ?thesis by blast
qed

text \<open>
  C40: a reused thread identifier makes \<^verbatim>\<open>destroy\<close> forget the client. Between the return of
  \<^verbatim>\<open>pthread_join\<close> and the section that clears \<^verbatim>\<open>started\<close> the identifier of the worker may belong to a new thread. If
  that thread calls \<^verbatim>\<open>destroy\<close>, it is taken for the worker and leaves the release of the client to a
  worker that is gone: all calls have returned, no thread is left, destruction has been accepted, and
  the client is still allocated and refuses every call.
\<close>

theorem mgr_destroy_lost_on_reused_thread_id:
  "\<exists>s c. mgr_reachable s \<and> sy_heap s 7 = Some c \<and> mc_destroy_requested c \<and> sy_call s = (\<lambda>_. None) \<and> sy_work s = (\<lambda>_. None)
     \<and> (\<forall>e t api. mgr_step e t (Call api 7) s = Next s)"
proof -
  obtain s c where run: "mgr_run (stopped_run @ [(9, Call Api_Destroy 7, None), (9, Go, None), (1, Go, None), (1, Go, None), (2, Go, None),
       (2, Go, None), (9, Go, None), (9, Go, None), (9, Go, None)]) mgr_initial = Some s"
    and c: "sy_heap s 7 = Some c" "mc_destroy_requested c" and none: "sy_call s = (\<lambda>_. None)" "sy_work s = (\<lambda>_. None)"
      and reg: "sy_registry s = [7]"
    by (simp add: run_defs fun_upd_def fun_eq_iff)
  have "mgr_reachable s" by (rule run_reachable [OF run mgr_reachable.initial])
  moreover have "mgr_step e t (Call api 7) s = Next s" for e t api
    using c none reg by (simp add: may_call_def client_enter_def)
  ultimately show ?thesis using c none by blast
qed

end
