(* ===== verification/Cancel_Portable.thy ===== *)
theory Cancel_Portable
  imports Ipc_Transport
begin

text \<open>
  The cancellation source of the builds without the Linux transport,
  \<^verbatim>\<open>src/features/mgr_ipc/cancel_source_portable.c\<close>, with each \<^verbatim>\<open>fcntl\<close> call on its own. The locale
  \<open>cancel_source\<close> is the contract of \<^verbatim>\<open>ipc_cancel.h\<close> that the manager client relies on; the Linux source of
  \<open>Ipc_Transport\<close> and the portable one both implement it, and they agree call by call.
\<close>

unbundle bit_operations_syntax

section \<open>Operations\<close>

text \<open>The answers of the three \<^verbatim>\<open>fcntl\<close> calls for one end of the pipe.\<close>

record fcntl_answers =
  fc_getfl :: int
  fc_setfl :: int
  fc_setfd :: int

definition portable_end_fails :: "fcntl_answers \<Rightarrow> bool" where
  "portable_end_fails a \<longleftrightarrow> fc_getfl a = -1 \<or> fc_setfl a = -1 \<or> fc_setfd a = -1"

text \<open>The loop over the two ends, from number \<open>i\<close> on: whether one of them fails.\<close>

function portable_setup_fails :: "(nat \<Rightarrow> fcntl_answers) \<Rightarrow> nat \<Rightarrow> bool" where
  "portable_setup_fails os i =
     (if i < 2 then (if portable_end_fails (os i) then True else portable_setup_fails os (i + 1)) else False)"
  by pat_completeness auto

termination
  by (relation "measure (\<lambda>(os, i). 2 - i)") auto

declare portable_setup_fails.simps [simp del]

definition portable_cancel_source_init ::
  "(int \<times> int) option \<Rightarrow> (nat \<Rightarrow> fcntl_answers) \<Rightarrow> savvy_status \<times> savvy_ipc_cancel_source \<times> int list" where
  "portable_cancel_source_init pipe os =
     (case pipe of
        None \<Rightarrow> (SAVVY_ERR_IO, \<lparr>cancel_read_fd = -1, cancel_write_fd = -1\<rparr>, [])
      | Some (r, w) \<Rightarrow>
          if portable_setup_fails os 0 then (SAVVY_ERR_IO, \<lparr>cancel_read_fd = -1, cancel_write_fd = -1\<rparr>, [r, w])
          else (SAVVY_OK, \<lparr>cancel_read_fd = r, cancel_write_fd = w\<rparr>, []))"

text \<open>The loop over the attempts, counting up.\<close>

function portable_cancel_loop :: "(nat \<Rightarrow> write_result) \<Rightarrow> nat \<Rightarrow> savvy_status" where
  "portable_cancel_loop os attempt =
     (if attempt < SAVVY_CANCEL_WRITE_MAX_ATTEMPTS
      then if os attempt = Written 1 then SAVVY_OK
           else if os attempt = Write_EINTR then portable_cancel_loop os (attempt + 1)
           else if os attempt = Write_EAGAIN then SAVVY_OK
           else SAVVY_ERR_IO
      else SAVVY_ERR_IO)"
  by pat_completeness auto

termination
  by (relation "measure (\<lambda>(os, attempt). SAVVY_CANCEL_WRITE_MAX_ATTEMPTS - attempt)") auto

declare portable_cancel_loop.simps [simp del]

definition portable_cancel_source_cancel :: "(nat \<Rightarrow> write_result) \<Rightarrow> savvy_ipc_cancel_source option \<Rightarrow> savvy_status" where
  "portable_cancel_source_cancel os cs =
     (case cs of
        None \<Rightarrow> SAVVY_ERR_INVALID_ARGUMENT
      | Some c \<Rightarrow> if cancel_write_fd c < 0 then SAVVY_ERR_INVALID_ARGUMENT else portable_cancel_loop os 0)"

definition portable_cancel_source_destroy :: "savvy_ipc_cancel_source \<Rightarrow> savvy_ipc_cancel_source \<times> int list" where
  "portable_cancel_source_destroy cs =
     (let (cs1, ev1) = (if cancel_read_fd cs \<ge> 0 then (cs\<lparr>cancel_read_fd := -1\<rparr>, [cancel_read_fd cs]) else (cs, []))
      in if cancel_write_fd cs1 \<ge> 0 then (cs1\<lparr>cancel_write_fd := -1\<rparr>, ev1 @ [cancel_write_fd cs1]) else (cs1, ev1))"

definition portable_cancel_source_is_cancelled :: "savvy_ipc_cancel_source option \<Rightarrow> int \<times> poll_events \<Rightarrow> bool" where
  "portable_cancel_source_is_cancelled cs poll =
     (if cs = None \<or> cancel_read_fd (the cs) < 0 then False else fst poll > 0 \<and> snd poll AND POLLIN \<noteq> 0)"

section \<open>The contract\<close>

locale cancel_source =
  fixes init :: "(int \<times> int) option \<Rightarrow> 'a \<Rightarrow> savvy_status \<times> savvy_ipc_cancel_source \<times> int list"
    and cancel :: "(nat \<Rightarrow> write_result) \<Rightarrow> savvy_ipc_cancel_source option \<Rightarrow> savvy_status"
    and destroy :: "savvy_ipc_cancel_source \<Rightarrow> savvy_ipc_cancel_source \<times> int list"
    and is_cancelled :: "savvy_ipc_cancel_source option \<Rightarrow> int \<times> poll_events \<Rightarrow> bool"
  assumes init_ok: "init pipe a = (SAVVY_OK, cs, fds) \<Longrightarrow>
      \<exists>r w. pipe = Some (r, w) \<and> cs = \<lparr>cancel_read_fd = r, cancel_write_fd = w\<rparr> \<and> fds = []"
    and init_failed: "init pipe a = (st, cs, fds) \<Longrightarrow> st \<noteq> SAVVY_OK \<Longrightarrow>
      cs = \<lparr>cancel_read_fd = -1, cancel_write_fd = -1\<rparr> \<and> fds = (case pipe of None \<Rightarrow> [] | Some (r, w) \<Rightarrow> [r, w])"
    and cancel_gone: "cancel_write_fd cs < 0 \<Longrightarrow> cancel os (Some cs) = SAVVY_ERR_INVALID_ARGUMENT"
    and destroy_closes: "0 \<le> cancel_read_fd cs \<Longrightarrow> 0 \<le> cancel_write_fd cs \<Longrightarrow>
      destroy cs = (\<lparr>cancel_read_fd = -1, cancel_write_fd = -1\<rparr>, [cancel_read_fd cs, cancel_write_fd cs])"
    and destroy_gone: "destroy \<lparr>cancel_read_fd = -1, cancel_write_fd = -1\<rparr> = (\<lparr>cancel_read_fd = -1, cancel_write_fd = -1\<rparr>, [])"
    and cancelled_gone: "cancel_read_fd cs < 0 \<Longrightarrow> \<not> is_cancelled (Some cs) poll"
begin

text \<open>
  Whatever \<^verbatim>\<open>init\<close> and \<^verbatim>\<open>destroy\<close> do, both ends of the pipe are closed exactly once in the end; a second
  \<^verbatim>\<open>destroy\<close> closes nothing, and a destroyed source is neither cancelled nor can it be.
\<close>

lemma closed_once:
  assumes "init pipe a = (st, cs, fds)" and "case pipe of None \<Rightarrow> True | Some (r, w) \<Rightarrow> 0 \<le> r \<and> 0 \<le> w"
    and "destroy cs = (cs', fds')"
  shows "fds @ fds' = (case pipe of None \<Rightarrow> [] | Some (r, w) \<Rightarrow> [r, w]) \<and> destroy cs' = (cs', [])
     \<and> cancel os (Some cs') = SAVVY_ERR_INVALID_ARGUMENT \<and> \<not> is_cancelled (Some cs') poll"
proof (cases "st = SAVVY_OK")
  case True
  with init_ok [of pipe a cs fds] assms destroy_closes [of cs] show ?thesis
    by (auto simp: destroy_gone cancel_gone cancelled_gone)
next
  case False
  with init_failed [OF assms(1)] assms(3) show ?thesis by (auto simp: destroy_gone cancel_gone cancelled_gone)
qed

end

interpretation lcs: cancel_source savvy_ipc_cancel_source_init savvy_ipc_cancel_source_cancel savvy_ipc_cancel_source_destroy
  savvy_ipc_cancel_source_is_cancelled
  by unfold_locales
    (auto simp: savvy_ipc_cancel_source_init_def savvy_ipc_cancel_source_cancel_def savvy_ipc_cancel_source_destroy_def
      savvy_ipc_cancel_source_is_cancelled_def split: option.splits if_splits)

section \<open>The two sources agree\<close>

lemma portable_setup_iff:
  "portable_setup_fails os 0 \<longleftrightarrow> portable_end_fails (os 0) \<or> portable_end_fails (os 1)"
  by (simp add: portable_setup_fails.simps)

lemma portable_loop_eq:
  assumes "attempt + left = SAVVY_CANCEL_WRITE_MAX_ATTEMPTS"
  shows "portable_cancel_loop os attempt = cancel_attempts os attempt left"
  using assms
proof (induction left arbitrary: attempt)
  case (Suc left)
  then show ?case by (subst portable_cancel_loop.simps) (auto split: write_result.splits)
qed (simp add: portable_cancel_loop.simps)

lemma portable_init_eq:
  "portable_cancel_source_init pipe os = savvy_ipc_cancel_source_init pipe (\<lambda>i. \<not> portable_end_fails (os i))"
  by (auto simp: portable_cancel_source_init_def savvy_ipc_cancel_source_init_def portable_setup_iff split: option.splits)

lemma portable_cancel_eq: "portable_cancel_source_cancel = savvy_ipc_cancel_source_cancel"
  by (intro ext) (auto simp: portable_cancel_source_cancel_def savvy_ipc_cancel_source_cancel_def portable_loop_eq split: option.splits)

lemma portable_destroy_eq: "portable_cancel_source_destroy = savvy_ipc_cancel_source_destroy"
  by (intro ext) (auto simp: portable_cancel_source_destroy_def savvy_ipc_cancel_source_destroy_def Let_def)

lemma portable_is_cancelled_eq: "portable_cancel_source_is_cancelled = savvy_ipc_cancel_source_is_cancelled"
  by (intro ext) (auto simp: portable_cancel_source_is_cancelled_def savvy_ipc_cancel_source_is_cancelled_def split: option.splits)

interpretation pcs: cancel_source portable_cancel_source_init portable_cancel_source_cancel portable_cancel_source_destroy
  portable_cancel_source_is_cancelled
  unfolding portable_cancel_eq portable_destroy_eq portable_is_cancelled_eq
  by unfold_locales
    (use lcs.init_ok lcs.init_failed lcs.cancel_gone lcs.destroy_closes lcs.destroy_gone lcs.cancelled_gone
      in \<open>auto simp: portable_init_eq\<close>)

text \<open>
  The portable cancellation source is a stand-in for the Linux one. Given the same answers of the
  system, each of the four operations returns the same status, leaves the same source and closes the
  same descriptors; and the pipe's two ends are closed exactly once, by a failing \<^verbatim>\<open>init\<close> or by \<^verbatim>\<open>destroy\<close>,
  after which the source can neither be cancelled nor appear cancelled.
\<close>

lemma portable_cancel_source_mirrors:
  assumes "case pipe of None \<Rightarrow> True | Some (r, w) \<Rightarrow> 0 \<le> r \<and> 0 \<le> w"
  shows "portable_cancel_source_init pipe os = savvy_ipc_cancel_source_init pipe (\<lambda>i. \<not> portable_end_fails (os i))
     \<and> portable_cancel_source_cancel wr cs = savvy_ipc_cancel_source_cancel wr cs
     \<and> portable_cancel_source_destroy c = savvy_ipc_cancel_source_destroy c
     \<and> portable_cancel_source_is_cancelled cs pl = savvy_ipc_cancel_source_is_cancelled cs pl
     \<and> (case portable_cancel_source_init pipe os of (st, s, fds) \<Rightarrow>
          case portable_cancel_source_destroy s of (s', fds') \<Rightarrow>
            fds @ fds' = (case pipe of None \<Rightarrow> [] | Some (r, w) \<Rightarrow> [r, w])
            \<and> portable_cancel_source_destroy s' = (s', [])
            \<and> portable_cancel_source_cancel wr (Some s') = SAVVY_ERR_INVALID_ARGUMENT
            \<and> \<not> portable_cancel_source_is_cancelled (Some s') pl)"
proof -
  obtain st s fds s' fds' where "portable_cancel_source_init pipe os = (st, s, fds)" "portable_cancel_source_destroy s = (s', fds')"
    by (metis prod_cases3 surj_pair)
  with pcs.closed_once [OF this(1) assms this(2)] show ?thesis
    by (simp add: portable_cancel_eq portable_destroy_eq portable_is_cancelled_eq) (simp add: portable_init_eq)
qed

lemma portable_cancel_source_mirrors_witness:
  "portable_cancel_source_destroy \<lparr>cancel_read_fd = 4, cancel_write_fd = 5\<rparr>
     = savvy_ipc_cancel_source_destroy \<lparr>cancel_read_fd = 4, cancel_write_fd = 5\<rparr>
   \<and> portable_cancel_source_init (Some (4, 5)) (\<lambda>i. \<lparr>fc_getfl = 0, fc_setfl = - int i, fc_setfd = 0\<rparr>)
     = (SAVVY_ERR_IO, \<lparr>cancel_read_fd = -1, cancel_write_fd = -1\<rparr>, [4, 5])"
  using portable_cancel_source_mirrors [where pipe = "Some (4, 5)" and os = "\<lambda>i. \<lparr>fc_getfl = 0, fc_setfl = - int i, fc_setfd = 0\<rparr>"
      and c = "\<lparr>cancel_read_fd = 4, cancel_write_fd = 5\<rparr>"]
  by (simp add: savvy_ipc_cancel_source_init_def portable_end_fails_def)

end
