(* ===== verification/Tool_Base.thy ===== *)
theory Tool_Base
  imports CJSON_Number
begin

text \<open>
  What the two test tools under \<^verbatim>\<open>tools/\<close> share: the conversion of a numeric argument with the
  \<^verbatim>\<open>atoi\<close> of the C library.
\<close>

text \<open>\<^verbatim>\<open>atoi\<close>, for numerals within the range of \<^verbatim>\<open>int\<close>.\<close>

definition is_c_space :: "char \<Rightarrow> bool" where
  "is_c_space c \<longleftrightarrow> c = CHR '' '' \<or> 9 \<le> (of_char c :: nat) \<and> (of_char c :: nat) \<le> 13"

definition c_digits :: "string \<Rightarrow> int" where
  "c_digits s = foldl (\<lambda>n c. 10 * n + int (digit_val c)) 0 (takeWhile is_digit s)"

definition c_atoi :: "string \<Rightarrow> int" where
  "c_atoi s =
     (case dropWhile is_c_space s of
        [] \<Rightarrow> 0
      | c # t \<Rightarrow> if c = CHR ''-'' then - c_digits t else if c = CHR ''+'' then c_digits t else c_digits (c # t))"

lemma c_atoi_digits:
  assumes "list_all is_digit s" and "s \<noteq> []"
  shows "c_atoi s = c_digits s" and "0 \<le> c_digits s"
proof -
  obtain c t where s: "s = c # t" and c: "is_digit c" using assms by (cases s) auto
  then have "\<not> is_c_space c" "c \<noteq> CHR ''-''" "c \<noteq> CHR ''+''" by (auto simp: is_c_space_def is_digit_def)
  then show "c_atoi s = c_digits s" by (simp add: c_atoi_def s)
  have "0 \<le> foldl (\<lambda>n c. 10 * n + int (digit_val c)) m xs" if "0 \<le> m" for m xs
    using that by (induction xs arbitrary: m) simp_all
  then show "0 \<le> c_digits s" by (simp add: c_digits_def)
qed

end
