(* ===== verification/Mock_Streaming_Server.thy ===== *)
theory Mock_Streaming_Server
  imports Stream_Session Tool_Base
begin

text \<open>
  The test double of the streaming server, \<^verbatim>\<open>tools/mock_streaming_server/mock_streaming_server.c\<close>: it
  accepts one connection, reads a request with the stream parser and answers as its fixture says.
  The operating system is a record of answers: the \<open>i\<close>-th \<^verbatim>\<open>recv\<close> for a buffer size, the \<open>j\<close>-th \<^verbatim>\<open>send\<close>
  for the bytes offered, the contents of uninitialised locals; a call that does not return is \<open>None\<close>. What the process does is a list of
  events; diagnostics on \<^verbatim>\<open>stderr\<close> are left out. The second half runs the request channel and the
  session's handlers against this server.
\<close>

unbundle bit_operations_syntax

section \<open>The outside world\<close>

text \<open>
  \<^verbatim>\<open>send\<close>: the number of bytes taken, a failure and whether \<^verbatim>\<open>errno\<close> is \<^verbatim>\<open>EINTR\<close>, or a call that does not return
  because the peer does not read. \<^verbatim>\<open>recv\<close>: the bytes (none: the peer has closed), a failure, or a
  call that does not return because the peer says nothing.
\<close>

datatype mock_send = Mock_Sent nat | Mock_Send_Failed bool | Mock_Send_Blocks

datatype mock_recv = Mock_Received bytes | Mock_Recv_Failed | Mock_Recv_Blocks

record mock_os =
  os_listen_socket :: int
  os_bind_ok :: "u16 \<Rightarrow> bool"
  os_listen_ok :: bool
  os_sockname_port :: "u16 \<Rightarrow> u16"
  os_accept :: "int option"  \<comment> \<open>none: nobody connects\<close>
  os_recv :: "nat \<Rightarrow> nat \<Rightarrow> mock_recv"
  os_send :: "nat \<Rightarrow> nat \<Rightarrow> mock_send"
  os_stack :: "nat \<Rightarrow> bytes"  \<comment> \<open>an uninitialised local buffer of a size\<close>
  os_hdr :: savvy_packet_header  \<comment> \<open>an uninitialised local header\<close>

datatype mock_event = Mock_Port u16 | Mock_Wire bytes | Mock_Sleep nat | Mock_Close int

lemma ascii_bytes_empty [simp]: "ascii_bytes [] = []"
  by (simp add: ascii_bytes_def)

section \<open>The helpers\<close>

definition MOCK_SERIAL :: bytes where
  "MOCK_SERIAL = ascii_bytes ''00000000000001''"

text \<open>The descriptor (or -1), the port, and what is closed on the way.\<close>

definition make_listener :: "mock_os \<Rightarrow> u16 \<Rightarrow> int \<times> u16 \<times> mock_event list" where
  "make_listener os requested_port =
     (let fd = os_listen_socket os
      in if fd < 0 then (-1, 0, [])
         else if \<not> os_bind_ok os requested_port then (-1, 0, [Mock_Close fd])
         else if \<not> os_listen_ok os then (-1, 0, [Mock_Close fd])
         else (fd, os_sockname_port os requested_port, []))"

text \<open>
  \<open>out\<close> is what went out so far: each call is given \<^verbatim>\<open>data + off\<close> and \<^verbatim>\<open>data_len - off\<close>. The result, what
  went out in the end and the number of calls made; \<open>None\<close>: blocked or interrupted for ever.
\<close>

partial_function (option) send_all_bytes ::
  "(nat \<Rightarrow> nat \<Rightarrow> mock_send) \<Rightarrow> bytes \<Rightarrow> nat \<Rightarrow> nat \<Rightarrow> bytes \<Rightarrow> nat \<Rightarrow> (bool \<times> bytes \<times> nat) option" where
  "send_all_bytes snd_fn data data_len off out j =
     (if \<not> off < data_len then Some (True, out, j)
      else case snd_fn j (data_len - off) of
        Mock_Send_Blocks \<Rightarrow> None
      | Mock_Sent n \<Rightarrow>
          if n > 0
          then send_all_bytes snd_fn data data_len (off + n) (out @ take n (mem_read data off (data_len - off))) (j + 1)
          else Some (False, out, j + 1)
      | Mock_Send_Failed eintr \<Rightarrow>
          if eintr then send_all_bytes snd_fn data data_len off out (j + 1) else Some (False, out, j + 1))"

text \<open>The buffer afterwards and the bytes written, 0 on failure.\<close>

definition encode_response :: "u8 \<Rightarrow> u8 \<Rightarrow> bytes option \<Rightarrow> nat \<Rightarrow> bytes \<Rightarrow> nat \<Rightarrow> bytes \<times> nat" where
  "encode_response start command data data_len buf cap =
     (case savvy_packet_encode start command 0 0 (Some MOCK_SERIAL) (length MOCK_SERIAL) data data_len
             (Some buf) cap False of
        (st, out, written) \<Rightarrow> (the out, if st \<noteq> SAVVY_OK then 0 else the written))"

definition send_packet ::
  "mock_os \<Rightarrow> u8 \<Rightarrow> u8 \<Rightarrow> bytes option \<Rightarrow> nat \<Rightarrow> mock_event list option" where
  "send_packet os start command data data_len =
     (let (buf, written) = encode_response start command data data_len (os_stack os 262144) 262144
      in if written > 0
         then map_option (\<lambda>(_, out, _). [Mock_Wire out]) (send_all_bytes (os_send os) buf written 0 [] 0)
         else Some [])"

definition RESULT_BODY :: bytes where
  "RESULT_BODY = ascii_bytes ''{result:4}''"

definition send_split_response :: "mock_os \<Rightarrow> u8 \<Rightarrow> nat \<Rightarrow> mock_event list option" where
  "send_split_response os start first_chunk_len =
     (let (buf, written) = encode_response start (of_char (CHR ''R'')) (Some RESULT_BODY) (length RESULT_BODY)
                             (os_stack os 512) 512
      in if written = 0 \<or> first_chunk_len = 0 \<or> first_chunk_len \<ge> written then Some []
         else case send_all_bytes (os_send os) buf first_chunk_len 0 [] 0 of
           None \<Rightarrow> None
         | Some (ok, out, j) \<Rightarrow>
             if \<not> ok then Some [Mock_Wire out]
             else map_option
                    (\<lambda>(_, out', _). [Mock_Wire out, Mock_Sleep 20, Mock_Wire out'])
                    (send_all_bytes (os_send os) (drop first_chunk_len buf) (written - first_chunk_len) 0 [] j))"

datatype read_style = READ_NORMAL | READ_ONE_BYTE_AT_A_TIME | READ_HEADER_THEN_BODY_SEPARATELY

text \<open>
  The loop of \<^verbatim>\<open>read_one_packet\<close>: the result, the caller's header and the body the pointer then shows.
\<close>

partial_function (option) read_loop ::
  "(nat \<Rightarrow> nat \<Rightarrow> mock_recv) \<Rightarrow> read_style \<Rightarrow> savvy_stream_parser \<Rightarrow> savvy_packet_header \<Rightarrow> nat \<Rightarrow> nat
     \<Rightarrow> (bool \<times> savvy_packet_header \<times> bytes option) option" where
  "read_loop rcv style p hdr chunk_size i =
     (case rcv i chunk_size of
        Mock_Recv_Blocks \<Rightarrow> None
      | Mock_Recv_Failed \<Rightarrow> Some (False, hdr, None)
      | Mock_Received xs \<Rightarrow>
          if xs = [] then Some (False, hdr, None)
          else case savvy_stream_parser_push p (Some xs) (length xs) of
            (st, p1) \<Rightarrow>
              if st \<noteq> SAVVY_OK then Some (False, hdr, None)
              else case savvy_stream_parser_try_extract p1 (Some hdr) of
                (r, p2, h, seen) \<Rightarrow>
                  if r = SAVVY_STREAM_PACKET_READY
                  then Some (True, the h, map_option (\<lambda>(off, n). mem_read (sp_buf p2) off n) seen)
                  else if r = SAVVY_STREAM_ERROR then Some (False, the h, None)
                  else read_loop rcv style p2 (the h)
                         (if style = READ_HEADER_THEN_BODY_SEPARATELY then 65536 else chunk_size) (i + 1))"

definition read_one_packet ::
  "mock_os \<Rightarrow> bytes \<Rightarrow> nat \<Rightarrow> read_style \<Rightarrow> savvy_packet_header
     \<Rightarrow> (bool \<times> savvy_packet_header \<times> bytes option) option" where
  "read_one_packet os scratch scratch_cap style hdr =
     read_loop (os_recv os) style (savvy_stream_parser_init scratch scratch_cap) hdr
       (if style = READ_ONE_BYTE_AT_A_TIME then 1
        else if style = READ_HEADER_THEN_BODY_SEPARATELY then 5 else 65536) 0"

section \<open>The fixtures\<close>

text \<open>The static 2 MB scratch buffer, zeroed when the process starts.\<close>

definition MOCK_SCRATCH_CAP :: nat where "MOCK_SCRATCH_CAP = 2097152"

text \<open>The read every fixture but two begins with; the continuation runs when it succeeds.\<close>

definition with_request :: "mock_os \<Rightarrow> (savvy_packet_header \<Rightarrow> mock_event list option) \<Rightarrow> mock_event list option" where
  "with_request os answer =
     (case read_one_packet os (replicate MOCK_SCRATCH_CAP 0) MOCK_SCRATCH_CAP READ_NORMAL (os_hdr os) of
        None \<Rightarrow> None
      | Some (ok, hdr, _) \<Rightarrow> if ok then answer hdr else Some [])"

definition serve_echo :: "mock_os \<Rightarrow> mock_event list option" where
  "serve_echo os = with_request os (\<lambda>hdr. send_packet os (hdr_start hdr) (of_char (CHR ''I'')) None 0)"

definition serve_result :: "mock_os \<Rightarrow> nat \<Rightarrow> string \<Rightarrow> mock_event list option" where
  "serve_result os delay_ms body =
     with_request os (\<lambda>hdr. map_option (\<lambda>ev. (if delay_ms = 0 then [] else [Mock_Sleep delay_ms]) @ ev)
       (send_packet os (hdr_start hdr) (of_char (CHR ''R'')) (Some (ascii_bytes body)) (length body)))"

definition serve_consume :: "mock_os \<Rightarrow> mock_event list option" where
  "serve_consume os = with_request os (\<lambda>_. Some [])"

definition serve_split :: "mock_os \<Rightarrow> nat \<Rightarrow> mock_event list option" where
  "serve_split os first_chunk_len = with_request os (\<lambda>hdr. send_split_response os (hdr_start hdr) first_chunk_len)"

text \<open>A single \<^verbatim>\<open>send\<close> whose result is ignored.\<close>

definition send_once :: "mock_os \<Rightarrow> bytes \<Rightarrow> mock_event list option" where
  "send_once os data =
     (case os_send os 0 (length data) of
        Mock_Sent n \<Rightarrow> Some [Mock_Wire (take n data)] | Mock_Send_Failed _ \<Rightarrow> Some [] | Mock_Send_Blocks \<Rightarrow> None)"

text \<open>
  The reading loops of \<^verbatim>\<open>coalesced\<close>, entered with a verdict: the status of the push is ignored. The
  result is the verdict, the parser, the header and the number of calls made; no verdict: \<^verbatim>\<open>recv\<close>
  failed or the peer closed.
\<close>

partial_function (option) coalesced_loop ::
  "(nat \<Rightarrow> nat \<Rightarrow> mock_recv) \<Rightarrow> savvy_stream_result \<Rightarrow> savvy_stream_parser \<Rightarrow> savvy_packet_header \<Rightarrow> nat
     \<Rightarrow> (savvy_stream_result option \<times> savvy_stream_parser \<times> savvy_packet_header \<times> nat) option" where
  "coalesced_loop rcv r p hdr i =
     (if r \<noteq> SAVVY_STREAM_NEED_MORE_DATA then Some (Some r, p, hdr, i)
      else case rcv i 65536 of
        Mock_Recv_Blocks \<Rightarrow> None
      | Mock_Recv_Failed \<Rightarrow> Some (None, p, hdr, i + 1)
      | Mock_Received xs \<Rightarrow>
          if xs = [] then Some (None, p, hdr, i + 1)
          else case savvy_stream_parser_push p (Some xs) (length xs) of
            (_, p1) \<Rightarrow>
              (case savvy_stream_parser_try_extract p1 (Some hdr) of
                 (r', p2, h, _) \<Rightarrow> coalesced_loop rcv r' p2 (the h) (i + 1)))"

text \<open>
  One response appended to what the 512-byte buffer holds; the variable for the length keeps its
  value when the encoder fails.
\<close>

definition coalesce_response :: "bytes \<Rightarrow> nat \<Rightarrow> nat \<Rightarrow> u8 \<Rightarrow> bytes \<times> nat \<times> nat" where
  "coalesce_response buf off w start =
     (case savvy_packet_encode start (of_char (CHR ''R'')) 0 0 (Some MOCK_SERIAL) (length MOCK_SERIAL)
             (Some RESULT_BODY) 10 (Some (drop off buf)) (512 - off) False of
        (_, out, written) \<Rightarrow>
          let w' = (case written of None \<Rightarrow> w | Some n \<Rightarrow> n)
          in (take off buf @ the out, off + w', w'))"

definition serve_coalesced :: "mock_os \<Rightarrow> mock_event list option" where
  "serve_coalesced os =
     (case coalesced_loop (os_recv os) SAVVY_STREAM_NEED_MORE_DATA
             (savvy_stream_parser_init (replicate MOCK_SCRATCH_CAP 0) MOCK_SCRATCH_CAP) (os_hdr os) 0 of
        None \<Rightarrow> None
      | Some (None, _) \<Rightarrow> Some []
      | Some (Some _, p, hdr1, i) \<Rightarrow>
          (case savvy_stream_parser_try_extract p (Some (os_hdr os)) of
             (r, p', h, _) \<Rightarrow>
               (case coalesced_loop (os_recv os) r p' (the h) i of
                  None \<Rightarrow> None
                | Some (r2, _, hdr2, _) \<Rightarrow>
                    let (buf1, off1, w1) = coalesce_response (os_stack os 512) 0 0 (hdr_start hdr1);
                        (buf2, off2, _) = (if r2 = Some SAVVY_STREAM_PACKET_READY
                                           then coalesce_response buf1 off1 w1 (hdr_start hdr2) else (buf1, off1, w1))
                    in send_once os (take off2 buf2))))"

definition serve_invalid_crc :: "mock_os \<Rightarrow> mock_event list option" where
  "serve_invalid_crc os =
     with_request os (\<lambda>hdr.
       case savvy_packet_encode (hdr_start hdr) (of_char (CHR ''R'')) 0 0 (Some MOCK_SERIAL) (length MOCK_SERIAL)
              (Some RESULT_BODY) (length RESULT_BODY) (Some (os_stack os 512)) 512 False of
         (_, out, written) \<Rightarrow>
           let buf = (the out)[22 := the out ! 22 XOR 0xFF]
           in send_once os (take (case written of None \<Rightarrow> 0 | Some n \<Rightarrow> n) buf))"

text \<open>The header handed on here is the uninitialised one when the read fails.\<close>

definition serve_length_overflow :: "mock_os \<Rightarrow> mock_event list option" where
  "serve_length_overflow os =
     (case read_one_packet os (replicate MOCK_SCRATCH_CAP 0) MOCK_SCRATCH_CAP READ_NORMAL (os_hdr os) of
        None \<Rightarrow> None
      | Some (_, hdr, _) \<Rightarrow>
          send_once os ([hdr_start hdr, of_char (CHR ''R''), 0, 0, 0x7F, 0xFF, 0xFF, 0xFF] @ MOCK_SERIAL @ [0, 0, 0, 0]))"

definition serve_disconnect_during_body :: "mock_os \<Rightarrow> mock_event list option" where
  "serve_disconnect_during_body os =
     with_request os (\<lambda>hdr.
       let (response, response_len) = encode_response (hdr_start hdr) (of_char (CHR ''R'')) (Some RESULT_BODY) 10
                                        (os_stack os 512) 512
       in if response_len > SAVVY_PACKET_HEADER_LEN + 4
          then map_option (\<lambda>(_, out, _). [Mock_Wire out])
                 (send_all_bytes (os_send os) response (SAVVY_PACKET_HEADER_LEN + 4) 0 [] 0)
          else Some [])"

text \<open>The chain of comparisons with the fixture's name: the exit code and the events.\<close>

definition mock_serve :: "mock_os \<Rightarrow> string \<Rightarrow> (int \<times> mock_event list) option" where
  "mock_serve os fixture =
     (let served = map_option (Pair 0)
      in if fixture = ''s-i-echo'' \<or> fixture = ''v-i-echo'' then served (serve_echo os)
         else if fixture = ''s-r-normal'' \<or> fixture = ''v-r-normal'' then served (serve_result os 0 ''{result:4}'')
         else if fixture = ''s-r-danger'' \<or> fixture = ''v-r-danger''
         then served (serve_result os 0 (if fixture = ''v-r-danger'' then ''{result:7}'' else ''{result:6}''))
         else if fixture = ''s-o-no-response'' \<or> fixture = ''v-o-no-response'' then served (serve_consume os)
         else if fixture = ''partial-header'' then served (serve_split os 5)
         else if fixture = ''split-body'' then served (serve_split os (SAVVY_PACKET_HEADER_LEN + 3))
         else if fixture = ''coalesced'' then served (serve_coalesced os)
         else if fixture = ''invalid-crc'' then served (serve_invalid_crc os)
         else if fixture = ''length-overflow'' then served (serve_length_overflow os)
         else if fixture = ''delay-then-respond'' then served (serve_result os 500 ''{result:4}'')
         else if fixture = ''delay-exceeds-timeout'' then served (serve_result os 600 ''{result:4}'')
         else if fixture = ''stale-response-after-timeout'' then served (serve_result os 600 ''{result:4}'')
         else if fixture = ''disconnect-before-header'' then served (serve_consume os)
         else if fixture = ''disconnect-during-body'' then served (serve_disconnect_during_body os)
         else if fixture = ''stream-only-failure'' then served (serve_consume os)
         else if fixture = ''voice-only-failure'' then Some (0, [])
         else if fixture = ''slow-processing'' then served (serve_result os 200 ''{result:4}'')
         else Some (2, []))"

section \<open>The program\<close>

text \<open>The options; a later one wins.\<close>

fun mock_args :: "string list \<Rightarrow> string option \<Rightarrow> u16 \<Rightarrow> string option \<times> u16" where
  "mock_args [] fixture port = (fixture, port)"
| "mock_args (arg # args) fixture port =
     (if take 10 arg = ''--fixture='' then mock_args args (Some (drop 10 arg)) port
      else if take 7 arg = ''--port='' then mock_args args fixture (of_int (c_atoi (drop 7 arg)))
      else mock_args args fixture port)"

text \<open>\<^verbatim>\<open>main\<close> on the arguments after the program's name: the exit code and all events.\<close>

definition mock_streaming_main :: "string list \<Rightarrow> mock_os \<Rightarrow> (int \<times> mock_event list) option" where
  "mock_streaming_main args os =
     (case mock_args args None 0 of
        (None, _) \<Rightarrow> Some (2, [])
      | (Some fixture, requested_port) \<Rightarrow>
          (case make_listener os requested_port of
             (listen_fd, port, ev) \<Rightarrow>
               if listen_fd < 0 then Some (1, ev)
               else case os_accept os of
                 None \<Rightarrow> None
               | Some fd \<Rightarrow>
                   if fd < 0 then Some (1, ev @ [Mock_Port port])
                   else case mock_serve os fixture of
                     None \<Rightarrow> None
                   | Some (code, ev') \<Rightarrow>
                       Some (code, ev @ [Mock_Port port] @ ev' @ [Mock_Close fd, Mock_Close listen_fd])))"

section \<open>Loops that read a packet\<close>

text \<open>What was not yet a packet was not one before either.\<close>

lemma next_packet_prefix:
  assumes "next_packet cap (b @ c) = Need_More"
  shows "next_packet cap b = Need_More"
proof (cases "length b < SAVVY_PACKET_HEADER_LEN")
  case False
  then show ?thesis using assms packet_size_append [of b c] by (auto simp: next_packet_def split: if_splits)
qed (simp add: next_packet_def)

lemma need_more_fits:
  assumes "next_packet cap b = Need_More" and "SAVVY_PACKET_HEADER_LEN \<le> cap"
  shows "length b \<le> cap"
  using assms by (auto simp: next_packet_def split: if_splits)

text \<open>
  The contract of a loop that reads into a stream parser until a packet is there: one turn, for
  each of the parser's three answers. \<open>reads i xs\<close> says that the call in turn \<open>i\<close> returns \<open>xs\<close>.
\<close>

locale reading_loop =
  fixes loop :: "savvy_stream_parser \<Rightarrow> nat \<Rightarrow> 'r"
    and reads :: "nat \<Rightarrow> bytes \<Rightarrow> bool"
    and ready :: "savvy_packet_header \<Rightarrow> bytes \<Rightarrow> savvy_stream_parser \<Rightarrow> nat \<Rightarrow> 'r"
    and failed :: "savvy_stream_parser \<Rightarrow> nat \<Rightarrow> 'r"
  assumes goes_on: "reads i xs \<Longrightarrow> xs \<noteq> [] \<Longrightarrow> savvy_stream_parser_push p (Some xs) (length xs) = (SAVVY_OK, p1)
      \<Longrightarrow> sp_inv p1 \<Longrightarrow> next_packet (buf_cap p1) (sp_content p1) = Need_More \<Longrightarrow> loop p i = loop p1 (i + 1)"
    and delivers: "reads i xs \<Longrightarrow> xs \<noteq> [] \<Longrightarrow> savvy_stream_parser_push p (Some xs) (length xs) = (SAVVY_OK, p1)
      \<Longrightarrow> sp_inv p1 \<Longrightarrow> next_packet (buf_cap p1) (sp_content p1) = Packet h d c
      \<Longrightarrow> \<exists>p2. loop p i = ready h d p2 (i + 1) \<and> sp_inv p2 \<and> sp_content p2 = c \<and> buf_cap p2 = buf_cap p1"
    and gives_up: "reads i xs \<Longrightarrow> xs \<noteq> [] \<Longrightarrow> savvy_stream_parser_push p (Some xs) (length xs) = (SAVVY_OK, p1)
      \<Longrightarrow> sp_inv p1 \<Longrightarrow> next_packet (buf_cap p1) (sp_content p1) = Too_Big \<Longrightarrow> loop p i = failed p1 (i + 1)"
begin

text \<open>The pieces \<open>xss\<close> arrive in the turns from \<open>i\<close> on.\<close>

definition arrive :: "nat \<Rightarrow> bytes list \<Rightarrow> bool" where
  "arrive i xss \<longleftrightarrow> (\<forall>k < length xss. reads (i + k) (xss ! k) \<and> xss ! k \<noteq> [])"

lemma arrive_Cons: "arrive i (xs # xss) \<longleftrightarrow> reads i xs \<and> xs \<noteq> [] \<and> arrive (i + 1) xss"
  by (auto simp: arrive_def All_less_Suc2)

lemma arrive_append: "arrive i (xss @ yss) \<longleftrightarrow> arrive i xss \<and> arrive (i + length xss) yss"
proof (induction xss arbitrary: i)
  case Nil
  then show ?case by (simp add: arrive_def)
next
  case (Cons xs xss)
  then show ?case by (simp add: arrive_Cons)
qed

lemma loop_more:
  assumes "sp_inv p" and "SAVVY_PACKET_HEADER_LEN \<le> buf_cap p" and "arrive i xss"
    and "next_packet (buf_cap p) (sp_content p @ concat xss) = Need_More"
  shows "\<exists>p'. loop p i = loop p' (i + length xss) \<and> sp_inv p' \<and> sp_content p' = sp_content p @ concat xss
           \<and> buf_cap p' = buf_cap p"
  using assms
proof (induction xss arbitrary: p i)
  case (Cons xs xss)
  have need: "next_packet (buf_cap p) (sp_content p @ xs) = Need_More"
    using Cons.prems(4) next_packet_prefix [of "buf_cap p" "sp_content p @ xs" "concat xss"] by simp
  from need_more_fits [OF need Cons.prems(2)] have "length (sp_content p) + length xs \<le> buf_cap p" by simp
  from sp_push_room [OF Cons.prems(1) this]
  obtain p1 where p1: "savvy_stream_parser_push p (Some xs) (length xs) = (SAVVY_OK, p1)" "sp_inv p1"
      "sp_content p1 = sp_content p @ xs" "buf_cap p1 = buf_cap p"
    by blast
  have "loop p i = loop p1 (i + 1)"
    using Cons.prems(3) p1 need by (intro goes_on [of i xs]) (simp_all add: arrive_Cons)
  with Cons.IH [of p1 "i + 1"] Cons.prems p1 show ?case by (simp add: arrive_Cons)
qed auto

text \<open>Up to the last piece there was no packet; with it the bytes are \<open>b\<close>.\<close>

lemma loop_last:
  assumes "sp_inv p" and "SAVVY_PACKET_HEADER_LEN \<le> buf_cap p" and "arrive i (xss @ [xs])"
    and "next_packet (buf_cap p) (sp_content p @ concat xss) = Need_More"
    and "b = sp_content p @ concat (xss @ [xs])" and "length b \<le> buf_cap p"
  obtains p' p1 where "loop p i = loop p' (i + length xss)" "reads (i + length xss) xs" "xs \<noteq> []"
    "savvy_stream_parser_push p' (Some xs) (length xs) = (SAVVY_OK, p1)" "sp_inv p1" "sp_content p1 = b"
    "buf_cap p1 = buf_cap p"
proof -
  have "arrive i xss" "reads (i + length xss) xs" "xs \<noteq> []"
    using assms(3) by (auto simp: arrive_append arrive_Cons)
  moreover from loop_more [OF assms(1,2) this(1) assms(4)]
  obtain p' where p': "loop p i = loop p' (i + length xss)" "sp_inv p'" "sp_content p' = sp_content p @ concat xss"
      "buf_cap p' = buf_cap p"
    by blast
  moreover obtain p1 where "savvy_stream_parser_push p' (Some xs) (length xs) = (SAVVY_OK, p1)" "sp_inv p1"
      "sp_content p1 = b" "buf_cap p1 = buf_cap p"
    using sp_push_room [OF p'(2), of xs] p'(3,4) assms(5,6) by auto
  ultimately show ?thesis using that by blast
qed

lemma loop_frame:
  assumes "sp_inv p" and "arrive i xss" and "xss \<noteq> []" and "sp_content p @ concat xss = w @ c"
    and "length c < length (last xss)" and "frame w" and "length (w @ c) \<le> buf_cap p"
  shows "\<exists>p'. loop p i = ready (fst (unframe w)) (snd (unframe w)) p' (i + length xss) \<and> sp_inv p'
           \<and> sp_content p' = c \<and> buf_cap p' = buf_cap p"
proof -
  obtain ys y where xss: "xss = ys @ [y]" using assms(3) by (cases xss rule: rev_cases) auto
  have "(sp_content p @ concat ys) @ y = w @ c" and "length c < length y" using assms(4,5) xss by simp_all
  then obtain z where z: "w = (sp_content p @ concat ys) @ z" "z \<noteq> []"
    by (auto simp: append_eq_append_conv2)
  then have need: "next_packet (buf_cap p) (sp_content p @ concat ys) = Need_More"
    using assms(6,7) by (intro next_packet_partial [of _ z]) auto
  have cap: "SAVVY_PACKET_HEADER_LEN \<le> buf_cap p" using assms(6,7) by (simp add: frame_def)
  have arr: "arrive i (ys @ [y])" and wc: "w @ c = sp_content p @ concat (ys @ [y])" using assms(2,4) xss by simp_all
  from loop_last [OF assms(1) cap arr need wc assms(7)]
  obtain p' p1 where p1: "loop p i = loop p' (i + length ys)" "reads (i + length ys) y" "y \<noteq> []"
      "savvy_stream_parser_push p' (Some y) (length y) = (SAVVY_OK, p1)" "sp_inv p1" "sp_content p1 = w @ c"
      "buf_cap p1 = buf_cap p"
    by blast
  have "next_packet (buf_cap p1) (sp_content p1) = Packet (fst (unframe w)) (snd (unframe w)) c"
    using next_packet_whole [OF assms(6), of "buf_cap p" c] assms(7) p1 by simp
  from delivers [OF p1(2-5) this] p1(1,7) xss show ?thesis by (simp add: add.commute)
qed

lemma loop_too_big:
  assumes "sp_inv p" and "arrive i xss" and "sp_content p = []" and "length (concat xss) = SAVVY_PACKET_HEADER_LEN"
    and "SAVVY_PACKET_HEADER_LEN \<le> buf_cap p" and "buf_cap p < packet_size (concat xss)"
  shows "\<exists>p'. loop p i = failed p' (i + length xss) \<and> sp_inv p' \<and> buf_cap p' = buf_cap p"
proof -
  have "xss \<noteq> []" using assms(4) by (auto simp: packet_lens)
  then obtain ys y where xss: "xss = ys @ [y]" by (cases xss rule: rev_cases) auto
  have "y \<noteq> []" using assms(2) xss by (auto simp: arrive_append arrive_Cons)
  then have "length (concat ys) < SAVVY_PACKET_HEADER_LEN" using assms(4) xss by (cases y) simp_all
  then have need: "next_packet (buf_cap p) (sp_content p @ concat ys) = Need_More"
    by (simp add: next_packet_def assms(3))
  have arr: "arrive i (ys @ [y])" and b: "concat xss = sp_content p @ concat (ys @ [y])" using assms(2,3) xss by simp_all
  have fits: "length (concat xss) \<le> buf_cap p" using assms(4,5) by simp
  from loop_last [OF assms(1,5) arr need b fits]
  obtain p' p1 where p1: "loop p i = loop p' (i + length ys)" "reads (i + length ys) y" "y \<noteq> []"
      "savvy_stream_parser_push p' (Some y) (length y) = (SAVVY_OK, p1)" "sp_inv p1" "sp_content p1 = concat xss"
      "buf_cap p1 = buf_cap p"
    by blast
  have "next_packet (buf_cap p1) (sp_content p1) = Too_Big"
    using assms(4,6) p1 by (simp add: next_packet_def)
  from gives_up [OF p1(2-5) this] p1 xss show ?thesis by (auto simp: add.commute)
qed

end

interpretation rl: reading_loop "\<lambda>p i. read_loop rcv READ_NORMAL p hdr 65536 i" "\<lambda>i xs. rcv i 65536 = Mock_Received xs"
  "\<lambda>h d p i. Some (True, h, Some d)" "\<lambda>p i. Some (False, hdr, None)" for rcv hdr
proof
  fix i xs p p1 and h :: savvy_packet_header and d c
  assume turn: "rcv i 65536 = Mock_Received xs" "xs \<noteq> []"
    "savvy_stream_parser_push p (Some xs) (length xs) = (SAVVY_OK, p1)" and inv: "sp_inv p1"
  {
    assume "next_packet (buf_cap p1) (sp_content p1) = Need_More"
    with turn try_extract_cases [OF inv, of hdr]
    show "read_loop rcv READ_NORMAL p hdr 65536 i = read_loop rcv READ_NORMAL p1 hdr 65536 (i + 1)"
      by (simp add: read_loop.simps [of _ _ p])
  next
    assume "next_packet (buf_cap p1) (sp_content p1) = Too_Big"
    with turn try_extract_cases [OF inv, of hdr]
    show "read_loop rcv READ_NORMAL p hdr 65536 i = Some (False, hdr, None)"
      by (simp add: read_loop.simps [of _ _ p])
  next
    assume pk: "next_packet (buf_cap p1) (sp_content p1) = Packet h d c"
    with sp_take_content [OF inv] obtain p2 where p2: "sp_take p1 = (SAVVY_STREAM_PACKET_READY, p2, Some (h, d))"
        "sp_inv p2" "sp_content p2 = c" "buf_cap p2 = buf_cap p1"
      by auto
    with turn try_extract_cases [OF inv] pk
    show "\<exists>p2. read_loop rcv READ_NORMAL p hdr 65536 i = Some (True, h, Some d) \<and> sp_inv p2 \<and> sp_content p2 = c
        \<and> buf_cap p2 = buf_cap p1"
      by (auto simp: read_loop.simps [of _ _ p] sp_take_def)
  }
qed

interpretation cl: reading_loop "\<lambda>p i. coalesced_loop rcv SAVVY_STREAM_NEED_MORE_DATA p hdr i" "\<lambda>i xs. rcv i 65536 = Mock_Received xs"
  "\<lambda>h d p i. Some (Some SAVVY_STREAM_PACKET_READY, p, h, i)" "\<lambda>p i. Some (Some SAVVY_STREAM_ERROR, p, hdr, i)" for rcv hdr
proof
  fix i xs p p1 and h :: savvy_packet_header and d c
  assume turn: "rcv i 65536 = Mock_Received xs" "xs \<noteq> []"
    "savvy_stream_parser_push p (Some xs) (length xs) = (SAVVY_OK, p1)" and inv: "sp_inv p1"
  {
    assume "next_packet (buf_cap p1) (sp_content p1) = Need_More"
    with turn try_extract_cases [OF inv, of hdr]
    show "coalesced_loop rcv SAVVY_STREAM_NEED_MORE_DATA p hdr i = coalesced_loop rcv SAVVY_STREAM_NEED_MORE_DATA p1 hdr (i + 1)"
      by (simp add: coalesced_loop.simps [of _ _ p])
  next
    assume "next_packet (buf_cap p1) (sp_content p1) = Too_Big"
    with turn try_extract_cases [OF inv, of hdr]
    show "coalesced_loop rcv SAVVY_STREAM_NEED_MORE_DATA p hdr i = Some (Some SAVVY_STREAM_ERROR, p1, hdr, i + 1)"
      by (simp add: coalesced_loop.simps)
  next
    assume pk: "next_packet (buf_cap p1) (sp_content p1) = Packet h d c"
    with sp_take_content [OF inv] obtain p2 where p2: "sp_take p1 = (SAVVY_STREAM_PACKET_READY, p2, Some (h, d))"
        "sp_inv p2" "sp_content p2 = c" "buf_cap p2 = buf_cap p1"
      by auto
    moreover have "coalesced_loop rcv SAVVY_STREAM_NEED_MORE_DATA p hdr i = Some (Some SAVVY_STREAM_PACKET_READY, p2, h, i + 1)"
      using turn try_extract_cases [OF inv] pk p2(1) by (simp add: coalesced_loop.simps sp_take_def)
    ultimately show "\<exists>p2. coalesced_loop rcv SAVVY_STREAM_NEED_MORE_DATA p hdr i = Some (Some SAVVY_STREAM_PACKET_READY, p2, h, i + 1)
        \<and> sp_inv p2 \<and> sp_content p2 = c \<and> buf_cap p2 = buf_cap p1"
      by blast
  }
qed

section \<open>The server returns\<close>

text \<open>Each turn that does not end the loop adds a byte to a bounded buffer.\<close>

lemma read_loop_returns:
  assumes "sp_inv p" and answers: "\<And>i n. rcv i n \<noteq> Mock_Recv_Blocks"
  shows "\<exists>r. read_loop rcv style p hdr n i = Some r"
  using assms(1)
proof (induction "buf_cap p - length (sp_content p)" arbitrary: p hdr n i rule: less_induct)
  case less
  note inv = \<open>sp_inv p\<close>
  show ?case
  proof (cases "rcv i n")
    case Mock_Recv_Blocks
    then show ?thesis using answers by simp
  next
    case Mock_Recv_Failed
    then show ?thesis by (auto simp: read_loop.simps)
  next
    case Some: (Mock_Received xs)
    obtain st p1 where push: "savvy_stream_parser_push p (Some xs) (length xs) = (st, p1)" by fastforce
    note p1 = sp_push_content [OF inv push]
    consider "xs = [] \<or> st \<noteq> SAVVY_OK \<or> next_packet (buf_cap p1) (sp_content p1) \<noteq> Need_More"
      | "xs \<noteq> []" "st = SAVVY_OK" "next_packet (buf_cap p1) (sp_content p1) = Need_More"
      by blast
    then show ?thesis
    proof cases
      case 1
      then show ?thesis
        using Some push try_extract_cases [OF p1(1), of hdr] by (subst read_loop.simps) (auto split: packet_view.splits)
    next
      case 2
      have "length (sp_content p1) \<le> buf_cap p1" using length_sp_content [OF p1(1)] p1(1) by (auto simp: sp_inv_def)
      then have "buf_cap p1 - length (sp_content p1) < buf_cap p - length (sp_content p)"
        using 2 p1 by (cases xs) simp_all
      from less.hyps [OF this p1(1)] 2 Some push try_extract_cases [OF p1(1), of hdr] show ?thesis
        by (subst read_loop.simps) simp
    qed
  qed
qed

lemma scratch_parser:
  "sp_inv (savvy_stream_parser_init (replicate MOCK_SCRATCH_CAP 0) MOCK_SCRATCH_CAP)"
  "buf_cap (savvy_stream_parser_init (replicate MOCK_SCRATCH_CAP 0) MOCK_SCRATCH_CAP) = MOCK_SCRATCH_CAP"
  by (simp_all add: sp_inv_def savvy_stream_parser_init_def)

lemma read_one_packet_returns:
  "(\<And>i n. os_recv os i n \<noteq> Mock_Recv_Blocks) \<Longrightarrow>
     \<exists>r. read_one_packet os (replicate MOCK_SCRATCH_CAP 0) MOCK_SCRATCH_CAP style hdr = Some r"
  unfolding read_one_packet_def by (rule read_loop_returns [OF scratch_parser(1)])

text \<open>
  What the theorem on the whole server assumes of the system: somebody connects, no \<^verbatim>\<open>recv\<close> and no
  \<^verbatim>\<open>send\<close> blocks for ever, and no \<^verbatim>\<open>send\<close> is interrupted for ever.
\<close>

definition mock_os_answers :: "mock_os \<Rightarrow> bool" where
  "mock_os_answers os \<longleftrightarrow> os_accept os \<noteq> None \<and> (\<forall>i n. os_recv os i n \<noteq> Mock_Recv_Blocks)
     \<and> (\<forall>j n. os_send os j n \<noteq> Mock_Send_Blocks)
     \<and> (\<forall>j n. \<exists>i \<ge> j. os_send os i n \<noteq> Mock_Send_Failed True)"

lemma send_all_bytes_interrupted:
  assumes "off < len" and "\<And>i. j \<le> i \<Longrightarrow> i < m \<Longrightarrow> snd_fn i (len - off) = Mock_Send_Failed True" and "j \<le> m"
  shows "send_all_bytes snd_fn data len off out j = send_all_bytes snd_fn data len off out m"
  using assms(2,3)
proof (induction "m - j" arbitrary: j)
  case (Suc k)
  then have "send_all_bytes snd_fn data len off out (j + 1) = send_all_bytes snd_fn data len off out m"
    by (intro Suc.hyps(1)) simp_all
  moreover have "snd_fn j (len - off) = Mock_Send_Failed True" using Suc by simp
  ultimately show ?case using assms(1) by (simp add: send_all_bytes.simps [of _ _ _ _ _ j])
qed simp

lemma send_all_bytes_returns:
  assumes "\<And>j n. snd_fn j n \<noteq> Mock_Send_Blocks" and "\<And>j n. \<exists>i \<ge> j. snd_fn i n \<noteq> Mock_Send_Failed True"
  shows "\<exists>r. send_all_bytes snd_fn data len off out j = Some r"
proof (induction "len - off" arbitrary: off out j rule: less_induct)
  case less
  show ?case
  proof (cases "off < len")
    case True
    define m where "m = (LEAST i. j \<le> i \<and> snd_fn i (len - off) \<noteq> Mock_Send_Failed True)"
    have m: "j \<le> m" "snd_fn m (len - off) \<noteq> Mock_Send_Failed True"
      using LeastI_ex [OF assms(2) [of j "len - off"]] by (simp_all add: m_def)
    have "snd_fn i (len - off) = Mock_Send_Failed True" if "j \<le> i" "i < m" for i
      using not_less_Least [OF that(2) [unfolded m_def]] that(1) by simp
    then have skip: "send_all_bytes snd_fn data len off out j = send_all_bytes snd_fn data len off out m"
      using True m(1) by (intro send_all_bytes_interrupted)
    show ?thesis
    proof (cases "snd_fn m (len - off)")
      case (Mock_Sent n)
      have "\<exists>r. send_all_bytes snd_fn data len (off + n) out' (m + 1) = Some r" if "0 < n" for out'
        using that True by (intro less) simp
      then show ?thesis unfolding skip using Mock_Sent True by (subst send_all_bytes.simps) auto
    next
      case (Mock_Send_Failed eintr)
      then have "\<not> eintr" using m(2) by auto
      then show ?thesis unfolding skip using Mock_Send_Failed True by (subst send_all_bytes.simps) auto
    qed (use assms(1) in simp)
  qed (auto simp: send_all_bytes.simps)
qed

lemma with_request_returns:
  assumes "mock_os_answers os" and "\<And>hdr. \<exists>ev. answer hdr = Some ev"
  shows "\<exists>ev. with_request os answer = Some ev"
  using read_one_packet_returns [of os READ_NORMAL "os_hdr os"] assms by (auto simp: with_request_def mock_os_answers_def)

lemma send_once_returns: "mock_os_answers os \<Longrightarrow> \<exists>ev. send_once os data = Some ev"
  by (auto simp: send_once_def mock_os_answers_def split: mock_send.split)

lemma mock_serve_returns:
  assumes "mock_os_answers os" and "fixture \<noteq> ''coalesced''"
  shows "\<exists>r. mock_serve os fixture = Some r"
proof -
  have sent: "\<exists>r. send_all_bytes (os_send os) d n off out j = Some r" for d n off out j
    using assms(1) by (intro send_all_bytes_returns) (simp_all add: mock_os_answers_def)
  have packet: "\<exists>ev. send_packet os s c d n = Some ev" for s c d n
    using sent by (auto simp: send_packet_def case_prod_beta Let_def)
  have split: "\<exists>ev. send_split_response os s n = Some ev" for s n
  proof -
    obtain buf written where e: "encode_response s (of_char (CHR ''R'')) (Some RESULT_BODY) (length RESULT_BODY)
        (os_stack os 512) 512 = (buf, written)"
      by fastforce
    obtain ok out j where f: "send_all_bytes (os_send os) buf n 0 [] 0 = Some (ok, out, j)"
      using sent [of buf n 0 "[]" 0] by auto
    obtain r where "send_all_bytes (os_send os) (drop n buf) (written - n) 0 [] j = Some r"
      using sent by blast
    with e f show ?thesis by (simp add: send_split_response_def)
  qed
  have "\<exists>r. read_one_packet os (replicate MOCK_SCRATCH_CAP 0) MOCK_SCRATCH_CAP READ_NORMAL (os_hdr os) = Some r"
    using assms(1) by (intro read_one_packet_returns) (simp add: mock_os_answers_def)
  then have "\<exists>ev. serve_echo os = Some ev" "\<exists>ev. serve_result os t b = Some ev" "\<exists>ev. serve_consume os = Some ev"
    "\<exists>ev. serve_split os n = Some ev" "\<exists>ev. serve_invalid_crc os = Some ev"
    "\<exists>ev. serve_disconnect_during_body os = Some ev" "\<exists>ev. serve_length_overflow os = Some ev" for t b n
    using packet split sent send_once_returns [OF assms(1)]
    by (auto simp: serve_echo_def serve_result_def serve_consume_def serve_split_def serve_invalid_crc_def
        serve_disconnect_during_body_def serve_length_overflow_def case_prod_beta Let_def
        intro!: with_request_returns [OF assms(1)])
  with assms(2) show ?thesis
    unfolding mock_serve_def Let_def by (simp only: if_False) (auto split: if_splits)
qed

text \<open>The fixtures the usage message lists.\<close>

definition MOCK_FIXTURES :: "string list" where
  "MOCK_FIXTURES =
     [''s-i-echo'', ''v-i-echo'', ''s-r-normal'', ''s-r-danger'', ''v-r-normal'', ''v-r-danger'', ''s-o-no-response'',
      ''v-o-no-response'', ''partial-header'', ''split-body'', ''coalesced'', ''invalid-crc'', ''length-overflow'',
      ''delay-then-respond'', ''delay-exceeds-timeout'', ''stale-response-after-timeout'', ''disconnect-before-header'',
      ''disconnect-during-body'', ''stream-only-failure'', ''voice-only-failure'', ''slow-processing'']"

lemma mock_serve_code:
  assumes "mock_serve os f = Some (code, ev)"
  shows "code = (if f \<in> set MOCK_FIXTURES then 0 else 2)"
proof (cases "f \<in> set MOCK_FIXTURES")
  case True
  then show ?thesis using assms
    unfolding MOCK_FIXTURES_def list.set insert_iff empty_iff mock_serve_def Let_def
    by (elim disjE FalseE) auto
next
  case False
  then have "mock_serve os f = Some (2, [])" by (simp add: mock_serve_def MOCK_FIXTURES_def)
  with False assms show ?thesis by simp
qed

text \<open>
  C32: the server returns, with the documented exit code. Whatever bytes the peer sends, in whatever
  pieces, and whichever calls fail, every fixture but \<^verbatim>\<open>coalesced\<close> ends, provided that somebody connects,
  no call blocks for ever and no \<^verbatim>\<open>send\<close> is interrupted for ever: a request cannot keep the reading
  loop busy beyond the 2 MB of its buffer. The exit code is 2 without a fixture, 1 when there
  is no listener or \<^verbatim>\<open>accept\<close> fails, and else 0 for a fixture the usage message lists and 2 for any
  other.
\<close>

theorem mock_server_returns:
  assumes "mock_os_answers os" and "fst (mock_args args None 0) \<noteq> Some ''coalesced''"
  shows "\<exists>ev. mock_streaming_main args os = Some (
     case fst (mock_args args None 0) of
       None \<Rightarrow> 2
     | Some f \<Rightarrow>
         if fst (make_listener os (snd (mock_args args None 0))) < 0 \<or> the (os_accept os) < 0 then 1
         else if f \<in> set MOCK_FIXTURES then 0 else 2, ev)"
proof (cases "mock_args args None 0")
  case (Pair fixture port)
  show ?thesis
  proof (cases fixture)
    case None
    then show ?thesis using Pair by (simp add: mock_streaming_main_def)
  next
    case (Some f)
    then obtain code ev where r: "mock_serve os f = Some (code, ev)"
      using mock_serve_returns [of os f] assms Pair by fastforce
    obtain fd where fd: "os_accept os = Some fd" using assms(1) by (auto simp: mock_os_answers_def)
    obtain lfd port' lev where l: "make_listener os port = (lfd, port', lev)" by (metis prod_cases3)
    show ?thesis
      using Pair Some r mock_serve_code [OF r] fd l by (auto simp: mock_streaming_main_def)
  qed
qed

text \<open>
  \<^verbatim>\<open>coalesced\<close> drops a piece that does not fit and goes on reading: once less than a full piece of room
  is left, a peer that keeps sending full pieces keeps it in the loop for ever.
\<close>

lemma coalesced_never_returns:
  assumes "sp_inv p" and "next_packet (buf_cap p) (sp_content p) = Need_More"
    and "buf_cap p < length (sp_content p) + 65536" and "\<And>k. i \<le> k \<Longrightarrow> \<exists>xs. rcv k 65536 = Mock_Received xs \<and> length xs = 65536"
  shows "coalesced_loop rcv SAVVY_STREAM_NEED_MORE_DATA p hdr i = None"
proof (rule ccontr)
  assume "coalesced_loop rcv SAVVY_STREAM_NEED_MORE_DATA p hdr i \<noteq> None"
  then obtain r where "coalesced_loop rcv SAVVY_STREAM_NEED_MORE_DATA p hdr i = Some r" by blast
  moreover have "SAVVY_STREAM_NEED_MORE_DATA = SAVVY_STREAM_NEED_MORE_DATA" by simp
  ultimately show False using assms
  proof (induction rcv SAVVY_STREAM_NEED_MORE_DATA p hdr i r
      rule: coalesced_loop.raw_induct [rotated, consumes 1, case_names turn])
    case (turn loop rcv p hdr i r)
    obtain xs where xs: "rcv i 65536 = Mock_Received xs" "length xs = 65536" using turn.prems(5) [of i] by blast
    then have "xs \<noteq> []" by auto
    obtain p1 where p1: "savvy_stream_parser_push p (Some xs) (length xs) = (SAVVY_ERR_OVERFLOW, p1)" "sp_inv p1"
        "sp_content p1 = sp_content p" "buf_cap p1 = buf_cap p"
      using sp_push_no_room [OF turn.prems(2), of xs] turn.prems(4) xs by auto
    have "loop rcv SAVVY_STREAM_NEED_MORE_DATA p1 hdr (i + 1) = Some r"
      using turn.hyps(2) xs \<open>xs \<noteq> []\<close> p1 try_extract_cases [OF p1(2), of hdr] turn.prems(3) by simp
    from turn.hyps(1) [OF this] turn.prems p1 show False by simp
  qed
qed

section \<open>What the server answers\<close>

text \<open>
  The answer a client is meant to get from a fixture: the command and the body. The fixtures that answer
  after the client has given up (\<^verbatim>\<open>delay-exceeds-timeout\<close>, \<^verbatim>\<open>stale-response-after-timeout\<close>) are not among them.
\<close>

definition fixture_answer :: "string \<Rightarrow> (char \<times> string) option" where
  "fixture_answer = map_of
     [(''s-i-echo'', CHR ''I'', []), (''v-i-echo'', CHR ''I'', []),
      (''s-r-normal'', CHR ''R'', ''{result:4}''), (''v-r-normal'', CHR ''R'', ''{result:4}''),
      (''s-r-danger'', CHR ''R'', ''{result:6}''), (''v-r-danger'', CHR ''R'', ''{result:7}''),
      (''partial-header'', CHR ''R'', ''{result:4}''), (''split-body'', CHR ''R'', ''{result:4}''),
      (''delay-then-respond'', CHR ''R'', ''{result:4}''), (''slow-processing'', CHR ''R'', ''{result:4}'')]"

fun mock_wire :: "mock_event list \<Rightarrow> bytes" where
  "mock_wire [] = []"
| "mock_wire (Mock_Wire bs # es) = bs @ mock_wire es"
| "mock_wire (_ # es) = mock_wire es"

lemma mock_wire_append [simp]: "mock_wire (es @ fs) = mock_wire es @ mock_wire fs"
  by (induction es rule: mock_wire.induct) auto

text \<open>What the system calls promise: local buffers have their size, \<^verbatim>\<open>send\<close> takes some of the bytes offered.\<close>

definition mock_os_ok :: "mock_os \<Rightarrow> bool" where
  "mock_os_ok os \<longleftrightarrow> (\<forall>n. length (os_stack os n) = n)
     \<and> (\<forall>j n. 0 < n \<longrightarrow> (\<exists>m. os_send os j n = Mock_Sent m \<and> 0 < m \<and> m \<le> n))"

text \<open>A request \<open>w\<close> that fits the scratch buffer arrives in the pieces \<open>cs\<close>.\<close>

definition request_arrives :: "mock_os \<Rightarrow> bytes list \<Rightarrow> bytes \<Rightarrow> bool" where
  "request_arrives os cs w \<longleftrightarrow> (\<forall>k < length cs. os_recv os k 65536 = Mock_Received (cs ! k) \<and> cs ! k \<noteq> []) \<and> concat cs = w
     \<and> frame w \<and> length w \<le> MOCK_SCRATCH_CAP"

lemma send_all_bytes_done:
  assumes "\<And>j n. 0 < n \<Longrightarrow> \<exists>m. snd_fn j n = Mock_Sent m \<and> 0 < m \<and> m \<le> n"
  shows "\<exists>j'. send_all_bytes snd_fn data len off out j = Some (True, out @ mem_read data off (len - off), j')"
proof (induction "len - off" arbitrary: off out j rule: less_induct)
  case less
  show ?case
  proof (cases "off < len")
    case True
    then obtain m where m: "snd_fn j (len - off) = Mock_Sent m" "0 < m" "m \<le> len - off"
      using assms(1) [of "len - off" j] by auto
    have "\<exists>j'. send_all_bytes snd_fn data len (off + m) (out @ take m (mem_read data off (len - off))) (j + 1)
        = Some (True, (out @ take m (mem_read data off (len - off))) @ mem_read data (off + m) (len - (off + m)), j')"
      using True m(2) by (intro less.hyps) simp_all
    then show ?thesis
      using True m mem_read_take [of m data off "len - off"]
      by (simp add: send_all_bytes.simps [of _ _ _ off])
  next
    case False
    then show ?thesis by (simp add: send_all_bytes.simps mem_read_def)
  qed
qed

lemma mock_sends:
  "mock_os_ok os \<Longrightarrow> \<exists>j'. send_all_bytes (os_send os) data len 0 [] j = Some (True, take len data, j')"
  using send_all_bytes_done [of "os_send os" data len 0 "[]" j] by (simp add: mock_os_ok_def mem_read_def)

lemma length_MOCK_SERIAL [simp]: "length MOCK_SERIAL = SAVVY_PACKET_SERIAL_LEN"
  by (simp add: MOCK_SERIAL_def ascii_bytes_def packet_lens)

lemma length_RESULT_BODY [simp]: "length RESULT_BODY = 10"
  by (simp add: RESULT_BODY_def ascii_bytes_def)

lemma mock_encode:
  assumes "length buf = cap" and "SAVVY_PACKET_HEADER_LEN + length data \<le> cap" and "length data \<le> UINT32_MAX"
  shows "savvy_packet_encode s c 0 0 (Some MOCK_SERIAL) (length MOCK_SERIAL) (Some data) (length data) (Some buf) cap False
      = (SAVVY_OK, Some (packet_image s c 0 0 MOCK_SERIAL data @ drop (SAVVY_PACKET_HEADER_LEN + length data) buf),
         Some (SAVVY_PACKET_HEADER_LEN + length data))"
  using savvy_packet_encode_ok [of MOCK_SERIAL data buf] assms by simp

lemma encode_response_ok:
  assumes "length buf = cap" and "SAVVY_PACKET_HEADER_LEN + length data \<le> cap" and "length data \<le> UINT32_MAX"
  shows "encode_response s c (Some data) (length data) buf cap
      = (packet_image s c 0 0 MOCK_SERIAL data @ drop (SAVVY_PACKET_HEADER_LEN + length data) buf,
         SAVVY_PACKET_HEADER_LEN + length data)"
  using mock_encode [OF assms] by (simp add: encode_response_def)

lemma length_mock_image [simp]:
  "length (packet_image s c 0 0 MOCK_SERIAL data) = SAVVY_PACKET_HEADER_LEN + length data"
  by (rule length_packet_image) simp

lemma send_packet_ok:
  assumes "mock_os_ok os" and "length data \<le> 262118"
  shows "send_packet os s c (Some data) (length data) = Some [Mock_Wire (packet_image s c 0 0 MOCK_SERIAL data)]"
proof -
  have e: "encode_response s c (Some data) (length data) (os_stack os 262144) 262144
      = (packet_image s c 0 0 MOCK_SERIAL data @ drop (SAVVY_PACKET_HEADER_LEN + length data) (os_stack os 262144),
         SAVVY_PACKET_HEADER_LEN + length data)"
    using assms by (intro encode_response_ok) (simp_all add: mock_os_ok_def packet_lens limits)
  obtain j where "send_all_bytes (os_send os)
        (packet_image s c 0 0 MOCK_SERIAL data @ drop (SAVVY_PACKET_HEADER_LEN + length data) (os_stack os 262144))
        (SAVVY_PACKET_HEADER_LEN + length data) 0 [] 0 = Some (True, packet_image s c 0 0 MOCK_SERIAL data, j)"
    using mock_sends [OF assms(1), of "packet_image s c 0 0 MOCK_SERIAL data
        @ drop (SAVVY_PACKET_HEADER_LEN + length data) (os_stack os 262144)" "SAVVY_PACKET_HEADER_LEN + length data" 0] by auto
  with e show ?thesis by (simp add: send_packet_def packet_lens)
qed

lemma send_packet_nothing:
  "send_packet os s c None 0 = send_packet os s c (Some []) (length ([] :: bytes))"
  by (simp add: send_packet_def encode_response_def encode_nothing)

lemma send_split_response_ok:
  assumes "mock_os_ok os" and "0 < n" and "n < 36"
  shows "\<exists>ev. send_split_response os s n = Some ev
     \<and> mock_wire ev = packet_image s (of_char (CHR ''R'')) 0 0 MOCK_SERIAL RESULT_BODY"
proof -
  let ?img = "packet_image s (of_char (CHR ''R'')) 0 0 MOCK_SERIAL RESULT_BODY"
  have l: "length ?img = 36" by (simp add: packet_lens)
  have "encode_response s (of_char (CHR ''R'')) (Some RESULT_BODY) (length RESULT_BODY) (os_stack os 512) 512
      = (?img @ drop 36 (os_stack os 512), 36)"
    using encode_response_ok [of "os_stack os 512" 512 RESULT_BODY s "of_char (CHR ''R'')"] assms(1)
    by (simp add: mock_os_ok_def packet_lens limits)
  moreover obtain j where "send_all_bytes (os_send os) (?img @ drop 36 (os_stack os 512)) n 0 [] 0 = Some (True, take n ?img, j)"
    using mock_sends [OF assms(1), of "?img @ drop 36 (os_stack os 512)" n 0] l assms(3) by auto
  moreover obtain j' where "send_all_bytes (os_send os) (drop n (?img @ drop 36 (os_stack os 512))) (36 - n) 0 [] j
      = Some (True, take (36 - n) (drop n ?img), j')"
    using mock_sends [OF assms(1), of "drop n (?img @ drop 36 (os_stack os 512))" "36 - n" j] l assms(3) by auto
  moreover have "take n ?img @ take (36 - n) (drop n ?img) = ?img" using l assms(3) by simp
  ultimately show ?thesis using assms(2,3) l by (simp add: send_split_response_def)
qed

lemma request_is_read:
  assumes "request_arrives os cs w"
  shows "read_one_packet os (replicate MOCK_SCRATCH_CAP 0) MOCK_SCRATCH_CAP READ_NORMAL hdr
     = Some (True, decode_header w, Some (drop SAVVY_PACKET_HEADER_LEN w))"
proof -
  let ?p = "savvy_stream_parser_init (replicate MOCK_SCRATCH_CAP (0 :: u8)) MOCK_SCRATCH_CAP"
  have "cs \<noteq> []" using assms by (auto simp: request_arrives_def frame_def packet_lens)
  moreover from this have "0 < length (last cs)"
    using assms by (auto simp: request_arrives_def last_conv_nth)
  ultimately show ?thesis
    using rl.loop_frame [OF scratch_parser(1), of "os_recv os" 0 cs w "[]" hdr] assms
    by (simp add: read_one_packet_def rl.arrive_def request_arrives_def unframe_def sp_init_content scratch_parser(2))
qed

lemma with_request_arrived:
  "request_arrives os cs w \<Longrightarrow> with_request os answer = answer (decode_header w)"
  by (simp add: with_request_def request_is_read)

lemma hdr_start_decode [simp]: "hdr_start (decode_header w) = w ! 0"
  by (simp add: decode_header_def)

lemma serve_echo_ok:
  assumes "mock_os_ok os" and "request_arrives os cs w"
  shows "serve_echo os = Some [Mock_Wire (packet_image (w ! 0) (of_char (CHR ''I'')) 0 0 MOCK_SERIAL [])]"
  using send_packet_ok [OF assms(1), of "[]"] by (simp add: serve_echo_def with_request_arrived [OF assms(2)] send_packet_nothing)

lemma serve_result_ok:
  assumes "mock_os_ok os" and "request_arrives os cs w" and "length body \<le> 262118"
  shows "\<exists>ev. serve_result os d body = Some ev
     \<and> mock_wire ev = packet_image (w ! 0) (of_char (CHR ''R'')) 0 0 MOCK_SERIAL (ascii_bytes body)"
proof -
  have "send_packet os (w ! 0) (of_char (CHR ''R'')) (Some (ascii_bytes body)) (length body)
      = Some [Mock_Wire (packet_image (w ! 0) (of_char (CHR ''R'')) 0 0 MOCK_SERIAL (ascii_bytes body))]"
    using send_packet_ok [OF assms(1), of "ascii_bytes body"] assms(3) by (simp add: ascii_bytes_def)
  then show ?thesis by (simp add: serve_result_def with_request_arrived [OF assms(2)])
qed

lemma serve_split_ok:
  assumes "mock_os_ok os" and "request_arrives os cs w" and "0 < n" and "n < 36"
  shows "\<exists>ev. serve_split os n = Some ev
     \<and> mock_wire ev = packet_image (w ! 0) (of_char (CHR ''R'')) 0 0 MOCK_SERIAL (ascii_bytes ''{result:4}'')"
  using send_split_response_ok [OF assms(1,3,4), of "w ! 0"]
  by (simp add: serve_split_def with_request_arrived [OF assms(2)] RESULT_BODY_def)

lemma mock_serve_answers:
  assumes "mock_os_ok os" and "request_arrives os cs w" and "fixture_answer f = Some (c, body)"
  shows "\<exists>ev. mock_serve os f = Some (0, ev) \<and> mock_wire ev = packet_image (w ! 0) (of_char c) 0 0 MOCK_SERIAL (ascii_bytes body)"
proof -
  note result = serve_result_ok [OF assms(1,2)]
  have "length ''{result:4}'' \<le> 262118" "length ''{result:6}'' \<le> 262118" "length ''{result:7}'' \<le> 262118" by simp_all
  note answers = this [THEN result, simplified] serve_split_ok [OF assms(1,2), simplified]
  have "(f, c, body) \<in> set
     [(''s-i-echo'', CHR ''I'', []), (''v-i-echo'', CHR ''I'', []),
      (''s-r-normal'', CHR ''R'', ''{result:4}''), (''v-r-normal'', CHR ''R'', ''{result:4}''),
      (''s-r-danger'', CHR ''R'', ''{result:6}''), (''v-r-danger'', CHR ''R'', ''{result:7}''),
      (''partial-header'', CHR ''R'', ''{result:4}''), (''split-body'', CHR ''R'', ''{result:4}''),
      (''delay-then-respond'', CHR ''R'', ''{result:4}''), (''slow-processing'', CHR ''R'', ''{result:4}'')]"
    using assms(3) unfolding fixture_answer_def by (rule map_of_SomeD)
  then show ?thesis
    unfolding list.set insert_iff prod.inject empty_iff
    by (elim disjE conjE FalseE; simp add: mock_serve_def answers serve_echo_ok [OF assms(1,2)] packet_lens)
qed

text \<open>A server that gets its listener and a connection.\<close>

definition mock_listens :: "mock_os \<Rightarrow> bool" where
  "mock_listens os \<longleftrightarrow> 0 \<le> os_listen_socket os \<and> os_bind_ok os 0 \<and> os_listen_ok os \<and> (\<exists>fd \<ge> 0. os_accept os = Some fd)"

lemma mock_main_serves:
  assumes "mock_listens os"
  shows "mock_streaming_main [''--fixture='' @ f] os = map_option (\<lambda>(code, ev).
     (code, Mock_Port (os_sockname_port os 0) # ev @ [Mock_Close (the (os_accept os)), Mock_Close (os_listen_socket os)])) (mock_serve os f)"
  using assms by (auto simp: mock_streaming_main_def make_listener_def mock_listens_def Let_def split: option.splits)

text \<open>
  The faulty answers: a checksum with its first byte inverted, a header that declares a body of
  2^31 - 1 bytes, and a response cut after four bytes of its body.
\<close>

definition corrupt_response :: "u8 \<Rightarrow> bytes" where
  "corrupt_response s =
     (let img = packet_image s (of_char (CHR ''R'')) 0 0 MOCK_SERIAL RESULT_BODY in img[22 := img ! 22 XOR 0xFF])"

definition bogus_header :: "u8 \<Rightarrow> bytes" where
  "bogus_header s = [s, of_char (CHR ''R''), 0, 0, 0x7F, 0xFF, 0xFF, 0xFF] @ MOCK_SERIAL @ [0, 0, 0, 0]"

definition cut_response :: "u8 \<Rightarrow> bytes" where
  "cut_response s = take 30 (packet_image s (of_char (CHR ''R'')) 0 0 MOCK_SERIAL RESULT_BODY)"

text \<open>\<^verbatim>\<open>send\<close> takes everything at once.\<close>

definition mock_sends_whole :: "mock_os \<Rightarrow> bool" where
  "mock_sends_whole os \<longleftrightarrow> (\<forall>n. os_send os 0 n = Mock_Sent n)"

lemma send_once_whole: "mock_sends_whole os \<Longrightarrow> send_once os data = Some [Mock_Wire data]"
  by (simp add: send_once_def mock_sends_whole_def)

lemma mock_image_512:
  "mock_os_ok os \<Longrightarrow> savvy_packet_encode s c 0 0 (Some MOCK_SERIAL) (length MOCK_SERIAL) (Some RESULT_BODY) (length RESULT_BODY)
      (Some (os_stack os 512)) 512 False
    = (SAVVY_OK, Some (packet_image s c 0 0 MOCK_SERIAL RESULT_BODY @ drop 36 (os_stack os 512)), Some 36)"
  using mock_encode [of "os_stack os 512" 512 RESULT_BODY s c] by (simp add: mock_os_ok_def packet_lens limits)

lemma serve_invalid_crc_ok:
  assumes "mock_os_ok os" and "mock_sends_whole os" and "request_arrives os cs w"
  shows "serve_invalid_crc os = Some [Mock_Wire (corrupt_response (w ! 0))]"
proof -
  let ?img = "packet_image (w ! 0) (of_char (CHR ''R'')) 0 0 MOCK_SERIAL RESULT_BODY" and ?rest = "drop 36 (os_stack os 512)"
  have l: "length ?img = 36" by (simp add: packet_lens)
  have "take 36 ((?img @ ?rest)[22 := (?img @ ?rest) ! 22 XOR 0xFF]) = ?img[22 := ?img ! 22 XOR 0xFF]"
    using l by (simp add: list_update_append nth_append)
  then show ?thesis
    using mock_image_512 [OF assms(1), of "w ! 0" "of_char (CHR ''R'')"]
    by (simp add: serve_invalid_crc_def with_request_arrived [OF assms(3)] send_once_whole [OF assms(2)] corrupt_response_def Let_def)
qed

lemma serve_length_overflow_ok:
  assumes "mock_sends_whole os" and "request_arrives os cs w"
  shows "serve_length_overflow os = Some [Mock_Wire (bogus_header (w ! 0))]"
  by (simp add: serve_length_overflow_def request_is_read [OF assms(2)] send_once_whole [OF assms(1)] bogus_header_def)

lemma serve_disconnect_during_body_ok:
  assumes "mock_os_ok os" and "request_arrives os cs w"
  shows "serve_disconnect_during_body os = Some [Mock_Wire (cut_response (w ! 0))]"
proof -
  let ?img = "packet_image (w ! 0) (of_char (CHR ''R'')) 0 0 MOCK_SERIAL RESULT_BODY"
  obtain j where "send_all_bytes (os_send os) (?img @ drop 36 (os_stack os 512)) (SAVVY_PACKET_HEADER_LEN + 4) 0 [] 0
      = Some (True, take 30 ?img, j)"
    using mock_sends [OF assms(1), of "?img @ drop 36 (os_stack os 512)" "SAVVY_PACKET_HEADER_LEN + 4" 0] by (auto simp: packet_lens)
  then show ?thesis
    using mock_image_512 [OF assms(1), of "w ! 0" "of_char (CHR ''R'')"]
    by (simp add: serve_disconnect_during_body_def with_request_arrived [OF assms(2)] encode_response_def cut_response_def packet_lens)
qed

section \<open>Two requests, one send\<close>

text \<open>The first pieces complete \<open>w\<close>; the rest of the last one, \<open>c\<close>, belongs to what follows.\<close>

lemma split_pieces:
  assumes "concat cs = w @ v" and "w \<noteq> []"
  obtains as bs c where "cs = as @ bs" "as \<noteq> []" "concat as = w @ c" "length c < length (last as)" "c @ concat bs = v"
  using assms
proof (induction cs arbitrary: w thesis)
  case (Cons x xs)
  show ?case
  proof (cases "length w \<le> length x")
    case True
    then obtain c where "x = w @ c" "c @ concat xs = v" using Cons.prems(2) by (auto simp: append_eq_append_conv2)
    then show ?thesis using Cons.prems(1) [of "[x]" xs c] Cons.prems(3) by simp
  next
    case False
    then obtain w' where w': "w = x @ w'" "w' \<noteq> []" "concat xs = w' @ v"
      using Cons.prems(2) by (auto simp: append_eq_append_conv2)
    then obtain as bs c where a: "xs = as @ bs" "as \<noteq> []" "concat as = w' @ c" "length c < length (last as)" "c @ concat bs = v"
      using Cons.IH by blast
    then show ?thesis using Cons.prems(1) [of "x # as" bs c] w' by simp
  qed
qed simp

lemma coalesce_response_ok:
  assumes "length buf = 512" and "off + 36 \<le> 512"
  shows "coalesce_response buf off n s
     = (take off buf @ packet_image s (of_char (CHR ''R'')) 0 0 MOCK_SERIAL RESULT_BODY @ drop (off + 36) buf, off + 36, 36)"
proof -
  have "SAVVY_PACKET_HEADER_LEN + length RESULT_BODY = 36" by (simp add: packet_lens)
  moreover have "length (drop off buf) = 512 - off" "36 \<le> 512 - off" "length RESULT_BODY \<le> UINT32_MAX"
    using assms by (simp_all add: limits)
  moreover have "drop 36 (drop off buf) = drop (off + 36) buf" by (simp add: add.commute)
  ultimately show ?thesis
    using mock_encode [of "drop off buf" "512 - off" RESULT_BODY s "of_char (CHR ''R'')"]
    unfolding coalesce_response_def length_RESULT_BODY by (simp only: prod.case option.case option.sel Let_def)
qed

lemma second_extract:
  assumes "sp_inv p" and "frame w" and "w = sp_content p @ concat bs" and "length w \<le> buf_cap p"
    and "cl.arrive rcv i bs"
  shows "\<exists>r p' h s p2 i'. savvy_stream_parser_try_extract p (Some hdr) = (r, p', Some h, s)
     \<and> coalesced_loop rcv r p' h i = Some (Some SAVVY_STREAM_PACKET_READY, p2, decode_header w, i')"
proof (cases "bs = []")
  case True
  then have "next_packet (buf_cap p) (sp_content p) = Packet (decode_header w) (drop SAVVY_PACKET_HEADER_LEN w) []"
    using next_packet_whole [OF assms(2,4), of "[]"] assms(3) by (simp add: unframe_def)
  then show ?thesis
    by (simp add: try_extract_cases [OF assms(1)] coalesced_loop.simps [of _ SAVVY_STREAM_PACKET_READY])
next
  case False
  then have last: "0 < length (last bs)" using assms(5) by (simp add: cl.arrive_def last_conv_nth)
  then have "concat bs \<noteq> []" using False last_in_set [OF False] by fastforce
  then have "next_packet (buf_cap p) (sp_content p) = Need_More"
    using assms(2-4) by (intro next_packet_partial [of _ "concat bs"]) simp_all
  moreover obtain p2 where "coalesced_loop rcv SAVVY_STREAM_NEED_MORE_DATA p hdr i
      = Some (Some SAVVY_STREAM_PACKET_READY, p2, decode_header w, i + length bs)"
    using cl.loop_frame [where rcv = rcv and hdr = hdr and w = w and c = "[]", OF assms(1,5) False] last assms(2-4)
    by (auto simp: unframe_def)
  ultimately show ?thesis by (simp add: try_extract_cases [OF assms(1)])
qed

lemma serve_coalesced_ok:
  assumes "mock_os_ok os" and "mock_sends_whole os" and "cl.arrive (os_recv os) 0 cs" and "concat cs = w1 @ w2"
    and "frame w1" and "frame w2" and "length (w1 @ w2) \<le> MOCK_SCRATCH_CAP"
  shows "serve_coalesced os = Some [Mock_Wire (packet_image (w1 ! 0) (of_char (CHR ''R'')) 0 0 MOCK_SERIAL RESULT_BODY
     @ packet_image (w2 ! 0) (of_char (CHR ''R'')) 0 0 MOCK_SERIAL RESULT_BODY)]"
proof -
  let ?p0 = "savvy_stream_parser_init (replicate MOCK_SCRATCH_CAP (0 :: u8)) MOCK_SCRATCH_CAP"
  have "w1 \<noteq> []" using assms(5) by (auto simp: frame_def packet_lens)
  from split_pieces [OF assms(4) this]
  obtain as bs c where cs: "cs = as @ bs" "as \<noteq> []" "concat as = w1 @ c" "length c < length (last as)" "c @ concat bs = w2"
    by blast
  have arr: "cl.arrive (os_recv os) 0 as" "cl.arrive (os_recv os) (length as) bs"
    using assms(3) cs(1) by (simp_all add: cl.arrive_append)
  have len: "length (w1 @ c) \<le> buf_cap ?p0" "length w2 \<le> MOCK_SCRATCH_CAP"
    using assms(7) cs(5) by (auto simp: scratch_parser)
  obtain p where p: "coalesced_loop (os_recv os) SAVVY_STREAM_NEED_MORE_DATA ?p0 (os_hdr os) 0
      = Some (Some SAVVY_STREAM_PACKET_READY, p, decode_header w1, length as)" "sp_inv p" "sp_content p = c"
      "buf_cap p = MOCK_SCRATCH_CAP"
    using cl.loop_frame [where rcv = "os_recv os" and hdr = "os_hdr os", OF scratch_parser(1) arr(1) cs(2) _ cs(4) assms(5) len(1)] cs(3)
    by (auto simp: sp_init_content unframe_def scratch_parser(2))
  have "w2 = sp_content p @ concat bs" "length w2 \<le> buf_cap p" using p cs(5) len(2) by simp_all
  from second_extract [where rcv = "os_recv os" and hdr = "os_hdr os", OF p(2) assms(6) this arr(2)] obtain r p' h s p2 i' where e:
      "savvy_stream_parser_try_extract p (Some (os_hdr os)) = (r, p', Some h, s)"
      "coalesced_loop (os_recv os) r p' h (length as) = Some (Some SAVVY_STREAM_PACKET_READY, p2, decode_header w2, i')"
    by blast
  let ?img = "\<lambda>s. packet_image s (of_char (CHR ''R'')) 0 0 MOCK_SERIAL RESULT_BODY" and ?buf = "os_stack os 512"
  have l: "length ?buf = 512" "\<And>s. length (?img s) = 36" using assms(1) by (simp_all add: mock_os_ok_def packet_lens)
  have c1: "coalesce_response ?buf 0 0 (w1 ! 0) = (?img (w1 ! 0) @ drop 36 ?buf, 36, 36)"
    using coalesce_response_ok [of ?buf 0 0] l by simp
  have c2: "coalesce_response (?img (w1 ! 0) @ drop 36 ?buf) 36 36 (w2 ! 0) = (?img (w1 ! 0) @ ?img (w2 ! 0) @ drop 72 ?buf, 72, 36)"
    using coalesce_response_ok [of "?img (w1 ! 0) @ drop 36 ?buf" 36 36 "w2 ! 0"] l by (simp add: packet_lens)
  have "take 72 (?img (w1 ! 0) @ ?img (w2 ! 0) @ drop 72 ?buf) = ?img (w1 ! 0) @ ?img (w2 ! 0)" using l by simp
  then show ?thesis
    unfolding serve_coalesced_def by (simp only: p(1) e option.case prod.case option.sel hdr_start_decode c1 Let_def if_True refl c2
        send_once_whole [OF assms(2)])
qed

text \<open>A server that gets an empty request in two pieces.\<close>

definition demo_os :: mock_os where
  "demo_os = \<lparr>os_listen_socket = 3, os_bind_ok = (\<lambda>_. True), os_listen_ok = True, os_sockname_port = (\<lambda>_. 40000), os_accept = Some 4,
     os_recv = (\<lambda>i n. Mock_Received (if i = 0 then replicate 5 0 else if i = 1 then replicate 21 0 else [])),
     os_send = (\<lambda>j n. Mock_Sent n), os_stack = (\<lambda>n. replicate n 0), os_hdr = decode_header []\<rparr>"

lemma demo_os_ok: "mock_os_ok demo_os" "mock_listens demo_os" "mock_sends_whole demo_os"
  by (simp_all add: demo_os_def mock_os_ok_def mock_listens_def mock_sends_whole_def)

lemma frame_zeros: "frame (replicate 26 0)"
  by (simp add: frame_def packet_size_def packet_lens be32_load_def)

lemma demo_request_arrives: "request_arrives demo_os [replicate 5 0, replicate 21 0] (replicate 26 0)"
  using frame_zeros
  by (simp add: request_arrives_def demo_os_def All_less_Suc2 replicate_add [symmetric] MOCK_SCRATCH_CAP_def numeral_2_eq_2)

theorem mock_server_returns_witness:
  "(\<exists>ev. mock_streaming_main [''--fixture=s-r-normal'', ''--port=80''] demo_os = Some (0, ev))
   \<and> (\<exists>ev. mock_streaming_main [''--fixture=s-r-normall''] demo_os = Some (2, ev))"
proof -
  have "mock_os_answers demo_os" by (auto simp: demo_os_def mock_os_answers_def)
  note r = mock_server_returns [OF this]
  have "\<exists>ev. mock_streaming_main [''--fixture=s-r-normal'', ''--port=80''] demo_os = Some (0, ev)"
    using r [of "[''--fixture=s-r-normal'', ''--port=80'']"] by (simp add: demo_os_def make_listener_def MOCK_FIXTURES_def)
  moreover have "\<exists>ev. mock_streaming_main [''--fixture=s-r-normall''] demo_os = Some (2, ev)"
    using r [of "[''--fixture=s-r-normall'']"] by (simp add: demo_os_def make_listener_def MOCK_FIXTURES_def)
  ultimately show ?thesis ..
qed

end
