(* ===== verification/Mock_Exchange.thy ===== *)
theory Mock_Exchange
  imports Mock_Streaming_Server
begin

text \<open>
  The request channel and the session's handlers run against the mock streaming server. The network
  is a hypothesis only: what one side's \<^verbatim>\<open>send\<close> took is what the other side's \<^verbatim>\<open>recv\<close> returns, cut in any
  pieces. The client's waiting loop is one more instance of the contract \<open>reading_loop\<close>.
\<close>

unbundle bit_operations_syntax

section \<open>The client's side\<close>

text \<open>Turn \<open>i\<close> of the response loop reads \<open>xs\<close>: no stop, time left, the socket readable.\<close>

definition turn_reads :: "(nat \<Rightarrow> tcp_turn) \<Rightarrow> savvy_deadline \<Rightarrow> nat \<Rightarrow> bytes \<Rightarrow> bool" where
  "turn_reads os dl i xs \<longleftrightarrow> \<not> tt_stop (os i) \<and> savvy_deadline_remaining_ms (tt_now (os i)) dl \<noteq> 0
     \<and> (\<exists>revents. tt_poll (os i) (tcp_slice (savvy_deadline_remaining_ms (tt_now (os i)) dl)) = Tp_Ready revents)
     \<and> tt_recv (os i) = Received xs"

lemma response_loop_turn:
  assumes "turn_reads os dl i xs" and "xs \<noteq> []" and "savvy_stream_parser_push p (Some xs) (length xs) = (SAVVY_OK, p1)"
    and "sp_take p1 = (r, p2, pk)"
  shows "response_loop os dl p i =
     (if r = SAVVY_STREAM_PACKET_READY then Some (SENSOR_TCP_OK, pk, p2, i + 1)
      else if r = SAVVY_STREAM_ERROR then Some (SENSOR_TCP_ERR_PROTOCOL, None, p2, i + 1)
      else response_loop os dl p2 (i + 1))"
  using assms unfolding turn_reads_def by (subst response_loop.simps) (auto simp: Let_def)

interpretation cr: reading_loop "response_loop os dl" "turn_reads os dl"
  "\<lambda>h d p i. Some (SENSOR_TCP_OK, Some (h, d), p, i)" "\<lambda>p i. Some (SENSOR_TCP_ERR_PROTOCOL, None, p, i)" for os dl
proof
  fix i xs p p1 and h :: savvy_packet_header and d c
  assume turn: "turn_reads os dl i xs" "xs \<noteq> []"
    "savvy_stream_parser_push p (Some xs) (length xs) = (SAVVY_OK, p1)" and inv: "sp_inv p1"
  note step = response_loop_turn [OF turn] and taken = sp_take_content [OF inv]
  {
    assume "next_packet (buf_cap p1) (sp_content p1) = Need_More"
    with taken step show "response_loop os dl p i = response_loop os dl p1 (i + 1)" by simp
  next
    assume "next_packet (buf_cap p1) (sp_content p1) = Too_Big"
    with taken step show "response_loop os dl p i = Some (SENSOR_TCP_ERR_PROTOCOL, None, p1, i + 1)" by simp
  next
    assume "next_packet (buf_cap p1) (sp_content p1) = Packet h d c"
    with taken step show "\<exists>p2. response_loop os dl p i = Some (SENSOR_TCP_OK, Some (h, d), p2, i + 1)
        \<and> sp_inv p2 \<and> sp_content p2 = c \<and> buf_cap p2 = buf_cap p1"
      by auto
  }
qed

text \<open>A connected channel with nothing left to read, whose request went out by turn \<open>k\<close>.\<close>

definition request_sent :: "tcp_env \<Rightarrow> 'c sensor_tcp_channel \<Rightarrow> 'c sensor_tcp_queue_item \<Rightarrow> nat \<Rightarrow> bool" where
  "request_sent env ch item k \<longleftrightarrow> tcp_ok ch \<and> 0 \<le> sockfd ch \<and> unread ch = []
     \<and> it_kind item = SENSOR_TCP_ITEM_NORMAL \<and> it_packet_len item = length (it_packet item)
     \<and> send_all (te_turn env) (it_packet item) (it_packet_len item) 0 [] 0 = Some (SENSOR_TCP_OK, it_packet item, k)"

definition response_deadline :: "tcp_env \<Rightarrow> 'c sensor_tcp_queue_item \<Rightarrow> savvy_deadline" where
  "response_deadline env item = savvy_deadline_arm (te_response_at env) (it_response_timeout_ms item)"

text \<open>The pieces \<open>rs\<close> are what the turns after the request read.\<close>

definition response_arrives :: "tcp_env \<Rightarrow> 'c sensor_tcp_queue_item \<Rightarrow> nat \<Rightarrow> bytes list \<Rightarrow> bool" where
  "response_arrives env item k rs \<longleftrightarrow>
     (\<forall>j < length rs. turn_reads (te_turn env) (response_deadline env item) (k + j) (rs ! j) \<and> rs ! j \<noteq> [])"

lemma response_arrives_iff:
  "response_arrives env item k rs \<longleftrightarrow> cr.arrive (te_turn env) (response_deadline env item) k rs"
  by (simp add: response_arrives_def cr.arrive_def)

lemma request_sent_parser:
  assumes "request_sent env ch item k"
  shows "sp_inv (tc_parser ch)" "sp_content (tc_parser ch) = []" "buf_cap (tc_parser ch) = max_packet_size ch"
  using assms by (auto simp: request_sent_def tcp_ok_def unread_def)

lemma process_item_waits:
  assumes "request_sent env ch item k"
    and "response_loop (te_turn env) (response_deadline env item) (tc_parser ch) k = Some (rs, pk, p, k')"
  shows "process_item env ch item =
     (if rs = SENSOR_TCP_OK
      then Some (ch\<lparr>tc_parser := p\<rparr>, [Tcp_Wire (sockfd ch) (it_packet item), Tcp_Complete (it_on_complete item) (tcp_response (the pk))])
      else Some (ch\<lparr>tc_parser := p, sockfd := -1, connected := False\<rparr>,
             [Tcp_Wire (sockfd ch) (it_packet item), Tcp_Close (sockfd ch), Tcp_Complete (it_on_complete item) (tcp_failure rs)]))"
proof -
  have sent: "send_all (te_turn env) (it_packet item) (it_packet_len item) 0 [] 0 = Some (SENSOR_TCP_OK, it_packet item, k)"
    and item: "it_kind item = SENSOR_TCP_ITEM_NORMAL" "it_packet_len item = length (it_packet item)" "0 \<le> sockfd ch"
    using assms(1) by (auto simp: request_sent_def)
  have "sp_take (tc_parser ch) = (SAVVY_STREAM_NEED_MORE_DATA, tc_parser ch, None)"
    using sp_take_content [OF request_sent_parser(1) [OF assms(1)]] request_sent_parser(2) [OF assms(1)]
    by (simp add: next_packet_def packet_lens)
  then show ?thesis
    using sent item assms(2)
    by (simp add: process_item_def close_session_internal_def wait_for_response_def response_deadline_def)
qed

lemma exchange_completes:
  assumes "request_sent env ch item k" and "response_arrives env item k rs" and "concat rs = w" and "frame w"
    and "length w \<le> max_packet_size ch"
  shows "\<exists>ch'. process_item env ch item
       = Some (ch', [Tcp_Wire (sockfd ch) (it_packet item), Tcp_Complete (it_on_complete item) (tcp_response (unframe w))])
     \<and> tcp_ok ch' \<and> unread ch' = [] \<and> sockfd ch' = sockfd ch"
proof -
  note p = request_sent_parser [OF assms(1)]
  have "rs \<noteq> []" using assms(3,4) by (auto simp: frame_def packet_lens)
  moreover from this have "0 < length (last rs)" using assms(2) by (auto simp: response_arrives_def last_conv_nth)
  ultimately obtain p' where p': "response_loop (te_turn env) (response_deadline env item) (tc_parser ch) k
      = Some (SENSOR_TCP_OK, Some (unframe w), p', k + length rs)" "sp_inv p'" "sp_content p' = []" "buf_cap p' = max_packet_size ch"
    using cr.loop_frame [where os = "te_turn env" and dl = "response_deadline env item" and i = k and xss = rs and w = w and c = "[]",
        OF p(1)] assms p by (auto simp: response_arrives_iff)
  then have "tcp_ok (ch\<lparr>tc_parser := p'\<rparr>) \<and> unread (ch\<lparr>tc_parser := p'\<rparr>) = []"
    using assms(1) by (auto simp: request_sent_def tcp_ok_def sp_inv_def unread_def)
  then show ?thesis using process_item_waits [OF assms(1) p'(1)] by simp
qed

section \<open>Answers that arrive\<close>

lemma mock_response:
  assumes "length body \<le> 262118"
  shows "frame (packet_image s c 0 0 MOCK_SERIAL (ascii_bytes body))"
    and "tcp_response (unframe (packet_image s c 0 0 MOCK_SERIAL (ascii_bytes body)))
       = \<lparr>res_status = SENSOR_TCP_OK, res_start = s, res_command = c, res_crc_valid = True, res_data = ascii_bytes body\<rparr>"
proof -
  have "length (ascii_bytes body) \<le> UINT32_MAX" using assms by (simp add: ascii_bytes_def limits)
  note image = frame_packet_image [OF length_MOCK_SERIAL this, of s c 0 0]
  show "frame (packet_image s c 0 0 MOCK_SERIAL (ascii_bytes body))" by (rule image(1))
  show "tcp_response (unframe (packet_image s c 0 0 MOCK_SERIAL (ascii_bytes body)))
       = \<lparr>res_status = SENSOR_TCP_OK, res_start = s, res_command = c, res_crc_valid = True, res_data = ascii_bytes body\<rparr>"
    by (simp add: image(2) tcp_response_def)
qed

text \<open>The bodies of the fixtures.\<close>

lemma fixture_bodies:
  assumes "fixture_answer f = Some (c, body)"
  shows "c = CHR ''I'' \<and> body = [] \<or> c = CHR ''R'' \<and> (\<exists>n \<in> {4, 6, 7}. body = ''{result:'' @ string_of_int n @ ''}'')"
proof -
  have d: "string_of_int 4 = ''4''" "string_of_int 6 = ''6''" "string_of_int 7 = ''7''"
    by (simp_all add: string_of_int_def nat_digits.simps digit_char_def char_of_def bit_0)
  show ?thesis using assms by (auto simp: fixture_answer_def d split: if_splits)
qed

lemma fixture_verdict:
  assumes "n \<in> {4, 6, 7}"
  shows "verdict (''{result:'' @ string_of_int n @ ''}'') = Some n"
proof -
  have n: "int32_range n" using assms by (auto simp: int32_range_def limits)
  let ?rest = "[] @ string_of_int n @ [] @ CHR ''}'' # []"
  have body: "''{result:'' @ string_of_int n @ ''}'' = server_body False [] [] [] ?rest" by (simp add: server_body_def)
  have "length (server_body False [] [] [] ?rest) + 3 \<le> SIZE_MAX"
    using length_string_of_int [OF n] by (simp add: server_body_def limits)
  from parser_input_server_body [OF _ _ _ this]
    parse_result_server_body [where dr = "\<lparr>dr_result = 0\<rparr>" and ?w0.0 = "[]" and ?w1.0 = "[]" and ?w2.0 = "[]" and ?w3.0 = "[]"
      and ?w4.0 = "[]" and ?w5.0 = "[]", OF _ _ _ _ _ _ n refl]
  show ?thesis unfolding body verdict_def by (simp add: server_body_def)
qed

text \<open>What a session makes of an answer: the policy, the alerts and the report to the caller.\<close>

definition answer_outcome ::
  "sensor_result_policy \<Rightarrow> int \<Rightarrow> sensor_result_policy \<times> char list" where
  "answer_outcome policy n =
     (if rp_role policy = SENSOR_RESULT_ROLE_STREAM then
        if n = 4 then (policy\<lparr>rp_danger_count := 0\<rparr>, [])
        else (policy\<lparr>rp_danger_count := rp_danger_count policy + 1\<rparr>,
              if rp_danger_count_threshold policy \<le> rp_danger_count policy + 1 \<and> rp_on_alert policy then [CHR ''S''] else [])
      else (policy, if n \<noteq> 4 \<and> rp_on_alert policy then [CHR ''V''] else []))"

lemma session_takes_result:
  assumes "n \<in> {4, 6, 7}"
  shows "session_complete True policy (On_Data u) \<lparr>res_status = SENSOR_TCP_OK, res_start = s, res_command = of_char (CHR ''R''),
       res_crc_valid = True, res_data = ascii_bytes (''{result:'' @ string_of_int n @ ''}'')\<rparr>
     = (case answer_outcome policy n of (p, alerts) \<Rightarrow> (p, alerts, report u True WIRE_CMD_RESPONSE))"
  using fixture_verdict [OF assms] on_response_verdict [of policy "''{result:'' @ string_of_int n @ ''}''"]
  by (simp add: session_complete_def on_data_complete_def result_command_def WIRE_CMD_RESPONSE_def body_chars_ascii
      answer_outcome_def)

lemma session_takes_echo:
  "session_complete True policy (On_Pirin u) \<lparr>res_status = SENSOR_TCP_OK, res_start = s, res_command = of_char (CHR ''I''),
       res_crc_valid = True, res_data = d\<rparr>
     = (policy\<lparr>rp_danger_count := 0\<rparr>, [], report u True WIRE_CMD_PIRIN)"
  by (simp add: session_complete_def on_pirin_complete_def result_command_def WIRE_CMD_PIRIN_def sensor_result_policy_reset_def)

text \<open>
  C14: a request is answered, end to end. Assume a connected channel with nothing left to read and room for a
  response of 36 bytes, whose request went out; a server that listens, gets a connection and whose
  sends are taken (in any pieces); the request's bytes reaching the server in any pieces; and what
  the server sends coming back in any pieces before the client's deadline. For every fixture that is to
  be answered in time (the echoes, the results, the split and the delayed responses; not the two that
  answer after the client's time-out), the server exits with 0 and the request completes with
  \<^verbatim>\<open>SENSOR_TCP_OK\<close>: the start byte of the request, the fixture's command and body, a valid checksum; the
  connection stays open with nothing left to read. A session then takes an echo as the accepted
  \<^verbatim>\<open>PIRIN\<close> and resets its counter, and takes \<^verbatim>\<open>{result:n}\<close> as the result \<^verbatim>\<open>n\<close> of its policy.
\<close>

theorem mock_exchange_end_to_end:
  assumes "request_sent env ch item k" and "36 \<le> max_packet_size ch"
    and "mock_os_ok os" and "mock_listens os" and "request_arrives os cs (it_packet item)"
    and "fixture_answer f = Some (c, body)" and "mock_streaming_main [''--fixture='' @ f] os = Some (code, ev)"
    and "response_arrives env item k rs" and "concat rs = mock_wire ev"
  shows "code = 0 \<and> (\<exists>ch' r. process_item env ch item
         = Some (ch', [Tcp_Wire (sockfd ch) (it_packet item), Tcp_Complete (it_on_complete item) r])
     \<and> tcp_ok ch' \<and> sockfd ch' = sockfd ch \<and> unread ch' = []
     \<and> r = \<lparr>res_status = SENSOR_TCP_OK, res_start = it_packet item ! 0, res_command = of_char c, res_crc_valid = True,
            res_data = ascii_bytes body\<rparr>
     \<and> (c = CHR ''I'' \<and> session_complete True policy (On_Pirin u) r
            = (policy\<lparr>rp_danger_count := 0\<rparr>, [], report u True WIRE_CMD_PIRIN)
        \<or> c = CHR ''R'' \<and> (\<exists>n. body = ''{result:'' @ string_of_int n @ ''}'' \<and> session_complete True policy (On_Data u) r
            = (case answer_outcome policy n of (p, alerts) \<Rightarrow> (p, alerts, report u True WIRE_CMD_RESPONSE)))))"
proof -
  let ?img = "packet_image (it_packet item ! 0) (of_char c) 0 0 MOCK_SERIAL (ascii_bytes body)"
  obtain ev' where serve: "mock_serve os f = Some (0, ev')" "mock_wire ev' = ?img"
    using mock_serve_answers [OF assms(3,5,6)] by blast
  then have code: "code = 0" and wire: "concat rs = ?img"
    using assms(7,9) mock_main_serves [OF assms(4), of f] by auto
  have len: "length body \<le> 10"
    using assms(6) by (auto simp: fixture_answer_def split: if_splits)
  then have fits: "length ?img \<le> max_packet_size ch" using assms(2) by (simp add: ascii_bytes_def packet_lens)
  from len have "length body \<le> 262118" by simp
  note response = mock_response [OF this]
  note completed = exchange_completes [OF assms(1,8) wire response(1) fits, unfolded response(2)]
  show ?thesis
    using completed code fixture_bodies [OF assms(6)] session_takes_echo session_takes_result by fastforce
qed

section \<open>Answers that fail\<close>

lemma response_loop_closed:
  "turn_reads os dl i [] \<Longrightarrow> response_loop os dl p i = Some (SENSOR_TCP_ERR_DISCONNECTED, None, p, i + 1)"
  unfolding turn_reads_def by (subst response_loop.simps) (auto simp: Let_def)

lemma exchange_disconnected:
  assumes "request_sent env ch item k" and "response_arrives env item k rs" and "SAVVY_PACKET_HEADER_LEN \<le> max_packet_size ch"
    and "next_packet (max_packet_size ch) (concat rs) = Need_More"
    and "turn_reads (te_turn env) (response_deadline env item) (k + length rs) []"
  shows "\<exists>ch'. process_item env ch item = Some (ch', [Tcp_Wire (sockfd ch) (it_packet item), Tcp_Close (sockfd ch),
       Tcp_Complete (it_on_complete item) (tcp_failure SENSOR_TCP_ERR_DISCONNECTED)]) \<and> sockfd ch' = -1 \<and> \<not> connected ch'"
proof -
  note p = request_sent_parser [OF assms(1)]
  have arr: "cr.arrive (te_turn env) (response_deadline env item) k rs" using assms(2) by (simp add: response_arrives_iff)
  obtain p' where "response_loop (te_turn env) (response_deadline env item) (tc_parser ch) k
      = response_loop (te_turn env) (response_deadline env item) p' (k + length rs)"
    using cr.loop_more [OF p(1) _ arr] assms(3,4) p by auto
  with response_loop_closed [OF assms(5)] process_item_waits [OF assms(1)] show ?thesis by simp
qed

lemma exchange_oversized:
  assumes "request_sent env ch item k" and "response_arrives env item k rs" and "SAVVY_PACKET_HEADER_LEN \<le> max_packet_size ch"
    and "length (concat rs) = SAVVY_PACKET_HEADER_LEN" and "max_packet_size ch < packet_size (concat rs)"
  shows "\<exists>ch'. process_item env ch item = Some (ch', [Tcp_Wire (sockfd ch) (it_packet item), Tcp_Close (sockfd ch),
       Tcp_Complete (it_on_complete item) (tcp_failure SENSOR_TCP_ERR_PROTOCOL)]) \<and> sockfd ch' = -1 \<and> \<not> connected ch'"
proof -
  note p = request_sent_parser [OF assms(1)]
  have arr: "cr.arrive (te_turn env) (response_deadline env item) k rs" using assms(2) by (simp add: response_arrives_iff)
  obtain p' where "response_loop (te_turn env) (response_deadline env item) (tc_parser ch) k
      = Some (SENSOR_TCP_ERR_PROTOCOL, None, p', k + length rs)"
    using cr.loop_too_big [OF p(1) arr p(2) assms(4)] assms(3,5) p(3) by auto
  with process_item_waits [OF assms(1)] show ?thesis by simp
qed

text \<open>The corrupted response is still one packet, with the body unchanged and the wrong checksum.\<close>

lemma corrupt_response_frame:
  shows "frame (corrupt_response s)" and "length (corrupt_response s) = 36"
    and "tcp_response (unframe (corrupt_response s)) = \<lparr>res_status = SENSOR_TCP_OK, res_start = s,
       res_command = of_char (CHR ''R''), res_crc_valid = False, res_data = RESULT_BODY\<rparr>"
proof -
  define img where "img = packet_image s (of_char (CHR ''R'')) 0 0 MOCK_SERIAL RESULT_BODY"
  have bad: "corrupt_response s = img[22 := img ! 22 XOR 0xFF]" by (simp add: corrupt_response_def img_def Let_def)
  have l: "length img = 36" by (simp add: img_def packet_lens)
  note image = frame_packet_image [where b = s and c = "of_char (CHR ''R'')" and d = 0 and cf = 0 and data = RESULT_BODY,
      OF length_MOCK_SERIAL, folded img_def]
  have lim: "length RESULT_BODY \<le> UINT32_MAX" by (simp add: limits)
  have four: "be32_load (corrupt_response s) 4 = be32_load img 4" using l by (simp add: bad be32_load_def)
  then show "frame (corrupt_response s)" and "length (corrupt_response s) = 36"
    using image(1) [OF lim] l by (simp_all add: frame_def packet_size_def bad)
  have body: "drop SAVVY_PACKET_HEADER_LEN (corrupt_response s) = RESULT_BODY"
    using image(2) [OF lim] by (simp add: bad unframe_def packet_lens)
  have hd: "corrupt_response s ! 0 = s" "corrupt_response s ! 1 = of_char (CHR ''R'')"
    using l by (simp_all add: bad, simp_all add: img_def packet_image_def)
  have crc: "be32_load img 22 = savvy_crc32 RESULT_BODY"
    using image(2) [OF lim] by (simp add: unframe_def decode_header_def)
  have "be32_load (corrupt_response s) 22 \<noteq> be32_load img 22"
  proof
    assume eq: "be32_load (corrupt_response s) 22 = be32_load img 22"
    have "mem_read (corrupt_response s) 22 4 = mem_read img 22 4"
      using be32_store_load [of 22 "corrupt_response s"] be32_store_load [of 22 img] eq l by (simp add: bad)
    then have "mem_read (corrupt_response s) 22 4 ! 0 = mem_read img 22 4 ! 0" by simp
    then have "img ! 22 XOR 0xFF = img ! 22 XOR 0" using l by (simp add: nth_mem_read bad)
    then show False unfolding word_xor_cancel by simp
  qed
  moreover have "RESULT_BODY \<noteq> []" using length_RESULT_BODY by force
  ultimately show "tcp_response (unframe (corrupt_response s)) = \<lparr>res_status = SENSOR_TCP_OK, res_start = s,
       res_command = of_char (CHR ''R''), res_crc_valid = False, res_data = RESULT_BODY\<rparr>"
    using body hd crc by (simp add: tcp_response_def unframe_def decode_header_def)
qed

lemma bogus_header_size: "length (bogus_header s) = SAVVY_PACKET_HEADER_LEN" "packet_size (bogus_header s) = 2147483673"
proof -
  have "be32_load (bogus_header s) 4 = 0x7FFFFFFF" by (simp add: bogus_header_def be32_load_def)
  then show "packet_size (bogus_header s) = 2147483673" by (simp add: packet_size_def packet_lens)
qed (simp add: bogus_header_def packet_lens)

lemma cut_response_partial: "36 \<le> cap \<Longrightarrow> next_packet cap (cut_response s) = Need_More"
proof -
  let ?img = "packet_image s (of_char (CHR ''R'')) 0 0 MOCK_SERIAL RESULT_BODY"
  assume "36 \<le> cap"
  moreover have "frame ?img" by (rule frame_packet_image) (simp_all add: limits)
  moreover have "length ?img = 36" by (simp add: packet_lens)
  ultimately show ?thesis
    unfolding cut_response_def by (intro next_packet_partial [of _ "drop 30 ?img"]) simp_all
qed

text \<open>The documented outcome of a faulty fixture for the client.\<close>

definition fixture_fault :: "string \<Rightarrow> sensor_tcp_result_status option" where
  "fixture_fault = map_of
     [(''invalid-crc'', SENSOR_TCP_OK), (''length-overflow'', SENSOR_TCP_ERR_PROTOCOL),
      (''disconnect-during-body'', SENSOR_TCP_ERR_DISCONNECTED), (''disconnect-before-header'', SENSOR_TCP_ERR_DISCONNECTED),
      (''stream-only-failure'', SENSOR_TCP_ERR_DISCONNECTED), (''voice-only-failure'', SENSOR_TCP_ERR_DISCONNECTED),
      (''s-o-no-response'', SENSOR_TCP_ERR_DISCONNECTED), (''v-o-no-response'', SENSOR_TCP_ERR_DISCONNECTED)]"

lemma mock_serve_faults:
  assumes "mock_os_ok os" and "mock_sends_whole os" and "request_arrives os cs w" and "fixture_fault f = Some st"
  obtains (crc) ev where "mock_serve os f = Some (0, ev)" "mock_wire ev = corrupt_response (w ! 0)" "st = SENSOR_TCP_OK"
    | (oversized) ev where "mock_serve os f = Some (0, ev)" "mock_wire ev = bogus_header (w ! 0)" "st = SENSOR_TCP_ERR_PROTOCOL"
    | (cut) ev where "mock_serve os f = Some (0, ev)" "mock_wire ev \<in> {[], cut_response (w ! 0)}"
        "st = SENSOR_TCP_ERR_DISCONNECTED"
proof -
  have consume: "serve_consume os = Some []" by (simp add: serve_consume_def with_request_arrived [OF assms(3)])
  have "(f, st) \<in> set
     [(''invalid-crc'', SENSOR_TCP_OK), (''length-overflow'', SENSOR_TCP_ERR_PROTOCOL),
      (''disconnect-during-body'', SENSOR_TCP_ERR_DISCONNECTED), (''disconnect-before-header'', SENSOR_TCP_ERR_DISCONNECTED),
      (''stream-only-failure'', SENSOR_TCP_ERR_DISCONNECTED), (''voice-only-failure'', SENSOR_TCP_ERR_DISCONNECTED),
      (''s-o-no-response'', SENSOR_TCP_ERR_DISCONNECTED), (''v-o-no-response'', SENSOR_TCP_ERR_DISCONNECTED)]"
    using assms(4) unfolding fixture_fault_def by (rule map_of_SomeD)
  then show thesis
    unfolding list.set insert_iff prod.inject empty_iff
    using that serve_invalid_crc_ok [OF assms(1-3)] serve_length_overflow_ok [OF assms(2,3)]
      serve_disconnect_during_body_ok [OF assms(1,3)] consume
    by (elim disjE conjE FalseE; simp add: mock_serve_def)
qed

text \<open>A result that is not an accepted response leaves the policy alone and is reported as a failure.\<close>

lemma session_takes_failure:
  assumes "res_status r \<noteq> SENSOR_TCP_OK \<or> \<not> res_crc_valid r"
  shows "session_complete True policy (On_Data u) r = (policy, [], report u False (result_command r))"
  using assms by (auto simp: session_complete_def on_data_complete_def sensor_result_policy_on_response_def)

text \<open>
  C29: faults are detected. Against a fixture that corrupts the checksum, declares a body of 2^31 - 1
  bytes, cuts its response short or sends none before it closes, the request of a connected channel
  completes once with the documented status: the corrupted response is delivered with \<^verbatim>\<open>crc_valid\<close>
  unset, the absurd length is a protocol error found before any body is read, and a missing rest is
  a disconnection. After an error the channel is disconnected; a session leaves its policy as it was,
  raises no alert and reports the request as failed.
\<close>

theorem mock_faults_detected:
  assumes "request_sent env ch item k" and "36 \<le> max_packet_size ch" and "max_packet_size ch < 2147483673"
    and "mock_os_ok os" and "mock_sends_whole os" and "mock_listens os" and "request_arrives os cs (it_packet item)"
    and "fixture_fault f = Some st" and "mock_streaming_main [''--fixture='' @ f] os = Some (code, ev)"
    and "response_arrives env item k rs" and "concat rs = mock_wire ev"
    and "turn_reads (te_turn env) (response_deadline env item) (k + length rs) []"
  shows "code = 0 \<and> (\<exists>ch' evs r. process_item env ch item = Some (ch', evs) \<and> completions evs = [(it_on_complete item, r)]
     \<and> res_status r = st \<and> \<not> res_crc_valid r \<and> (st \<noteq> SENSOR_TCP_OK \<longrightarrow> sockfd ch' = -1 \<and> \<not> connected ch')
     \<and> session_complete True policy (On_Data u) r = (policy, [], report u False (result_command r)))"
proof -
  note main = mock_main_serves [OF assms(6), of f]
  have hdr: "SAVVY_PACKET_HEADER_LEN \<le> max_packet_size ch" using assms(2) by (simp add: packet_lens)
  from assms(4,5,7,8) show ?thesis
  proof (cases rule: mock_serve_faults)
    case (crc e)
    then have "code = 0" "concat rs = corrupt_response (it_packet item ! 0)" using assms(9,11) main by auto
    with exchange_completes [OF assms(1,10), of "corrupt_response (it_packet item ! 0)"] crc(3) assms(2)
    show ?thesis by (auto simp: corrupt_response_frame session_takes_failure)
  next
    case (oversized e)
    then have "code = 0" "concat rs = bogus_header (it_packet item ! 0)" using assms(9,11) main by auto
    with exchange_oversized [OF assms(1,10) hdr] oversized(3) assms(3)
    show ?thesis by (auto simp: bogus_header_size session_takes_failure tcp_failure_def)
  next
    case (cut e)
    then have rs: "code = 0" "concat rs \<in> {[], cut_response (it_packet item ! 0)}" using assms(9,11) main by auto
    have "next_packet (max_packet_size ch) [] = Need_More" by (simp add: next_packet_def packet_lens)
    with rs(2) cut_response_partial [OF assms(2)] have "next_packet (max_packet_size ch) (concat rs) = Need_More"
      by (auto simp del: concat_eq_Nil_conv)
    from exchange_disconnected [OF assms(1,10) hdr this assms(12)] rs(1) cut(3)
    show ?thesis by (auto simp: session_takes_failure tcp_failure_def)
  qed
qed

section \<open>Answers that come too late\<close>

text \<open>Nothing arrives in the turns from \<open>k\<close> to \<open>m\<close>, and in turn \<open>m\<close> the deadline is over.\<close>

definition silent_until_deadline :: "(nat \<Rightarrow> tcp_turn) \<Rightarrow> savvy_deadline \<Rightarrow> nat \<Rightarrow> nat \<Rightarrow> bool" where
  "silent_until_deadline os dl k m \<longleftrightarrow> k \<le> m \<and> (\<forall>i. k \<le> i \<and> i \<le> m \<longrightarrow> \<not> tt_stop (os i))
     \<and> savvy_deadline_remaining_ms (tt_now (os m)) dl = 0
     \<and> (\<forall>i. k \<le> i \<and> i < m \<longrightarrow> tt_poll (os i) (tcp_slice (savvy_deadline_remaining_ms (tt_now (os i)) dl)) \<in> {Tp_Elapsed, Tp_Fail True}
          \<and> savvy_deadline_remaining_ms (tt_now (os i)) dl \<noteq> 0)"

lemma response_loop_times_out:
  assumes "silent_until_deadline os dl k m"
  shows "response_loop os dl p k = Some (SENSOR_TCP_ERR_RESPONSE_TIMEOUT, None, p, m + 1)"
  using assms
proof (induction "m - k" arbitrary: k)
  case 0
  then have "k = m" by (simp add: silent_until_deadline_def)
  with 0 show ?case by (simp add: silent_until_deadline_def response_loop.simps)
next
  case (Suc n)
  then have "response_loop os dl p (k + 1) = Some (SENSOR_TCP_ERR_RESPONSE_TIMEOUT, None, p, m + 1)"
    by (intro Suc.hyps(1)) (auto simp: silent_until_deadline_def)
  moreover have "tt_poll (os k) (tcp_slice (savvy_deadline_remaining_ms (tt_now (os k)) dl)) \<in> {Tp_Elapsed, Tp_Fail True}"
      "savvy_deadline_remaining_ms (tt_now (os k)) dl \<noteq> 0" "\<not> tt_stop (os k)"
    using Suc.prems Suc.hyps(2) unfolding silent_until_deadline_def by (simp_all add: Suc_le_eq [symmetric])
  ultimately show ?case by (subst response_loop.simps) (auto simp: Let_def)
qed

text \<open>
  The fixtures \<^verbatim>\<open>delay-exceeds-timeout\<close> and \<^verbatim>\<open>stale-response-after-timeout\<close> sleep 600 ms before they answer. A request whose
  deadline passes in silence meanwhile completes with \<^verbatim>\<open>SENSOR_TCP_ERR_RESPONSE_TIMEOUT\<close>, as the tests expect, and
  the connection is closed, so that the late answer cannot be taken for that of another request.
\<close>

theorem mock_late_answer_times_out:
  assumes "request_sent env ch item k" and "mock_os_ok os" and "request_arrives os cs (it_packet item)"
    and "f \<in> {''delay-exceeds-timeout'', ''stale-response-after-timeout''}"
    and "silent_until_deadline (te_turn env) (response_deadline env item) k m"
  shows "mock_serve os f = Some (0, [Mock_Sleep 600, Mock_Wire (packet_image (it_packet item ! 0) (of_char (CHR ''R'')) 0 0
       MOCK_SERIAL (ascii_bytes ''{result:4}''))])
     \<and> (\<exists>ch'. process_item env ch item = Some (ch', [Tcp_Wire (sockfd ch) (it_packet item), Tcp_Close (sockfd ch),
          Tcp_Complete (it_on_complete item) (tcp_failure SENSOR_TCP_ERR_RESPONSE_TIMEOUT)])
          \<and> sockfd ch' = -1 \<and> \<not> connected ch' \<and> unread ch' = [])"
proof -
  have "send_packet os (it_packet item ! 0) (of_char (CHR ''R'')) (Some (ascii_bytes ''{result:4}'')) (length ''{result:4}'')
      = Some [Mock_Wire (packet_image (it_packet item ! 0) (of_char (CHR ''R'')) 0 0 MOCK_SERIAL (ascii_bytes ''{result:4}''))]"
    using send_packet_ok [OF assms(2), of "ascii_bytes ''{result:4}''"] by (simp add: ascii_bytes_def)
  then have "serve_result os 600 ''{result:4}'' = Some [Mock_Sleep 600, Mock_Wire (packet_image (it_packet item ! 0) (of_char (CHR ''R'')) 0 0
      MOCK_SERIAL (ascii_bytes ''{result:4}''))]"
    by (simp add: serve_result_def with_request_arrived [OF assms(3)])
  moreover have "mock_serve os f = map_option (Pair 0) (serve_result os 600 ''{result:4}'')"
    using assms(4) by (auto simp: mock_serve_def Let_def)
  ultimately have "mock_serve os f = Some (0, [Mock_Sleep 600, Mock_Wire (packet_image (it_packet item ! 0) (of_char (CHR ''R'')) 0 0
      MOCK_SERIAL (ascii_bytes ''{result:4}''))])"
    by simp
  moreover note process_item_waits [OF assms(1) response_loop_times_out [OF assms(5)]]
  ultimately show ?thesis by (simp add: unread_def)
qed

section \<open>A sample exchange\<close>

text \<open>A connected channel whose request goes out in one turn; the next turn reads \<open>x\<close>, the others find the peer closed.\<close>

definition exchange_env :: "bytes \<Rightarrow> tcp_env" where
  "exchange_env x = demo_env\<lparr>te_turn := (\<lambda>i. if i = 0 then demo_turn\<lparr>tt_send := Sent 26\<rparr>
     else if i = 1 then demo_turn\<lparr>tt_recv := Received x\<rparr> else demo_turn\<lparr>tt_recv := Received []\<rparr>)\<rparr>"

definition exchange_item :: "nat sensor_tcp_queue_item" where
  "exchange_item = demo_item\<lparr>it_packet := replicate 26 0, it_packet_len := 26\<rparr>"

definition exchange_channel :: "nat sensor_tcp_channel" where
  "exchange_channel = demo_channel\<lparr>max_packet_size := 64,
     tc_parser := \<lparr>sp_buf = replicate 64 0, buf_cap = 64, sp_head = 0, sp_tail = 0\<rparr>\<rparr>"

definition exchange_policy :: sensor_result_policy where
  "exchange_policy = \<lparr>rp_role = SENSOR_RESULT_ROLE_VOICE, rp_danger_count_threshold = 0, rp_danger_count = 0, rp_on_alert = True\<rparr>"

lemma exchange_request: "request_sent (exchange_env x) exchange_channel exchange_item 1"
proof -
  have "send_all (te_turn (exchange_env x)) (replicate 26 0) 26 0 [] 0 = Some (SENSOR_TCP_OK, replicate 26 0, 1)"
    by (simp add: exchange_env_def send_all.simps demo_turn_def mem_read_def)
  then show ?thesis
    by (simp add: request_sent_def exchange_channel_def exchange_item_def demo_channel_def demo_item_def tcp_ok_def unread_def
        sp_inv_def sp_content_def mem_read_def)
qed

lemma exchange_reads:
  "turn_reads (te_turn (exchange_env x)) (response_deadline (exchange_env x) exchange_item) (Suc i) (if i = 0 then x else [])"
  by (simp add: turn_reads_def exchange_env_def exchange_item_def demo_env_def demo_turn_def demo_item_def response_deadline_def
      savvy_deadline_arm_def savvy_deadline_remaining_ms_def savvy_clock_diff_ms_def)

lemma exchange_arrives: "x \<noteq> [] \<Longrightarrow> response_arrives (exchange_env x) exchange_item 1 [x]"
  using exchange_reads [of x 0] by (simp add: response_arrives_def)

lemma exchange_demo [simp]:
  "it_packet exchange_item = replicate 26 0" "it_on_complete exchange_item = 7" "sockfd exchange_channel = 5"
  "max_packet_size exchange_channel = 64"
  by (simp_all add: exchange_item_def exchange_channel_def demo_item_def demo_channel_def)

lemma mock_image_nonempty: "packet_image s c 0 0 MOCK_SERIAL d \<noteq> []"
  by (simp add: packet_image_def)

theorem mock_exchange_end_to_end_witness:
  "\<exists>ch' r. process_item (exchange_env (packet_image 0 (of_char (CHR ''R'')) 0 0 MOCK_SERIAL (ascii_bytes ''{result:6}'')))
       exchange_channel exchange_item = Some (ch', [Tcp_Wire 5 (replicate 26 0), Tcp_Complete 7 r])
     \<and> sockfd ch' = 5 \<and> res_data r = ascii_bytes ''{result:6}''"
proof -
  let ?x = "packet_image 0 (of_char (CHR ''R'')) 0 0 MOCK_SERIAL (ascii_bytes ''{result:6}'')"
  have f: "fixture_answer ''s-r-danger'' = Some (CHR ''R'', ''{result:6}'')" by (simp add: fixture_answer_def)
  have cs: "request_arrives demo_os [replicate 5 0, replicate 21 0] (it_packet exchange_item)"
    using demo_request_arrives by simp
  obtain ev where ev: "mock_streaming_main [''--fixture='' @ ''s-r-danger''] demo_os = Some (0, ev)" "concat [?x] = mock_wire ev"
    using mock_serve_answers [OF demo_os_ok(1) cs f] mock_main_serves [OF demo_os_ok(2), of "''s-r-danger''"] by auto
  have room: "36 \<le> max_packet_size exchange_channel" by simp
  obtain ch' r where "process_item (exchange_env ?x) exchange_channel exchange_item
        = Some (ch', [Tcp_Wire (sockfd exchange_channel) (it_packet exchange_item), Tcp_Complete (it_on_complete exchange_item) r])"
      "sockfd ch' = sockfd exchange_channel"
      "r = \<lparr>res_status = SENSOR_TCP_OK, res_start = it_packet exchange_item ! 0, res_command = of_char (CHR ''R''),
         res_crc_valid = True, res_data = ascii_bytes ''{result:6}''\<rparr>"
    using mock_exchange_end_to_end [where policy = exchange_policy and u = "None :: nat option",
        OF exchange_request room demo_os_ok(1,2) cs f ev(1) exchange_arrives [OF mock_image_nonempty] ev(2)]
    by blast
  then show ?thesis by simp
qed

theorem mock_faults_detected_witness:
  "\<exists>ch' evs r. process_item (exchange_env (bogus_header 0)) exchange_channel exchange_item = Some (ch', evs)
     \<and> completions evs = [(7, r)] \<and> res_status r = SENSOR_TCP_ERR_PROTOCOL \<and> sockfd ch' = -1"
proof -
  have f: "fixture_fault ''length-overflow'' = Some SENSOR_TCP_ERR_PROTOCOL" by (simp add: fixture_fault_def)
  have cs: "request_arrives demo_os [replicate 5 0, replicate 21 0] (it_packet exchange_item)"
    using demo_request_arrives by simp
  have x: "bogus_header 0 \<noteq> []" by (simp add: bogus_header_def)
  have "mock_serve demo_os ''length-overflow'' = Some (0, [Mock_Wire (bogus_header 0)])"
    using serve_length_overflow_ok [OF demo_os_ok(3) cs] by (simp add: mock_serve_def)
  then obtain ev where ev: "mock_streaming_main [''--fixture='' @ ''length-overflow''] demo_os = Some (0, ev)"
      "concat [bogus_header 0] = mock_wire ev"
    using mock_main_serves [OF demo_os_ok(2), of "''length-overflow''"] by fastforce
  have closes: "turn_reads (te_turn (exchange_env (bogus_header 0))) (response_deadline (exchange_env (bogus_header 0)) exchange_item)
      (1 + length [bogus_header 0]) []"
    using exchange_reads [of _ 1] by simp
  from mock_faults_detected [where policy = exchange_policy and u = "None :: nat option", OF exchange_request _ _ demo_os_ok(1,3,2) cs f ev(1) exchange_arrives [OF x] ev(2) closes]
  show ?thesis by fastforce
qed

end
