(* ===== verification/Mock_Mgr.thy ===== *)
theory Mock_Mgr
  imports Mgr_Ipc_Client Tool_Base
begin

text \<open>
  The test double of the manager, \<^verbatim>\<open>tools/mock_mgr/mock_mgr.c\<close>: a sequenced-packet server that for each
  of a number of cycles accepts a client, expects its CONNECT message, pushes one config and one
  device message, makes sure that the client stays silent and closes. One turn of a waiting loop
  is a record of what the loop finds there: the two readings of the clock, the answer of \<^verbatim>\<open>poll\<close> for
  a time-out and the answer of \<^verbatim>\<open>recv\<close>; a loop that does not return is \<open>None\<close>. Messages on \<^verbatim>\<open>stdout\<close> and
  \<^verbatim>\<open>stderr\<close> are left out. The last section runs the manager client against this server.
\<close>

section \<open>The outside world\<close>

datatype mock_poll = Mp_Ready | Mp_Elapsed | Mp_Failed bool  \<comment> \<open>whether \<^verbatim>\<open>errno\<close> is \<^verbatim>\<open>EINTR\<close>\<close>

text \<open>A message; an empty one: the peer has closed.\<close>

datatype mock_recv = Mr_Message string | Mr_Failed bool

text \<open>\<open>mt_rest\<close> is what the buffer holds beyond the message and its terminator.\<close>

record mock_turn =
  mt_check :: "int \<times> int"
  mt_now :: "int \<times> int"
  mt_poll :: "int \<Rightarrow> mock_poll"
  mt_recv :: mock_recv
  mt_rest :: string

record mock_cycle =
  my_stop :: bool  \<comment> \<open>\<^verbatim>\<open>g_stop\<close>, set by the signal handler\<close>
  my_poll :: mock_poll
  my_accept :: int
  my_handshake_at :: "int \<times> int"
  my_handshake :: "nat \<Rightarrow> mock_turn"
  my_send :: "string \<Rightarrow> int"
  my_hold_at :: "int \<times> int"
  my_hold :: "nat \<Rightarrow> mock_turn"

record mock_mgr_os =
  mo_socket :: int
  mo_bind_ok :: bool
  mo_listen_ok :: bool
  mo_cycle :: "nat \<Rightarrow> mock_cycle"

datatype mock_mgr_event = Mm_Unlink string | Mm_Send string | Mm_Close int

section \<open>The helpers\<close>

text \<open>A reading of the clock, in seconds and nanoseconds.\<close>

definition now_ms :: "int \<times> int \<Rightarrow> int" where
  "now_ms ts = fst ts * 1000 + snd ts div 1000000"

definition send_envelope :: "(string \<Rightarrow> int) \<Rightarrow> string \<Rightarrow> string \<Rightarrow> int \<times> mock_mgr_event list" where
  "send_envelope snd_fn action payload_json =
     (case savvy_ipc_envelope_build (Some action) (Some payload_json) False of
        Inl _ \<Rightarrow> (-1, [])
      | Inr text \<Rightarrow> (if snd_fn text = int (length text) then 0 else -1, [Mm_Send text]))"

text \<open>The verdict on the first message.\<close>

definition connect_message_valid :: "string \<Rightarrow> string \<Rightarrow> bool" where
  "connect_message_valid msg rest =
     (case savvy_ipc_envelope_parse (Some (msg @ CHR 0x00 # rest)) (length msg) (Some \<lparr>env_action = None, env_payload_json = None\<rparr>) of
        (st, env) \<Rightarrow>
          st = SAVVY_OK \<and> env_action (the env) = Some ''com.uniuni.savvymgr.ipc.connect''
          \<and> env_payload_json (the env) = Some ''{}'')"

partial_function (option) expect_connect_handshake :: "(nat \<Rightarrow> mock_turn) \<Rightarrow> int \<Rightarrow> nat \<Rightarrow> int option" where
  "expect_connect_handshake os deadline_ms k =
     (let t = os k
      in if \<not> now_ms (mt_check t) < deadline_ms then Some (-1)
         else
           let remaining = deadline_ms - now_ms (mt_now t); pr = mt_poll t remaining
           in if pr = Mp_Failed True then expect_connect_handshake os deadline_ms (k + 1)
              else if pr \<noteq> Mp_Ready then Some (-1)
              else case mt_recv t of
                Mr_Failed _ \<Rightarrow> Some (-1)
              | Mr_Message msg \<Rightarrow> Some (if msg \<noteq> [] \<and> connect_message_valid msg (mt_rest t) then 0 else -1))"

partial_function (option) reject_unexpected_sensor_messages :: "(nat \<Rightarrow> mock_turn) \<Rightarrow> int \<Rightarrow> nat \<Rightarrow> int option" where
  "reject_unexpected_sensor_messages os deadline_ms k =
     (let t = os k
      in if \<not> now_ms (mt_check t) < deadline_ms then Some 0
         else
           let remaining = deadline_ms - now_ms (mt_now t); pr = mt_poll t remaining
           in if pr = Mp_Failed True then reject_unexpected_sensor_messages os deadline_ms (k + 1)
              else if pr = Mp_Elapsed then Some 0
              else if pr \<noteq> Mp_Ready then Some (-1)
              else case mt_recv t of
                Mr_Failed eintr \<Rightarrow>
                  if eintr then reject_unexpected_sensor_messages os deadline_ms (k + 1) else Some (-1)
              | Mr_Message msg \<Rightarrow> Some (if msg = [] then 0 else -1))"

section \<open>The program\<close>

text \<open>The conjunction of the four steps of a cycle, each only when those before it succeeded.\<close>

definition mock_exchange :: "mock_cycle \<Rightarrow> int \<Rightarrow> (bool \<times> mock_mgr_event list) option" where
  "mock_exchange cy hold_open_ms =
     (case expect_connect_handshake (my_handshake cy) (now_ms (my_handshake_at cy) + 2000) 0 of
        None \<Rightarrow> None
      | Some rc \<Rightarrow>
          if rc \<noteq> 0 then Some (False, [])
          else case send_envelope (my_send cy) ''com.uniuni.savvysensor.config''
                      (CHR ''{'' # CHR 0x22 # ''jsonConfigDto'' @ CHR 0x22 # '':{}}'') of
            (rc1, ev1) \<Rightarrow>
              if rc1 \<noteq> 0 then Some (False, ev1)
              else case send_envelope (my_send cy) ''com.uniuni.savvysensor.device''
                          (CHR ''{'' # CHR 0x22 # ''jsonDeviceDto'' @ CHR 0x22 # '':{}}'') of
                (rc2, ev2) \<Rightarrow>
                  if rc2 \<noteq> 0 then Some (False, ev1 @ ev2)
                  else case reject_unexpected_sensor_messages (my_hold cy) (now_ms (my_hold_at cy) + hold_open_ms) 0 of
                    None \<Rightarrow> None
                  | Some rc3 \<Rightarrow> Some (rc3 = 0, ev1 @ ev2))"

text \<open>The loop over the cycles: \<open>n\<close> are left; the result is the exit code.\<close>

fun mock_cycles :: "(nat \<Rightarrow> mock_cycle) \<Rightarrow> int \<Rightarrow> nat \<Rightarrow> nat \<Rightarrow> (int \<times> mock_mgr_event list) option" where
  "mock_cycles cys hold_open_ms cycle 0 = Some (0, [])"
| "mock_cycles cys hold_open_ms cycle (Suc n) =
     (let cy = cys cycle
      in if my_stop cy then Some (0, [])
         else if my_poll cy \<noteq> Mp_Ready then Some (1, [])
         else if my_accept cy < 0 then Some (1, [])
         else case mock_exchange cy hold_open_ms of
           None \<Rightarrow> None
         | Some (ok, ev) \<Rightarrow>
             let ev' = ev @ [Mm_Close (my_accept cy)]
             in if \<not> ok then Some (1, ev')
                else map_option (\<lambda>(code, evs). (code, ev' @ evs)) (mock_cycles cys hold_open_ms (cycle + 1) n))"

text \<open>\<^verbatim>\<open>main\<close> on the arguments after the program's name.\<close>

definition mock_mgr_main :: "string list \<Rightarrow> mock_mgr_os \<Rightarrow> (int \<times> mock_mgr_event list) option" where
  "mock_mgr_main args os =
     (case args of
        path # cycles_arg # hold_arg # _ \<Rightarrow>
          let cycles = c_atoi cycles_arg; hold_open_ms = c_atoi hold_arg; listen_fd = mo_socket os
          in if listen_fd < 0 then Some (1, [])
             else if length path \<ge> SUN_PATH_SIZE then Some (1, [Mm_Close listen_fd])
             else if \<not> mo_bind_ok os then Some (1, [Mm_Unlink path, Mm_Close listen_fd])
             else if \<not> mo_listen_ok os then Some (1, [Mm_Unlink path, Mm_Close listen_fd])
             else map_option
                    (\<lambda>(code, evs). (code, [Mm_Unlink path] @ evs @ [Mm_Close listen_fd, Mm_Unlink path]))
                    (mock_cycles (mo_cycle os) hold_open_ms 0 (nat cycles))
      | _ \<Rightarrow> Some (2, []))"

section \<open>The messages it pushes\<close>

text \<open>A payload with one empty object, as a tree and as the literal of the source.\<close>

definition dto_tree :: "string \<Rightarrow> cJSON" where
  "dto_tree k = cJSON_Object [(k, cJSON_Object [])]"

definition dto_text :: "string \<Rightarrow> string" where
  "dto_text k = CHR ''{'' # CHR 0x22 # k @ CHR 0x22 # '':{}}''"

lemma dto_payload:
  assumes "k \<in> {''jsonConfigDto'', ''jsonDeviceDto''}"
  shows "json_ok (CJSON_NESTING_LIMIT - 1) (dto_tree k)" and "cJSON_PrintUnformatted (dto_tree k) = Some (dto_text k)"
    and "savvy_json_parse (Some (dto_text k @ [CHR 0x00])) (length (dto_text k)) False = Inr (dto_tree k)"
proof -
  have k: "ascii k" "print_string_ptr k = CHR 0x22 # k @ [CHR 0x22]"
    using assms by (auto simp: ascii_def print_string_ptr_def escape_char_def)
  show ok: "json_ok (CJSON_NESTING_LIMIT - 1) (dto_tree k)"
    using ascii_nul_free [OF k(1)] by (simp add: dto_tree_def CJSON_NESTING_LIMIT_def numeral_eq_Suc)
  show print: "cJSON_PrintUnformatted (dto_tree k) = Some (dto_text k)"
    using assms by (auto simp: printed_text INT32_MAX_room dto_tree_def dto_text_def print_string_ptr_def escape_char_def)
  have "strict_tree (dto_tree k)" using ascii_valid_utf8 [OF k(1)] by (simp add: strict_tree_def dto_tree_def)
  from json_parse_printed(2) [OF json_ok_mono [OF ok] this print, of "[]"]
  show "savvy_json_parse (Some (dto_text k @ [CHR 0x00])) (length (dto_text k)) False = Inr (dto_tree k)" by simp
qed

definition push_envelope :: "string \<Rightarrow> string \<Rightarrow> string" where
  "push_envelope a k = CHR ''{'' # CHR 0x22 # ''action'' @ [CHR 0x22, CHR '':''] @ print_string_ptr a @
      CHR '','' # CHR 0x22 # ''payload'' @ [CHR 0x22, CHR '':''] @ dto_text k @ ''}''"

definition pushed :: "string \<Rightarrow> string \<Rightarrow> bool" where
  "pushed a k \<longleftrightarrow> a = ''com.uniuni.savvysensor.config'' \<and> k = ''jsonConfigDto''
     \<or> a = ''com.uniuni.savvysensor.device'' \<and> k = ''jsonDeviceDto''"

lemma push_built:
  assumes "pushed a k"
  shows "savvy_ipc_envelope_build (Some a) (Some (dto_text k)) False = Inr (push_envelope a k)"
    and "cb_on_envelope (mg_callbacks (mc_config c)) \<Longrightarrow>
       dispatch_envelope c (push_envelope a k @ CHR 0x00 # rest) (length (push_envelope a k)) = [Ev_On_Envelope a (dto_text k)]"
proof -
  have a: "ascii a" "a \<noteq> []" and k: "k \<in> {''jsonConfigDto'', ''jsonDeviceDto''}"
    using assms by (auto simp: pushed_def ascii_def)
  note payload = dto_payload [OF k]
  show built: "savvy_ipc_envelope_build (Some a) (Some (dto_text k)) False = Inr (push_envelope a k)"
    using assms
    by (intro envelope_build_short [OF a(2) ascii_nul_free [OF a(1)] ascii_valid_utf8 [OF a(1)] payload(3,1,2) [unfolded dto_tree_def]])
      (auto simp: pushed_def push_envelope_def dto_text_def print_string_ptr_def escape_char_def SAVVY_IPC_MAX_MESSAGE_def)
  have "mgr_accepts ''com.uniuni.savvysensor.config'' (cJSON_Object [(''jsonConfigDto'', cJSON_Object [])])"
    "mgr_accepts ''com.uniuni.savvysensor.device'' (cJSON_Object [(''jsonDeviceDto'', cJSON_Object [])])"
    by (simp_all add: mgr_accepts_def find_entry_def CATALOG_def catalog_entry_of_def CONFIG_KEYS_def DEVICE_KEYS_def key_satisfied_def)
  then have acc: "mgr_accepts a (cJSON_Object [(k, cJSON_Object [])])" using assms unfolding pushed_def by blast
  assume "cb_on_envelope (mg_callbacks (mc_config c))"
  then show "dispatch_envelope c (push_envelope a k @ CHR 0x00 # rest) (length (push_envelope a k)) = [Ev_On_Envelope a (dto_text k)]"
    using dispatch_terminated [OF ascii_nul_free [OF a(1)] ascii_valid_utf8 [OF a(1)] payload(3,1) [unfolded dto_tree_def] built, of c rest]
      acc payload(2) by (simp add: dto_tree_def)
qed

section \<open>What the waiting loops decide\<close>

definition poll_says :: "mock_turn \<Rightarrow> int \<Rightarrow> mock_poll \<Rightarrow> bool" where
  "poll_says t dl pr \<longleftrightarrow> now_ms (mt_check t) < dl \<and> mt_poll t (dl - now_ms (mt_now t)) = pr"

text \<open>
  What the client has to say, on the JSON level: one object of exactly two members, in either order, the
  action, which is the CONNECT action, and the payload, which is an empty object.
\<close>

definition either_order :: "'a \<Rightarrow> 'a \<Rightarrow> 'a list \<Rightarrow> bool" where
  "either_order x y xs \<longleftrightarrow> xs = [x, y] \<or> xs = [y, x]"

definition says_connect :: "string \<Rightarrow> bool" where
  "says_connect msg \<longleftrightarrow> CHR 0x00 \<notin> set msg
     \<and> (\<exists>ms. cJSON_ParseWithOpts msg True = Some (cJSON_Object ms)
          \<and> either_order (''action'', cJSON_String ''com.uniuni.savvymgr.ipc.connect'') (''payload'', cJSON_Object []) ms)"

lemma empty_object_text: "cJSON_PrintUnformatted (cJSON_Object ms) = Some ''{}'' \<longleftrightarrow> ms = []"
proof (cases ms)
  case Nil
  then show ?thesis by (simp add: print_empty_object)
next
  case (Cons m ms')
  then show ?thesis by (cases m) (auto simp: printed_text print_string_ptr_def split: option.splits)
qed

lemma two_members:
  assumes "k \<noteq> k'"
  shows "length ms = 2 \<and> map_of ms k = Some v \<and> map_of ms k' = Some w \<longleftrightarrow> either_order (k, v) (k', w) ms"
proof (cases "length ms = 2")
  case True
  then obtain x y where "ms = [x, y]" by (auto simp: numeral_2_eq_2 length_Suc_conv)
  with assms show ?thesis by (cases x; cases y) (auto simp: either_order_def)
qed (auto simp: either_order_def)

lemma connect_message_iff: "connect_message_valid msg rest \<longleftrightarrow> says_connect msg"
proof (cases "CHR 0x00 \<in> set msg")
  case True
  then show ?thesis by (simp add: connect_message_valid_def says_connect_def savvy_ipc_envelope_parse_def savvy_json_parse_def)
next
  case False
  let ?S = "cJSON_String ''com.uniuni.savvymgr.ipc.connect''"
  have parse: "savvy_json_parse (Some (msg @ CHR 0x00 # rest)) (length msg) False =
     (case cJSON_ParseWithOpts msg True of None \<Rightarrow> Inl SAVVY_ERR_PROTOCOL
      | Some v \<Rightarrow> if strict_tree v then Inr v else Inl SAVVY_ERR_PROTOCOL)"
    using json_parse_terminated [OF terminated_text, of msg rest] False by simp
  have strict: "strict_tree (cJSON_Object ms)"
    if "either_order (''action'', ?S) (''payload'', cJSON_Object []) ms" for ms
    using that ascii_valid_utf8 [of "''action''"] ascii_valid_utf8 [of "''payload''"]
      ascii_valid_utf8 [of "''com.uniuni.savvymgr.ipc.connect''"]
    by (auto simp: either_order_def strict_tree_def ascii_def)
  have keys: "''action'' \<noteq> ''payload''" by simp
  have "connect_message_valid msg rest \<longleftrightarrow> (\<exists>ms. cJSON_ParseWithOpts msg True = Some (cJSON_Object ms) \<and> strict_tree (cJSON_Object ms)
      \<and> length ms = 2 \<and> map_of ms ''action'' = Some ?S \<and> map_of ms ''payload'' = Some (cJSON_Object []))"
    unfolding connect_message_valid_def savvy_ipc_envelope_parse_def parse
    by (auto simp: Let_def empty_object_text print_empty_object elim!: cJSON_IsObject.elims(2) split: option.splits cJSON.splits if_splits)
  then show ?thesis unfolding two_members [OF keys] using False strict by (auto simp: says_connect_def)
qed

text \<open>After interrupted polls, the first thing read is the CONNECT message with an empty payload.\<close>

definition heard_connect :: "(nat \<Rightarrow> mock_turn) \<Rightarrow> int \<Rightarrow> nat \<Rightarrow> bool" where
  "heard_connect os dl k \<longleftrightarrow> (\<exists>n msg. (\<forall>i < n. poll_says (os (k + i)) dl (Mp_Failed True)) \<and> poll_says (os (k + n)) dl Mp_Ready
     \<and> mt_recv (os (k + n)) = Mr_Message msg \<and> msg \<noteq> [] \<and> says_connect msg)"

text \<open>After interruptions, the time is over or the client has closed, and no message came.\<close>

definition stayed_silent :: "(nat \<Rightarrow> mock_turn) \<Rightarrow> int \<Rightarrow> nat \<Rightarrow> bool" where
  "stayed_silent os dl k \<longleftrightarrow> (\<exists>n. (\<forall>i < n. poll_says (os (k + i)) dl (Mp_Failed True)
          \<or> poll_says (os (k + i)) dl Mp_Ready \<and> mt_recv (os (k + i)) = Mr_Failed True)
     \<and> (dl \<le> now_ms (mt_check (os (k + n))) \<or> poll_says (os (k + n)) dl Mp_Elapsed
        \<or> poll_says (os (k + n)) dl Mp_Ready \<and> mt_recv (os (k + n)) = Mr_Message []))"

text \<open>Shifting such a statement by one turn.\<close>

lemma later_turn:
  fixes k :: nat
  assumes "\<And>k. Q k \<longleftrightarrow> (\<exists>n. (\<forall>i < n. P (k + i)) \<and> R (k + n))"
  shows "Q k \<longleftrightarrow> R k \<or> P k \<and> Q (Suc k)"
proof
  assume "Q k"
  then obtain n where n: "\<forall>i < n. P (k + i)" "R (k + n)" using assms by blast
  show "R k \<or> P k \<and> Q (Suc k)"
  proof (cases n)
    case (Suc m)
    then have "P k" "\<forall>i < m. P (Suc k + i)" "R (Suc k + m)" using n by (auto simp: All_less_Suc2)
    then show ?thesis using assms by blast
  qed (use n in simp)
next
  assume "R k \<or> P k \<and> Q (Suc k)"
  then consider "R k" | n where "P k" "\<forall>i < n. P (Suc k + i)" "R (Suc k + n)" using assms by blast
  then show "Q k"
  proof cases
    case 1
    then show ?thesis unfolding assms by (intro exI [of _ 0]) simp
  next
    case 2
    then show ?thesis unfolding assms by (intro exI [of _ "Suc n"]) (simp add: All_less_Suc2)
  qed
qed

lemma heard_connect_step:
  "heard_connect os dl k \<longleftrightarrow>
     (poll_says (os k) dl Mp_Ready \<and> (\<exists>msg. mt_recv (os k) = Mr_Message msg \<and> msg \<noteq> [] \<and> says_connect msg))
     \<or> poll_says (os k) dl (Mp_Failed True) \<and> heard_connect os dl (Suc k)"
  by (rule later_turn) (auto simp: heard_connect_def)

lemma stayed_silent_step:
  "stayed_silent os dl k \<longleftrightarrow>
     (dl \<le> now_ms (mt_check (os k)) \<or> poll_says (os k) dl Mp_Elapsed
        \<or> poll_says (os k) dl Mp_Ready \<and> mt_recv (os k) = Mr_Message [])
     \<or> (poll_says (os k) dl (Mp_Failed True) \<or> poll_says (os k) dl Mp_Ready \<and> mt_recv (os k) = Mr_Failed True)
       \<and> stayed_silent os dl (Suc k)"
  by (rule later_turn) (auto simp: stayed_silent_def)

lemma handshake_heard:
  assumes "expect_connect_handshake os dl k = Some 0"
  shows "heard_connect os dl k"
proof -
  have "heard_connect os dl k" if "expect_connect_handshake os dl k = Some r" "r = 0" for r
    using that
  proof (induction rule: expect_connect_handshake.raw_induct [rotated, consumes 1, case_names turn])
    case (turn loop os dl k r)
    then show ?case
      by (subst heard_connect_step) (auto simp: Let_def poll_says_def connect_message_iff split: if_splits mock_recv.splits)
  qed
  with assms show ?thesis by blast
qed

lemma heard_handshake:
  assumes "heard_connect os dl k"
  shows "expect_connect_handshake os dl k = Some 0"
proof -
  obtain n where "(\<forall>i < n. poll_says (os (k + i)) dl (Mp_Failed True))" "poll_says (os (k + n)) dl Mp_Ready"
      "\<exists>msg. mt_recv (os (k + n)) = Mr_Message msg \<and> msg \<noteq> [] \<and> says_connect msg"
    using assms by (auto simp: heard_connect_def)
  then show ?thesis
  proof (induction n arbitrary: k)
    case 0
    then show ?case by (subst expect_connect_handshake.simps) (auto simp: Let_def poll_says_def connect_message_iff)
  next
    case (Suc n)
    then have "poll_says (os k) dl (Mp_Failed True)" "expect_connect_handshake os dl (Suc k) = Some 0"
      by (auto simp: All_less_Suc2)
    then show ?case by (subst expect_connect_handshake.simps) (auto simp: Let_def poll_says_def)
  qed
qed

lemma rejects_unless_silent:
  assumes "reject_unexpected_sensor_messages os dl k = Some 0"
  shows "stayed_silent os dl k"
proof -
  have "stayed_silent os dl k" if "reject_unexpected_sensor_messages os dl k = Some r" "r = 0" for r
    using that
  proof (induction rule: reject_unexpected_sensor_messages.raw_induct [rotated, consumes 1, case_names turn])
    case (turn loop os dl k r)
    then show ?case
      by (subst stayed_silent_step) (auto simp: Let_def poll_says_def split: if_splits mock_recv.splits)
  qed
  with assms show ?thesis by blast
qed

lemma silent_accepted:
  assumes "stayed_silent os dl k"
  shows "reject_unexpected_sensor_messages os dl k = Some 0"
proof -
  obtain n where "\<forall>i < n. poll_says (os (k + i)) dl (Mp_Failed True)
          \<or> poll_says (os (k + i)) dl Mp_Ready \<and> mt_recv (os (k + i)) = Mr_Failed True"
      "dl \<le> now_ms (mt_check (os (k + n))) \<or> poll_says (os (k + n)) dl Mp_Elapsed
        \<or> poll_says (os (k + n)) dl Mp_Ready \<and> mt_recv (os (k + n)) = Mr_Message []"
    using assms by (auto simp: stayed_silent_def)
  then show ?thesis
  proof (induction n arbitrary: k)
    case 0
    then show ?case by (subst reject_unexpected_sensor_messages.simps) (auto simp: Let_def poll_says_def)
  next
    case (Suc n)
    then have "poll_says (os k) dl (Mp_Failed True) \<or> poll_says (os k) dl Mp_Ready \<and> mt_recv (os k) = Mr_Failed True"
      "reject_unexpected_sensor_messages os dl (Suc k) = Some 0"
      by (auto simp: All_less_Suc2)
    then show ?case by (subst reject_unexpected_sensor_messages.simps) (auto simp: Let_def poll_says_def)
  qed
qed

section \<open>The verdict of a run\<close>

definition CONFIG_PUSH :: string where
  "CONFIG_PUSH = push_envelope ''com.uniuni.savvysensor.config'' ''jsonConfigDto''"

definition DEVICE_PUSH :: string where
  "DEVICE_PUSH = push_envelope ''com.uniuni.savvysensor.device'' ''jsonDeviceDto''"

lemma send_envelope_push:
  "send_envelope f ''com.uniuni.savvysensor.config'' (dto_text ''jsonConfigDto'')
     = (if f CONFIG_PUSH = int (length CONFIG_PUSH) then 0 else -1, [Mm_Send CONFIG_PUSH])"
  "send_envelope f ''com.uniuni.savvysensor.device'' (dto_text ''jsonDeviceDto'')
     = (if f DEVICE_PUSH = int (length DEVICE_PUSH) then 0 else -1, [Mm_Send DEVICE_PUSH])"
  by (simp_all add: send_envelope_def push_built(1) pushed_def CONFIG_PUSH_def DEVICE_PUSH_def)

text \<open>What the test of one connection demands of the client and of the system.\<close>

definition cycle_passes :: "mock_cycle \<Rightarrow> int \<Rightarrow> bool" where
  "cycle_passes cy hold \<longleftrightarrow> my_poll cy = Mp_Ready \<and> 0 \<le> my_accept cy
     \<and> heard_connect (my_handshake cy) (now_ms (my_handshake_at cy) + 2000) 0
     \<and> my_send cy CONFIG_PUSH = int (length CONFIG_PUSH) \<and> my_send cy DEVICE_PUSH = int (length DEVICE_PUSH)
     \<and> stayed_silent (my_hold cy) (now_ms (my_hold_at cy) + hold) 0"

lemma mock_exchange_unfold:
  "mock_exchange cy hold =
     (case expect_connect_handshake (my_handshake cy) (now_ms (my_handshake_at cy) + 2000) 0 of
        None \<Rightarrow> None
      | Some rc \<Rightarrow>
          if rc \<noteq> 0 then Some (False, [])
          else if my_send cy CONFIG_PUSH \<noteq> int (length CONFIG_PUSH) then Some (False, [Mm_Send CONFIG_PUSH])
          else if my_send cy DEVICE_PUSH \<noteq> int (length DEVICE_PUSH) then Some (False, [Mm_Send CONFIG_PUSH, Mm_Send DEVICE_PUSH])
          else map_option (\<lambda>rc3. (rc3 = 0, [Mm_Send CONFIG_PUSH, Mm_Send DEVICE_PUSH]))
                 (reject_unexpected_sensor_messages (my_hold cy) (now_ms (my_hold_at cy) + hold) 0))"
  unfolding mock_exchange_def dto_text_def [symmetric] send_envelope_push by (auto split: option.splits)

lemma mock_exchange_passes:
  assumes "my_poll cy = Mp_Ready" and "0 \<le> my_accept cy"
  shows "(\<exists>ev. mock_exchange cy hold = Some (True, ev)) \<longleftrightarrow> cycle_passes cy hold"
    and "mock_exchange cy hold = Some (True, ev) \<Longrightarrow> ev = [Mm_Send CONFIG_PUSH, Mm_Send DEVICE_PUSH]"
  using assms handshake_heard heard_handshake rejects_unless_silent silent_accepted
  by (auto simp: mock_exchange_unfold cycle_passes_def split: option.splits if_splits)

lemma mock_cycles_pass:
  "(\<exists>evs. mock_cycles cys hold c n = Some (0, evs)) \<longleftrightarrow>
     (\<forall>i < n. (\<forall>j \<le> i. \<not> my_stop (cys (c + j))) \<longrightarrow> cycle_passes (cys (c + i)) hold)"
proof (induction n arbitrary: c)
  case (Suc n)
  have later: "(\<forall>i < Suc n. (\<forall>j \<le> i. \<not> my_stop (cys (c + j))) \<longrightarrow> cycle_passes (cys (c + i)) hold) \<longleftrightarrow>
     my_stop (cys c) \<or> cycle_passes (cys c) hold
       \<and> (\<forall>i < n. (\<forall>j \<le> i. \<not> my_stop (cys (Suc c + j))) \<longrightarrow> cycle_passes (cys (Suc c + i)) hold)"
    by (auto simp: All_less_Suc2 less_Suc_eq_le [symmetric])
  show ?case
  proof (cases "my_stop (cys c) \<or> my_poll (cys c) \<noteq> Mp_Ready \<or> my_accept (cys c) < 0")
    case True
    then show ?thesis unfolding later by (auto simp: Let_def cycle_passes_def)
  next
    case False
    then have ready: "my_poll (cys c) = Mp_Ready" "0 \<le> my_accept (cys c)" by auto
    from False show ?thesis
      unfolding later mock_exchange_passes(1) [OF ready, symmetric] Suc.IH [symmetric]
      by (auto simp: Let_def split: option.splits)
  qed
qed simp

text \<open>
  C31: the exit code of the mock manager is a verdict. With a listener it exits with 0 exactly when every
  cycle up to the first signal passes: a client connects, the first thing it says, in time, is CONNECT
  with an empty payload, both messages are taken whole, and until the connection is closed or the
  hold time is over the client says nothing more. So a run that ends with 0 has seen no replayed
  and no unexpected message.
\<close>

theorem mock_mgr_exit_is_verdict:
  assumes "0 \<le> mo_socket os" and "length path < SUN_PATH_SIZE" and "mo_bind_ok os" and "mo_listen_ok os"
  shows "(\<exists>evs. mock_mgr_main [path, cycles, hold] os = Some (0, evs)) \<longleftrightarrow>
     (\<forall>i < nat (c_atoi cycles). (\<forall>j \<le> i. \<not> my_stop (mo_cycle os j)) \<longrightarrow> cycle_passes (mo_cycle os i) (c_atoi hold))"
  using assms mock_cycles_pass [of "mo_cycle os" "c_atoi hold" 0 "nat (c_atoi cycles)"]
  by (auto simp: mock_mgr_main_def Let_def)

section \<open>The manager client against the mock\<close>

lemma connect_message_accepted: "says_connect (bare_envelope SENSOR_MGR_IPC_ACTION_CONNECT)"
proof -
  let ?a = SENSOR_MGR_IPC_ACTION_CONNECT
  have a: "ascii ?a" "?a \<noteq> []" by (simp_all add: SENSOR_MGR_IPC_ACTION_CONNECT_def ascii_def)
  show ?thesis
  proof (rule envelope_built [OF ascii_nul_free [OF a(1)] ascii_valid_utf8 [OF a(1)] empty_object_json(3,1) connect_envelope_built])
    fix body
    assume body: "cJSON_PrintUnformatted (cJSON_Object []) = Some body"
      and parse: "\<And>junk old. savvy_ipc_envelope_parse (Some (bare_envelope ?a @ CHR 0x00 # junk)) (length (bare_envelope ?a)) (Some old)
         = (SAVVY_OK, Some \<lparr>env_action = Some ?a, env_payload_json = Some body\<rparr>)"
    show ?thesis
      using parse [of "[]"] body
      by (simp add: connect_message_iff [of _ "[]", symmetric] connect_message_valid_def empty_object_json(2) SENSOR_MGR_IPC_ACTION_CONNECT_def)
  qed
qed

text \<open>A receive turn in which the transport hands over \<open>msg\<close>; the buffer still holds \<open>stale\<close> and \<open>rest\<close> behind it.\<close>

definition delivered :: "string \<Rightarrow> char \<Rightarrow> string \<Rightarrow> recv_turn" where
  "delivered msg stale rest = \<lparr>rt_shutdown = False, rt_stopping = False, rt_status = SAVVY_OK, rt_message = msg, rt_rest = stale # rest\<rparr>"

lemma push_nonempty: "CONFIG_PUSH \<noteq> []" "DEVICE_PUSH \<noteq> []"
  by (simp_all add: CONFIG_PUSH_def DEVICE_PUSH_def push_envelope_def)

lemma dispatch_unterminated: "stale \<noteq> CHR 0x00 \<Longrightarrow> dispatch_envelope c (msg @ stale # rest) (length msg) = []"
  by (simp add: dispatch_envelope_def savvy_ipc_envelope_parse_def savvy_json_parse_def nth_append)

lemma client_receives_pushes:
  assumes "mc_connection_state c = SENSOR_MGR_IPC_CONNECTED" and "cb_on_envelope (mg_callbacks (mc_config c))"
  shows "receive_loop [delivered CONFIG_PUSH b1 r1, delivered DEVICE_PUSH b2 r2] c
     = (c, (if b1 = CHR 0x00 then [Ev_On_Envelope ''com.uniuni.savvysensor.config'' (dto_text ''jsonConfigDto'')] else [])
         @ (if b2 = CHR 0x00 then [Ev_On_Envelope ''com.uniuni.savvysensor.device'' (dto_text ''jsonDeviceDto'')] else []), False)"
  using assms push_nonempty dispatch_unterminated
  by (cases "b1 = CHR 0x00"; cases "b2 = CHR 0x00")
    (simp_all add: delivered_def CONFIG_PUSH_def DEVICE_PUSH_def push_built(2) pushed_def)

text \<open>
  C30: a session of the manager client with the mock manager. When the client has a transport and its
  handshake message reaches the mock in time, the client is connected; if the mock's sends are taken whole and
  the client is silent during the hold time, the mock's cycle passes, with exactly two messages sent. Of the two,
  received in order, the client hands the config and the device payload to its application, each exactly
  when the byte that its uninitialised receive buffer holds behind the message is NUL; a message with another byte
  there is dropped without a trace, and the mock passes the client all the same.
\<close>

theorem mock_mgr_end_to_end:
  assumes "mc_connection_state c = SENSOR_MGR_IPC_TRANSPORT_CONNECTED" and "cb_on_envelope (mg_callbacks (mc_config c))"
    and "send_connect_handshake c False SAVVY_OK False = (st, c', evs)" and "Ev_Send m SAVVY_OK \<in> set evs"
    and "my_poll cy = Mp_Ready" and "0 \<le> my_accept cy"
    and "poll_says (my_handshake cy 0) (now_ms (my_handshake_at cy) + 2000) Mp_Ready"
    and "mt_recv (my_handshake cy 0) = Mr_Message m"
    and "\<And>msg. my_send cy msg = int (length msg)"
    and "stayed_silent (my_hold cy) (now_ms (my_hold_at cy) + hold) 0"
  shows "st = SAVVY_OK \<and> mc_connection_state c' = SENSOR_MGR_IPC_CONNECTED
     \<and> (\<exists>m1 m2. mock_exchange cy hold = Some (True, [Mm_Send m1, Mm_Send m2])
          \<and> receive_loop [delivered m1 b1 r1, delivered m2 b2 r2] c'
            = (c', (if b1 = CHR 0x00 then [Ev_On_Envelope ''com.uniuni.savvysensor.config'' (dto_text ''jsonConfigDto'')] else [])
                 @ (if b2 = CHR 0x00 then [Ev_On_Envelope ''com.uniuni.savvysensor.device'' (dto_text ''jsonDeviceDto'')] else []), False))"
proof -
  have c': "st = SAVVY_OK" "c' = c\<lparr>mc_connection_state := SENSOR_MGR_IPC_CONNECTED\<rparr>"
      "evs = [Ev_Send (bare_envelope SENSOR_MGR_IPC_ACTION_CONNECT) SAVVY_OK]"
    using assms(1,3) by (auto simp: send_connect_handshake_def connect_envelope_built handshake_begin_def handshake_end_def)
  then have m: "m = bare_envelope SENSOR_MGR_IPC_ACTION_CONNECT" using assms(4) by simp
  then have "m \<noteq> []" by (simp add: bare_envelope_def)
  then have "heard_connect (my_handshake cy) (now_ms (my_handshake_at cy) + 2000) 0"
    using assms(7,8) connect_message_accepted m by (subst heard_connect_step) simp
  then have "cycle_passes cy hold" using assms(5,6,9,10) by (simp add: cycle_passes_def)
  then have "mock_exchange cy hold = Some (True, [Mm_Send CONFIG_PUSH, Mm_Send DEVICE_PUSH])"
    using mock_exchange_passes [OF assms(5,6)] by blast
  moreover have "mc_connection_state c' = SENSOR_MGR_IPC_CONNECTED" "cb_on_envelope (mg_callbacks (mc_config c'))"
    using c' assms(2) by simp_all
  ultimately show ?thesis using c'(1) client_receives_pushes by blast
qed

section \<open>A sample run\<close>

definition sample_turn :: "mock_recv \<Rightarrow> mock_turn" where
  "sample_turn r = \<lparr>mt_check = (10, 0), mt_now = (10, 5000000), mt_poll = (\<lambda>_. Mp_Ready), mt_recv = r, mt_rest = ''junk''\<rparr>"

definition sample_mock_cycle :: mock_cycle where
  "sample_mock_cycle = \<lparr>my_stop = False, my_poll = Mp_Ready, my_accept = 7, my_handshake_at = (10, 0),
     my_handshake = (\<lambda>_. sample_turn (Mr_Message (bare_envelope SENSOR_MGR_IPC_ACTION_CONNECT))),
     my_send = (\<lambda>s. int (length s)), my_hold_at = (10, 0), my_hold = (\<lambda>_. sample_turn (Mr_Message []))\<rparr>"

lemma sample_cycle_quiet:
  "poll_says (my_handshake sample_mock_cycle 0) (now_ms (my_handshake_at sample_mock_cycle) + 2000) Mp_Ready"
  "stayed_silent (my_hold sample_mock_cycle) (now_ms (my_hold_at sample_mock_cycle) + 100) 0"
  by (simp add: poll_says_def sample_mock_cycle_def sample_turn_def now_ms_def)
    (subst stayed_silent_step, simp add: poll_says_def sample_mock_cycle_def sample_turn_def now_ms_def)

theorem mock_mgr_end_to_end_witness:
  "\<exists>c' m1 m2. mock_exchange sample_mock_cycle 100 = Some (True, [Mm_Send m1, Mm_Send m2])
     \<and> receive_loop [delivered m1 (CHR 0x00) ''x'', delivered m2 (CHR 0x00) []] c'
       = (c', [Ev_On_Envelope ''com.uniuni.savvysensor.config'' (dto_text ''jsonConfigDto''),
               Ev_On_Envelope ''com.uniuni.savvysensor.device'' (dto_text ''jsonDeviceDto'')], False)"
proof -
  let ?c = "sample_mgr_client\<lparr>mc_connection_state := SENSOR_MGR_IPC_TRANSPORT_CONNECTED\<rparr>"
  have shake: "send_connect_handshake ?c False SAVVY_OK False
      = (SAVVY_OK, ?c\<lparr>mc_connection_state := SENSOR_MGR_IPC_CONNECTED\<rparr>, [Ev_Send (bare_envelope SENSOR_MGR_IPC_ACTION_CONNECT) SAVVY_OK])"
    by (simp add: send_connect_handshake_def connect_envelope_built handshake_begin_def handshake_end_def)
  have client: "mc_connection_state ?c = SENSOR_MGR_IPC_TRANSPORT_CONNECTED" "cb_on_envelope (mg_callbacks (mc_config ?c))"
    by (simp_all add: sample_mgr_client_def)
  have said: "Ev_Send (bare_envelope SENSOR_MGR_IPC_ACTION_CONNECT) SAVVY_OK
      \<in> set [Ev_Send (bare_envelope SENSOR_MGR_IPC_ACTION_CONNECT) SAVVY_OK]" by simp
  have mock: "my_poll sample_mock_cycle = Mp_Ready" "0 \<le> my_accept sample_mock_cycle"
    "mt_recv (my_handshake sample_mock_cycle 0) = Mr_Message (bare_envelope SENSOR_MGR_IPC_ACTION_CONNECT)"
    "\<And>msg. my_send sample_mock_cycle msg = int (length msg)"
    by (simp_all add: sample_mock_cycle_def sample_turn_def)
  from mock_mgr_end_to_end [OF client shake said mock(1,2) sample_cycle_quiet(1) mock(3,4) sample_cycle_quiet(2),
      of "CHR 0x00" "''x''" "CHR 0x00" "[]", unfolded if_P [OF refl] append_Cons append_Nil]
  show ?thesis by blast
qed

theorem mock_mgr_exit_is_verdict_witness:
  "(\<exists>evs. mock_mgr_main [''/tmp/m'', ''2'', ''100''] \<lparr>mo_socket = 3, mo_bind_ok = True, mo_listen_ok = True,
      mo_cycle = (\<lambda>_. sample_mock_cycle)\<rparr> = Some (0, evs))
   \<and> \<not> (\<exists>evs. mock_mgr_main [''/tmp/m'', ''2'', ''100''] \<lparr>mo_socket = 3, mo_bind_ok = True, mo_listen_ok = True,
      mo_cycle = (\<lambda>i. if i = 1 then sample_mock_cycle\<lparr>my_accept := -1\<rparr> else sample_mock_cycle)\<rparr> = Some (0, evs))"
proof -
  have n: "c_atoi ''2'' = 2" "c_atoi ''100'' = 100"
    by (simp_all add: c_atoi_def c_digits_def is_c_space_def is_digit_def digit_val_def)
  have "heard_connect (my_handshake sample_mock_cycle) (now_ms (my_handshake_at sample_mock_cycle) + 2000) 0"
    using sample_cycle_quiet(1) connect_message_accepted
    by (subst heard_connect_step) (simp add: sample_mock_cycle_def sample_turn_def bare_envelope_def)
  then have pass: "cycle_passes sample_mock_cycle 100"
    using sample_cycle_quiet(2) by (simp add: cycle_passes_def sample_mock_cycle_def)
  have fail: "\<not> cycle_passes (sample_mock_cycle\<lparr>my_accept := -1\<rparr>) 100" by (simp add: cycle_passes_def)
  have path: "length ''/tmp/m'' < SUN_PATH_SIZE" by (simp add: SUN_PATH_SIZE_def)
  have "\<not> my_stop sample_mock_cycle" by (simp add: sample_mock_cycle_def)
  then show ?thesis
    using pass fail path by (subst (1 2) mock_mgr_exit_is_verdict) (auto simp: n All_less_Suc2 numeral_2_eq_2)
qed

end
