(* ===== verification/Spec2Isabelle.thy ===== *)
theory Spec2Isabelle
  imports Core_Base Bounded_Queue Snapshot Packet_Codec Stream_Parser CJSON Utf8 Json_Codec Field_Table Config_Codec Device_Codec
    Data_Result Ipc_Codec Result_Policy Wav_Encoder Bzip_Codec Config_Store Device_Store Sensor_Core Ipc_Transport Stream_Session
    Mgr_Ipc_Safety Cancel_Portable Mock_Exchange Mock_Mgr
begin

text \<open>
  \<^bold>\<open>Verification of the SAVVY sensor daemon (Linux port)\<close>

  The program reads configuration and device records, talks to the manager process over a local
  socket (JSON messages with a catalog of actions) and streams sensor frames and voice to a
  server over TCP (length-prefixed binary packets with a CRC-32), where response bodies drive an
  alert. Its parts, bottom up, with the theories that model them; paths are relative to the
  repository, and definitions keep the names of the C functions and types.

  \<^bold>\<open>Core\<close> (\<^verbatim>\<open>src/core\<close>, \<^verbatim>\<open>include/savvy/core\<close>)

  \<^item> \<open>Prelude\<close>: machine types, limits, \<^verbatim>\<open>memcpy\<close> on byte lists, ring reads.
  \<^item> \<open>Core_Base\<close>: \<^verbatim>\<open>error.c\<close>, \<^verbatim>\<open>clock.c\<close>, \<^verbatim>\<open>lifecycle.c\<close>. Deadlines are exact and never wrap; start and
    stop alternate.
  \<^item> \<open>Bounded_Queue\<close>: \<^verbatim>\<open>queue.c\<close>. The ring buffer refines a bounded first-in first-out queue (locale
    \<open>fifo\<close>, interpreted as \<open>ringq\<close>); producers, consumers and signals are a step relation, in which
    no wake-up is lost.
  \<^item> \<open>Snapshot\<close>: \<^verbatim>\<open>snapshot.c\<close>. Reference-counted publication over an explicit heap, with threads as
    steps: no use after free, payloads immutable, each freed exactly once.

  \<^bold>\<open>Protocol\<close> (\<^verbatim>\<open>src/protocol\<close>, \<^verbatim>\<open>include/savvy/protocol\<close>)

  \<^item> \<open>Packet_Codec\<close>, \<open>Stream_Parser\<close>: \<^verbatim>\<open>packet_codec.c\<close>, \<^verbatim>\<open>stream_parser.c\<close>. Table-driven CRC-32 equals
    the bitwise one and detects every one-byte change; encode and decode are inverse; the
    parser (locale \<open>byte_stream\<close>, interpreted as \<open>sps\<close>) delivers exactly the packets sent
    however the transport cuts the stream, given room for a packet and a piece; room for
    one packet is not enough.
  \<^item> \<open>CJSON_Number\<close>, \<open>CJSON_String\<close>, \<open>CJSON\<close>: the part of the vendored cJSON the codecs run, with
    numbers as rounded to doubles and the printer's buffer limit of \<^verbatim>\<open>INT_MAX\<close> bytes; printing and
    parsing are inverse within the nesting limit, and strings never leave their allocation.
  \<^item> \<open>Utf8\<close>, \<open>Json_Codec\<close>, \<open>Field_Table\<close>, \<open>Config_Codec\<close>, \<open>Device_Codec\<close>, \<open>Data_Result\<close>: \<^verbatim>\<open>src/protocol/json\<close>.
    The validator decides UTF-8; the strict parser accepts exactly trees without duplicate keys;
    a field table (locale \<open>field_table\<close>, interpreted for both records) builds and parses back
    every record and never leaves a member outside its C type.
  \<^item> \<open>Ipc_Codec\<close>: \<^verbatim>\<open>src/protocol/ipc\<close>. The catalog, payload validation and the message envelope.

  \<^bold>\<open>Platform\<close> (\<^verbatim>\<open>src/platform\<close>)

  \<^item> \<open>Ipc_Transport\<close>: \<^verbatim>\<open>linux/ipc\<close>. Polling ends by the deadline; descriptors are released once.
  \<^item> \<open>Tcp_Channel\<close>, \<open>Tcp_System\<close>: \<^verbatim>\<open>linux/tcp_8141/tcp_channel.c\<close>, on the queue and the stream parser.
    What one request does (its response is the next packet of the connection, failures end the
    connection, sockets are accounted for), that \<^verbatim>\<open>stop\<close> returns and is final; then callers and
    workers as a step relation: every accepted request is settled exactly once, in order, as long
    as no \<^verbatim>\<open>start\<close> overtakes a \<^verbatim>\<open>stop\<close> that still joins, and what happens when one does.

  \<^bold>\<open>Features\<close> (\<^verbatim>\<open>src/features\<close>)

  \<^item> \<open>Result_Policy\<close>, \<open>Wav_Encoder\<close>, \<open>Bzip_Codec\<close>: \<^verbatim>\<open>result_policy\<close>, \<^verbatim>\<open>wav\<close>, \<^verbatim>\<open>compression\<close>.
  \<^item> \<open>Stream_Session\<close>: \<^verbatim>\<open>stream/session.c\<close>, which composes the four: every allowed payload is queued
    as one decodable packet, and only a checked response packet or an echoed announcement moves the
    alert policy.
  \<^item> \<open>Store_Base\<close>, \<open>Config_Store\<close>, \<open>Device_Store\<close>: \<^verbatim>\<open>config\<close>, on the snapshots and the codecs. A message
    is applied whole or not at all, and every live snapshot equals the parse of its own text.
  \<^item> \<open>Sensor_Core\<close>: \<^verbatim>\<open>health\<close>, \<^verbatim>\<open>mode_state\<close>, \<^verbatim>\<open>update_guard\<close>, \<^verbatim>\<open>state_report\<close> and the reconnect tracker of
    \<^verbatim>\<open>src/platform/interfaces\<close>.
  \<^item> \<open>Mgr_Ipc_Client\<close>: \<^verbatim>\<open>mgr_ipc/mgr_ipc_client.c\<close> and \<^verbatim>\<open>real_connector.c\<close>, the connection: what is sent and
    delivered, and the protocol the worker keeps (a monitor over its events), proved in the
    locale \<open>ipc_connector\<close> and interpreted on the real connector as \<open>real\<close>.
  \<^item> \<open>Mgr_Ipc_System\<close>, \<open>Mgr_Ipc_Safety\<close>: the same file, the lifecycle: any number of threads, callbacks
    and workers run \<^verbatim>\<open>start\<close>, \<^verbatim>\<open>send\<close>, \<^verbatim>\<open>stop\<close> and \<^verbatim>\<open>destroy\<close> on clients in a heap with reused addresses, one
    section at a time. An invariant per client (pins counted, one joiner, one destroyer) shows
    that no freed client, closed transport or destroyed cancel source is ever used, and what a
    freed client leaves behind; two runs show a stop overtaken by a restart, which then blocks in
    every continuation without another stop, and a destroy lost to a reused thread identifier.
  \<^item> \<open>Cancel_Portable\<close>: \<^verbatim>\<open>mgr_ipc/cancel_source_portable.c\<close>. The contract of \<^verbatim>\<open>ipc_cancel.h\<close> (locale
    \<open>cancel_source\<close>), interpreted on the Linux source as \<open>lcs\<close> and on the portable one as \<open>pcs\<close>; the two
    agree call by call.

  \<^bold>\<open>Tools\<close> (\<^verbatim>\<open>tools\<close>), the peers the integration tests run the daemon against

  \<^item> \<open>Tool_Base\<close>: the numeric arguments of both tools.
  \<^item> \<open>Mock_Streaming_Server\<close>: \<^verbatim>\<open>mock_streaming_server.c\<close>, with every fixture. Loops that read a packet
    share the locale \<open>reading_loop\<close>, interpreted on the server's loops (\<open>rl\<close>, \<open>cl\<close>) and on the client's
    (\<open>cr\<close>, in \<open>Mock_Exchange\<close>); all fixtures but \<^verbatim>\<open>coalesced\<close> return, whatever the peer
    sends, unless a system call blocks, with the exit code of the usage.
  \<^item> \<open>Mock_Exchange\<close>: the request channel and the session against that server, end to end: which
    fixture makes a request complete with which result, which fault is reported how, and that a late answer is a time-out.
  \<^item> \<open>Mock_Mgr\<close>: \<^verbatim>\<open>mock_mgr.c\<close>. Its exit code is a verdict on the client's behaviour, stated on the JSON level,
    and it passes the manager client of \<open>Mgr_Ipc_Client\<close>, whose application gets each of its two messages if the byte behind
    it in the client's buffer is NUL.

  \<^bold>\<open>Conventions.\<close> A critical section is one function on a record. \<^verbatim>\<open>size_t\<close> is \<open>nat\<close> with the wrap
  written out, fixed-width integers are words, a pointer that is checked for \<^verbatim>\<open>NULL\<close> is an
  \<open>option\<close> or a flag, and the success of \<^verbatim>\<open>malloc\<close> and \<^verbatim>\<open>pthread\<close> calls is an argument. A status
  and a value are a pair or a sum. Operating system and third-party libraries are parameters:
  the answers of the calls of one turn of a loop, or a step function with its documented
  contract, memory errors included, as a hypothesis (libbz2). \<open>None\<close> is a call that does not return (it blocks, loops or
  reads freed memory); theorems that a call returns are stated as such.

  \<^bold>\<open>Bounds and fuel.\<close> Loops without a bound in the code are \<^theory_text>\<open>partial_function (option)\<close>; the
  compression loops recurse on \<^verbatim>\<open>SENSOR_BZIP_MAX_LOOP_ITERATIONS\<close>, the code's own limit; the cJSON
  parser recurses on its nesting limit and on the remaining input. No other fuel is used.

  \<^bold>\<open>Not modelled.\<close> The serial provider interface (function-pointer types only), the tests and their hooks,
  and the parts of cJSON the program never calls. The mock servers' messages on \<^verbatim>\<open>stdout\<close> and \<^verbatim>\<open>stderr\<close>
  are left out, except the port that is announced.
  Memory exhaustion inside cJSON, logging text and the addresses handed to the socket calls are
  left out.
\<close>

end
